(* ===== verification/Prelude.thy ===== *)
theory Prelude
  imports Main "HOL-Library.Char_ord" "HOL-Library.List_Lexorder"
begin

text \<open>
  The shared vocabulary of the development.

  \<^item> SQL tables are lists of rows. \<open>upd_where\<close> is an \<^verbatim>\<open>UPDATE ... WHERE\<close>, \<open>find\<close> is
    \<^verbatim>\<open>rows[0]\<close> of a \<^verbatim>\<open>SELECT ... WHERE\<close>, appending is \<^verbatim>\<open>INSERT\<close>.
  \<^item> Instants are integers, milliseconds since the epoch (\<^verbatim>\<open>Date.getTime()\<close>).
  \<^item> Money is an integer number of satang.
  \<^item> Everything the code throws is a value of \<open>error\<close>. A transaction returns
    \<open>Inl e\<close> when it throws: the database rolls it back, so no new state is returned.
\<close>

named_theorems row_simps \<open>characteristic equations of the row operations\<close>
named_theorems money_intros \<open>operations that keep the ledger invariant\<close>

type_synonym ms = int
type_synonym satang = int
type_synonym uuid = string
type_synonym ip4 = string
type_synonym cidr = string

section \<open>Errors\<close>

text \<open>
  The error constructors of \<^verbatim>\<open>packages/provisioning/src/errors.ts\<close>, the plain
  \<^verbatim>\<open>Error\<close>, the NestJS HTTP exceptions, and the constraint violations PostgreSQL raises.
  Messages keep the source text where it is ASCII; a Thai message is named by a short tag.
\<close>

datatype error =
    InsufficientCredit (err_need: satang) (err_have: satang)
  | NoGatewayAvailable
  | NoIpAvailable
  | NotFound string
  | ValidationError string
  | JsError string
  | UniqueViolation string
  | CheckViolation string
  | BadRequestException string
  | ForbiddenException string
  | UnauthorizedException

definition error_code :: "error \<Rightarrow> string option" where
  "error_code e = (case e of
       InsufficientCredit _ _ \<Rightarrow> Some ''INSUFFICIENT_CREDIT''
     | NoGatewayAvailable \<Rightarrow> Some ''NO_GATEWAY_AVAILABLE''
     | NoIpAvailable \<Rightarrow> Some ''NO_IP_AVAILABLE''
     | NotFound _ \<Rightarrow> Some ''NOT_FOUND''
     | ValidationError _ \<Rightarrow> Some ''VALIDATION_ERROR''
     | _ \<Rightarrow> None)"

section \<open>JSON values of audit and notification metadata\<close>

text \<open>\<open>JIso t\<close> is the string \<^verbatim>\<open>new Date(t).toISOString()\<close>.\<close>

datatype json = JNull | JBool bool | JNum int | JStr string | JIso ms | JArr "json list" | JObj "(string \<times> json) list"

fun json_opt :: "string option \<Rightarrow> json" where
  "json_opt None = JNull"
| "json_opt (Some s) = JStr s"

section \<open>Rows\<close>

definition upd_where :: "('r \<Rightarrow> bool) \<Rightarrow> ('r \<Rightarrow> 'r) \<Rightarrow> 'r list \<Rightarrow> 'r list" where
  "upd_where P f rows = map (\<lambda>r. if P r then f r else r) rows"

lemma upd_where_Nil [simp]: "upd_where P f [] = []"
  by (simp add: upd_where_def)

lemma upd_where_Cons [simp]:
  "upd_where P f (r # rs) = (if P r then f r else r) # upd_where P f rs"
  by (simp add: upd_where_def)

lemma length_upd_where [simp, row_simps]: "length (upd_where P f rows) = length rows"
  by (simp add: upd_where_def)

lemma upd_where_append [simp]:
  "upd_where P f (xs @ ys) = upd_where P f xs @ upd_where P f ys"
  by (simp add: upd_where_def)

lemma in_set_upd_where:
  "r \<in> set (upd_where P f rows) \<longleftrightarrow>
     (\<exists>q \<in> set rows. r = (if P q then f q else q))"
  by (auto simp: upd_where_def)

lemma ball_upd_where [row_simps]:
  "(\<forall>r \<in> set (upd_where P f rows). Q r) \<longleftrightarrow> (\<forall>r \<in> set rows. Q (if P r then f r else r))"
  by (auto simp: upd_where_def)

lemma upd_where_none: "(\<And>r. r \<in> set rows \<Longrightarrow> \<not> P r) \<Longrightarrow> upd_where P f rows = rows"
  by (induction rows) auto

text \<open>A column the update does not write keeps its values.\<close>

lemma map_upd_where_same [row_simps]:
  "(\<And>r. g (f r) = g r) \<Longrightarrow> map g (upd_where P f rows) = map g rows"
  by (induction rows) auto

lemma find_Some_iff_first:
  "find P xs = Some x \<Longrightarrow> x \<in> set xs \<and> P x"
  by (induction xs) (auto split: if_splits)

lemmas find_SomeD = find_Some_iff_first [THEN conjunct1] find_Some_iff_first [THEN conjunct2]

lemma find_None_iff_none: "find P xs = None \<longleftrightarrow> (\<forall>x \<in> set xs. \<not> P x)"
  by (induction xs) auto

lemma upd_where_absent: "find P rows = None \<Longrightarrow> upd_where P f rows = rows"
  by (simp add: find_None_iff_none upd_where_none)

lemma upd_whereE:
  assumes "r \<in> set (upd_where P f rows)"
  obtains (Kept) "r \<in> set rows" "\<not> P r" | (Updated) q where "q \<in> set rows" "P q" "r = f q"
  using assms by (auto simp: in_set_upd_where split: if_splits)

lemma find_append_case:
  "find P (xs @ ys) = (case find P xs of None \<Rightarrow> find P ys | Some x \<Rightarrow> Some x)"
  by (induction xs) auto

lemma find_upd_where [row_simps]:
  "(\<And>r. Q r \<Longrightarrow> P (f r) = P r) \<Longrightarrow>
     find P (upd_where Q f rows) = map_option (\<lambda>r. if Q r then f r else r) (find P rows)"
  by (induction rows) auto

lemma find_upd_other [row_simps]:
  assumes "\<And>r. key (f r) = key r" "j \<noteq> k"
  shows "find (\<lambda>r. key r = k) (upd_where (\<lambda>r. key r = j) f rows) = find (\<lambda>r. key r = k) rows"
  using assms by (induction rows) auto

lemma map_option_same: "(\<And>x. m = Some x \<Longrightarrow> f x = x) \<Longrightarrow> map_option f m = m"
  by (cases m) auto

lemma find_upt_least:
  "find P [0..<n] = Some i \<Longrightarrow> j < i \<Longrightarrow> \<not> P j"
proof (induction n)
  case 0
  then show ?case by simp
next
  case (Suc n)
  show ?case
  proof (cases "find P [0..<n]")
    case None
    with Suc.prems have "i = n"
      by (auto simp: find_append_case split: if_splits)
    with None Suc.prems(2) show ?thesis
      by (auto simp: find_None_iff_none)
  next
    case (Some k)
    with Suc.prems have "find P [0..<n] = Some i"
      by (auto simp: find_append_case split: option.splits)
    with Suc.IH Suc.prems(2) show ?thesis by blast
  qed
qed

section \<open>First-fit loops\<close>

text \<open>
  The loop \<^verbatim>\<open>for (off = start; off + width <= lim; off += step) if (free(off)) return off\<close>,
  which every allocator of the program runs. With \<open>step \<le> 0\<close> it is cut after the first
  candidate; the sources only use positive steps.
\<close>

function first_off :: "(int \<Rightarrow> bool) \<Rightarrow> int \<Rightarrow> int \<Rightarrow> int \<Rightarrow> int \<Rightarrow> int option" where
  "first_off free step width lim off =
     (if off + width \<le> lim
      then if free off then Some off
           else if step \<le> 0 then None else first_off free step width lim (off + step)
      else None)"
  by pat_completeness auto
termination
  by (relation "measure (\<lambda>(free, step, width, lim, off). nat (lim - width - off + 1))") auto

declare first_off.simps [simp del]

lemma first_off_unfold:
  "0 < step \<Longrightarrow> first_off free step width lim off =
     (if off + width \<le> lim
      then if free off then Some off else first_off free step width lim (off + step) else None)"
  by (subst first_off.simps) simp

lemma step_Suc: "off + int (Suc k) * step = off + step + int k * step"
  by (simp add: algebra_simps)

lemma first_off_sound:
  "0 < step \<Longrightarrow> first_off free step width lim off = Some r \<Longrightarrow>
     free r \<and> off \<le> r \<and> r + width \<le> lim \<and> (\<exists>k. r = off + int k * step)"
proof (induction free step width lim off rule: first_off.induct)
  case (1 free step width lim off)
  show ?case
  proof (cases "off + width \<le> lim \<and> \<not> free off")
    case True
    with 1 have IH: "free r \<and> off + step \<le> r \<and> r + width \<le> lim \<and> (\<exists>k. r = off + step + int k * step)"
      by (simp add: first_off_unfold [of step free width lim off])
    then have "\<exists>k. r = off + int k * step" using step_Suc by metis
    with IH "1.prems"(1) show ?thesis by simp
  next
    case False
    with "1.prems" show ?thesis
      by (auto simp: first_off_unfold [of step free width lim off] split: if_splits intro: exI [of _ 0])
  qed
qed

lemma first_off_least:
  "0 < step \<Longrightarrow> first_off free step width lim off = Some r \<Longrightarrow> off + int k * step < r \<Longrightarrow>
     \<not> free (off + int k * step)"
proof (induction free step width lim off arbitrary: k rule: first_off.induct)
  case (1 free step width lim off)
  show ?case
  proof (cases "off + width \<le> lim \<and> \<not> free off")
    case True
    show ?thesis
    proof (cases k)
      case 0
      with True show ?thesis by simp
    next
      case (Suc i)
      from True "1.prems" have "first_off free step width lim (off + step) = Some r"
        by (simp add: first_off_unfold [of step free width lim off])
      with True "1.prems" Suc "1.IH" [of i] show ?thesis
        unfolding Suc step_Suc by simp
    qed
  next
    case False
    with "1.prems" have "r = off"
      by (simp add: first_off_unfold [of step free width lim off] split: if_splits)
    moreover have "0 \<le> int k * step" using "1.prems"(1) by simp
    ultimately show ?thesis using "1.prems"(3) by linarith
  qed
qed

lemma first_off_None:
  "0 < step \<Longrightarrow> first_off free step width lim off = None \<Longrightarrow> off + int k * step + width \<le> lim \<Longrightarrow>
     \<not> free (off + int k * step)"
proof (induction free step width lim off arbitrary: k rule: first_off.induct)
  case (1 free step width lim off)
  have "0 \<le> int k * step" using "1.prems"(1) by simp
  with "1.prems"(3) have lim: "off + width \<le> lim" by linarith
  with "1.prems" have f: "\<not> free off" "first_off free step width lim (off + step) = None"
    by (simp_all add: first_off_unfold [of step free width lim off] split: if_splits)
  show ?case
  proof (cases k)
    case 0
    with f show ?thesis by simp
  next
    case (Suc i)
    show ?thesis
      using "1.IH" [of i] "1.prems" lim f unfolding Suc step_Suc by simp
  qed
qed

lemma first_off_complete:
  "0 < step \<Longrightarrow> free (off + int k * step) \<Longrightarrow> off + int k * step + width \<le> lim \<Longrightarrow>
     \<exists>r. first_off free step width lim off = Some r"
  using first_off_None by (cases "first_off free step width lim off") blast+

end
