(* ===== verification/JsNum.thy ===== *)
theory JsNum
  imports Prelude
begin

unbundle bit_operations_syntax

text \<open>
  What the sources use of JavaScript numbers and strings: the 32-bit shift and mask
  operators (with ToInt32 and ToUint32 written out on \<open>int\<close>), \<^verbatim>\<open>split\<close>, \<^verbatim>\<open>join\<close>, decimal
  printing, and \<^verbatim>\<open>Number(s)\<close>. \<open>None\<close> is NaN, which the bit operators read as 0.
  \<^verbatim>\<open>Number\<close> is modelled on the empty string, on decimal integers with an optional sign and
  on everything that is not a numeric literal; hexadecimal, fractional and exponent literals
  are outside the model (the sources only convert parts of addresses and prefix lengths).
\<close>

section \<open>32-bit operators\<close>

definition to_uint32 :: "int \<Rightarrow> int" where
  "to_uint32 x = x mod 2 ^ 32"

definition to_int32 :: "int \<Rightarrow> int" where
  "to_int32 x = (x + 2 ^ 31) mod 2 ^ 32 - 2 ^ 31"

definition js_shl :: "int \<Rightarrow> int \<Rightarrow> int" where
  "js_shl a n = to_int32 (a * 2 ^ nat (n mod 32))"

definition js_ushr :: "int \<Rightarrow> int \<Rightarrow> int" where
  "js_ushr a n = to_uint32 a div 2 ^ nat (n mod 32)"

definition js_and :: "int \<Rightarrow> int \<Rightarrow> int" where
  "js_and a b = and (to_int32 a) (to_int32 b)"

definition js_or :: "int \<Rightarrow> int \<Rightarrow> int" where
  "js_or a b = or (to_int32 a) (to_int32 b)"

lemma to_int32_small [simp]: "- (2 ^ 31) \<le> x \<Longrightarrow> x < 2 ^ 31 \<Longrightarrow> to_int32 x = x"
  by (simp add: to_int32_def)

lemma to_uint32_small [simp]: "0 \<le> x \<Longrightarrow> x < 2 ^ 32 \<Longrightarrow> to_uint32 x = x"
  by (simp add: to_uint32_def)

lemma to_int32_mod: "to_int32 x mod 2 ^ 32 = x mod 2 ^ 32"
proof -
  have "to_int32 x mod 2 ^ 32 = ((x + 2 ^ 31) mod 2 ^ 32 - 2 ^ 31) mod 2 ^ 32"
    by (simp add: to_int32_def)
  also have "\<dots> = x mod 2 ^ 32"
    by (simp add: mod_diff_left_eq)
  finally show ?thesis .
qed

lemma to_uint32_to_int32 [simp]: "to_uint32 (to_int32 x) = to_uint32 x"
  by (simp only: to_uint32_def to_int32_mod)

lemma to_uint32_bounds: "0 \<le> to_uint32 x" "to_uint32 x < 2 ^ 32"
  by (simp_all add: to_uint32_def)

text \<open>Masking a shifted word with 255 is reading one octet.\<close>

lemma and_255: "and (x::int) 255 = x mod 256"
  using take_bit_eq_mask [of 8 x] by (simp add: take_bit_eq_mod mask_eq_exp_minus_1)

lemma js_and_255: "js_and x 255 = x mod 256"
proof -
  have "to_int32 x mod 256 = (to_int32 x mod 2 ^ 32) mod 256"
    by (simp add: mod_mod_cancel)
  also have "\<dots> = x mod 256"
    by (simp only: to_int32_mod) (simp add: mod_mod_cancel)
  finally show ?thesis by (simp add: js_and_def and_255)
qed

section \<open>Strings\<close>

fun split_on :: "char \<Rightarrow> string \<Rightarrow> string list" where
  "split_on c [] = [[]]"
| "split_on c (x # xs) =
     (if x = c then [] # split_on c xs
      else (case split_on c xs of [] \<Rightarrow> [[x]] | y # ys \<Rightarrow> (x # y) # ys))"

fun join :: "string \<Rightarrow> string list \<Rightarrow> string" where
  "join sep [] = []"
| "join sep [x] = x"
| "join sep (x # y # zs) = x @ sep @ join sep (y # zs)"

lemma split_on_not_Nil [simp]: "split_on c xs \<noteq> []"
  by (induction xs) (auto split: list.splits)

lemma split_on_no_sep: "c \<notin> set xs \<Longrightarrow> split_on c xs = [xs]"
  by (induction xs) auto

lemma split_on_sep: "c \<notin> set xs \<Longrightarrow> split_on c (xs @ c # ys) = xs # split_on c ys"
  by (induction xs) auto

lemma split_on_join:
  "xs \<noteq> [] \<Longrightarrow> (\<And>x. x \<in> set xs \<Longrightarrow> c \<notin> set x) \<Longrightarrow> split_on c (join [c] xs) = xs"
proof (induction xs rule: induct_list012)
  case (3 x y zs)
  then show ?case by (simp add: split_on_sep)
qed (auto simp: split_on_no_sep)

definition digit_char :: "nat \<Rightarrow> char" where
  "digit_char n = ''0123456789'' ! (n mod 10)"

definition digit_val :: "char \<Rightarrow> int option" where
  "digit_val c = (if 48 \<le> (of_char c :: nat) \<and> (of_char c :: nat) \<le> 57
                  then Some (of_char c - 48) else None)"

fun show_nat :: "nat \<Rightarrow> string" where
  "show_nat n = (if n < 10 then [digit_char n] else show_nat (n div 10) @ [digit_char (n mod 10)])"

declare show_nat.simps [simp del]

definition show_int :: "int \<Rightarrow> string" where
  "show_int i = (if i < 0 then CHR ''-'' # show_nat (nat (- i)) else show_nat (nat i))"

fun parse_digits :: "int \<Rightarrow> string \<Rightarrow> int option" where
  "parse_digits acc [] = Some acc"
| "parse_digits acc (c # cs) =
     (case digit_val c of None \<Rightarrow> None | Some d \<Rightarrow> parse_digits (10 * acc + d) cs)"

definition is_space :: "char \<Rightarrow> bool" where
  "is_space c \<longleftrightarrow> c \<in> set [CHR '' '', CHR 0x09, CHR 0x0A, CHR 0x0B, CHR 0x0C, CHR 0x0D]"

definition js_trim :: "string \<Rightarrow> string" where
  "js_trim s = rev (dropWhile is_space (rev (dropWhile is_space s)))"

definition js_Number :: "string \<Rightarrow> int option" where
  "js_Number s = (case js_trim s of
       [] \<Rightarrow> Some 0
     | c # cs \<Rightarrow>
         if c = CHR ''-'' \<and> cs \<noteq> [] then map_option uminus (parse_digits 0 cs)
         else if c = CHR ''+'' \<and> cs \<noteq> [] then parse_digits 0 cs
         else parse_digits 0 (c # cs))"

definition nan0 :: "int option \<Rightarrow> int" where
  "nan0 x = (case x of None \<Rightarrow> 0 | Some v \<Rightarrow> v)"

lemma less_10_cases:
  "(n::nat) < 10 \<Longrightarrow> n = 0 \<or> n = 1 \<or> n = 2 \<or> n = 3 \<or> n = 4 \<or> n = 5 \<or> n = 6 \<or> n = 7 \<or> n = 8 \<or> n = 9"
  by arith

lemma digit_val_char [simp]: "n < 10 \<Longrightarrow> digit_val (digit_char n) = Some (int n)"
  by (drule less_10_cases) (auto simp: digit_val_def digit_char_def)

lemma digit_char_plain:
  "digit_char n \<noteq> CHR ''.''" "digit_char n \<noteq> CHR ''/''" "digit_char n \<noteq> CHR ''-''"
  "digit_char n \<noteq> CHR ''+''" "\<not> is_space (digit_char n)"
proof -
  have "n mod 10 < 10" by simp
  note less_10_cases [OF this]
  then show "digit_char n \<noteq> CHR ''.''" "digit_char n \<noteq> CHR ''/''" "digit_char n \<noteq> CHR ''-''"
    "digit_char n \<noteq> CHR ''+''" "\<not> is_space (digit_char n)"
    by (auto simp: digit_char_def is_space_def)
qed

lemma show_nat_not_Nil [simp]: "show_nat n \<noteq> []"
  by (subst show_nat.simps) simp

lemma show_nat_digits: "c \<in> set (show_nat n) \<Longrightarrow> \<exists>k. c = digit_char k"
proof (induction n rule: show_nat.induct)
  case (1 n)
  then show ?case by (subst (asm) show_nat.simps) (auto split: if_splits)
qed

lemma show_nat_no_dot: "CHR ''.'' \<notin> set (show_nat n)"
  using digit_char_plain(1) by (fastforce dest: show_nat_digits)

lemma show_nat_no_slash: "CHR ''/'' \<notin> set (show_nat n)"
  using digit_char_plain(2) by (fastforce dest: show_nat_digits)

lemma parse_digits_append:
  "parse_digits acc (xs @ ys) =
     (case parse_digits acc xs of None \<Rightarrow> None | Some a \<Rightarrow> parse_digits a ys)"
  by (induction xs arbitrary: acc) (auto split: option.splits)

lemma parse_show_nat: "parse_digits 0 (show_nat n) = Some (int n)"
proof (induction n rule: show_nat.induct)
  case (1 n)
  show ?case
  proof (cases "n < 10")
    case True
    then show ?thesis by (subst show_nat.simps) simp
  next
    case False
    with 1 have "parse_digits 0 (show_nat (n div 10)) = Some (int (n div 10))" by simp
    with False show ?thesis
      by (subst show_nat.simps) (simp add: parse_digits_append zdiv_int zmod_int)
  qed
qed

lemma js_trim_id: "(\<And>c. c \<in> set s \<Longrightarrow> \<not> is_space c) \<Longrightarrow> js_trim s = s"
proof -
  assume a: "\<And>c. c \<in> set s \<Longrightarrow> \<not> is_space c"
  then have "dropWhile is_space s = s" "dropWhile is_space (rev s) = rev s"
    by (metis dropWhile_eq_self_iff hd_in_set) (metis a dropWhile_eq_self_iff hd_in_set set_rev)
  then show ?thesis by (simp add: js_trim_def)
qed

lemma js_Number_show_nat [simp]: "js_Number (show_nat n) = Some (int n)"
proof -
  have t: "js_trim (show_nat n) = show_nat n"
    by (rule js_trim_id) (auto dest: show_nat_digits simp: digit_char_plain)
  obtain c cs where c: "show_nat n = c # cs" by (cases "show_nat n") auto
  have "c \<noteq> CHR ''-''" "c \<noteq> CHR ''+''"
    using show_nat_digits [of c n] c digit_char_plain by auto
  then show ?thesis
    using t c parse_show_nat [of n] by (simp add: js_Number_def)
qed

lemma show_nat_inject: "show_nat m = show_nat n \<longleftrightarrow> m = n"
  by (metis js_Number_show_nat of_nat_eq_iff option.inject)

text \<open>An evaluator for decimal printing that stays on binary integers.\<close>

function show_digits :: "int \<Rightarrow> string" where
  "show_digits i = (if i < 10 then [digit_char (nat i)] else show_digits (i div 10) @ [digit_char (nat (i mod 10))])"
  by pat_completeness auto
termination
  by (relation "measure nat") auto

declare show_digits.simps [simp del]

lemma show_digits_nat: "0 \<le> i \<Longrightarrow> show_digits i = show_nat (nat i)"
proof (induction i rule: show_digits.induct)
  case (1 i)
  then show ?case
    by (subst show_digits.simps, subst show_nat.simps) (auto simp: nat_div_distrib nat_mod_distrib)
qed

lemma show_int_code [code]:
  "show_int i = (if i < 0 then CHR ''-'' # show_digits (- i) else show_digits i)"
  by (simp add: show_int_def show_digits_nat)

section \<open>Dotted quads\<close>

text \<open>\<^verbatim>\<open>ip4ToInt\<close> and \<^verbatim>\<open>intToIp4\<close> of \<^verbatim>\<open>sale-plans.ts\<close>.\<close>

definition ip4ToInt :: "ip4 \<Rightarrow> int" where
  "ip4ToInt ip = to_uint32 (nan0 (foldl
     (\<lambda>n x. case js_Number x of None \<Rightarrow> None | Some v \<Rightarrow> Some (js_shl (nan0 n) 8 + v))
     (Some 0) (split_on CHR ''.'' ip)))"

definition intToIp4 :: "int \<Rightarrow> ip4" where
  "intToIp4 n = join ''.'' (map show_int
     [js_and (js_ushr n 24) 255, js_and (js_ushr n 16) 255, js_and (js_ushr n 8) 255, js_and n 255])"

text \<open>The text of an address as the database prints it: four octets, no leading zeros.\<close>

definition quad :: "nat \<Rightarrow> nat \<Rightarrow> nat \<Rightarrow> nat \<Rightarrow> ip4" where
  "quad a b c d = join ''.'' [show_nat a, show_nat b, show_nat c, show_nat d]"

lemma split_quad: "split_on CHR ''.'' (quad a b c d) = [show_nat a, show_nat b, show_nat c, show_nat d]"
  unfolding quad_def by (rule split_on_join) (auto simp: show_nat_no_dot)

lemma quad_inject:
  "quad a b c d = quad a' b' c' d' \<longleftrightarrow> a = a' \<and> b = b' \<and> c = c' \<and> d = d'"
  by (metis list.inject show_nat_inject split_quad)

lemma js_shl_8_mod: "(js_shl n 8 + v) mod 2 ^ 32 = (256 * n + v) mod 2 ^ 32"
proof -
  have "js_shl n 8 mod 2 ^ 32 = (256 * n) mod 2 ^ 32"
    by (simp only: js_shl_def to_int32_mod) (simp add: mult.commute)
  then show ?thesis by (metis mod_add_left_eq)
qed

lemma js_shl_8_cong: "m mod 2 ^ 32 = n mod 2 ^ 32 \<Longrightarrow>
    (js_shl m 8 + v) mod 2 ^ 32 = (256 * n + v) mod 2 ^ 32"
  unfolding js_shl_8_mod by (metis mod_add_left_eq mod_mult_right_eq)

lemma ip4ToInt_quad:
  assumes "a < 256" "b < 256" "c < 256" "d < 256"
  shows "ip4ToInt (quad a b c d) =
    int a * 16777216 + int b * 65536 + int c * 256 + int d"
proof -
  let ?s1 = "js_shl 0 8 + int a"
  let ?s2 = "js_shl ?s1 8 + int b"
  let ?s3 = "js_shl ?s2 8 + int c"
  let ?s4 = "js_shl ?s3 8 + int d"
  have "?s1 mod 2 ^ 32 = int a mod 2 ^ 32" by (simp only: js_shl_8_mod) simp
  then have "?s2 mod 2 ^ 32 = (256 * int a + int b) mod 2 ^ 32" by (rule js_shl_8_cong)
  then have "?s3 mod 2 ^ 32 = (256 * (256 * int a + int b) + int c) mod 2 ^ 32" by (rule js_shl_8_cong)
  then have "?s4 mod 2 ^ 32 = (256 * (256 * (256 * int a + int b) + int c) + int d) mod 2 ^ 32"
    by (rule js_shl_8_cong)
  also have "\<dots> = int a * 16777216 + int b * 65536 + int c * 256 + int d"
    using assms by (simp add: algebra_simps)
  finally have "to_uint32 ?s4 = int a * 16777216 + int b * 65536 + int c * 256 + int d"
    by (simp add: to_uint32_def)
  then show ?thesis
    by (simp add: ip4ToInt_def split_quad nan0_def)
qed

lemma js_ushr_octets:
  assumes "0 \<le> n" "n < 2 ^ 32"
  shows "js_ushr n 24 = n div 16777216" "js_ushr n 16 = n div 65536" "js_ushr n 8 = n div 256"
  using to_uint32_small [OF assms] by (simp_all add: js_ushr_def)

lemma show_int_nonneg: "0 \<le> i \<Longrightarrow> show_int i = show_nat (nat i)"
  by (simp add: show_int_def)

lemma octet_bounds:
  fixes n :: int
  assumes "0 \<le> n" "n < 2 ^ 32"
  shows "0 \<le> n div 16777216" "n div 16777216 < 256"
proof -
  show "0 \<le> n div 16777216" using assms(1) by (simp add: pos_imp_zdiv_nonneg_iff)
  have "n div 16777216 \<le> 4294967295 div 16777216"
    by (rule zdiv_mono1) (use assms(2) in simp_all)
  then show "n div 16777216 < 256" by simp
qed

lemma intToIp4_quad:
  assumes "0 \<le> n" "n < 2 ^ 32"
  shows "intToIp4 n = quad (nat (n div 16777216)) (nat (n div 65536 mod 256))
    (nat (n div 256 mod 256)) (nat (n mod 256))"
proof -
  have "n div 16777216 mod 256 = n div 16777216"
    by (rule mod_pos_pos_trivial) (rule octet_bounds [OF assms])+
  moreover have "show_int (x mod 256) = show_nat (nat (x mod 256))" for x :: int
    by (rule show_int_nonneg) simp
  moreover have "show_int (n div 16777216) = show_nat (nat (n div 16777216))"
    by (rule show_int_nonneg) (rule octet_bounds [OF assms])
  ultimately show ?thesis
    unfolding intToIp4_def quad_def js_and_255 js_ushr_octets [OF assms] by simp
qed

lemma quad_of_int:
  fixes n :: int
  assumes "0 \<le> n" "n < 2 ^ 32"
  shows "n div 16777216 * 16777216 + n div 65536 mod 256 * 65536 + n div 256 mod 256 * 256
    + n mod 256 = n"
proof -
  have 1: "n div 256 * 256 + n mod 256 = n" by simp
  have 2: "n div 256 = n div 65536 * 256 + n div 256 mod 256"
    using div_mult_mod_eq [of "n div 256" 256] by (simp add: zdiv_zmult2_eq [symmetric])
  have 3: "n div 65536 = n div 16777216 * 256 + n div 65536 mod 256"
    using div_mult_mod_eq [of "n div 65536" 256] by (simp add: zdiv_zmult2_eq [symmetric])
  from 1 2 3 show ?thesis by linarith
qed

lemma nat_mod_256: "nat (x mod 256) < 256" "int (nat (x mod 256)) = x mod 256" for x :: int
  by (simp_all add: nat_less_iff)

lemma ip4ToInt_intToIp4:
  assumes "0 \<le> n" "n < 2 ^ 32"
  shows "ip4ToInt (intToIp4 n) = n"
proof -
  note b = octet_bounds [OF assms]
  have a: "nat (n div 16777216) < 256" "int (nat (n div 16777216)) = n div 16777216"
    using b by (simp_all add: nat_less_iff)
  have "ip4ToInt (intToIp4 n) = int (nat (n div 16777216)) * 16777216
      + int (nat (n div 65536 mod 256)) * 65536 + int (nat (n div 256 mod 256)) * 256
      + int (nat (n mod 256))"
    unfolding intToIp4_quad [OF assms] by (rule ip4ToInt_quad [OF a(1) nat_mod_256(1) nat_mod_256(1) nat_mod_256(1)])
  also have "\<dots> = n"
    unfolding a(2) nat_mod_256(2) by (rule quad_of_int [OF assms])
  finally show ?thesis .
qed

lemma intToIp4_inject:
  "0 \<le> m \<Longrightarrow> m < 2 ^ 32 \<Longrightarrow> 0 \<le> n \<Longrightarrow> n < 2 ^ 32 \<Longrightarrow> intToIp4 m = intToIp4 n \<longleftrightarrow> m = n"
  by (metis ip4ToInt_intToIp4)

lemma div_mod_256: "d < 256 \<Longrightarrow> (x * 256 + int d) div 256 = x \<and> (x * 256 + int d) mod 256 = int d"
  by auto

lemma quad_octets:
  assumes "a < 256" "b < 256" "c < 256" "d < 256"
  defines "n \<equiv> int a * 16777216 + int b * 65536 + int c * 256 + int d"
  shows "n div 16777216 = int a" "n div 65536 mod 256 = int b" "n div 256 mod 256 = int c"
    "n mod 256 = int d"
proof -
  have n: "n = ((int a * 256 + int b) * 256 + int c) * 256 + int d" by (simp add: n_def)
  have 1: "n div 256 = (int a * 256 + int b) * 256 + int c" "n mod 256 = int d"
    unfolding n using div_mod_256 [OF assms(4)] by blast+
  have 2: "n div 256 div 256 = int a * 256 + int b" "n div 256 mod 256 = int c"
    unfolding 1 using div_mod_256 [OF assms(3)] by blast+
  have 3: "n div 256 div 256 div 256 = int a" "n div 256 div 256 mod 256 = int b"
    unfolding 2 using div_mod_256 [OF assms(2)] by blast+
  have 4: "n div 65536 = n div 256 div 256" "n div 16777216 = n div 256 div 256 div 256"
    using zdiv_zmult2_eq [of 256 n 256] zdiv_zmult2_eq [of 256 n 65536] zdiv_zmult2_eq [of 256 "n div 256" 256]
    by simp_all
  show "n div 16777216 = int a" "n div 65536 mod 256 = int b" "n div 256 mod 256 = int c"
    "n mod 256 = int d"
    unfolding 4 by (fact 3 2 1)+
qed

lemma intToIp4_ip4ToInt_quad:
  assumes "a < 256" "b < 256" "c < 256" "d < 256"
  shows "intToIp4 (ip4ToInt (quad a b c d)) = quad a b c d"
proof -
  let ?n = "int a * 16777216 + int b * 65536 + int c * 256 + int d"
  have n: "0 \<le> ?n" "?n < 2 ^ 32" using assms by simp_all
  show ?thesis
    unfolding ip4ToInt_quad [OF assms] intToIp4_quad [OF n] quad_octets [OF assms] by simp
qed

lemma ip4ToInt_bounds: "0 \<le> ip4ToInt ip" "ip4ToInt ip < 2 ^ 32"
  unfolding ip4ToInt_def by (rule to_uint32_bounds)+

definition is_ip4 :: "ip4 \<Rightarrow> bool" where
  "is_ip4 ip \<longleftrightarrow> intToIp4 (ip4ToInt ip) = ip"

lemma is_ip4_intToIp4 [simp]: "0 \<le> n \<Longrightarrow> n < 2 ^ 32 \<Longrightarrow> is_ip4 (intToIp4 n)"
  by (simp add: is_ip4_def ip4ToInt_intToIp4)

end
