(* ===== verification/IsoDate.thy ===== *)
theory IsoDate
  imports JsNum
begin

text \<open>
  The calendar date of an instant, as \<^verbatim>\<open>toISOString().slice(0, 10)\<close> computes it. The
  definitions follow the time-value arithmetic of ECMA-262 (\<open>DayFromYear\<close>, \<open>YearFromTime\<close>,
  \<open>MonthFromTime\<close>, \<open>DateFromTime\<close>). The main result is that two instants of the years 1970
  to 9999 print the same date exactly when they lie in the same UTC day.
\<close>

abbreviation DAY_MS :: int where
  "DAY_MS \<equiv> 86400000"

definition day_from_year :: "int \<Rightarrow> int" where
  "day_from_year y = 365 * (y - 1970) + (y - 1969) div 4 - (y - 1901) div 100 + (y - 1601) div 400"

definition is_leap :: "int \<Rightarrow> bool" where
  "is_leap y \<longleftrightarrow> y mod 4 = 0 \<and> (y mod 100 \<noteq> 0 \<or> y mod 400 = 0)"

lemma div_step:
  fixes x n :: int
  assumes "0 < n"
  shows "(x + 1) div n - x div n = (if n dvd x + 1 then 1 else 0)"
proof (cases "x mod n + 1 = n")
  case True
  have x: "x + 1 = n * (x div n + 1)"
    using True mult_div_mod_eq [of n x] distrib_left [of n "x div n" 1] by linarith
  have "(x + 1) div n = x div n + 1"
    using assms by (subst x) simp
  moreover have "n dvd x + 1" by (subst x) simp
  ultimately show ?thesis by simp
next
  case False
  have r: "0 \<le> x mod n + 1" "x mod n + 1 < n"
    using False pos_mod_sign [OF assms, of x] pos_mod_bound [OF assms, of x] by linarith+
  have x: "x + 1 = (x mod n + 1) + n * (x div n)"
    using mult_div_mod_eq [of n x] by linarith
  have "((x mod n + 1) + n * (x div n)) div n = x div n" "((x mod n + 1) + n * (x div n)) mod n = x mod n + 1"
    using assms r by (simp_all only: div_mult_self2 mod_mult_self2 div_pos_pos_trivial mod_pos_pos_trivial
        add_0_right less_imp_neq [symmetric] not_False_eq_True)
  then have d: "(x + 1) div n = x div n" and m: "(x + 1) mod n = x mod n + 1"
    by (simp_all only: x [symmetric])
  from m have "\<not> n dvd x + 1"
    using pos_mod_sign [OF assms, of x] by (simp add: dvd_eq_mod_eq_0)
  with d show ?thesis by simp
qed

lemma dvd_shift: "(n::int) dvd c \<Longrightarrow> n dvd y - c \<longleftrightarrow> y mod n = 0"
  by (simp add: dvd_diff_left_iff mod_eq_0_iff_dvd)

lemma leap_cases:
  "(p400 \<longrightarrow> p100) \<Longrightarrow> (p100 \<longrightarrow> p4) \<Longrightarrow>
    365 + (if p4 then 1 else 0) - (if p100 then 1 else 0) + (if p400 then 1 else 0) =
    (if p4 \<and> (\<not> p100 \<or> p400) then 366 else (365::int))"
  by (cases p4; cases p100; cases p400; simp)

lemma day_from_year_Suc:
  "day_from_year (y + 1) - day_from_year y = (if is_leap y then 366 else 365)"
proof -
  have 4: "(y - 1968) div 4 - (y - 1969) div 4 = (if y mod 4 = 0 then 1 else 0)"
    using div_step [of 4 "y - 1969"] by (simp add: dvd_shift)
  have 100: "(y - 1900) div 100 - (y - 1901) div 100 = (if y mod 100 = 0 then 1 else 0)"
    using div_step [of 100 "y - 1901"] by (simp add: dvd_shift)
  have 400: "(y - 1600) div 400 - (y - 1601) div 400 = (if y mod 400 = 0 then 1 else 0)"
    using div_step [of 400 "y - 1601"] by (simp add: dvd_shift)
  have a: "y mod 400 = 0 \<longrightarrow> y mod 100 = 0"
    unfolding mod_eq_0_iff_dvd by (rule impI, rule dvd_trans [of 100 400]) simp_all
  have b: "y mod 100 = 0 \<longrightarrow> y mod 4 = 0"
    unfolding mod_eq_0_iff_dvd by (rule impI, rule dvd_trans [of 4 100]) simp_all
  have "day_from_year (y + 1) - day_from_year y =
      365 + ((y - 1968) div 4 - (y - 1969) div 4) - ((y - 1900) div 100 - (y - 1901) div 100)
      + ((y - 1600) div 400 - (y - 1601) div 400)"
  proof -
    have e: "y + 1 - 1969 = y - 1968" "y + 1 - 1901 = y - 1900" "y + 1 - 1601 = y - 1600" by simp_all
    have "365 * (y + 1 - 1970) + a - b + c - (365 * (y - 1970) + a' - b' + c') =
        365 + (a - a') - (b - b') + (c - c')" for a b c a' b' c' :: int by simp
    then show ?thesis unfolding day_from_year_def e .
  qed
  then show ?thesis
    unfolding 4 100 400 is_leap_def leap_cases [OF a b] .
qed

lemma day_from_year_less: "day_from_year y < day_from_year (y + 1)"
  using day_from_year_Suc [of y] by (simp split: if_splits)

function year_search :: "int \<Rightarrow> int \<Rightarrow> int" where
  "year_search y d = (if day_from_year (y + 1) \<le> d then year_search (y + 1) d else y)"
  by pat_completeness auto
termination
proof (relation "measure (\<lambda>(y, d). nat (d - day_from_year y))", simp)
  fix y d :: int
  assume "day_from_year (y + 1) \<le> d"
  with day_from_year_less [of y]
  show "((y + 1, d), y, d) \<in> measure (\<lambda>(y, d). nat (d - day_from_year y))" by simp
qed

declare year_search.simps [simp del]

lemma year_search_bounds:
  "day_from_year y \<le> d \<Longrightarrow>
    day_from_year (year_search y d) \<le> d \<and> d < day_from_year (year_search y d + 1)"
proof (induction y d rule: year_search.induct)
  case (1 y d)
  then show ?case by (subst (1 2) year_search.simps) auto
qed

text \<open>\<open>YearFromTime\<close>: the largest year that starts at or before the day.\<close>

definition year_of_day :: "int \<Rightarrow> int" where
  "year_of_day d = year_search (1970 + (if 0 \<le> d then d div 366 else d div 365)) d"

lemma year_start_le:
  assumes "0 \<le> d" shows "day_from_year (1970 + d div 366) \<le> d"
proof -
  define k where "k = d div 366"
  have k: "0 \<le> k" using assms by (simp add: k_def pos_imp_zdiv_nonneg_iff)
  have "(k + 369) div 400 \<le> (k + 69) div 100"
  proof (cases "(k + 369) div 400 \<le> 0")
    case True
    moreover have "0 \<le> (k + 69) div 100" using k by (simp add: pos_imp_zdiv_nonneg_iff)
    ultimately show ?thesis by linarith
  next
    case False
    have "(k + 369) div 400 * 400 \<le> k + 369"
      using pos_mod_sign [of 400 "k + 369"] div_mult_mod_eq [of "k + 369" 400] by linarith
    with False have "100 * ((k + 369) div 400) \<le> k + 69" by linarith
    then have "100 * ((k + 369) div 400) div 100 \<le> (k + 69) div 100" by (rule zdiv_mono1) simp
    then show ?thesis by simp
  qed
  moreover have "(k + 1) div 4 \<le> k" using k by linarith
  moreover have "day_from_year (1970 + k) = 365 * k + (k + 1) div 4 - (k + 69) div 100 + (k + 369) div 400"
    by (simp add: day_from_year_def algebra_simps)
  ultimately have "day_from_year (1970 + k) \<le> 366 * k" by linarith
  also have "366 * k \<le> d"
    using pos_mod_sign [of 366 d] div_mult_mod_eq [of d 366] by (simp add: k_def)
  finally show ?thesis by (simp add: k_def)
qed

lemma year_of_day_bounds:
  "0 \<le> d \<Longrightarrow> day_from_year (year_of_day d) \<le> d \<and> d < day_from_year (year_of_day d + 1)"
  by (simp add: year_of_day_def year_search_bounds year_start_le)

definition month_starts :: "int list" where
  "month_starts = [0, 31, 59, 90, 120, 151, 181, 212, 243, 273, 304, 334]"

definition month_start :: "int \<Rightarrow> nat \<Rightarrow> int" where
  "month_start leap m = month_starts ! m + (if 2 \<le> m then leap else 0)"

definition month_of :: "int \<Rightarrow> int \<Rightarrow> nat" where
  "month_of leap doy =
     (if doy < 31 then 0 else if doy < 59 + leap then 1 else if doy < 90 + leap then 2
      else if doy < 120 + leap then 3 else if doy < 151 + leap then 4
      else if doy < 181 + leap then 5 else if doy < 212 + leap then 6
      else if doy < 243 + leap then 7 else if doy < 273 + leap then 8
      else if doy < 304 + leap then 9 else if doy < 334 + leap then 10 else 11)"

definition leap_of :: "int \<Rightarrow> int" where
  "leap_of y = (if is_leap y then 1 else 0)"

text \<open>Year, month (from 0) and day of the month (from 1) of a day number.\<close>

definition civil :: "int \<Rightarrow> int \<times> nat \<times> int" where
  "civil d = (let y = year_of_day d; doy = d - day_from_year y; m = month_of (leap_of y) doy
              in (y, m, doy - month_start (leap_of y) m + 1))"

definition day_of_civil :: "int \<times> nat \<times> int \<Rightarrow> int" where
  "day_of_civil = (\<lambda>(y, m, k). day_from_year y + month_start (leap_of y) m + k - 1)"

lemma day_of_civil_civil [simp]: "day_of_civil (civil d) = d"
  by (simp add: day_of_civil_def civil_def Let_def)

lemma month_of_less: "month_of leap doy < 12"
  by (simp add: month_of_def)

lemma month_of_bounds:
  "0 \<le> doy \<Longrightarrow> doy < 365 + leap \<Longrightarrow> 0 \<le> leap \<Longrightarrow> leap \<le> 1 \<Longrightarrow>
    1 \<le> doy - month_start leap (month_of leap doy) + 1 \<and>
    doy - month_start leap (month_of leap doy) + 1 \<le> 31"
  by (simp add: month_of_def month_start_def month_starts_def)

lemma civil_bounds:
  assumes "0 \<le> d" "civil d = (y, m, k)"
  shows "m < 12" "1 \<le> k" "k \<le> 31" "day_from_year y \<le> d" "d < day_from_year (y + 1)"
proof -
  from assms(2) have y: "y = year_of_day d" and m: "m = month_of (leap_of y) (d - day_from_year y)"
    and k: "k = (d - day_from_year y) - month_start (leap_of y) m + 1"
    by (auto simp: civil_def Let_def)
  have yb: "day_from_year y \<le> d" "d < day_from_year (y + 1)"
    using year_of_day_bounds [OF assms(1)] y by auto
  have "d - day_from_year y < 365 + leap_of y"
    using yb day_from_year_Suc [of y] by (simp add: leap_of_def split: if_splits)
  with yb(1) have "1 \<le> k \<and> k \<le> 31"
    unfolding k m by (intro month_of_bounds) (auto simp: leap_of_def)
  then show "1 \<le> k" "k \<le> 31" by auto
  show "m < 12" by (simp add: m month_of_less)
  show "day_from_year y \<le> d" "d < day_from_year (y + 1)" by (fact yb)+
qed

section \<open>Printing\<close>

definition pad2 :: "nat \<Rightarrow> string" where
  "pad2 n = [digit_char (n div 10), digit_char (n mod 10)]"

definition pad4 :: "nat \<Rightarrow> string" where
  "pad4 n = [digit_char (n div 1000), digit_char (n div 100 mod 10)] @ pad2 (n mod 100)"

definition pad6 :: "nat \<Rightarrow> string" where
  "pad6 n = pad2 (n div 10000) @ pad4 (n mod 10000)"

definition iso_year :: "int \<Rightarrow> string" where
  "iso_year y = (if 0 \<le> y \<and> y \<le> 9999 then pad4 (nat y)
                 else (if y < 0 then CHR ''-'' else CHR ''+'') # pad6 (nat (abs y)))"

text \<open>\<^verbatim>\<open>new Date(t).toISOString().slice(0, 10)\<close>.\<close>

definition iso_date :: "ms \<Rightarrow> string" where
  "iso_date t = (case civil (t div DAY_MS) of (y, m, k) \<Rightarrow>
     take 10 (iso_year y @ ''-'' @ pad2 (m + 1) @ ''-'' @ pad2 (nat k)))"

lemma digit_char_inject: "m < 10 \<Longrightarrow> n < 10 \<Longrightarrow> digit_char m = digit_char n \<longleftrightarrow> m = n"
  by (metis digit_val_char of_nat_eq_iff option.inject)

lemma pad2_inject: "m < 100 \<Longrightarrow> n < 100 \<Longrightarrow> pad2 m = pad2 n \<longleftrightarrow> m = n"
  unfolding pad2_def by (auto simp: digit_char_inject) (metis div_mult_mod_eq)

lemma pad4_inject: "m < 10000 \<Longrightarrow> n < 10000 \<Longrightarrow> pad4 m = pad4 n \<longleftrightarrow> m = n"
proof -
  assume b: "m < 10000" "n < 10000"
  have split: "k = (k div 1000 * 10 + k div 100 mod 10) * 100 + k mod 100" for k :: nat
    using div_mult_mod_eq [of k 100] div_mult_mod_eq [of "k div 100" 10] div_mult2_eq [of k 100 10] by simp
  show ?thesis
  proof
    assume "pad4 m = pad4 n"
    then have "digit_char (m div 1000) = digit_char (n div 1000)"
      "digit_char (m div 100 mod 10) = digit_char (n div 100 mod 10)" "pad2 (m mod 100) = pad2 (n mod 100)"
      by (simp_all add: pad4_def)
    moreover have "m div 1000 < 10" "n div 1000 < 10" using b by simp_all
    ultimately have "m div 1000 = n div 1000" "m div 100 mod 10 = n div 100 mod 10" "m mod 100 = n mod 100"
      by (simp_all add: digit_char_inject pad2_inject)
    then show "m = n" using split [of m] split [of n] by simp
  qed simp
qed

lemma length_pads [simp]: "length (pad2 n) = 2" "length (pad4 n) = 4"
  by (simp_all add: pad2_def pad4_def)

lemma length_iso_date [simp]: "length (iso_date t) = 10"
  by (auto simp: iso_date_def iso_year_def pad6_def split: prod.splits)

text \<open>The first instant of the year 10000.\<close>

abbreviation ISO_END :: int where
  "ISO_END \<equiv> 253402300800000"

lemma day_from_year_mono: "y \<le> z \<Longrightarrow> day_from_year y \<le> day_from_year z"
  by (induction z rule: int_ge_induct) (use day_from_year_less in \<open>auto intro: order_trans less_imp_le\<close>)

lemma year_range:
  assumes "0 \<le> d" "d < 2932897" "day_from_year y \<le> d" "d < day_from_year (y + 1)"
  shows "0 \<le> y" "y \<le> 9999"
proof -
  have "day_from_year 0 \<le> 0" by (simp add: day_from_year_def)
  show "0 \<le> y"
  proof (rule ccontr)
    assume "\<not> 0 \<le> y"
    then have "day_from_year (y + 1) \<le> day_from_year 0" by (intro day_from_year_mono) simp
    with assms \<open>day_from_year 0 \<le> 0\<close> show False by simp
  qed
  show "y \<le> 9999"
  proof (rule ccontr)
    assume "\<not> y \<le> 9999"
    then have "day_from_year 10000 \<le> day_from_year y" by (intro day_from_year_mono) simp
    moreover have "day_from_year 10000 = 2932897" by (simp add: day_from_year_def)
    ultimately show False using assms by simp
  qed
qed

lemma iso_date_split:
  assumes "0 \<le> t" "t < ISO_END" "civil (t div DAY_MS) = (y, m, k)"
  shows "iso_date t = pad4 (nat y) @ ''-'' @ pad2 (m + 1) @ ''-'' @ pad2 (nat k)"
    and "0 \<le> y" "y \<le> 9999" "m < 12" "1 \<le> k" "k \<le> 31"
proof -
  have d: "0 \<le> t div DAY_MS" using assms(1) by (simp add: pos_imp_zdiv_nonneg_iff)
  have "t div DAY_MS \<le> (ISO_END - 1) div DAY_MS" using assms(2) by (intro zdiv_mono1) simp_all
  then have "t div DAY_MS < 2932897" by simp
  note b = civil_bounds [OF d assms(3)]
  show y: "0 \<le> y" "y \<le> 9999" by (rule year_range [OF d \<open>t div DAY_MS < 2932897\<close> b(4,5)])+
  show "m < 12" "1 \<le> k" "k \<le> 31" by (fact b)+
  show "iso_date t = pad4 (nat y) @ ''-'' @ pad2 (m + 1) @ ''-'' @ pad2 (nat k)"
    using y by (simp add: iso_date_def assms(3) iso_year_def)
qed

lemma iso_date_inject:
  assumes "0 \<le> s" "s < ISO_END" "0 \<le> t" "t < ISO_END"
  shows "iso_date s = iso_date t \<longleftrightarrow> s div DAY_MS = t div DAY_MS"
proof
  assume eq: "iso_date s = iso_date t"
  obtain y m k where c: "civil (s div DAY_MS) = (y, m, k)" by (cases "civil (s div DAY_MS)")
  obtain y' m' k' where c': "civil (t div DAY_MS) = (y', m', k')" by (cases "civil (t div DAY_MS)")
  note i = iso_date_split [OF assms(1,2) c] and i' = iso_date_split [OF assms(3,4) c']
  from eq i(1) i'(1) have "pad4 (nat y) = pad4 (nat y')" "pad2 (m + 1) = pad2 (m' + 1)"
    "pad2 (nat k) = pad2 (nat k')"
    by (simp_all add: append_eq_append_conv)
  moreover have "nat y < 10000" "nat y' < 10000" "m + 1 < 100" "m' + 1 < 100" "nat k < 100" "nat k' < 100"
    using i i' by auto
  ultimately have "nat y = nat y'" "m = m'" "nat k = nat k'"
    by (simp_all add: pad4_inject pad2_inject)
  then have "y = y'" "m = m'" "k = k'" using i i' by auto
  with c c' show "s div DAY_MS = t div DAY_MS" by (metis day_of_civil_civil)
qed (simp add: iso_date_def)

end
