(* ===== verification/Billing.thy ===== *)
theory Billing
  imports IsoDate
begin

text \<open>
  \<^verbatim>\<open>packages/billing/src/index.ts\<close>: the price constants, the enforced bandwidth of a speed
  tier, the 31-day cycle, the three-day grace period and the idempotency key of a charge.
\<close>

definition TIER_PRICE_SATANG :: "string \<Rightarrow> satang option" where
  "TIER_PRICE_SATANG = map_of
     [(''tier_100mb'', 10000), (''tier_500mb'', 20000), (''tier_1gb'', 30000)]"

definition TIER_RATE_KBIT :: "string \<Rightarrow> int option" where
  "TIER_RATE_KBIT = map_of
     [(''tier_100mb'', 100000), (''tier_500mb'', 500000), (''tier_1gb'', 1000000)]"

text \<open>\<^verbatim>\<open>Math.round(nominal * 1.6)\<close>: the factor is \<open>16/10\<close>, rounding is \<open>floor (x + 1/2)\<close>.\<close>

definition tierRateKbit :: "string \<Rightarrow> int" where
  "tierRateKbit tier =
     (let nominal = (case TIER_RATE_KBIT tier of Some v \<Rightarrow> v | None \<Rightarrow> 100000)
      in (2 * (16 * nominal) + 10) div 20)"

definition SINGLE_IP_SATANG :: satang where
  "SINGLE_IP_SATANG = 10000"

definition IP_BLOCK_SATANG :: "int \<Rightarrow> satang option" where
  "IP_BLOCK_SATANG = map_of
     [(2, 20000), (4, 40000), (8, 80000), (16, 150000), (32, 280000), (64, 520000),
      (128, 980000), (256, 1800000)]"

definition BLOCK_SIZE_TO_PREFIX :: "int \<Rightarrow> int option" where
  "BLOCK_SIZE_TO_PREFIX = map_of
     [(2, 31), (4, 30), (8, 29), (16, 28), (32, 27), (64, 26), (128, 25), (256, 24)]"

definition BILLING_CYCLE_DAYS :: int where
  "BILLING_CYCLE_DAYS = 31"

definition nextBillingAt :: "ms \<Rightarrow> ms" where
  "nextBillingAt from = from + BILLING_CYCLE_DAYS * DAY_MS"

definition deleteAfter :: "ms \<Rightarrow> ms" where
  "deleteAfter suspendedAt = suspendedAt + 3 * DAY_MS"

definition canAfford :: "satang \<Rightarrow> satang \<Rightarrow> bool" where
  "canAfford balanceSatang priceSatang \<longleftrightarrow> balanceSatang \<ge> priceSatang"

datatype charge_kind = KTunnel | KIp | KBlock

fun kind_name :: "charge_kind \<Rightarrow> string" where
  "kind_name KTunnel = ''tunnel''"
| "kind_name KIp = ''ip''"
| "kind_name KBlock = ''block''"

definition chargeIdempotencyKey :: "charge_kind \<Rightarrow> string \<Rightarrow> ms \<Rightarrow> string" where
  "chargeIdempotencyKey kind i cycleDate =
     ''charge-'' @ kind_name kind @ ''-'' @ i @ ''-'' @ iso_date cycleDate"

lemma block_prefix_size:
  "BLOCK_SIZE_TO_PREFIX n = Some p \<Longrightarrow> 24 \<le> p \<and> p \<le> 31 \<and> n = 2 ^ nat (32 - p)"
  by (auto simp: BLOCK_SIZE_TO_PREFIX_def split: if_splits)

lemma kind_prefix_inject:
  "kind_name k @ ''-'' @ xs = kind_name k' @ ''-'' @ ys \<longleftrightarrow> k = k' \<and> xs = ys"
  by (cases k; cases k') auto

lemma charge_key_eq_iff:
  "chargeIdempotencyKey k i s = chargeIdempotencyKey k' j t \<longleftrightarrow>
     k = k' \<and> i = j \<and> iso_date s = iso_date t"
proof -
  have "i @ ''-'' @ iso_date s = j @ ''-'' @ iso_date t \<longleftrightarrow> i = j \<and> iso_date s = iso_date t"
    using append_eq_append_conv [of "''-'' @ iso_date s" "''-'' @ iso_date t" i j] by auto
  then show ?thesis
    by (simp add: chargeIdempotencyKey_def kind_prefix_inject del: append.simps(2) append_Cons)
qed

lemma next_cycle_other_day: "nextBillingAt t div DAY_MS = t div DAY_MS + 31"
  by (simp add: nextBillingAt_def BILLING_CYCLE_DAYS_def)

lemma charge_key_next_cycle:
  assumes "0 \<le> t" "nextBillingAt t < ISO_END"
  shows "chargeIdempotencyKey k i (nextBillingAt t) \<noteq> chargeIdempotencyKey k i t"
proof -
  have t: "0 \<le> nextBillingAt t" "t < ISO_END"
    using assms by (simp_all add: nextBillingAt_def BILLING_CYCLE_DAYS_def)
  show ?thesis
    using next_cycle_other_day [of t]
    by (simp add: charge_key_eq_iff iso_date_inject [OF t(1) assms(2) assms(1) t(2)])
qed

text \<open>
  The idempotency key of a charge determines the kind of item, its id and the
  UTC day of the cycle, so two different charges never share a key.
\<close>

theorem charge_key_inject:
  assumes "0 \<le> s" "s < ISO_END" "0 \<le> t" "t < ISO_END"
  shows "chargeIdempotencyKey k i s = chargeIdempotencyKey k' j t \<longleftrightarrow>
     k = k' \<and> i = j \<and> s div DAY_MS = t div DAY_MS"
  using assms by (simp add: charge_key_eq_iff iso_date_inject)

lemma iso_date_example: "iso_date 1747612800000 = ''2025-05-19''"
  by code_simp

theorem charge_key_inject_witness:
  "chargeIdempotencyKey KTunnel ''t1'' 1747612800000 \<noteq>
   chargeIdempotencyKey KTunnel ''t1'' (nextBillingAt 1747612800000)"
  unfolding nextBillingAt_def BILLING_CYCLE_DAYS_def
  by (subst charge_key_inject) simp_all

end
