(* ===== verification/SalePlans.thy ===== *)
theory SalePlans
  imports Billing
begin

text \<open>
  \<^verbatim>\<open>packages/provisioning/src/sale-plans.ts\<close>: CIDR arithmetic and the search for a free
  address or a free aligned block in the sale plans of a pool. A \<^verbatim>\<open>Set<number>\<close> of taken
  addresses is a list used through membership. The address conversions are in \<open>JsNum\<close>.
\<close>

datatype sale_mode = SaleSingle | SaleBlock

record sale_plan =
  sp_id :: uuid
  sp_cidr :: cidr
  sp_saleMode :: sale_mode
  sp_blockSize :: "int option"

record cidr_parts =
  net :: int
  size :: int
  prefix :: "int option"

text \<open>An undefined or non-numeric length is NaN, and a shift by NaN is a shift by 0.\<close>

definition parseCidr :: "cidr \<Rightarrow> cidr_parts" where
  "parseCidr c =
     (let parts = split_on CHR ''/'' c;
          p = (if 2 \<le> length parts then js_Number (parts ! 1) else None)
      in \<lparr>net = ip4ToInt (hd parts),
          size = js_shl 1 (case p of None \<Rightarrow> 0 | Some k \<Rightarrow> 32 - k),
          prefix = p\<rparr>)"

definition cidrContains :: "cidr \<Rightarrow> cidr \<Rightarrow> bool" where
  "cidrContains outer inner =
     (let out = parseCidr outer; i = parseCidr inner
      in net i \<ge> net out \<and> net i + size i \<le> net out + size out)"

definition isAligned :: "cidr \<Rightarrow> bool" where
  "isAligned c = (let q = parseCidr c in js_and (net q) (size q - 1) = 0)"

definition cidrsOverlap :: "cidr \<Rightarrow> cidr \<Rightarrow> bool" where
  "cidrsOverlap a b =
     (let A = parseCidr a; B = parseCidr b
      in net A < net B + size B \<and> net B < net A + size A)"

fun scan_single :: "int list \<Rightarrow> cidr_parts list \<Rightarrow> int option" where
  "scan_single taken [] = None"
| "scan_single taken (r # rs) =
     (case first_off (\<lambda>off. net r + off \<notin> set taken) 1 1 (size r) 0 of
        Some off \<Rightarrow> Some (net r + off)
      | None \<Rightarrow> scan_single taken rs)"

definition single_ranges :: "cidr \<Rightarrow> sale_plan list \<Rightarrow> cidr_parts list" where
  "single_ranges poolCidr plans =
     (if plans = [] then [parseCidr poolCidr]
      else map (\<lambda>p. parseCidr (sp_cidr p)) (filter (\<lambda>p. sp_saleMode p = SaleSingle) plans))"

definition findFreeSingleIp :: "cidr \<Rightarrow> sale_plan list \<Rightarrow> int list \<Rightarrow> ip4 option" where
  "findFreeSingleIp poolCidr plans taken =
     map_option intToIp4 (scan_single taken (single_ranges poolCidr plans))"

definition block_free :: "int list \<Rightarrow> int \<Rightarrow> int \<Rightarrow> bool" where
  "block_free taken blockSize start \<longleftrightarrow>
     (\<forall>i \<in> set [0..<nat blockSize]. start + int i \<notin> set taken)"

fun scan_block :: "int list \<Rightarrow> int \<Rightarrow> cidr_parts list \<Rightarrow> int option" where
  "scan_block taken blockSize [] = None"
| "scan_block taken blockSize (r # rs) =
     (case first_off (\<lambda>off. block_free taken blockSize (net r + off)) blockSize blockSize (size r) 0 of
        Some off \<Rightarrow> Some (net r + off)
      | None \<Rightarrow> scan_block taken blockSize rs)"

definition block_ranges :: "cidr \<Rightarrow> sale_plan list \<Rightarrow> int \<Rightarrow> cidr_parts list" where
  "block_ranges poolCidr plans blockSize =
     (if plans = [] then [parseCidr poolCidr]
      else map (\<lambda>p. parseCidr (sp_cidr p))
        (filter (\<lambda>p. sp_saleMode p = SaleBlock \<and> sp_blockSize p = Some blockSize) plans))"

definition block_ips :: "int \<Rightarrow> int \<Rightarrow> ip4 list" where
  "block_ips start n = map (\<lambda>i. intToIp4 (start + int i)) [0..<nat n]"

definition findFreeBlock ::
  "cidr \<Rightarrow> sale_plan list \<Rightarrow> int \<Rightarrow> int list \<Rightarrow> (int \<times> ip4 list) option" where
  "findFreeBlock poolCidr plans blockSize taken =
     map_option (\<lambda>start. (start, block_ips start blockSize))
       (scan_block taken blockSize (block_ranges poolCidr plans blockSize))"

definition plan_covers :: "int \<Rightarrow> sale_plan \<Rightarrow> bool" where
  "plan_covers ipInt p = (let q = parseCidr (sp_cidr p) in ipInt \<ge> net q \<and> ipInt < net q + size q)"

text \<open>\<open>Inr ()\<close> is \<^verbatim>\<open>{ok: true}\<close>, \<open>Inl reason\<close> is \<^verbatim>\<open>{ok: false, reason}\<close>.\<close>

definition isIpSellableAsSingle :: "ip4 \<Rightarrow> sale_plan list \<Rightarrow> string + unit" where
  "isIpSellableAsSingle ip plans =
     (if plans = [] then Inr ()
      else case find (plan_covers (ip4ToInt ip)) plans of
        None \<Rightarrow> Inl (ip @ '' is not in any sale plan for this pool'')
      | Some cover \<Rightarrow>
          if sp_saleMode cover \<noteq> SaleSingle
          then Inl (ip @ '' is in a block-only range ('' @ sp_cidr cover @ '', /'' @
                 (case sp_blockSize cover of None \<Rightarrow> ''null'' | Some n \<Rightarrow> show_int n) @ '')'')
          else Inr ())"

section \<open>Well-formed CIDR texts\<close>

text \<open>
  The text of a \<^verbatim>\<open>cidr\<close> column: a network address with zero host bits and a length. The
  lengths 0 and 1 are left out: there \<^verbatim>\<open>1 << (32 - prefix)\<close> is 1 and \<open>-2^31\<close>, see
  \<open>parseCidr_short\<close>.
\<close>

definition mk_cidr :: "int \<Rightarrow> int \<Rightarrow> cidr" where
  "mk_cidr n p = intToIp4 n @ ''/'' @ show_nat (nat p)"

definition good_net :: "int \<Rightarrow> int \<Rightarrow> bool" where
  "good_net n p \<longleftrightarrow> 0 \<le> n \<and> n < 2 ^ 32 \<and> 2 \<le> p \<and> p \<le> 32 \<and> n mod 2 ^ nat (32 - p) = 0"

definition wf_cidr :: "cidr \<Rightarrow> bool" where
  "wf_cidr c = (let q = parseCidr c in
     case prefix q of None \<Rightarrow> False | Some p \<Rightarrow> good_net (net q) p \<and> c = mk_cidr (net q) p)"

definition addrs :: "cidr \<Rightarrow> int set" where
  "addrs c = {net (parseCidr c) ..< net (parseCidr c) + size (parseCidr c)}"

lemma show_int_no_slash: "CHR ''/'' \<notin> set (show_int i)"
  using digit_char_plain(2) by (auto simp: show_int_def show_nat_no_slash)

lemma intToIp4_no_slash: "CHR ''/'' \<notin> set (intToIp4 n)"
  by (auto simp: intToIp4_def show_int_no_slash)

lemma split_mk_cidr: "split_on CHR ''/'' (mk_cidr n p) = [intToIp4 n, show_nat (nat p)]"
  by (simp add: mk_cidr_def split_on_sep intToIp4_no_slash split_on_no_sep show_nat_no_slash)

lemma size_pow:
  assumes "2 \<le> p" "p \<le> 32" shows "js_shl 1 (32 - p) = 2 ^ nat (32 - p)"
proof -
  have "(32 - p) mod 32 = 32 - p" by (rule mod_pos_pos_trivial) (use assms in simp_all)
  moreover have "(2::int) ^ nat (32 - p) \<le> 2 ^ 30"
    using assms by (intro power_increasing) auto
  then have "to_int32 (2 ^ nat (32 - p)) = 2 ^ nat (32 - p)"
    by (intro to_int32_small) (auto intro: order_trans [of _ 0])
  ultimately show ?thesis by (simp add: js_shl_def)
qed

lemma parseCidr_mk:
  assumes "0 \<le> n" "n < 2 ^ 32" "2 \<le> p" "p \<le> 32"
  shows "parseCidr (mk_cidr n p) = \<lparr>net = n, size = 2 ^ nat (32 - p), prefix = Some p\<rparr>"
  using assms by (simp add: parseCidr_def split_mk_cidr ip4ToInt_intToIp4 size_pow)

text \<open>What the shift does on the two shortest prefixes.\<close>

lemma parseCidr_short:
  "size (parseCidr ''0.0.0.0/0'') = 1" "size (parseCidr ''128.0.0.0/1'') = - (2 ^ 31)"
  by code_simp+

lemma wf_cidrE:
  assumes "wf_cidr c"
  obtains n p where "good_net n p" "c = mk_cidr n p" "net (parseCidr c) = n"
    "size (parseCidr c) = 2 ^ nat (32 - p)" "prefix (parseCidr c) = Some p"
proof -
  let ?n = "net (parseCidr c)"
  from assms obtain p where p: "prefix (parseCidr c) = Some p" "good_net ?n p" "c = mk_cidr ?n p"
    by (auto simp: wf_cidr_def Let_def split: option.splits)
  then have "parseCidr c = \<lparr>net = ?n, size = 2 ^ nat (32 - p), prefix = Some p\<rparr>"
    using parseCidr_mk [of ?n p] by (simp add: good_net_def)
  then have "size (parseCidr c) = 2 ^ nat (32 - p)" by (metis cidr_parts.select_convs(2))
  with p that [of ?n p] show thesis by blast
qed

lemma good_net_end:
  assumes "good_net n p" shows "n + 2 ^ nat (32 - p) \<le> 2 ^ 32"
proof -
  define k where "k = nat (32 - p)"
  have k: "k \<le> 32" using assms by (auto simp: good_net_def k_def)
  then have e: "(2::int) ^ 32 = 2 ^ k * 2 ^ (32 - k)" by (simp add: power_add [symmetric])
  from assms obtain q where q: "n = 2 ^ k * q"
    by (auto simp: good_net_def k_def mod_eq_0_iff_dvd elim: dvdE)
  with assms e have "2 ^ k * q < 2 ^ k * 2 ^ (32 - k)" by (simp add: good_net_def)
  then have "q < 2 ^ (32 - k)" by simp
  then have "q + 1 \<le> 2 ^ (32 - k)" by simp
  then have "2 ^ k * (q + 1) \<le> 2 ^ k * 2 ^ (32 - k)" by (intro mult_left_mono) simp_all
  then show ?thesis using e q by (simp add: k_def [symmetric] algebra_simps)
qed

lemma wf_cidr_range:
  assumes "wf_cidr c"
  shows "0 \<le> net (parseCidr c)" "0 < size (parseCidr c)"
    "net (parseCidr c) + size (parseCidr c) \<le> 2 ^ 32"
  using assms good_net_end by (elim wf_cidrE; force simp: good_net_def)+

lemma wf_mk_cidr: "good_net n p \<Longrightarrow> wf_cidr (mk_cidr n p)"
  by (simp add: wf_cidr_def Let_def parseCidr_mk good_net_def)

lemma addrs_mk_cidr: "good_net n p \<Longrightarrow> addrs (mk_cidr n p) = {n ..< n + 2 ^ nat (32 - p)}"
  by (simp add: addrs_def parseCidr_mk good_net_def)

lemma cidrContains_addrs:
  "wf_cidr inner \<Longrightarrow> cidrContains outer inner \<longleftrightarrow> addrs inner \<subseteq> addrs outer"
  using wf_cidr_range [of inner] by (auto simp: cidrContains_def addrs_def Let_def)

lemma cidrsOverlap_addrs:
  "wf_cidr a \<Longrightarrow> wf_cidr b \<Longrightarrow> cidrsOverlap a b \<longleftrightarrow> addrs a \<inter> addrs b \<noteq> {}"
  using wf_cidr_range [of a] wf_cidr_range [of b]
  by (auto simp: cidrsOverlap_def addrs_def Let_def disjoint_iff not_less)

lemma js_and_low_bits:
  assumes "k \<le> 31"
  shows "js_and x (2 ^ k - 1) = x mod 2 ^ k"
proof -
  have "(2::int) ^ k \<le> 2 ^ 31" using assms by (intro power_increasing) auto
  moreover have "0 < (2::int) ^ k" by simp
  ultimately have s: "to_int32 (2 ^ k - 1) = 2 ^ k - 1"
    by (intro to_int32_small) linarith+
  have d: "(2::int) ^ k dvd 2 ^ 32" using assms by (intro le_imp_power_dvd) simp
  have "to_int32 x mod 2 ^ k = (to_int32 x mod 2 ^ 32) mod 2 ^ k" by (rule mod_mod_cancel [OF d, symmetric])
  also have "\<dots> = x mod 2 ^ k" unfolding to_int32_mod by (rule mod_mod_cancel [OF d])
  finally have "to_int32 x mod 2 ^ k = x mod 2 ^ k" .
  then show ?thesis
    using take_bit_eq_mask [of k "to_int32 x"]
    by (simp add: js_and_def s take_bit_eq_mod mask_eq_exp_minus_1)
qed

lemma isAligned_iff:
  assumes "0 \<le> n" "n < 2 ^ 32" "2 \<le> p" "p \<le> 32"
  shows "isAligned (mk_cidr n p) \<longleftrightarrow> 2 ^ nat (32 - p) dvd n"
  using assms js_and_low_bits [of "nat (32 - p)" n]
  by (simp add: isAligned_def parseCidr_mk mod_eq_0_iff_dvd)

section \<open>The searches\<close>

definition range_addrs :: "cidr_parts \<Rightarrow> int set" where
  "range_addrs r = {net r ..< net r + size r}"

lemma addrs_range_addrs: "range_addrs (parseCidr c) = addrs c"
  by (simp add: range_addrs_def addrs_def)

lemma scan_single_Some:
  "scan_single taken rs = Some a \<Longrightarrow> a \<notin> set taken \<and> (\<exists>r \<in> set rs. a \<in> range_addrs r)"
proof (induction rs)
  case (Cons r rs)
  then show ?case
    using first_off_sound [of 1 "\<lambda>off. net r + off \<notin> set taken" 1 "size r" 0]
    by (fastforce simp: range_addrs_def split: option.splits)
qed simp

lemma scan_single_None:
  "scan_single taken rs = None \<Longrightarrow> r \<in> set rs \<Longrightarrow> a \<in> range_addrs r \<Longrightarrow> a \<in> set taken"
proof (induction rs)
  case (Cons q rs)
  show ?case
  proof (cases "r = q")
    case True
    have none: "first_off (\<lambda>off. net q + off \<notin> set taken) 1 1 (size q) 0 = None"
      using Cons.prems(1) by (simp split: option.splits)
    have "0 \<le> a - net q" "a - net q + 1 \<le> size q"
      using Cons.prems(3) True by (auto simp: range_addrs_def)
    then show ?thesis
      using first_off_None [OF _ none, of "nat (a - net q)"] by simp
  next
    case False
    with Cons show ?thesis by (simp split: option.splits)
  qed
qed simp

lemma block_free_iff:
  "block_free taken n start \<longleftrightarrow> (\<forall>a. start \<le> a \<and> a < start + n \<longrightarrow> a \<notin> set taken)"
proof
  assume f: "block_free taken n start"
  show "\<forall>a. start \<le> a \<and> a < start + n \<longrightarrow> a \<notin> set taken"
  proof (intro allI impI)
    fix a
    assume "start \<le> a \<and> a < start + n"
    then have "nat (a - start) \<in> set [0..<nat n]" "a = start + int (nat (a - start))" by auto
    with f show "a \<notin> set taken" unfolding block_free_def by metis
  qed
qed (auto simp: block_free_def)

lemma scan_block_Some:
  "0 < n \<Longrightarrow> scan_block taken n rs = Some start \<Longrightarrow>
     block_free taken n start \<and>
     (\<exists>r \<in> set rs. net r \<le> start \<and> start + n \<le> net r + size r \<and> n dvd (start - net r))"
proof (induction rs)
  case (Cons r rs)
  show ?case
  proof (cases "first_off (\<lambda>off. block_free taken n (net r + off)) n n (size r) 0")
    case None
    with Cons show ?thesis by auto
  next
    case (Some off)
    with Cons.prems have "start = net r + off" by simp
    with first_off_sound [OF Cons.prems(1) Some] show ?thesis by auto
  qed
qed simp

lemma scan_block_None:
  "0 < n \<Longrightarrow> scan_block taken n rs = None \<Longrightarrow> r \<in> set rs \<Longrightarrow>
     net r + int k * n + n \<le> net r + size r \<Longrightarrow> \<not> block_free taken n (net r + int k * n)"
proof (induction rs)
  case (Cons q rs)
  show ?case
  proof (cases "r = q")
    case True
    have none: "first_off (\<lambda>off. block_free taken n (net q + off)) n n (size q) 0 = None"
      using Cons.prems(2) by (simp split: option.splits)
    show ?thesis
      using first_off_None [OF Cons.prems(1) none, of k] Cons.prems(4) True by simp
  next
    case False
    with Cons show ?thesis by (simp split: option.splits)
  qed
qed simp

lemma set_block_ips: "set (block_ips start n) = intToIp4 ` {start ..< start + n}"
proof -
  have "(\<lambda>i. start + int i) ` {0..<nat n} = {start ..< start + n}"
  proof
    show "{start ..< start + n} \<subseteq> (\<lambda>i. start + int i) ` {0..<nat n}"
      by (rule subsetI, rule_tac x = "nat (x - start)" in image_eqI) auto
  qed auto
  moreover have "set (block_ips start n) = intToIp4 ` ((\<lambda>i. start + int i) ` {0..<nat n})"
    by (auto simp: block_ips_def)
  ultimately show ?thesis by (simp only:)
qed

lemma length_block_ips [simp]: "length (block_ips start n) = nat n"
  by (simp add: block_ips_def)

lemma distinct_block_ips:
  "0 \<le> start \<Longrightarrow> start + n \<le> 2 ^ 32 \<Longrightarrow> distinct (block_ips start n)"
  by (auto simp: block_ips_def distinct_map inj_on_def intToIp4_inject)

definition wf_plans :: "cidr \<Rightarrow> sale_plan list \<Rightarrow> bool" where
  "wf_plans poolCidr plans \<longleftrightarrow>
     wf_cidr poolCidr \<and> (\<forall>p \<in> set plans. wf_cidr (sp_cidr p)) \<and>
     (\<forall>p \<in> set plans. \<forall>q \<in> set plans. cidrsOverlap (sp_cidr p) (sp_cidr q) \<longrightarrow> p = q)"

lemma single_ranges_wf:
  "wf_plans poolCidr plans \<Longrightarrow> r \<in> set (single_ranges poolCidr plans) \<Longrightarrow>
     range_addrs r \<subseteq> {0 ..< 2 ^ 32}"
  using wf_cidr_range by (fastforce simp: wf_plans_def single_ranges_def range_addrs_def split: if_splits)

lemma block_ranges_wf:
  "wf_plans poolCidr plans \<Longrightarrow> r \<in> set (block_ranges poolCidr plans n) \<Longrightarrow>
     range_addrs r \<subseteq> {0 ..< 2 ^ 32}"
  using wf_cidr_range by (fastforce simp: wf_plans_def block_ranges_def range_addrs_def split: if_splits)

lemma plan_covers_addrs: "plan_covers a p \<longleftrightarrow> a \<in> addrs (sp_cidr p)"
  by (auto simp: plan_covers_def addrs_def Let_def)

text \<open>With non-overlapping plans the first covering plan is the only one.\<close>

lemma find_cover_unique:
  assumes "wf_plans poolCidr plans" "p \<in> set plans" "a \<in> addrs (sp_cidr p)"
  shows "find (plan_covers a) plans = Some p"
proof -
  obtain q where q: "find (plan_covers a) plans = Some q"
    using assms(2,3) by (cases "find (plan_covers a) plans")
      (auto simp: find_None_iff_none plan_covers_addrs)
  then have "q \<in> set plans" "a \<in> addrs (sp_cidr q)"
    by (auto dest: find_SomeD simp: plan_covers_addrs)
  with assms have "cidrsOverlap (sp_cidr p) (sp_cidr q)"
    by (subst cidrsOverlap_addrs) (auto simp: wf_plans_def)
  with assms \<open>q \<in> set plans\<close> have "p = q" by (auto simp: wf_plans_def)
  with q show ?thesis by simp
qed

section \<open>Properties\<close>

text \<open>
  Address round trip: printing a 32-bit address and reading it back gives the same number,
  and reading a dotted quad and printing it gives the same text.
\<close>

theorem ip4_roundtrip:
  "(0 \<le> n \<and> n < 2 ^ 32 \<longrightarrow> ip4ToInt (intToIp4 n) = n) \<and>
   (a < 256 \<and> b < 256 \<and> c < 256 \<and> d < 256 \<longrightarrow> intToIp4 (ip4ToInt (quad a b c d)) = quad a b c d)"
  by (simp add: ip4ToInt_intToIp4 intToIp4_ip4ToInt_quad)

theorem ip4_roundtrip_witness:
  "ip4ToInt (intToIp4 3405803826) = 3405803826 \<and>
   intToIp4 (ip4ToInt (quad 203 0 113 50)) = quad 203 0 113 50"
  using ip4_roundtrip [of 3405803826 203 0 113 50] by simp

text \<open>
  On well-formed CIDR texts (lengths 2 to 32), \<^verbatim>\<open>cidrsOverlap\<close> decides whether the two
  address ranges share an address and \<^verbatim>\<open>cidrContains\<close> whether the second range lies in the first.
\<close>

theorem cidr_relations:
  assumes "wf_cidr a" "wf_cidr b"
  shows "(cidrsOverlap a b \<longleftrightarrow> addrs a \<inter> addrs b \<noteq> {}) \<and>
    (cidrContains a b \<longleftrightarrow> addrs b \<subseteq> addrs a)"
  using assms by (simp_all add: cidrsOverlap_addrs cidrContains_addrs)

lemma wf_examples: "wf_cidr ''203.0.113.0/24''" "wf_cidr ''203.0.113.32/27''"
   "wf_cidr ''203.0.113.0/27''"
  by code_simp+

theorem cidr_relations_witness:
  "(cidrsOverlap ''203.0.113.0/24'' ''203.0.113.32/27'' \<longleftrightarrow>
      addrs ''203.0.113.0/24'' \<inter> addrs ''203.0.113.32/27'' \<noteq> {}) \<and>
   addrs ''203.0.113.32/27'' \<subseteq> addrs ''203.0.113.0/24''"
proof -
  have "cidrContains ''203.0.113.0/24'' ''203.0.113.32/27''" by code_simp
  then show ?thesis
    using cidr_relations [OF wf_examples(1,2)] by simp
qed

lemma findFreeSingleIp_sound:
  assumes wf: "wf_plans poolCidr plans" and f: "findFreeSingleIp poolCidr plans taken = Some ip"
  shows "is_ip4 ip" "ip4ToInt ip \<notin> set taken" "isIpSellableAsSingle ip plans = Inr ()"
    "plans = [] \<Longrightarrow> ip4ToInt ip \<in> addrs poolCidr"
proof -
  from f obtain a where scan: "scan_single taken (single_ranges poolCidr plans) = Some a" and ip: "ip = intToIp4 a"
    by (auto simp: findFreeSingleIp_def)
  from scan_single_Some [OF scan] obtain r where a: "a \<notin> set taken"
    and r: "r \<in> set (single_ranges poolCidr plans)" "a \<in> range_addrs r" by blast
  have b: "0 \<le> a" "a < 2 ^ 32" using single_ranges_wf [OF wf r(1)] r(2) by auto
  show "is_ip4 ip" "ip4ToInt ip \<notin> set taken" using a b by (simp_all add: ip ip4ToInt_intToIp4)
  show "isIpSellableAsSingle ip plans = Inr ()"
  proof (cases "plans = []")
    case False
    then obtain p where "p \<in> set plans" "sp_saleMode p = SaleSingle" "a \<in> addrs (sp_cidr p)"
      using r by (auto simp: single_ranges_def addrs_range_addrs split: if_splits)
    then show ?thesis
      using False b find_cover_unique [OF wf]
      by (simp add: isIpSellableAsSingle_def ip ip4ToInt_intToIp4)
  qed (simp add: isIpSellableAsSingle_def)
  show "plans = [] \<Longrightarrow> ip4ToInt ip \<in> addrs poolCidr"
    using r b by (simp add: single_ranges_def addrs_range_addrs ip ip4ToInt_intToIp4)
qed

lemma findFreeSingleIp_None_iff:
  "findFreeSingleIp poolCidr plans taken = None \<longleftrightarrow> (if plans = [] then addrs poolCidr \<subseteq> set taken
     else \<forall>p \<in> set plans. sp_saleMode p = SaleSingle \<longrightarrow> addrs (sp_cidr p) \<subseteq> set taken)"
proof -
  have "findFreeSingleIp poolCidr plans taken = None \<longleftrightarrow>
      (\<forall>r \<in> set (single_ranges poolCidr plans). range_addrs r \<subseteq> set taken)"
    using scan_single_None [of taken "single_ranges poolCidr plans"]
      scan_single_Some [of taken "single_ranges poolCidr plans"]
    by (cases "scan_single taken (single_ranges poolCidr plans)") (auto simp: findFreeSingleIp_def)
  then show ?thesis by (auto simp: single_ranges_def addrs_range_addrs)
qed

text \<open>
  C18. The search for a single address is sound and complete: an address it returns is free, lies
  in the pool (or in a single-sale plan) and passes the explicit-purchase check
  \<^verbatim>\<open>isIpSellableAsSingle\<close>; when it returns none, every address on sale is taken.
\<close>

theorem findFreeSingleIp_correct:
  assumes "wf_plans poolCidr plans"
  shows "case findFreeSingleIp poolCidr plans taken of
      Some ip \<Rightarrow> is_ip4 ip \<and> ip4ToInt ip \<notin> set taken \<and>
        isIpSellableAsSingle ip plans = Inr () \<and>
        (plans = [] \<longrightarrow> ip4ToInt ip \<in> addrs poolCidr)
    | None \<Rightarrow> (if plans = [] then addrs poolCidr \<subseteq> set taken
        else \<forall>p \<in> set plans. sp_saleMode p = SaleSingle \<longrightarrow> addrs (sp_cidr p) \<subseteq> set taken)"
  using findFreeSingleIp_sound [OF assms] findFreeSingleIp_None_iff [of poolCidr plans taken]
  by (cases "findFreeSingleIp poolCidr plans taken") (simp_all split: if_splits)

definition example_plans :: "sale_plan list" where
  "example_plans =
     [\<lparr>sp_id = ''p1'', sp_cidr = ''203.0.113.0/27'', sp_saleMode = SaleSingle, sp_blockSize = None\<rparr>,
      \<lparr>sp_id = ''p2'', sp_cidr = ''203.0.113.32/27'', sp_saleMode = SaleBlock, sp_blockSize = Some 8\<rparr>]"

lemma wf_example_plans: "wf_plans ''203.0.113.0/24'' example_plans"
  unfolding wf_plans_def example_plans_def by code_simp

theorem findFreeSingleIp_correct_witness:
  "findFreeSingleIp ''203.0.113.0/24'' example_plans [3405803776, 3405803777] = Some ''203.0.113.2'' \<and>
   isIpSellableAsSingle ''203.0.113.2'' example_plans = Inr ()"
proof -
  have e: "findFreeSingleIp ''203.0.113.0/24'' example_plans [3405803776, 3405803777] = Some ''203.0.113.2''"
    by code_simp
  show ?thesis
    using findFreeSingleIp_correct [OF wf_example_plans, of "[3405803776, 3405803777]"] unfolding e by simp
qed

lemma findFreeBlock_sound:
  assumes wf: "wf_plans poolCidr plans" and p: "BLOCK_SIZE_TO_PREFIX n = Some p"
    and found: "findFreeBlock poolCidr plans n taken = Some (start, ips)"
  shows "ips = block_ips start n" "distinct ips" "0 \<le> start" "start + n \<le> 2 ^ 32"
    "{start ..< start + n} \<inter> set taken = {}"
    "if plans = [] then {start ..< start + n} \<subseteq> addrs poolCidr
     else (\<exists>q \<in> set plans. sp_saleMode q = SaleBlock \<and> sp_blockSize q = Some n \<and>
            {start ..< start + n} \<subseteq> addrs (sp_cidr q))"
    "\<forall>r \<in> set (block_ranges poolCidr plans n). n dvd net r \<Longrightarrow> good_net start p"
proof -
  have n: "0 < n" "24 \<le> p" "p \<le> 31" "n = 2 ^ nat (32 - p)" using block_prefix_size [OF p] by auto
  from found have scan: "scan_block taken n (block_ranges poolCidr plans n) = Some start" and ips: "ips = block_ips start n"
    by (auto simp: findFreeBlock_def)
  from scan_block_Some [OF n(1) scan] obtain r where f: "block_free taken n start"
    and r: "r \<in> set (block_ranges poolCidr plans n)" "net r \<le> start" "start + n \<le> net r + size r"
      "n dvd (start - net r)" by blast
  have sub: "{start ..< start + n} \<subseteq> range_addrs r" using r by (auto simp: range_addrs_def)
  have "start \<in> {start ..< start + n}" "start + n - 1 \<in> {start ..< start + n}" using n(1) by auto
  then have "start \<in> {0 ..< 2 ^ 32}" "start + n - 1 \<in> {0 ..< 2 ^ 32}"
    using sub block_ranges_wf [OF wf r(1)] by blast+
  then show b: "0 \<le> start" "start + n \<le> 2 ^ 32" by auto
  show "ips = block_ips start n" by (rule ips)
  show "distinct ips" using b by (simp add: ips distinct_block_ips)
  show "{start ..< start + n} \<inter> set taken = {}" using f by (auto simp: block_free_iff)
  show "if plans = [] then {start ..< start + n} \<subseteq> addrs poolCidr
     else (\<exists>q \<in> set plans. sp_saleMode q = SaleBlock \<and> sp_blockSize q = Some n \<and>
            {start ..< start + n} \<subseteq> addrs (sp_cidr q))"
    using r(1) sub by (auto simp: block_ranges_def addrs_range_addrs split: if_splits)
  show "good_net start p" if "\<forall>r \<in> set (block_ranges poolCidr plans n). n dvd net r"
  proof -
    have "n dvd start" using that r(1,4) by (metis diff_add_cancel dvd_add)
    moreover have "start < 2 ^ 32" using b n(1) by linarith
    ultimately show ?thesis
      using b(1) n by (simp add: good_net_def mod_eq_0_iff_dvd)
  qed
qed

text \<open>The ranges of the search, as the texts they come from.\<close>

lemma block_ranges_texts:
  "set (block_ranges poolCidr plans n) =
     parseCidr ` (if plans = [] then {poolCidr}
       else sp_cidr ` {q \<in> set plans. sp_saleMode q = SaleBlock \<and> sp_blockSize q = Some n})"
  by (auto simp: block_ranges_def)

lemma Min_addrs: "wf_cidr c \<Longrightarrow> Min (addrs c) = net (parseCidr c)"
  using wf_cidr_range(2) [of c] by (intro Min_eqI) (auto simp: addrs_def)

lemma scan_block_aligned:
  assumes "0 < n" "scan_block taken n rs = None" "r \<in> set rs" "{start ..< start + n} \<subseteq> range_addrs r" "n dvd (start - net r)"
  shows "{start ..< start + n} \<inter> set taken \<noteq> {}"
proof -
  have b: "net r \<le> start" "start + n \<le> net r + size r"
    using assms(1,4) subsetD [OF assms(4), of start] subsetD [OF assms(4), of "start + n - 1"]
    by (auto simp: range_addrs_def)
  from assms(5) obtain j where j: "start - net r = n * j" by (auto elim: dvdE)
  with assms(1) b(1) have "0 \<le> j" by (metis diff_ge_0_iff_ge zero_le_mult_iff not_le)
  with j have s: "start = net r + int (nat j) * n" by (simp add: algebra_simps)
  have "\<not> block_free taken n (net r + int (nat j) * n)"
    by (rule scan_block_None [OF assms(1-3)]) (use b(2) s in simp)
  then show ?thesis unfolding s [symmetric] by (auto simp: block_free_iff)
qed

text \<open>
  C19. The search for a block is sound and complete. It looks in the whole pool when the pool has
  no sale plans, else in the plans that sell blocks of exactly this size, at the offsets that are
  multiples of the size from the first address of such a range. A block it returns is one of
  these, with as many distinct addresses as requested, all free and listed in order, and a proper
  CIDR network when its range starts on a multiple of the size. When it returns none, every such
  block of every such range has a taken address.
\<close>

theorem findFreeBlock_correct:
  assumes "wf_plans poolCidr plans" "BLOCK_SIZE_TO_PREFIX n = Some p"
    and "C = (if plans = [] then {poolCidr}
              else sp_cidr ` {q \<in> set plans. sp_saleMode q = SaleBlock \<and> sp_blockSize q = Some n})"
  shows "case findFreeBlock poolCidr plans n taken of
      Some (start, ips) \<Rightarrow>
        ips = map (\<lambda>i. intToIp4 (start + int i)) [0..<nat n] \<and> length ips = nat n \<and> distinct ips \<and>
        0 \<le> start \<and> start + n \<le> 2 ^ 32 \<and> {start ..< start + n} \<inter> set taken = {} \<and>
        (\<exists>c \<in> C. {start ..< start + n} \<subseteq> addrs c \<and> n dvd (start - Min (addrs c)) \<and>
           (n dvd Min (addrs c) \<longrightarrow> good_net start p))
    | None \<Rightarrow> (\<forall>c \<in> C. \<forall>start. {start ..< start + n} \<subseteq> addrs c \<and> n dvd (start - Min (addrs c)) \<longrightarrow>
        {start ..< start + n} \<inter> set taken \<noteq> {})"
proof -
  have n: "0 < n" "24 \<le> p" "p \<le> 31" "n = 2 ^ nat (32 - p)" using block_prefix_size [OF assms(2)] by auto
  have rs: "set (block_ranges poolCidr plans n) = parseCidr ` C" by (simp add: block_ranges_texts assms(3))
  have base: "Min (addrs c) = net (parseCidr c)" if "c \<in> C" for c
    using assms(1) that by (intro Min_addrs) (auto simp: wf_plans_def assms(3) split: if_splits)
  show ?thesis
  proof (cases "findFreeBlock poolCidr plans n taken")
    case None
    then have "scan_block taken n (block_ranges poolCidr plans n) = None" by (simp add: findFreeBlock_def)
    note free = scan_block_aligned [OF n(1) this, unfolded rs]
    have "{start ..< start + n} \<inter> set taken \<noteq> {}"
      if "c \<in> C" "{start ..< start + n} \<subseteq> addrs c" "n dvd (start - Min (addrs c))" for c start
      by (rule free [of "parseCidr c"]) (use that in \<open>simp_all add: addrs_range_addrs base\<close>)
    then show ?thesis by (simp add: None)
  next
    case (Some x)
    obtain start ips where x: "x = (start, ips)" by fastforce
    note found = findFreeBlock_sound [OF assms(1,2) Some [unfolded x]]
    from Some have "scan_block taken n (block_ranges poolCidr plans n) = Some start" by (simp add: findFreeBlock_def x)
    from scan_block_Some [OF n(1) this] have "\<exists>r \<in> parseCidr ` C. net r \<le> start \<and> start + n \<le> net r + size r \<and> n dvd (start - net r)"
      unfolding rs by simp
    then obtain c where c: "c \<in> C" "net (parseCidr c) \<le> start"
        "start + n \<le> net (parseCidr c) + size (parseCidr c)" "n dvd (start - net (parseCidr c))" by blast
    have sub: "{start ..< start + n} \<subseteq> addrs c" using c(2,3) by (auto simp: addrs_def)
    have good: "good_net start p" if "n dvd net (parseCidr c)"
    proof -
      have "n dvd start" using that c(4) by (metis diff_add_cancel dvd_add)
      moreover have "start < 2 ^ 32" using found(4) n(1) by linarith
      ultimately show ?thesis using found(3) n by (simp add: good_net_def mod_eq_0_iff_dvd)
    qed
    have "length ips = nat n" "ips = map (\<lambda>i. intToIp4 (start + int i)) [0..<nat n]"
      using found(1) by (simp_all add: block_ips_def)
    then show ?thesis
      using found(2-5) c(1,4) sub good base [OF c(1)] by (auto simp: Some x intro!: bexI [of _ c])
  qed
qed

theorem findFreeBlock_correct_witness:
  "findFreeBlock ''203.0.113.0/24'' example_plans 8 [3405803810] = Some (3405803816, block_ips 3405803816 8) \<and>
   good_net 3405803816 29 \<and> findFreeBlock ''203.0.113.0/30'' [] 2 [3405803776] \<noteq> None"
proof -
  let ?C = "{''203.0.113.32/27''}"
  have e: "findFreeBlock ''203.0.113.0/24'' example_plans 8 [3405803810] = Some (3405803816, block_ips 3405803816 8)"
    by code_simp
  have p: "BLOCK_SIZE_TO_PREFIX 8 = Some 29" "BLOCK_SIZE_TO_PREFIX 2 = Some 31" by code_simp+
  have C: "?C = (if example_plans = [] then {''203.0.113.0/24''}
      else sp_cidr ` {q \<in> set example_plans. sp_saleMode q = SaleBlock \<and> sp_blockSize q = Some 8})"
    by (force simp: example_plans_def)
  have w: "wf_cidr ''203.0.113.32/27''" "(8::int) dvd net (parseCidr ''203.0.113.32/27'')" by code_simp+
  have 1: "good_net 3405803816 29"
    using findFreeBlock_correct [OF wf_example_plans p(1) C, of "[3405803810]"] w
    unfolding e by (simp add: Min_addrs)
  have wf: "wf_plans ''203.0.113.0/30'' []" by code_simp
  have a: "addrs ''203.0.113.0/30'' = {3405803776 ..< 3405803780}"
    unfolding addrs_def by code_simp
  have m: "Min (addrs ''203.0.113.0/30'') = 3405803776"
    by (subst Min_addrs) code_simp+
  have "findFreeBlock ''203.0.113.0/30'' [] 2 [3405803776] \<noteq> None"
  proof
    assume none: "findFreeBlock ''203.0.113.0/30'' [] 2 [3405803776] = None"
    have "\<forall>c \<in> {''203.0.113.0/30''}. \<forall>start. {start ..< start + 2} \<subseteq> addrs c \<and> 2 dvd (start - Min (addrs c)) \<longrightarrow>
        {start ..< start + 2} \<inter> set [3405803776] \<noteq> {}"
      using findFreeBlock_correct [OF wf p(2) refl, of "[3405803776]", unfolded none] by simp
    moreover have "{3405803778 ..< 3405803778 + 2} \<subseteq> addrs ''203.0.113.0/30''" by (simp add: a)
    moreover have "2 dvd (3405803778 - Min (addrs ''203.0.113.0/30''))" by (simp add: m)
    ultimately have "{3405803778 ..< 3405803778 + 2} \<inter> set [3405803776] \<noteq> ({} :: int set)" by blast
    then show False by auto
  qed
  with e 1 show ?thesis by blast
qed

end
