(* ===== verification/Schema.thy ===== *)
theory Schema
  imports SalePlans
begin

text \<open>
  The database as a record of tables, each a list of rows
  (\<^verbatim>\<open>packages/db/src/drizzle/schema.ts\<close>, with the columns the later migrations and the
  queries add). A row keeps the columns the modelled operations read or write; display text in
  Thai (notification titles and bodies), \<^verbatim>\<open>created_at\<close>/\<^verbatim>\<open>updated_at\<close> stamps and the agent
  credentials of a gateway are left out. The last field is not a table: it logs the requests
  sent to the gateway agents, in order.

  \<^verbatim>\<open>gen_random_uuid()\<close> is a parameter of the operations that insert rows: the id of the
  n-th row of a table is \<open>gen n\<close>, and an operation is given a generator that is fresh for the table. One operation
  reads the clock once: \<^verbatim>\<open>NOW()\<close>, \<^verbatim>\<open>new Date()\<close> and \<^verbatim>\<open>Date.now()\<close> are its argument \<open>now\<close>.
\<close>

type_synonym uuid_gen = "nat \<Rightarrow> uuid"

datatype actor_type = ActUser | ActAdmin | ActSystem | ActAgent
datatype credit_tx_type =
  TxCodeRedemption | TxPaymentTopup | TxAdminAdjustment | TxSubscriptionCharge | TxIpCharge | TxRefund | TxReversal
datatype gateway_status = GwActive | GwDraining | GwMaintenance | GwOffline
datatype ip_status = IpAvailable | IpAllocated | IpSuspended | IpReserved | IpBlacklisted
datatype ip_block_status = BlkActive | BlkSuspended | BlkReleased
datatype tunnel_status = TunProvisioning | TunActive | TunSuspended | TunFailed | TunDeleted
datatype code_status = CodeActive | CodeExhausted | CodeExpired | CodeRevoked | CodePaused
datatype user_status = UserActive | UserSuspended | UserDeleted
datatype notify_severity = SevInfo | SevWarning | SevError

fun tunnel_status_name :: "tunnel_status \<Rightarrow> string" where
  "tunnel_status_name TunProvisioning = ''provisioning''"
| "tunnel_status_name TunActive = ''active''"
| "tunnel_status_name TunSuspended = ''suspended''"
| "tunnel_status_name TunFailed = ''failed''"
| "tunnel_status_name TunDeleted = ''deleted''"

fun ip_status_name :: "ip_status \<Rightarrow> string" where
  "ip_status_name IpAvailable = ''available''"
| "ip_status_name IpAllocated = ''allocated''"
| "ip_status_name IpSuspended = ''suspended''"
| "ip_status_name IpReserved = ''reserved''"
| "ip_status_name IpBlacklisted = ''blacklisted''"

fun ip_block_status_name :: "ip_block_status \<Rightarrow> string" where
  "ip_block_status_name BlkActive = ''active''"
| "ip_block_status_name BlkSuspended = ''suspended''"
| "ip_block_status_name BlkReleased = ''released''"

text \<open>\<^verbatim>\<open>COALESCE(column, value)\<close> for a value that is not NULL.\<close>

definition coalesce :: "'a option \<Rightarrow> 'a \<Rightarrow> 'a option" where
  "coalesce x v = (case x of None \<Rightarrow> Some v | Some y \<Rightarrow> Some y)"

record user =
  u_id :: uuid
  u_email :: string
  u_status :: user_status
  u_deleted_at :: "ms option"

record wallet =
  w_id :: uuid
  w_user_id :: uuid
  w_balance :: satang
  w_lifetime_topup :: satang
  w_lifetime_spent :: satang
  w_version :: int

record credit_tx =
  x_id :: uuid
  x_user_id :: uuid
  x_wallet_id :: uuid
  x_type :: credit_tx_type
  x_amount :: satang
  x_balance_after :: satang
  x_description :: string
  x_code_redemption_id :: "uuid option"
  x_admin_user_id :: "uuid option"
  x_idempotency_key :: "string option"

record code_batch =
  cb_id :: uuid
  cb_name :: string
  cb_created_by_admin :: uuid
  cb_credit_value :: satang
  cb_max_uses_total :: int
  cb_max_uses_per_user :: int
  cb_expires_at :: "ms option"
  cb_code_count :: int
  cb_redeemed_count :: int
  cb_total_credit_redeemed :: satang

record credit_code =
  c_id :: uuid
  c_batch_id :: uuid
  c_code :: string
  c_code_normalized :: string
  c_credit_value :: satang
  c_max_uses_total :: int
  c_max_uses_per_user :: int
  c_current_uses :: int
  c_expires_at :: "ms option"
  c_status :: code_status

record redemption =
  rd_id :: uuid
  rd_code_id :: uuid
  rd_user_id :: uuid
  rd_transaction_id :: uuid
  rd_credit_added :: satang

record gateway =
  g_id :: uuid
  g_hostname :: string
  g_wg_public_key :: "string option"
  g_wg_endpoint :: "string option"
  g_wg_port :: "int option"
  g_private_subnet :: cidr
  g_max_tunnels :: int
  g_current_tunnels :: int
  g_status :: gateway_status
  g_supported_protocols :: "string list"
  g_bgp_enabled :: bool
  g_bgp_router_id :: "ip4 option"

record pool =
  p_id :: uuid
  p_block :: cidr
  p_available_count :: int
  p_allocated_count :: int

record plan_row =
  pl_id :: uuid
  pl_pool_id :: uuid
  pl_cidr :: cidr
  pl_sale_mode :: sale_mode
  pl_block_size :: "int option"

record tunnel =
  t_id :: uuid
  t_user_id :: uuid
  t_gateway_id :: uuid
  t_name :: string
  t_description :: "string option"
  t_protocol :: string
  t_speed_tier :: string
  t_price_satang :: "satang option"
  t_private_ip :: ip4
  t_wg_public_key :: "string option"
  t_wg_private_key_encrypted :: "string option"
  t_status :: tunnel_status
  t_last_handshake_at :: "ms option"
  t_next_billing_at :: ms
  t_last_billed_at :: "ms option"
  t_suspended_at :: "ms option"
  t_delete_after :: "ms option"
  t_deleted_at :: "ms option"
  t_remote_endpoint_host :: "string option"
  t_remote_endpoint_ip :: "ip4 option"
  t_remote_endpoint_resolved_at :: "ms option"
  t_gre_key :: "int option"

record ip_block =
  b_id :: uuid
  b_user_id :: uuid
  b_pool_id :: uuid
  b_block :: cidr
  b_block_size :: int
  b_price_satang :: satang
  b_status :: ip_block_status
  b_next_billing_at :: ms
  b_last_billed_at :: "ms option"
  b_suspended_at :: "ms option"
  b_delete_after :: "ms option"

record public_ip =
  i_ip_address :: ip4
  i_pool_id :: uuid
  i_user_id :: "uuid option"
  i_tunnel_id :: "uuid option"
  i_block_id :: "uuid option"
  i_status :: ip_status
  i_price_satang :: "satang option"
  i_next_billing_at :: "ms option"
  i_last_billed_at :: "ms option"
  i_suspended_at :: "ms option"
  i_delete_after :: "ms option"
  i_allocated_at :: "ms option"
  i_released_at :: "ms option"
  i_sale_mode :: string

record audit_log =
  a_actor_type :: actor_type
  a_actor_id :: "uuid option"
  a_action :: string
  a_resource_type :: "string option"
  a_resource_id :: "uuid option"
  a_metadata :: "(string \<times> json) list"
  a_created_at :: ms

record notification =
  n_user_id :: uuid
  n_type :: string
  n_severity :: notify_severity
  n_metadata :: "(string \<times> json) list"

record speed_price =
  ps_tier :: string
  ps_price :: satang
  ps_sort_order :: int

record ip_price_row =
  pi_block_size :: int
  pi_price :: satang

record allow_cell =
  pa_protocol :: string
  pa_tier :: string
  pa_enabled :: bool

text \<open>
  The requests of \<^verbatim>\<open>packages/gateway-client\<close> the modelled code sends, with the gateway they go
  to; idempotency tags are left out.
\<close>

datatype gw_call =
    CreatePeer (gc_gateway: uuid) (gc_peerId: string) (gc_publicKey: "string option")
      (gc_privateIp: ip4) (gc_publicIps: "cidr list") (gc_speed: int)
  | UpdatePeerIps (gc_gateway: uuid) (gc_key: "string option") (gc_priv: ip4) (gc_ips: "cidr list")
      (gc_rate: "int option")
  | DeletePeer (gc_gateway: uuid) (gc_key: "string option")
  | CreateGrePeer (gc_gateway: uuid) (gc_peerId: string) (gc_remote: "ip4 option") (gc_local: "ip4 option")
      (gc_tunnelLocal: cidr) (gc_tunnelRemote: ip4) (gc_publicIps: "cidr list") (gc_speed: int)
  | PatchGrePeer (gc_gateway: uuid) (gc_peerId: string) (gc_newRemote: "ip4 option")
      (gc_newIps: "cidr list option") (gc_rate: "int option")
  | DeleteGrePeer (gc_gateway: uuid) (gc_peerId: string)
  | SetBlackhole (gc_gateway: uuid) (gc_cidr: cidr) (gc_add: bool)
  | SyncFrrPrefixList (gc_gateway: uuid) (gc_entries: "(cidr \<times> int) list")

record admin_user =
  au_id :: uuid
  au_email :: string
  au_active :: bool

record db =
  users :: "user list"
  wallets :: "wallet list"
  txs :: "credit_tx list"
  batches :: "code_batch list"
  codes :: "credit_code list"
  redemptions :: "redemption list"
  gateways :: "gateway list"
  pools :: "pool list"
  plans :: "plan_row list"
  tunnels :: "tunnel list"
  blocks :: "ip_block list"
  ips :: "public_ip list"
  audits :: "audit_log list"
  notifs :: "notification list"
  pricing_speed :: "speed_price list"
  pricing_ip :: "ip_price_row list"
  pricing_allow :: "allow_cell list"
  admins :: "admin_user list"
  calls :: "gw_call list"

definition empty_db :: db where
  "empty_db = \<lparr>users = [], wallets = [], txs = [], batches = [], codes = [], redemptions = [],
     gateways = [], pools = [], plans = [], tunnels = [], blocks = [], ips = [], audits = [],
     notifs = [], pricing_speed = [], pricing_ip = [], pricing_allow = [], admins = [], calls = []\<rparr>"

type_synonym 'r op = "db \<Rightarrow> (error + 'r) \<times> db"

section \<open>Statements shared by the operations\<close>

text \<open>\<^verbatim>\<open>sql.begin\<close>: a body that throws is rolled back.\<close>

definition sql_begin :: "(db \<Rightarrow> error + ('r \<times> db)) \<Rightarrow> 'r op" where
  "sql_begin body s = (case body s of Inl e \<Rightarrow> (Inl e, s) | Inr (r, s') \<Rightarrow> (Inr r, s'))"

definition audit :: "ms \<Rightarrow> actor_type \<Rightarrow> uuid option \<Rightarrow> string \<Rightarrow> string option \<Rightarrow> uuid option \<Rightarrow>
    (string \<times> json) list \<Rightarrow> db \<Rightarrow> db" where
  "audit now actor actorId action rtype rid metadata s =
     s\<lparr>audits := audits s @ [\<lparr>a_actor_type = actor, a_actor_id = actorId, a_action = action,
         a_resource_type = rtype, a_resource_id = rid, a_metadata = metadata, a_created_at = now\<rparr>]\<rparr>"

text \<open>\<^verbatim>\<open>notify\<close> of \<^verbatim>\<open>notify.ts\<close>, without the Thai display text.\<close>

definition notify :: "uuid \<Rightarrow> string \<Rightarrow> notify_severity \<Rightarrow> (string \<times> json) list \<Rightarrow> db \<Rightarrow> db" where
  "notify userId typ sev metadata s =
     s\<lparr>notifs := notifs s @ [\<lparr>n_user_id = userId, n_type = typ, n_severity = sev, n_metadata = metadata\<rparr>]\<rparr>"

text \<open>
  The ledger key is UNIQUE, and NULL never conflicts. \<open>insert_tx\<close> is the plain insert, which
  raises on a duplicate; \<open>insert_tx_once\<close> is \<^verbatim>\<open>ON CONFLICT (idempotency_key) DO NOTHING\<close>,
  \<open>None\<close> when nothing was inserted.
\<close>

definition key_used :: "string option \<Rightarrow> db \<Rightarrow> bool" where
  "key_used k s \<longleftrightarrow> k \<noteq> None \<and> k \<in> set (map x_idempotency_key (txs s))"

definition insert_tx :: "credit_tx \<Rightarrow> db \<Rightarrow> error + db" where
  "insert_tx x s = (if key_used (x_idempotency_key x) s
     then Inl (UniqueViolation ''credit_transactions_idempotency_key_key'')
     else Inr (s\<lparr>txs := txs s @ [x]\<rparr>))"

definition insert_tx_once :: "credit_tx \<Rightarrow> db \<Rightarrow> db option" where
  "insert_tx_once x s = (if key_used (x_idempotency_key x) s then None else Some (s\<lparr>txs := txs s @ [x]\<rparr>))"

definition wallet_of :: "uuid \<Rightarrow> db \<Rightarrow> wallet option" where
  "wallet_of userId s = find (\<lambda>w. w_user_id w = userId) (wallets s)"

text \<open>
  The wallet updates: \<^verbatim>\<open>balance_satang = newBalance, lifetime_... + amount, version + 1\<close>.
\<close>

definition wallet_debit :: "uuid \<Rightarrow> satang \<Rightarrow> satang \<Rightarrow> db \<Rightarrow> db" where
  "wallet_debit wid newBalance price s = s\<lparr>wallets := upd_where (\<lambda>w. w_id w = wid)
     (\<lambda>w. w\<lparr>w_balance := newBalance, w_lifetime_spent := w_lifetime_spent w + price,
            w_version := w_version w + 1\<rparr>) (wallets s)\<rparr>"

definition wallet_credit :: "uuid \<Rightarrow> satang \<Rightarrow> satang \<Rightarrow> db \<Rightarrow> db" where
  "wallet_credit wid newBalance value s = s\<lparr>wallets := upd_where (\<lambda>w. w_id w = wid)
     (\<lambda>w. w\<lparr>w_balance := newBalance, w_lifetime_topup := w_lifetime_topup w + value,
            w_version := w_version w + 1\<rparr>) (wallets s)\<rparr>"

definition set_ips :: "(public_ip \<Rightarrow> bool) \<Rightarrow> (public_ip \<Rightarrow> public_ip) \<Rightarrow> db \<Rightarrow> db" where
  "set_ips P f s = s\<lparr>ips := upd_where P f (ips s)\<rparr>"

definition set_tunnels :: "(tunnel \<Rightarrow> bool) \<Rightarrow> (tunnel \<Rightarrow> tunnel) \<Rightarrow> db \<Rightarrow> db" where
  "set_tunnels P f s = s\<lparr>tunnels := upd_where P f (tunnels s)\<rparr>"

definition set_blocks :: "(ip_block \<Rightarrow> bool) \<Rightarrow> (ip_block \<Rightarrow> ip_block) \<Rightarrow> db \<Rightarrow> db" where
  "set_blocks P f s = s\<lparr>blocks := upd_where P f (blocks s)\<rparr>"

definition set_gateways :: "(gateway \<Rightarrow> bool) \<Rightarrow> (gateway \<Rightarrow> gateway) \<Rightarrow> db \<Rightarrow> db" where
  "set_gateways P f s = s\<lparr>gateways := upd_where P f (gateways s)\<rparr>"

text \<open>\<^verbatim>\<open>current_tunnels = GREATEST(current_tunnels - 1, 0)\<close>.\<close>

definition gateway_drop :: "uuid \<Rightarrow> db \<Rightarrow> db" where
  "gateway_drop gid = set_gateways (\<lambda>g. g_id g = gid)
     (\<lambda>g. g\<lparr>g_current_tunnels := max (g_current_tunnels g - 1) 0\<rparr>)"

text \<open>Pool counters: \<open>pool_give\<close> returns addresses to the pool, \<open>pool_take\<close> allocates them.\<close>

definition pool_give :: "uuid \<Rightarrow> int \<Rightarrow> db \<Rightarrow> db" where
  "pool_give pid n s = s\<lparr>pools := upd_where (\<lambda>p. p_id p = pid)
     (\<lambda>p. p\<lparr>p_available_count := p_available_count p + n,
            p_allocated_count := max (p_allocated_count p - n) 0\<rparr>) (pools s)\<rparr>"

definition pool_take :: "uuid \<Rightarrow> int \<Rightarrow> db \<Rightarrow> db" where
  "pool_take pid n s = s\<lparr>pools := upd_where (\<lambda>p. p_id p = pid)
     (\<lambda>p. p\<lparr>p_available_count := p_available_count p - n,
            p_allocated_count := p_allocated_count p + n\<rparr>) (pools s)\<rparr>"

definition send :: "gw_call \<Rightarrow> db \<Rightarrow> db" where
  "send c s = s\<lparr>calls := calls s @ [c]\<rparr>"

lemmas stmt_defs = audit_def notify_def wallet_debit_def wallet_credit_def set_ips_def
  set_tunnels_def set_blocks_def set_gateways_def gateway_drop_def pool_give_def pool_take_def send_def

end
