(* ===== verification/Ledger.thy ===== *)
theory Ledger
  imports Schema
begin

text \<open>
  Wallets and the ledger \<^verbatim>\<open>credit_transactions\<close>: the invariant every operation on money keeps,
  and the two interfaces the operations are proved against. \<open>money_op\<close> is the contract of an
  operation that may charge or credit a wallet; \<open>wallet_frame\<close> is the stronger contract of one
  that never touches wallets and ledger. The client of both is the loop
  \<^verbatim>\<open>for (x of xs) try { await op(x) } catch (e) { errors.push(e) }\<close> of the schedulers.
\<close>

section \<open>Frame rules of the statements\<close>

lemma stmt_wallets [simp]:
  "wallets (audit now a i act rt ri md s) = wallets s" "wallets (notify u ty sv md s) = wallets s"
  "wallets (set_ips P f s) = wallets s" "wallets (set_tunnels P2 f2 s) = wallets s"
  "wallets (set_blocks P3 f3 s) = wallets s" "wallets (set_gateways P4 f4 s) = wallets s"
  "wallets (gateway_drop g s) = wallets s" "wallets (pool_give p n s) = wallets s"
  "wallets (pool_take p n s) = wallets s" "wallets (send c s) = wallets s"
  by (simp_all add: stmt_defs)

lemma stmt_txs [simp]:
  "txs (audit now a i act rt ri md s) = txs s" "txs (notify u ty sv md s) = txs s"
  "txs (set_ips P f s) = txs s" "txs (set_tunnels P2 f2 s) = txs s"
  "txs (set_blocks P3 f3 s) = txs s" "txs (set_gateways P4 f4 s) = txs s"
  "txs (gateway_drop g s) = txs s" "txs (pool_give p n s) = txs s"
  "txs (pool_take p n s) = txs s" "txs (send c s) = txs s"
  "txs (wallet_debit wid b n s) = txs s" "txs (wallet_credit wid b n s) = txs s"
  by (simp_all add: stmt_defs)

lemma stmt_ips [simp]:
  "ips (audit now a i act rt ri md s) = ips s" "ips (notify u ty sv md s) = ips s"
  "ips (set_ips P f s) = upd_where P f (ips s)" "ips (set_tunnels P2 f2 s) = ips s"
  "ips (set_blocks P3 f3 s) = ips s" "ips (set_gateways P4 f4 s) = ips s"
  "ips (gateway_drop g s) = ips s" "ips (pool_give p n s) = ips s"
  "ips (pool_take p n s) = ips s" "ips (send c s) = ips s"
  "ips (wallet_debit wid b n s) = ips s" "ips (wallet_credit wid b n s) = ips s"
  by (simp_all add: stmt_defs)

lemma stmt_tunnels [simp]:
  "tunnels (audit now a i act rt ri md s) = tunnels s" "tunnels (notify u ty sv md s) = tunnels s"
  "tunnels (set_ips P f s) = tunnels s" "tunnels (set_tunnels P2 f2 s) = upd_where P2 f2 (tunnels s)"
  "tunnels (set_blocks P3 f3 s) = tunnels s" "tunnels (set_gateways P4 f4 s) = tunnels s"
  "tunnels (gateway_drop g s) = tunnels s" "tunnels (pool_give p n s) = tunnels s"
  "tunnels (pool_take p n s) = tunnels s" "tunnels (send c s) = tunnels s"
  "tunnels (wallet_debit wid b n s) = tunnels s" "tunnels (wallet_credit wid b n s) = tunnels s"
  by (simp_all add: stmt_defs)

lemma stmt_blocks [simp]:
  "blocks (audit now a i act rt ri md s) = blocks s" "blocks (notify u ty sv md s) = blocks s"
  "blocks (set_ips P f s) = blocks s" "blocks (set_tunnels P2 f2 s) = blocks s"
  "blocks (set_blocks P3 f3 s) = upd_where P3 f3 (blocks s)" "blocks (set_gateways P4 f4 s) = blocks s"
  "blocks (gateway_drop g s) = blocks s" "blocks (pool_give p n s) = blocks s"
  "blocks (pool_take p n s) = blocks s" "blocks (send c s) = blocks s"
  "blocks (wallet_debit wid b n s) = blocks s" "blocks (wallet_credit wid b n s) = blocks s"
  by (simp_all add: stmt_defs)

lemma stmt_gateways [simp]:
  "gateways (audit now a i act rt ri md s) = gateways s" "gateways (notify u ty sv md s) = gateways s"
  "gateways (set_ips P f s) = gateways s" "gateways (set_tunnels P2 f2 s) = gateways s"
  "gateways (set_blocks P3 f3 s) = gateways s" "gateways (pool_give p n s) = gateways s"
  "gateways (pool_take p n s) = gateways s" "gateways (send c s) = gateways s"
  "gateways (wallet_debit wid b n s) = gateways s" "gateways (wallet_credit wid b n s) = gateways s"
  by (simp_all add: stmt_defs)

lemma stmt_pools [simp]:
  "pools (audit now a i act rt ri md s) = pools s" "pools (notify u ty sv md s) = pools s"
  "pools (set_ips P f s) = pools s" "pools (set_tunnels P2 f2 s) = pools s"
  "pools (set_blocks P3 f3 s) = pools s" "pools (set_gateways P4 f4 s) = pools s"
  "pools (gateway_drop g s) = pools s" "pools (send c s) = pools s"
  "pools (wallet_debit wid b n s) = pools s" "pools (wallet_credit wid b n s) = pools s"
  by (simp_all add: stmt_defs)

lemma stmt_pricing [simp]:
  "pricing_speed (audit now a i act rt ri md s) = pricing_speed s" "pricing_speed (notify u ty sv md s) = pricing_speed s"
  "pricing_speed (set_ips P f s) = pricing_speed s" "pricing_speed (set_tunnels P2 f2 s) = pricing_speed s"
  "pricing_speed (set_blocks P3 f3 s) = pricing_speed s" "pricing_speed (set_gateways P4 f4 s) = pricing_speed s"
  "pricing_speed (gateway_drop g s) = pricing_speed s" "pricing_speed (pool_give p n s) = pricing_speed s"
  "pricing_speed (pool_take p n s) = pricing_speed s" "pricing_speed (send c s) = pricing_speed s"
  "pricing_speed (wallet_debit wid b n s) = pricing_speed s" "pricing_speed (wallet_credit wid b n s) = pricing_speed s"
  "pricing_ip (audit now a i act rt ri md s) = pricing_ip s" "pricing_ip (notify u ty sv md s) = pricing_ip s"
  "pricing_ip (set_ips P f s) = pricing_ip s" "pricing_ip (set_tunnels P2 f2 s) = pricing_ip s"
  "pricing_ip (set_blocks P3 f3 s) = pricing_ip s" "pricing_ip (set_gateways P4 f4 s) = pricing_ip s"
  "pricing_ip (gateway_drop g s) = pricing_ip s" "pricing_ip (pool_give p n s) = pricing_ip s"
  "pricing_ip (pool_take p n s) = pricing_ip s" "pricing_ip (send c s) = pricing_ip s"
  "pricing_ip (wallet_debit wid b n s) = pricing_ip s" "pricing_ip (wallet_credit wid b n s) = pricing_ip s"
  "plans (audit now a i act rt ri md s) = plans s" "plans (notify u ty sv md s) = plans s"
  "plans (set_ips P f s) = plans s" "plans (set_tunnels P2 f2 s) = plans s"
  "plans (set_blocks P3 f3 s) = plans s" "plans (set_gateways P4 f4 s) = plans s"
  "plans (gateway_drop g s) = plans s" "plans (pool_give p n s) = plans s"
  "plans (pool_take p n s) = plans s" "plans (send c s) = plans s"
  "plans (wallet_debit wid b n s) = plans s" "plans (wallet_credit wid b n s) = plans s"
  "users (audit now a i act rt ri md s) = users s" "users (notify u ty sv md s) = users s"
  "users (set_ips P f s) = users s" "users (set_tunnels P2 f2 s) = users s"
  "users (set_blocks P3 f3 s) = users s" "users (set_gateways P4 f4 s) = users s"
  "users (gateway_drop g s) = users s" "users (pool_give p n s) = users s"
  "users (pool_take p n s) = users s" "users (send c s) = users s"
  "users (wallet_debit wid b n s) = users s" "users (wallet_credit wid b n s) = users s"
  by (simp_all add: stmt_defs)

lemma stmt_calls [simp]:
  "calls (audit now a i act rt ri md s) = calls s" "calls (notify u ty sv md s) = calls s"
  "calls (set_ips P f s) = calls s" "calls (set_tunnels P2 f2 s) = calls s"
  "calls (set_blocks P3 f3 s) = calls s" "calls (set_gateways P4 f4 s) = calls s"
  "calls (gateway_drop g s) = calls s" "calls (pool_give p n s) = calls s"
  "calls (pool_take p n s) = calls s" "calls (wallet_debit wid b n s) = calls s"
  "calls (wallet_credit wid b n s) = calls s" "calls (send c s) = calls s @ [c]"
  by (simp_all add: stmt_defs)

lemma sql_begin_cases:
  obtains (Throw) e where "body s = Inl e" "sql_begin body s = (Inl e, s)"
  | (Commit) r s' where "body s = Inr (r, s')" "sql_begin body s = (Inr r, s')"
  by (cases "body s") (auto simp: sql_begin_def)

section \<open>The ledger invariant\<close>

definition ledger_sum :: "uuid \<Rightarrow> credit_tx list \<Rightarrow> satang" where
  "ledger_sum wid xs = sum_list (map x_amount (filter (\<lambda>x. x_wallet_id x = wid) xs))"

lemma ledger_sum_Nil [simp]: "ledger_sum wid [] = 0"
  by (simp add: ledger_sum_def)

lemma ledger_sum_snoc [simp]:
  "ledger_sum wid (xs @ [x]) = ledger_sum wid xs + (if x_wallet_id x = wid then x_amount x else 0)"
  by (simp add: ledger_sum_def)

definition balance_trail :: "credit_tx list \<Rightarrow> bool" where
  "balance_trail xs \<longleftrightarrow> (\<forall>k < length xs.
     x_balance_after (xs ! k) = ledger_sum (x_wallet_id (xs ! k)) (take (Suc k) xs))"

lemma balance_trail_Nil [simp]: "balance_trail []"
  by (simp add: balance_trail_def)

lemma balance_trail_snoc:
  "balance_trail (xs @ [x]) \<longleftrightarrow>
     balance_trail xs \<and> x_balance_after x = ledger_sum (x_wallet_id x) xs + x_amount x"
  by (auto simp: balance_trail_def nth_append less_Suc_eq)

definition keys :: "db \<Rightarrow> string option list" where
  "keys s = filter (\<lambda>k. k \<noteq> None) (map x_idempotency_key (txs s))"

definition wallet_ok :: "db \<Rightarrow> wallet \<Rightarrow> bool" where
  "wallet_ok s w \<longleftrightarrow> 0 \<le> w_balance w \<and> w_balance w = ledger_sum (w_id w) (txs s) \<and>
     w_balance w = w_lifetime_topup w - w_lifetime_spent w"

definition ledger_ok :: "db \<Rightarrow> bool" where
  "ledger_ok s \<longleftrightarrow>
     distinct (map w_id (wallets s)) \<and> distinct (map w_user_id (wallets s)) \<and>
     (\<forall>w \<in> set (wallets s). wallet_ok s w) \<and> balance_trail (txs s) \<and> distinct (keys s)"

lemma ledger_ok_cong: "wallets s' = wallets s \<Longrightarrow> txs s' = txs s \<Longrightarrow> ledger_ok s' = ledger_ok s"
  by (simp add: ledger_ok_def wallet_ok_def keys_def)

lemma ledger_okD:
  assumes "ledger_ok s" "w \<in> set (wallets s)"
  shows "0 \<le> w_balance w" "w_balance w = ledger_sum (w_id w) (txs s)"
  using assms by (auto simp: ledger_ok_def wallet_ok_def)

lemma wallet_of_Some:
  "wallet_of u s = Some w \<Longrightarrow> w \<in> set (wallets s) \<and> w_user_id w = u"
  by (auto simp: wallet_of_def dest: find_SomeD)

lemma distinct_key_eq:
  "distinct (map f xs) \<Longrightarrow> x \<in> set xs \<Longrightarrow> y \<in> set xs \<Longrightarrow> f x = f y \<Longrightarrow> x = y"
  by (auto simp: distinct_map inj_on_def)

text \<open>
  Posting one entry: a ledger row with the right running balance, together with the update of
  its wallet, keeps the invariant.
\<close>

lemma ledger_post:
  assumes ok: "ledger_ok s" and w: "w \<in> set (wallets s)"
    and x: "x_wallet_id x = w_id w" "x_balance_after x = w_balance w + x_amount x"
    and nonneg: "0 \<le> w_balance w + x_amount x"
    and key: "\<not> key_used (x_idempotency_key x) s"
    and ws: "wallets s' = upd_where (\<lambda>v. w_id v = w_id w) f (wallets s)"
    and ts: "txs s' = txs s @ [x]"
    and f: "\<And>v. w_id (f v) = w_id v" "\<And>v. w_user_id (f v) = w_user_id v"
      "w_balance (f w) = w_balance w + x_amount x"
      "w_lifetime_topup (f w) - w_lifetime_spent (f w) = w_lifetime_topup w - w_lifetime_spent w + x_amount x"
  shows "ledger_ok s'"
proof -
  have wok: "wallet_ok s w" using ok w by (auto simp: ledger_ok_def)
  have "wallet_ok s' v" if v: "v \<in> set (wallets s')" for v
  proof -
    from v ws obtain u where u: "u \<in> set (wallets s)" "v = (if w_id u = w_id w then f u else u)"
      by (auto simp: in_set_upd_where)
    show ?thesis
    proof (cases "w_id u = w_id w")
      case True
      with u w ok have "u = w" by (auto simp: ledger_ok_def intro: distinct_key_eq)
      with True u(2) wok f x nonneg show ?thesis
        by (simp add: wallet_ok_def ts)
    next
      case False
      with u ok x(1) show ?thesis by (auto simp: ledger_ok_def wallet_ok_def ts)
    qed
  qed
  moreover have "balance_trail (txs s')"
    using ok x wok by (simp add: ts balance_trail_snoc ledger_ok_def wallet_ok_def)
  moreover have "distinct (keys s')"
    using ok key by (auto simp: ledger_ok_def keys_def ts key_used_def)
  moreover have "map w_id (wallets s') = map w_id (wallets s)"
    "map w_user_id (wallets s') = map w_user_id (wallets s)"
    unfolding ws using f(1,2) by (simp_all add: map_upd_where_same)
  ultimately show ?thesis using ok by (simp add: ledger_ok_def)
qed

text \<open>The two shapes the operations use: a debit and a credit.\<close>

lemma ledger_debit:
  assumes "ledger_ok s" "w \<in> set (wallets s)" "price \<le> w_balance w"
    and "\<not> key_used (x_idempotency_key x) s"
    and "x_wallet_id x = w_id w" "x_amount x = - price" "x_balance_after x = w_balance w - price"
    and "wallets s' = wallets (wallet_debit (w_id w) (w_balance w - price) price s)" "txs s' = txs s @ [x]"
  shows "ledger_ok s'"
proof (rule ledger_post [OF assms(1,2), of x s'])
  show "wallets s' = upd_where (\<lambda>v. w_id v = w_id w)
     (\<lambda>v. v\<lparr>w_balance := w_balance w - price, w_lifetime_spent := w_lifetime_spent v + price,
            w_version := w_version v + 1\<rparr>) (wallets s)"
    using assms by (simp add: wallet_debit_def)
qed (use assms in simp_all)

lemma ledger_credit:
  assumes "ledger_ok s" "w \<in> set (wallets s)" "0 \<le> v"
    and "\<not> key_used (x_idempotency_key x) s"
    and "x_wallet_id x = w_id w" "x_amount x = v" "x_balance_after x = w_balance w + v"
    and "wallets s' = wallets (wallet_credit (w_id w) (w_balance w + v) v s)" "txs s' = txs s @ [x]"
  shows "ledger_ok s'"
proof (rule ledger_post [OF assms(1,2), of x s'])
  show "wallets s' = upd_where (\<lambda>u. w_id u = w_id w)
     (\<lambda>u. u\<lparr>w_balance := w_balance w + v, w_lifetime_topup := w_lifetime_topup u + v,
            w_version := w_version u + 1\<rparr>) (wallets s)"
    using assms by (simp add: wallet_credit_def)
  show "0 \<le> w_balance w + x_amount x"
    using assms ledger_okD(1) [OF assms(1,2)] by simp
qed (use assms in simp_all)

section \<open>Loops that collect errors\<close>

text \<open>
  \<^verbatim>\<open>for (const x of xs) { try { r = await op(x); ... } catch (e) { errors.push(...) } }\<close>: each
  item is tried, its outcome recorded, and the next one runs on the database it left.
\<close>

fun for_try :: "('a \<Rightarrow> 'r op) \<Rightarrow> 'a list \<Rightarrow> db \<Rightarrow> ('a \<times> (error + 'r)) list \<times> db" where
  "for_try f [] s = ([], s)"
| "for_try f (x # xs) s =
     (case f x s of (r, s1) \<Rightarrow> (case for_try f xs s1 of (rs, s2) \<Rightarrow> ((x, r) # rs, s2)))"

lemma for_try_inv:
  "(\<And>x s. x \<in> set xs \<Longrightarrow> I s \<Longrightarrow> I (snd (f x s))) \<Longrightarrow> I s \<Longrightarrow> I (snd (for_try f xs s))"
proof (induction xs arbitrary: s)
  case (Cons x xs)
  obtain r s1 where 1: "f x s = (r, s1)" by (cases "f x s")
  with Cons.prems have "I s1" by (metis list.set_intros(1) snd_conv)
  with Cons have "I (snd (for_try f xs s1))" by auto
  then show ?case by (simp add: 1 case_prod_beta)
qed simp

lemma map_fst_for_try: "map fst (fst (for_try f xs s)) = xs"
  by (induction xs arbitrary: s) (simp_all add: case_prod_beta)

section \<open>Interfaces of the operations\<close>

locale money_op =
  fixes f :: "'a \<Rightarrow> 'r op"
  assumes ledger_kept: "ledger_ok s \<Longrightarrow> ledger_ok (snd (f x s))"
begin

lemma loop_ledger_kept: "ledger_ok s \<Longrightarrow> ledger_ok (snd (for_try f xs s))"
  by (rule for_try_inv) (rule ledger_kept)

end

locale wallet_frame =
  fixes f :: "'a \<Rightarrow> 'r op"
  assumes frame: "wallets (snd (f x s)) = wallets s \<and> txs (snd (f x s)) = txs s"
begin

lemma loop_frame: "wallets (snd (for_try f xs s)) = wallets s \<and> txs (snd (for_try f xs s)) = txs s"
  by (rule for_try_inv [where I = "\<lambda>t. wallets t = wallets s \<and> txs t = txs s"]) (simp_all add: frame)

end

sublocale wallet_frame \<subseteq> money: money_op f
  by unfold_locales (use ledger_ok_cong frame in blast)

text \<open>A transaction satisfies a contract when its committed runs do.\<close>

lemma sql_begin_inv:
  "(\<And>r s'. body s = Inr (r, s') \<Longrightarrow> I s') \<Longrightarrow> I s \<Longrightarrow> I (snd (sql_begin body s))"
  by (cases rule: sql_begin_cases [of body s]) auto

lemma sql_begin_ledger:
  "(\<And>r s'. body s = Inr (r, s') \<Longrightarrow> ledger_ok s') \<Longrightarrow> ledger_ok s \<Longrightarrow> ledger_ok (snd (sql_begin body s))"
  by (cases rule: sql_begin_cases [of body s]) auto

lemma sql_begin_frame:
  "(\<And>r s'. body s = Inr (r, s') \<Longrightarrow> wallets s' = wallets s \<and> txs s' = txs s) \<Longrightarrow>
     wallets (snd (sql_begin body s)) = wallets s \<and> txs (snd (sql_begin body s)) = txs s"
  by (cases rule: sql_begin_cases [of body s]) auto

end
