(* ===== verification/Pricing.thy ===== *)
theory Pricing
  imports Ledger
begin

text \<open>
  \<^verbatim>\<open>packages/provisioning/src/pricing.ts\<close>: the price catalogue and the protocol/tier allow
  matrix. A price of the admin's request is \<open>None\<close> when it is not an integer.
\<close>

record PricingConfig =
  pc_speed :: "(string \<times> satang \<times> int) list"
  pc_ip :: "(int \<times> satang) list"
  pc_allow :: "(string \<times> string \<times> bool) list"

definition getPricing :: "db \<Rightarrow> PricingConfig" where
  "getPricing s =
     \<lparr>pc_speed = map (\<lambda>r. (ps_tier r, ps_price r, ps_sort_order r)) (sort_key ps_sort_order (pricing_speed s)),
      pc_ip = map (\<lambda>r. (pi_block_size r, pi_price r)) (sort_key pi_block_size (pricing_ip s)),
      pc_allow = map (\<lambda>r. (pa_protocol r, pa_tier r, pa_enabled r)) (pricing_allow s)\<rparr>"

definition speedTierPrice :: "string \<Rightarrow> db \<Rightarrow> error + satang" where
  "speedTierPrice tier s = (case find (\<lambda>r. ps_tier r = tier) (pricing_speed s) of
       None \<Rightarrow> Inl (JsError (''unknown speed tier: '' @ tier))
     | Some r \<Rightarrow> Inr (ps_price r))"

definition ipPrice :: "int \<Rightarrow> db \<Rightarrow> error + satang" where
  "ipPrice blockSize s = (case find (\<lambda>r. pi_block_size r = blockSize) (pricing_ip s) of
       None \<Rightarrow> Inl (JsError (''no price for block size: '' @ show_int blockSize))
     | Some r \<Rightarrow> Inr (pi_price r))"

definition tierAllowed :: "string \<Rightarrow> string \<Rightarrow> db \<Rightarrow> bool" where
  "tierAllowed protocol tier s =
     (case find (\<lambda>r. pa_protocol r = protocol \<and> pa_tier r = tier) (pricing_allow s) of
        None \<Rightarrow> False | Some r \<Rightarrow> pa_enabled r)"

record SavePricingInput =
  in_speed :: "(string \<times> int option) list"
  in_ip :: "(int \<times> int option) list"
  in_allow :: "(string \<times> string \<times> bool) list"

fun save_speed :: "(string \<times> int option) list \<Rightarrow> db \<Rightarrow> error + db" where
  "save_speed [] s = Inr s"
| "save_speed ((tier, price) # rest) s =
     (case price of
        None \<Rightarrow> Inl (JsError (''invalid price for '' @ tier))
      | Some p \<Rightarrow> if p < 0 then Inl (JsError (''invalid price for '' @ tier))
          else save_speed rest (s\<lparr>pricing_speed :=
            upd_where (\<lambda>r. ps_tier r = tier) (\<lambda>r. r\<lparr>ps_price := p\<rparr>) (pricing_speed s)\<rparr>))"

fun save_ip :: "(int \<times> int option) list \<Rightarrow> db \<Rightarrow> error + db" where
  "save_ip [] s = Inr s"
| "save_ip ((n, price) # rest) s =
     (case price of
        None \<Rightarrow> Inl (JsError (''invalid price for block '' @ show_int n))
      | Some p \<Rightarrow> if p < 0 then Inl (JsError (''invalid price for block '' @ show_int n))
          else save_ip rest (s\<lparr>pricing_ip :=
            upd_where (\<lambda>r. pi_block_size r = n) (\<lambda>r. r\<lparr>pi_price := p\<rparr>) (pricing_ip s)\<rparr>))"

definition upsert_allow :: "string \<times> string \<times> bool \<Rightarrow> db \<Rightarrow> db" where
  "upsert_allow = (\<lambda>(protocol, tier, enabled) s.
     if \<exists>r \<in> set (pricing_allow s). pa_protocol r = protocol \<and> pa_tier r = tier
     then s\<lparr>pricing_allow := upd_where (\<lambda>r. pa_protocol r = protocol \<and> pa_tier r = tier)
            (\<lambda>r. r\<lparr>pa_enabled := enabled\<rparr>) (pricing_allow s)\<rparr>
     else s\<lparr>pricing_allow := pricing_allow s @ [\<lparr>pa_protocol = protocol, pa_tier = tier, pa_enabled = enabled\<rparr>]\<rparr>)"

definition savePricing :: "SavePricingInput \<Rightarrow> unit op" where
  "savePricing inp = sql_begin (\<lambda>s.
     case save_speed (in_speed inp) s of
       Inl e \<Rightarrow> Inl e
     | Inr s1 \<Rightarrow> (case save_ip (in_ip inp) s1 of
         Inl e \<Rightarrow> Inl e
       | Inr s2 \<Rightarrow> Inr ((), fold upsert_allow (in_allow inp) s2)))"

section \<open>Catalogue invariant\<close>

definition prices_ok :: "db \<Rightarrow> bool" where
  "prices_ok s \<longleftrightarrow> (\<forall>r \<in> set (pricing_speed s). 0 \<le> ps_price r) \<and> (\<forall>r \<in> set (pricing_ip s). 0 \<le> pi_price r)"

lemma speedTierPrice_nonneg: "prices_ok s \<Longrightarrow> speedTierPrice tier s = Inr p \<Longrightarrow> 0 \<le> p"
  by (auto simp: speedTierPrice_def prices_ok_def split: option.splits dest: find_SomeD)

lemma ipPrice_nonneg: "prices_ok s \<Longrightarrow> ipPrice n s = Inr p \<Longrightarrow> 0 \<le> p"
  by (auto simp: ipPrice_def prices_ok_def split: option.splits dest: find_SomeD)

lemma save_speed_frame:
  "save_speed xs s = Inr s' \<Longrightarrow> wallets s' = wallets s \<and> txs s' = txs s \<and>
     map ps_tier (pricing_speed s') = map ps_tier (pricing_speed s) \<and> pricing_ip s' = pricing_ip s"
  by (induction xs s rule: save_speed.induct)
    (auto split: option.splits if_splits simp: map_upd_where_same)

lemma save_ip_frame:
  "save_ip xs s = Inr s' \<Longrightarrow> wallets s' = wallets s \<and> txs s' = txs s \<and>
     map pi_block_size (pricing_ip s') = map pi_block_size (pricing_ip s) \<and> pricing_speed s' = pricing_speed s"
  by (induction xs s rule: save_ip.induct)
    (auto split: option.splits if_splits simp: map_upd_where_same)

lemma upsert_allow_frame [simp]:
  "wallets (upsert_allow a s) = wallets s" "txs (upsert_allow a s) = txs s"
  "pricing_speed (upsert_allow a s) = pricing_speed s" "pricing_ip (upsert_allow a s) = pricing_ip s"
  by (simp_all add: upsert_allow_def split: prod.splits)

lemma fold_upsert_allow_frame [simp]:
  "wallets (fold upsert_allow xs s) = wallets s" "txs (fold upsert_allow xs s) = txs s"
  "pricing_speed (fold upsert_allow xs s) = pricing_speed s" "pricing_ip (fold upsert_allow xs s) = pricing_ip s"
  by (induction xs arbitrary: s) simp_all

lemma save_speed_prices: "save_speed xs s = Inr s' \<Longrightarrow> prices_ok s \<Longrightarrow> prices_ok s'"
proof (induction xs s rule: save_speed.induct)
  case (2 tier price rest s)
  from "2.prems"(1) obtain p where p: "price = Some p" "\<not> p < 0" by (auto split: option.splits if_splits)
  with "2.prems"(2) have "prices_ok (s\<lparr>pricing_speed :=
      upd_where (\<lambda>r. ps_tier r = tier) (\<lambda>r. r\<lparr>ps_price := p\<rparr>) (pricing_speed s)\<rparr>)"
    by (simp add: prices_ok_def ball_upd_where)
  with "2.IH" [OF p] "2.prems"(1) p show ?case by simp
qed simp

lemma save_ip_prices: "save_ip xs s = Inr s' \<Longrightarrow> prices_ok s \<Longrightarrow> prices_ok s'"
proof (induction xs s rule: save_ip.induct)
  case (2 n price rest s)
  from "2.prems"(1) obtain p where p: "price = Some p" "\<not> p < 0" by (auto split: option.splits if_splits)
  with "2.prems"(2) have "prices_ok (s\<lparr>pricing_ip :=
      upd_where (\<lambda>r. pi_block_size r = n) (\<lambda>r. r\<lparr>pi_price := p\<rparr>) (pricing_ip s)\<rparr>)"
    by (simp add: prices_ok_def ball_upd_where)
  with "2.IH" [OF p] "2.prems"(1) p show ?case by simp
qed simp

lemma savePricing_prices: "prices_ok s \<Longrightarrow> prices_ok (snd (savePricing inp s))"
  unfolding savePricing_def
proof (rule sql_begin_inv)
  fix r s'
  assume ok: "prices_ok s" and "(case save_speed (in_speed inp) s of
       Inl e \<Rightarrow> Inl e
     | Inr s1 \<Rightarrow> (case save_ip (in_ip inp) s1 of
         Inl e \<Rightarrow> Inl e
       | Inr s2 \<Rightarrow> Inr ((), fold upsert_allow (in_allow inp) s2))) = Inr (r, s')"
  then obtain s1 s2 where 1: "save_speed (in_speed inp) s = Inr s1"
    and 2: "save_ip (in_ip inp) s1 = Inr s2" and s': "s' = fold upsert_allow (in_allow inp) s2"
    by (auto split: sum.splits)
  have "prices_ok s2" using save_ip_prices [OF 2 save_speed_prices [OF 1 ok]] .
  then show "prices_ok s'" by (simp add: s' prices_ok_def)
qed

interpretation savePricing: wallet_frame savePricing
proof unfold_locales
  fix inp s
  show "wallets (snd (savePricing inp s)) = wallets s \<and> txs (snd (savePricing inp s)) = txs s"
    unfolding savePricing_def
    by (rule sql_begin_frame) (auto split: sum.splits dest!: save_speed_frame save_ip_frame)
qed

lemma upsert_allow_lookup:
  "tierAllowed pr ti (upsert_allow (pr', ti', en) s) =
     (if pr = pr' \<and> ti = ti' then en else tierAllowed pr ti s)"
proof -
  have upd: "find (\<lambda>r. pa_protocol r = pr \<and> pa_tier r = ti)
      (upd_where (\<lambda>r. pa_protocol r = pr' \<and> pa_tier r = ti') (\<lambda>r. r\<lparr>pa_enabled := en\<rparr>) rows) =
    map_option (\<lambda>r. if pr = pr' \<and> ti = ti' then r\<lparr>pa_enabled := en\<rparr> else r)
      (find (\<lambda>r. pa_protocol r = pr \<and> pa_tier r = ti) rows)" for rows
    by (induction rows) auto
  show ?thesis
  proof (cases "\<exists>r \<in> set (pricing_allow s). pa_protocol r = pr' \<and> pa_tier r = ti'")
    case True
    have ex: "find (\<lambda>r. pa_protocol r = pr' \<and> pa_tier r = ti') (pricing_allow s) \<noteq> None"
      using True by (simp add: find_None_iff_none)
    show ?thesis
      using True ex
      by (cases "find (\<lambda>r. pa_protocol r = pr \<and> pa_tier r = ti) (pricing_allow s)")
        (auto simp: tierAllowed_def upsert_allow_def upd)
  next
    case False
    then have "find (\<lambda>r. pa_protocol r = pr' \<and> pa_tier r = ti') (pricing_allow s) = None"
      by (simp add: find_None_iff_none)
    with False show ?thesis
      by (cases "find (\<lambda>r. pa_protocol r = pr \<and> pa_tier r = ti) (pricing_allow s)")
        (auto simp: tierAllowed_def upsert_allow_def find_append_case)
  qed
qed

end
