(* ===== verification/TunnelSync.thy ===== *)
theory TunnelSync
  imports Pricing
begin

text \<open>
  What the control plane pushes to a gateway for one tunnel: \<^verbatim>\<open>loadTunnelSync\<close> and
  \<^verbatim>\<open>pushSyncs\<close>, the same in \<^verbatim>\<open>public-ip.ts\<close> and \<^verbatim>\<open>ip-block.ts\<close>, and the query for the CIDRs
  routed to a tunnel that six places of the sources repeat. The answer of an agent to a request
  is the parameter \<open>agent\<close>: \<open>None\<close> when the call succeeds. Texts are ordered by character.
\<close>

definition tunnel_singles :: "uuid \<Rightarrow> db \<Rightarrow> cidr list" where
  "tunnel_singles tid s = map (\<lambda>p. i_ip_address p @ ''/32'')
     (filter (\<lambda>p. i_tunnel_id p = Some tid \<and> i_status p = IpAllocated \<and> i_block_id p = None) (ips s))"

definition tunnel_block_cidrs :: "uuid \<Rightarrow> db \<Rightarrow> cidr list" where
  "tunnel_block_cidrs tid s = remdups (concat (map
     (\<lambda>p. map b_block (filter (\<lambda>b. i_block_id p = Some (b_id b)) (blocks s)))
     (filter (\<lambda>p. i_tunnel_id p = Some tid \<and> i_status p = IpAllocated) (ips s))))"

definition tunnel_cidrs :: "uuid \<Rightarrow> db \<Rightarrow> cidr list" where
  "tunnel_cidrs tid s = sort (tunnel_singles tid s @ tunnel_block_cidrs tid s)"

record TunnelSyncInfo =
  ts_tunnelId :: uuid
  ts_protocol :: string
  ts_pubKey :: "string option"
  ts_privateIp :: ip4
  ts_gw :: uuid
  ts_ips :: "cidr list"
  ts_speedLimitKbit :: int

definition live_tunnel :: "uuid \<Rightarrow> db \<Rightarrow> tunnel option" where
  "live_tunnel tid s = find (\<lambda>t. t_id t = tid \<and> t_deleted_at t = None) (tunnels s)"

definition loadTunnelSync :: "uuid \<Rightarrow> db \<Rightarrow> TunnelSyncInfo option" where
  "loadTunnelSync tunnelId s = (case live_tunnel tunnelId s of
       None \<Rightarrow> None
     | Some t \<Rightarrow> Some \<lparr>ts_tunnelId = tunnelId, ts_protocol = t_protocol t, ts_pubKey = t_wg_public_key t,
         ts_privateIp = t_private_ip t, ts_gw = t_gateway_id t, ts_ips = tunnel_cidrs tunnelId s,
         ts_speedLimitKbit = tierRateKbit (t_speed_tier t)\<rparr>)"

text \<open>\<^verbatim>\<open>tunnelId.replace(/-/g, "").slice(0, 8)\<close>.\<close>

definition peerIdFromTunnelId :: "uuid \<Rightarrow> string" where
  "peerIdFromTunnelId tid = take 8 (filter (\<lambda>c. c \<noteq> CHR ''-'') tid)"

type_synonym agent = "gw_call \<Rightarrow> error option"

definition sync_call :: "TunnelSyncInfo \<Rightarrow> error + gw_call" where
  "sync_call y =
     (if ts_protocol y = ''gre''
      then Inr (PatchGrePeer (ts_gw y) (peerIdFromTunnelId (ts_tunnelId y)) None (Some (ts_ips y)) None)
      else case ts_pubKey y of
        None \<Rightarrow> Inl (JsError (''tunnel '' @ take 8 (ts_tunnelId y) @ '' has no wg_public_key''))
      | Some pk \<Rightarrow>
          if pk = [] then Inl (JsError (''tunnel '' @ take 8 (ts_tunnelId y) @ '' has no wg_public_key''))
          else Inr (UpdatePeerIps (ts_gw y) (Some pk) (ts_privateIp y) (ts_ips y) (Some (ts_speedLimitKbit y))))"

text \<open>A failed push is rethrown: the loop stops, and the caller sees the error.\<close>

fun pushSyncs :: "agent \<Rightarrow> TunnelSyncInfo list \<Rightarrow> unit op" where
  "pushSyncs agent [] s = (Inr (), s)"
| "pushSyncs agent (y # ys) s =
     (case sync_call y of
        Inl e \<Rightarrow> (Inl e, s)
      | Inr c \<Rightarrow> (case agent c of
          Some e \<Rightarrow> (Inl e, send c s)
        | None \<Rightarrow> pushSyncs agent ys (send c s)))"

text \<open>\<^verbatim>\<open>[...new Set(affected)]\<close> keeps first occurrences; missing tunnels are dropped.\<close>

fun uniq :: "'a list \<Rightarrow> 'a list" where
  "uniq [] = []"
| "uniq (x # xs) = x # filter (\<lambda>y. y \<noteq> x) (uniq xs)"

definition load_syncs :: "uuid list \<Rightarrow> db \<Rightarrow> TunnelSyncInfo list" where
  "load_syncs tids s = List.map_filter (\<lambda>tid. loadTunnelSync tid s) (uniq tids)"

lemma set_uniq [simp]: "set (uniq xs) = set xs"
  by (induction xs) auto

lemma distinct_uniq [simp]: "distinct (uniq xs)"
  by (induction xs) auto

lemma pushSyncs_frame:
  "\<exists>cs. snd (pushSyncs agent ys s) = s\<lparr>calls := calls s @ cs\<rparr>"
proof (induction agent ys s rule: pushSyncs.induct)
  case (1 agent s)
  then show ?case by (auto intro: exI [of _ "[]"])
next
  case (2 agent y ys s)
  show ?case
  proof (cases "sync_call y")
    case (Inl e)
    then show ?thesis by (auto intro: exI [of _ "[]"])
  next
    case (Inr c)
    show ?thesis
    proof (cases "agent c")
      case None
      from "2.IH" [OF Inr None] obtain cs where
        "snd (pushSyncs agent ys (send c s)) = (send c s)\<lparr>calls := calls (send c s) @ cs\<rparr>" by blast
      then show ?thesis by (auto simp: Inr None send_def intro: exI [of _ "c # cs"])
    next
      case (Some e)
      then show ?thesis by (auto simp: Inr send_def)
    qed
  qed
qed

lemma pushSyncs_db [simp]:
  "wallets (snd (pushSyncs agent ys s)) = wallets s" "txs (snd (pushSyncs agent ys s)) = txs s"
  "ips (snd (pushSyncs agent ys s)) = ips s" "tunnels (snd (pushSyncs agent ys s)) = tunnels s"
  "blocks (snd (pushSyncs agent ys s)) = blocks s" "pools (snd (pushSyncs agent ys s)) = pools s"
  "gateways (snd (pushSyncs agent ys s)) = gateways s" "audits (snd (pushSyncs agent ys s)) = audits s"
  using pushSyncs_frame [of agent ys s] by auto

text \<open>When every agent answers, the calls of all syncs are sent, in order.\<close>

lemma pushSyncs_all:
  "(\<And>y. y \<in> set ys \<Longrightarrow> \<exists>c. sync_call y = Inr c \<and> agent c = None) \<Longrightarrow>
     pushSyncs agent ys s = (Inr (), s\<lparr>calls := calls s @ map (\<lambda>y. projr (sync_call y)) ys\<rparr>)"
proof (induction ys arbitrary: s)
  case (Cons y ys)
  then obtain c where "sync_call y = Inr c" "agent c = None" by (meson list.set_intros(1))
  with Cons show ?case by (simp add: send_def)
qed simp

text \<open>Conversely, a push that returns has sent all of them.\<close>

lemma pushSyncs_Inr:
  "pushSyncs agent ys s = (Inr r, s') \<Longrightarrow>
     s' = s\<lparr>calls := calls s @ map (\<lambda>y. projr (sync_call y)) ys\<rparr> \<and> (\<forall>y \<in> set ys. \<exists>c. sync_call y = Inr c \<and> agent c = None)"
proof (induction ys arbitrary: s)
  case (Cons y ys)
  from Cons.prems obtain c where c: "sync_call y = Inr c" "agent c = None" "pushSyncs agent ys (send c s) = (Inr r, s')"
    by (auto split: sum.splits option.splits)
  from Cons.IH [OF c(3)] c(1,2) show ?case by (simp add: send_def)
qed simp

text \<open>What is pushed depends on the tables only.\<close>

lemma tunnel_cidrs_cong: "ips s' = ips s \<Longrightarrow> blocks s' = blocks s \<Longrightarrow> tunnel_cidrs tid s' = tunnel_cidrs tid s"
  by (simp add: tunnel_cidrs_def tunnel_singles_def tunnel_block_cidrs_def)

lemma load_syncs_cong:
  "ips s' = ips s \<Longrightarrow> blocks s' = blocks s \<Longrightarrow> tunnels s' = tunnels s \<Longrightarrow> load_syncs tids s' = load_syncs tids s"
  by (simp add: load_syncs_def loadTunnelSync_def live_tunnel_def tunnel_cidrs_cong [of s' s] cong: option.case_cong)

lemma in_tunnel_cidrs:
  "ip @ ''/32'' \<in> set (tunnel_singles tid s) \<longleftrightarrow>
     (\<exists>p \<in> set (ips s). i_ip_address p = ip \<and> i_tunnel_id p = Some tid \<and> i_status p = IpAllocated \<and> i_block_id p = None)"
  by (auto simp: tunnel_singles_def)

lemma singles_in_cidrs: "set (tunnel_singles tid s) \<subseteq> set (tunnel_cidrs tid s)"
  by (auto simp: tunnel_cidrs_def)

end
