(* ===== verification/Billable.thy ===== *)
theory Billable
  imports Ledger
begin

text \<open>
  The abstract specification of billing one item, the state machine in the head comment of
  \<^verbatim>\<open>billing-scheduler.ts\<close>: an item is charged when the wallet can pay, renewed for one
  cycle and taken out of suspension; otherwise it is suspended, with a deadline three days after
  the first failed charge. \<open>billable\<close> is the interface the three kinds of items (tunnels, single
  addresses, blocks) are shown to implement; what follows from it is proved once.
\<close>

datatype ChargeOutcome = Charged | Suspended | Skipped

definition count_outcome :: "'r \<Rightarrow> ('a \<times> (error + 'r)) list \<Rightarrow> nat" where
  "count_outcome out rs = length (filter (\<lambda>(x, r). r = Inr out) rs)"

lemma count_outcome_simps [simp]:
  "count_outcome out [] = 0"
  "count_outcome out ((x, r) # rs) = (if r = Inr out then 1 else 0) + count_outcome out rs"
  by (simp_all add: count_outcome_def)

section \<open>One item\<close>

record bill_item =
  bi_owner :: uuid
  bi_price :: satang
  bi_due :: ms
  bi_last :: "ms option"
  bi_active :: bool
  bi_susp :: "ms option"
  bi_del :: "ms option"

definition renewed :: "ms \<Rightarrow> bill_item \<Rightarrow> bill_item" where
  "renewed now it = it\<lparr>bi_due := bi_due it + 31 * DAY_MS, bi_last := Some now, bi_active := True,
     bi_susp := None, bi_del := None\<rparr>"

definition on_hold :: "ms \<Rightarrow> bill_item \<Rightarrow> bill_item" where
  "on_hold now it = it\<lparr>bi_active := False,
     bi_susp := Some (case bi_susp it of None \<Rightarrow> now | Some d \<Rightarrow> d),
     bi_del := Some (case bi_del it of None \<Rightarrow> now + 3 * DAY_MS | Some d \<Rightarrow> d)\<rparr>"

definition bill :: "ms \<Rightarrow> satang \<Rightarrow> bool \<Rightarrow> bill_item \<Rightarrow> ChargeOutcome \<times> bill_item" where
  "bill now balance already it =
     (if balance < bi_price it then (Suspended, on_hold now it)
      else if already then (Skipped, it)
      else (Charged, renewed now it))"

lemma coalesce_Some: "coalesce x v = Some (case x of None \<Rightarrow> v | Some y \<Rightarrow> y)"
  by (simp add: coalesce_def split: option.splits)

definition in_grace :: "ms \<Rightarrow> ms option \<Rightarrow> bool" where
  "in_grace now deleteAt \<longleftrightarrow> (case deleteAt of None \<Rightarrow> True | Some d \<Rightarrow> now < d)"

lemma bill_fst:
  "fst (bill now b a it) = Charged \<longleftrightarrow> bi_price it \<le> b \<and> \<not> a"
  "fst (bill now b a it) = Suspended \<longleftrightarrow> b < bi_price it"
  by (auto simp: bill_def)

lemma bill_in_grace: "in_grace now (bi_del it) \<Longrightarrow> in_grace now (bi_del (snd (bill now b a it)))"
  by (auto simp: bill_def on_hold_def renewed_def in_grace_def split: option.splits)

lemma bill_owner [simp]: "bi_owner (snd (bill now b a it)) = bi_owner it"
  by (simp add: bill_def on_hold_def renewed_def)

text \<open>What one outcome does to wallets and ledger.\<close>

definition posted :: "ChargeOutcome \<Rightarrow> wallet \<Rightarrow> satang \<Rightarrow> string \<Rightarrow> db \<Rightarrow> db \<Rightarrow> bool" where
  "posted out w price key s s' \<longleftrightarrow>
     (if out = Charged
      then wallets s' = wallets (wallet_debit (w_id w) (w_balance w - price) price s) \<and>
        (\<exists>x. txs s' = txs s @ [x] \<and> x_wallet_id x = w_id w \<and> x_user_id x = w_user_id w \<and>
             x_amount x = - price \<and> x_balance_after x = w_balance w - price \<and>
             x_idempotency_key x = Some key)
      else wallets s' = wallets s \<and> txs s' = txs s)"

lemma posted_ledger:
  assumes "posted out w price key s s'" "ledger_ok s" "w \<in> set (wallets s)"
    and "out = Charged \<Longrightarrow> price \<le> w_balance w \<and> \<not> key_used (Some key) s"
  shows "ledger_ok s'"
proof (cases "out = Charged")
  case True
  with assms(1) obtain x where x: "x_idempotency_key x = Some key" "x_wallet_id x = w_id w"
    "x_amount x = - price" "x_balance_after x = w_balance w - price"
    "wallets s' = wallets (wallet_debit (w_id w) (w_balance w - price) price s)" "txs s' = txs s @ [x]"
    unfolding posted_def by auto
  show ?thesis
    by (rule ledger_debit [OF assms(2,3) _ _ x(2-6)]) (use assms(4) [OF True] x(1) in simp_all)
next
  case False
  with assms(1,2) ledger_ok_cong [of s' s] show ?thesis by (simp add: posted_def)
qed

lemma posted_length:
  "posted out w price key s s' \<Longrightarrow> length (txs s') = length (txs s) + (if out = Charged then 1 else 0)"
  by (auto simp: posted_def split: if_splits)

lemma posted_key: "posted Charged w price key s s' \<Longrightarrow> key_used (Some key) s'"
  by (auto simp: posted_def key_used_def)

lemma posted_keys_mono: "posted out w price key s s' \<Longrightarrow> key_used k s \<Longrightarrow> key_used k s'"
  by (auto simp: posted_def key_used_def split: if_splits)

lemma posted_balance:
  assumes "posted out w price key s s'" "wallet_of u s = Some w"
  shows "\<exists>w'. wallet_of u s' = Some w' \<and> w_balance w' = w_balance w - (if out = Charged then price else 0)"
proof (cases "out = Charged")
  case True
  with assms show ?thesis
    by (auto simp: posted_def wallet_of_def wallet_debit_def find_upd_where)
next
  case False
  with assms show ?thesis by (simp add: posted_def wallet_of_def)
qed

lemma posted_other:
  assumes "posted out w' price key s s'" "ledger_ok s" "wallet_of u s = Some w" "wallet_of u' s = Some w'" "u \<noteq> u'"
  shows "wallet_of u s' = Some w"
proof -
  have "w_id w \<noteq> w_id w'"
    using assms(2-5) wallet_of_Some [OF assms(3)] wallet_of_Some [OF assms(4)]
      distinct_key_eq [of w_id "wallets s" w w'] by (auto simp: ledger_ok_def)
  with assms(1,3) show ?thesis
    by (auto simp: posted_def wallet_of_def wallet_debit_def find_upd_where split: if_splits)
qed

lemma posted_new_keys:
  "posted out w price key s s' \<Longrightarrow> key_used (Some k) s' \<Longrightarrow> key_used (Some k) s \<or> k = key"
  by (auto simp: posted_def key_used_def split: if_splits)

text \<open>What a user owes for a list of items.\<close>

definition owed :: "('k \<Rightarrow> db \<Rightarrow> bill_item option) \<Rightarrow> uuid \<Rightarrow> 'k list \<Rightarrow> db \<Rightarrow> satang" where
  "owed item u ks s = (\<Sum>k\<leftarrow>ks. case item k s of None \<Rightarrow> 0
     | Some it \<Rightarrow> if bi_owner it = u then bi_price it else 0)"

lemma owed_Nil [simp]: "owed item u [] s = 0"
  by (simp add: owed_def)

lemma owed_Cons: "owed item u (k # ks) s = owed item u [k] s + owed item u ks s"
  by (simp add: owed_def)

lemma owed_cong: "(\<And>k. k \<in> set ks \<Longrightarrow> item k s' = item k s) \<Longrightarrow> owed item u ks s' = owed item u ks s"
  by (induction ks) (simp_all add: owed_def)

lemma owed_nonneg:
  "(\<And>k it. k \<in> set ks \<Longrightarrow> item k s = Some it \<Longrightarrow> 0 \<le> bi_price it) \<Longrightarrow> 0 \<le> owed item u ks s"
  unfolding owed_def by (rule sum_list_nonneg) (auto split: option.splits)

text \<open>Prices are not negative, and the cycle of a due item of the user was not charged before.\<close>

definition chargeable :: "('k \<Rightarrow> db \<Rightarrow> bill_item option) \<Rightarrow> ('k \<Rightarrow> ms \<Rightarrow> string) \<Rightarrow> uuid \<Rightarrow> 'k list \<Rightarrow> db \<Rightarrow> bool" where
  "chargeable item ckey u ks s \<longleftrightarrow> (\<forall>k \<in> set ks. case item k s of None \<Rightarrow> True
     | Some it \<Rightarrow> 0 \<le> bi_price it \<and> (bi_owner it = u \<longrightarrow> \<not> key_used (Some (ckey k (bi_due it))) s))"

text \<open>The items of a list that belong to the user have been renewed.\<close>

definition all_renewed :: "('k \<Rightarrow> db \<Rightarrow> bill_item option) \<Rightarrow> ms \<Rightarrow> uuid \<Rightarrow> 'k list \<Rightarrow> db \<Rightarrow> db \<Rightarrow> bool" where
  "all_renewed item now u ks s s' \<longleftrightarrow> (\<forall>k \<in> set ks. case item k s of None \<Rightarrow> True
     | Some it \<Rightarrow> bi_owner it = u \<longrightarrow> item k s' = Some (renewed now it))"

lemma all_renewed_later:
  assumes "all_renewed item now u ks s s1"
    and "\<And>k it. k \<in> set ks \<Longrightarrow> item k s1 = Some it \<Longrightarrow> bi_del it = None \<Longrightarrow> item k s2 = Some it"
  shows "all_renewed item now u ks s s2"
  using assms unfolding all_renewed_def
  by (auto simp: renewed_def split: option.splits)

lemma chargeable_cong:
  assumes "chargeable item ckey u ks s" "\<And>k. k \<in> set ks \<Longrightarrow> item k s' = item k s"
    and "\<And>k d. key_used (Some (ckey k d)) s' \<Longrightarrow> key_used (Some (ckey k d)) s"
  shows "chargeable item ckey u ks s'"
  using assms by (fastforce simp: chargeable_def split: option.splits)

section \<open>The interface of a billable kind\<close>

text \<open>
  \<open>item\<close> reads the item of an id, \<open>ckey\<close> is its idempotency key for a cycle. A charge refines
  \<open>bill\<close>, touches no other item of its kind, and posts what its outcome says.
\<close>

locale billable =
  fixes charge :: "uuid_gen \<Rightarrow> ms \<Rightarrow> 'k \<Rightarrow> ChargeOutcome op"
    and item :: "'k \<Rightarrow> db \<Rightarrow> bill_item option"
    and ckey :: "'k \<Rightarrow> ms \<Rightarrow> string"
  assumes absent: "item k s = None \<Longrightarrow>
      snd (charge g now k s) = s \<and> (\<forall>out. fst (charge g now k s) = Inr out \<longrightarrow> out = Skipped)"
    and no_wallet: "item k s = Some it \<Longrightarrow> wallet_of (bi_owner it) s = None \<Longrightarrow>
      charge g now k s = (Inr Skipped, s)"
    and refines: "item k s = Some it \<Longrightarrow> wallet_of (bi_owner it) s = Some w \<Longrightarrow>
      bill now (w_balance w) (key_used (Some (ckey k (bi_due it))) s) it = (out, it') \<Longrightarrow>
      \<exists>s'. charge g now k s = (Inr out, s') \<and> item k s' = Some it' \<and>
        (\<forall>j. j \<noteq> k \<longrightarrow> item j s' = item j s) \<and>
        posted out w (bi_price it) (ckey k (bi_due it)) s s'"
    and key_inj: "ckey j d = ckey k e \<Longrightarrow> j = k"
begin

text \<open>The cases of one charge.\<close>

lemma charge_cases:
  obtains (Same) "snd (charge g now k s) = s"
      "\<And>out. fst (charge g now k s) = Inr out \<Longrightarrow> out = Skipped"
  | (Billed) it w out it' s' where "item k s = Some it" "wallet_of (bi_owner it) s = Some w"
      "bill now (w_balance w) (key_used (Some (ckey k (bi_due it))) s) it = (out, it')"
      "charge g now k s = (Inr out, s')" "item k s' = Some it'" "\<And>j. j \<noteq> k \<Longrightarrow> item j s' = item j s"
      "posted out w (bi_price it) (ckey k (bi_due it)) s s'"
proof (cases "item k s")
  case None
  with absent Same show ?thesis by blast
next
  case (Some it)
  show ?thesis
  proof (cases "wallet_of (bi_owner it) s")
    case None
    with no_wallet [OF Some] show ?thesis by (auto intro: Same)
  next
    case w: (Some w)
    obtain out it' where b: "bill now (w_balance w) (key_used (Some (ckey k (bi_due it))) s) it = (out, it')"
      by fastforce
    from refines [OF Some w b] obtain s' where "charge g now k s = (Inr out, s')" "item k s' = Some it'"
      "\<forall>j. j \<noteq> k \<longrightarrow> item j s' = item j s" "posted out w (bi_price it) (ckey k (bi_due it)) s s'" by blast
    with Some w b show ?thesis by (auto intro: Billed)
  qed
qed

lemma charge_ledger: "ledger_ok s \<Longrightarrow> ledger_ok (snd (charge g now k s))"
proof (cases rule: charge_cases [of g now k s])
  case Same
  then show "ledger_ok s \<Longrightarrow> ?thesis" by simp
next
  case (Billed it w out it' s')
  assume "ledger_ok s"
  moreover have "out = Charged \<Longrightarrow> bi_price it \<le> w_balance w \<and> \<not> key_used (Some (ckey k (bi_due it))) s"
    using Billed(3) by (auto simp: bill_def split: if_splits)
  ultimately show ?thesis
    using Billed posted_ledger wallet_of_Some [OF Billed(2)] by auto
qed

text \<open>The ledger grows by one row per charged item, and by nothing else.\<close>

lemma charge_append:
  "\<exists>new. txs (snd (charge g now k s)) = txs s @ new \<and> (\<forall>x \<in> set new. x_idempotency_key x \<noteq> None) \<and>
     length new = (if fst (charge g now k s) = Inr Charged then 1 else 0)"
  by (cases rule: charge_cases [of g now k s]) (auto simp: posted_def split: if_splits)

lemma loop_append:
  "\<exists>new. txs (snd (for_try (charge g now) ks s)) = txs s @ new \<and>
     (\<forall>x \<in> set new. x_idempotency_key x \<noteq> None) \<and>
     length new = count_outcome Charged (fst (for_try (charge g now) ks s))"
proof (induction ks arbitrary: s)
  case (Cons k ks)
  obtain r s1 where 1: "charge g now k s = (r, s1)" by fastforce
  obtain rs s2 where 2: "for_try (charge g now) ks s1 = (rs, s2)" by fastforce
  from Cons.IH [of s1] obtain new where "txs s2 = txs s1 @ new" "\<forall>x \<in> set new. x_idempotency_key x \<noteq> None"
    "length new = count_outcome Charged rs" by (auto simp: 2)
  moreover from charge_append [of g now k s] obtain new1 where "txs s1 = txs s @ new1"
    "\<forall>x \<in> set new1. x_idempotency_key x \<noteq> None" "length new1 = (if r = Inr Charged then 1 else 0)" by (auto simp: 1)
  ultimately show ?case by (auto simp: 1 2 intro!: exI [of _ "new1 @ new"])
qed simp

text \<open>Items inside their grace period stay there, whatever is charged.\<close>

lemma charge_grace:
  assumes "item j s = Some it" "in_grace now (bi_del it)"
  shows "\<exists>it'. item j (snd (charge g now k s)) = Some it' \<and> bi_owner it' = bi_owner it \<and> in_grace now (bi_del it')"
proof (cases rule: charge_cases [of g now k s])
  case Same
  with assms show ?thesis by simp
next
  case (Billed itk w out it' s')
  show ?thesis
  proof (cases "j = k")
    case True
    with Billed assms have "it' = snd (bill now (w_balance w) (key_used (Some (ckey k (bi_due it))) s) it)" by simp
    with assms(2) bill_in_grace have "in_grace now (bi_del it')" "bi_owner it' = bi_owner it" by simp_all
    with True Billed show ?thesis by simp
  next
    case False
    with Billed assms show ?thesis by simp
  qed
qed

lemma loop_grace:
  assumes "item j s = Some it" "in_grace now (bi_del it)"
  shows "\<exists>it'. item j (snd (for_try (charge g now) ks s)) = Some it' \<and>
     bi_owner it' = bi_owner it \<and> in_grace now (bi_del it')"
  using assms charge_grace
  by (intro for_try_inv [where I = "\<lambda>t. \<exists>it'. item j t = Some it' \<and> bi_owner it' = bi_owner it \<and>
     in_grace now (bi_del it')"]) metis+

text \<open>An item that is not in the list of the loop is not touched.\<close>

lemma loop_others: "j \<notin> set ks \<Longrightarrow> item j (snd (for_try (charge g now) ks s)) = item j s"
proof (rule for_try_inv [where I = "\<lambda>t. item j t = item j s"])
  fix k t
  assume "j \<notin> set ks" "k \<in> set ks" "item j t = item j s"
  then show "item j (snd (charge g now k t)) = item j s"
    by (cases rule: charge_cases [of g now k t]) (auto, metis)
qed simp

text \<open>A cycle that was charged is never charged again.\<close>

lemma charged_once:
  assumes "key_used (Some (ckey k (bi_due it))) s" "item k s = Some it"
  shows "fst (charge g now k s) \<noteq> Inr Charged"
  using assms by (cases rule: charge_cases [of g now k s]) (auto simp: bill_def split: if_splits)

lemma charged_key:
  assumes "fst (charge g now k s) = Inr Charged" "item k s = Some it"
  shows "key_used (Some (ckey k (bi_due it))) (snd (charge g now k s))"
  using assms by (cases rule: charge_cases [of g now k s]) (auto dest: posted_key)

text \<open>
  A user whose balance covers what is owed for a list of items keeps all of them: every one is
  renewed, and the wallet pays exactly the sum, whatever the charges of other users do.
\<close>

lemma charge_funded:
  assumes ok: "ledger_ok s" and u: "wallet_of u s = Some w"
    and pay: "\<And>it. item k s = Some it \<Longrightarrow> bi_owner it = u \<Longrightarrow>
      bi_price it \<le> w_balance w \<and> \<not> key_used (Some (ckey k (bi_due it))) s"
  shows "\<exists>w1. wallet_of u (snd (charge g now k s)) = Some w1 \<and>
      w_balance w1 = w_balance w - owed item u [k] s"
    and "j \<noteq> k \<Longrightarrow> item j (snd (charge g now k s)) = item j s"
    and "item k s = Some it \<Longrightarrow> bi_owner it = u \<Longrightarrow> item k (snd (charge g now k s)) = Some (renewed now it)"
    and "j \<noteq> k \<Longrightarrow> key_used (Some (ckey j d)) (snd (charge g now k s)) \<Longrightarrow> key_used (Some (ckey j d)) s"
proof -
  have "(\<exists>w1. wallet_of u (snd (charge g now k s)) = Some w1 \<and> w_balance w1 = w_balance w - owed item u [k] s) \<and>
    (\<forall>j. j \<noteq> k \<longrightarrow> item j (snd (charge g now k s)) = item j s \<and>
      (\<forall>d. key_used (Some (ckey j d)) (snd (charge g now k s)) \<longrightarrow> key_used (Some (ckey j d)) s)) \<and>
    (\<forall>it. item k s = Some it \<longrightarrow> bi_owner it = u \<longrightarrow> item k (snd (charge g now k s)) = Some (renewed now it))"
  proof (cases "item k s")
    case None
    with absent [of k s g now] u show ?thesis by (simp add: owed_def)
  next
    case it: (Some it)
    show ?thesis
    proof (cases "wallet_of (bi_owner it) s")
      case None
      with u have "bi_owner it \<noteq> u" by auto
      with no_wallet [OF it None, of g now] u it show ?thesis by (simp add: owed_def)
    next
      case w': (Some w')
      obtain out it' where b: "bill now (w_balance w') (key_used (Some (ckey k (bi_due it))) s) it = (out, it')"
        by fastforce
      from refines [OF it w' b, of g] obtain s' where s': "charge g now k s = (Inr out, s')" "item k s' = Some it'"
        "\<And>j. j \<noteq> k \<Longrightarrow> item j s' = item j s" "posted out w' (bi_price it) (ckey k (bi_due it)) s s'" by blast
      have keys: "key_used (Some (ckey j d)) s" if "j \<noteq> k" "key_used (Some (ckey j d)) s'" for j d
        using posted_new_keys [OF s'(4) that(2)] key_inj that(1) by blast
      show ?thesis
      proof (cases "bi_owner it = u")
        case True
        with u w' have [simp]: "w' = w" by simp
        from pay [OF it True] b have "out = Charged" "it' = renewed now it" by (auto simp: bill_def)
        with posted_balance [OF s'(4), of u] u True it s' keys show ?thesis by (auto simp: owed_def)
      next
        case False
        with posted_other [OF s'(4) ok u w'] it s' keys show ?thesis by (auto simp: owed_def)
      qed
    qed
  qed
  then show "\<exists>w1. wallet_of u (snd (charge g now k s)) = Some w1 \<and> w_balance w1 = w_balance w - owed item u [k] s"
    and "j \<noteq> k \<Longrightarrow> item j (snd (charge g now k s)) = item j s"
    and "item k s = Some it \<Longrightarrow> bi_owner it = u \<Longrightarrow> item k (snd (charge g now k s)) = Some (renewed now it)"
    and "j \<noteq> k \<Longrightarrow> key_used (Some (ckey j d)) (snd (charge g now k s)) \<Longrightarrow> key_used (Some (ckey j d)) s"
    by blast+
qed

lemma loop_funded:
  assumes "ledger_ok s" "distinct ks" "wallet_of u s = Some w" "owed item u ks s \<le> w_balance w"
    and "\<And>k it. k \<in> set ks \<Longrightarrow> item k s = Some it \<Longrightarrow> 0 \<le> bi_price it"
    and "\<And>k it. k \<in> set ks \<Longrightarrow> item k s = Some it \<Longrightarrow> bi_owner it = u \<Longrightarrow>
      \<not> key_used (Some (ckey k (bi_due it))) s"
  shows "(\<forall>k \<in> set ks. \<forall>it. item k s = Some it \<longrightarrow> bi_owner it = u \<longrightarrow>
      item k (snd (for_try (charge g now) ks s)) = Some (renewed now it)) \<and>
    (\<exists>w'. wallet_of u (snd (for_try (charge g now) ks s)) = Some w' \<and>
      w_balance w' = w_balance w - owed item u ks s)"
  using assms
proof (induction ks arbitrary: s w)
  case (Cons k ks)
  let ?s1 = "snd (charge g now k s)"
  have rest: "0 \<le> owed item u ks s" by (rule owed_nonneg) (use Cons.prems(5) in auto)
  have pay: "bi_price it \<le> w_balance w \<and> \<not> key_used (Some (ckey k (bi_due it))) s"
    if "item k s = Some it" "bi_owner it = u" for it
    using that Cons.prems(4,6) rest by (auto simp: owed_Cons [of item u k ks]) (simp add: owed_def)
  note step = charge_funded [OF Cons.prems(1,3) pay, where g = g and now = now]
  obtain w1 where w1: "wallet_of u ?s1 = Some w1" "w_balance w1 = w_balance w - owed item u [k] s"
    using step(1) by blast
  note others = step(2) and renew = step(3) and keys = step(4)
  have ne: "j \<noteq> k" if "j \<in> set ks" for j using that Cons.prems(2) by auto
  have same: "owed item u ks ?s1 = owed item u ks s" by (rule owed_cong) (simp add: others ne)
  have "(\<forall>j \<in> set ks. \<forall>it. item j ?s1 = Some it \<longrightarrow> bi_owner it = u \<longrightarrow>
      item j (snd (for_try (charge g now) ks ?s1)) = Some (renewed now it)) \<and>
    (\<exists>w'. wallet_of u (snd (for_try (charge g now) ks ?s1)) = Some w' \<and>
      w_balance w' = w_balance w1 - owed item u ks ?s1)"
  proof (rule Cons.IH)
    show "ledger_ok ?s1" by (rule charge_ledger [OF Cons.prems(1)])
    show "owed item u ks ?s1 \<le> w_balance w1" using Cons.prems(4) same w1(2) by (simp add: owed_Cons [of item u k ks])
    show "0 \<le> bi_price it" if "j \<in> set ks" "item j ?s1 = Some it" for j it
      using that Cons.prems(5) [of j it] others ne by auto
    show "\<not> key_used (Some (ckey j (bi_due it))) ?s1" if "j \<in> set ks" "item j ?s1 = Some it" "bi_owner it = u" for j it
      using that Cons.prems(6) [of j it] others ne keys by auto
  qed (use w1 Cons.prems in auto)
  moreover have "item k (snd (for_try (charge g now) ks ?s1)) = item k ?s1"
    using Cons.prems(2) by (intro loop_others) simp
  ultimately show ?case
    using w1(2) same renew others ne by (auto simp: case_prod_beta owed_Cons [of item u k ks])
qed simp

lemma loop_funded':
  assumes "ledger_ok s" "distinct ks" "wallet_of u s = Some w" "owed item u ks s \<le> w_balance w"
    and "chargeable item ckey u ks s"
  shows "all_renewed item now u ks s (snd (for_try (charge g now) ks s))"
    and "\<exists>w'. wallet_of u (snd (for_try (charge g now) ks s)) = Some w' \<and> w_balance w' = w_balance w - owed item u ks s"
proof -
  have "(\<forall>k \<in> set ks. \<forall>it. item k s = Some it \<longrightarrow> bi_owner it = u \<longrightarrow>
      item k (snd (for_try (charge g now) ks s)) = Some (renewed now it)) \<and>
    (\<exists>w'. wallet_of u (snd (for_try (charge g now) ks s)) = Some w' \<and>
      w_balance w' = w_balance w - owed item u ks s)"
    by (rule loop_funded [OF assms(1-4)]) (use assms(5) in \<open>force simp: chargeable_def\<close>)+
  then show "all_renewed item now u ks s (snd (for_try (charge g now) ks s))"
    and "\<exists>w'. wallet_of u (snd (for_try (charge g now) ks s)) = Some w' \<and> w_balance w' = w_balance w - owed item u ks s"
    by (auto simp: all_renewed_def split: option.splits)
qed

lemma loop_keys:
  "key_used (Some x) (snd (for_try (charge g now) ks s)) \<Longrightarrow> key_used (Some x) s \<or> (\<exists>j d. x = ckey j d)"
proof (induction ks arbitrary: s)
  case (Cons k ks)
  let ?s1 = "snd (charge g now k s)"
  from Cons.prems have "key_used (Some x) (snd (for_try (charge g now) ks ?s1))" by (simp add: case_prod_beta)
  then consider "key_used (Some x) ?s1" | "\<exists>j d. x = ckey j d" using Cons.IH by blast
  then show ?case
  proof cases
    case 1
    then show ?thesis
      by (cases rule: charge_cases [of g now k s]) (auto dest: posted_new_keys)
  qed blast
qed simp

text \<open>
  One charge does not look at the due date: two in a row charge two cycles.
\<close>

lemma charged_twice:
  assumes it: "item k s = Some it" and w: "wallet_of (bi_owner it) s = Some w"
    and pay: "0 \<le> bi_price it" "2 * bi_price it \<le> w_balance w"
    and fresh: "\<not> key_used (Some (ckey k (bi_due it))) s" "\<not> key_used (Some (ckey k (bi_due it + 31 * DAY_MS))) s"
      "ckey k (bi_due it + 31 * DAY_MS) \<noteq> ckey k (bi_due it)"
  shows "fst (charge g now k s) = Inr Charged \<and> fst (charge g now k (snd (charge g now k s))) = Inr Charged"
proof -
  have "bill now (w_balance w) (key_used (Some (ckey k (bi_due it))) s) it = (Charged, renewed now it)"
    using pay fresh(1) by (simp add: bill_def)
  from refines [OF it w this, of g] obtain s1 where s1: "charge g now k s = (Inr Charged, s1)"
    "item k s1 = Some (renewed now it)" "posted Charged w (bi_price it) (ckey k (bi_due it)) s s1" by blast
  from posted_balance [OF s1(3) w] obtain w1 where w1: "wallet_of (bi_owner it) s1 = Some w1"
    "w_balance w1 = w_balance w - bi_price it" by auto
  have "\<not> key_used (Some (ckey k (bi_due it + 31 * DAY_MS))) s1"
    using posted_new_keys [OF s1(3)] fresh(2,3) by blast
  with pay w1(2) have "bill now (w_balance w1) (key_used (Some (ckey k (bi_due (renewed now it)))) s1) (renewed now it) =
      (Charged, renewed now (renewed now it))" by (simp add: bill_def renewed_def)
  from refines [OF s1(2) _ this, of g] w1(1) have "fst (charge g now k s1) = Inr Charged"
    by (auto simp: renewed_def)
  with s1(1) show ?thesis by simp
qed

text \<open>
  The deadline is set by the first failed charge and no later one moves it.
\<close>

lemma failed_charges_deadline:
  assumes "item k s = Some it" "wallet_of (bi_owner it) s = Some w" "w_balance w < bi_price it"
    and "bi_del it = None \<Longrightarrow> d = t0 + 3 * DAY_MS" "\<And>x. bi_del it = Some x \<Longrightarrow> d = x"
  shows "\<exists>it'. item k (snd (for_try (\<lambda>now. charge g now k) (t0 # ts) s)) = Some it' \<and>
     bi_del it' = Some d \<and> \<not> bi_active it'"
proof -
  define I where "I t \<longleftrightarrow> (\<exists>it' w'. item k t = Some it' \<and> wallet_of (bi_owner it') t = Some w' \<and>
    w_balance w' < bi_price it' \<and> bi_del it' = Some d \<and> \<not> bi_active it')" for t
  have step: "I (snd (charge g now k t))"
    if "item k t = Some it1" "wallet_of (bi_owner it1) t = Some w1" "w_balance w1 < bi_price it1"
      "bi_del (on_hold now it1) = Some d" for now t it1 w1
  proof (cases rule: charge_cases [of g now k t])
    case Same
    from refines [OF that(1,2), of now Suspended "on_hold now it1" g] that(3) Same(2) have False
      by (auto simp: bill_def)
    then show ?thesis ..
  next
    case (Billed it2 w2 out it' s')
    with that have "out = Suspended" "it' = on_hold now it1" by (auto simp: bill_def split: if_splits)
    with Billed that show ?thesis
      by (auto simp: I_def posted_def wallet_of_def on_hold_def)
  qed
  have "I (snd (charge g t0 k s))"
    by (rule step [OF assms(1-3)]) (use assms(4,5) in \<open>auto simp: on_hold_def split: option.splits\<close>)
  moreover have "I (snd (charge g now k t))" if "I t" for now t
    using that step by (auto simp: I_def on_hold_def)
  ultimately have "I (snd (for_try (\<lambda>now. charge g now k) ts (snd (charge g t0 k s))))"
    using for_try_inv [where I = I and f = "\<lambda>now. charge g now k"] by blast
  then show ?thesis by (auto simp: I_def case_prod_beta)
qed

end

sublocale billable \<subseteq> money: money_op "charge g now" for g now
  by unfold_locales (rule charge_ledger)

end
