(* ===== verification/BillingScheduler.thy ===== *)
theory BillingScheduler
  imports TunnelSync Billable
begin

text \<open>
  \<^verbatim>\<open>packages/provisioning/src/billing-scheduler.ts\<close>: the charge of one tunnel, one single
  address or one block, suspension, forced cancellation after the grace period, and the
  billing tick that runs them over everything that is due.
\<close>

section \<open>Suspension\<close>

definition suspend_tunnel :: "uuid \<Rightarrow> tunnel_status \<Rightarrow> ms \<Rightarrow> uuid \<Rightarrow> string \<Rightarrow> db \<Rightarrow> db" where
  "suspend_tunnel tid currentStatus now userId label s =
     (let cutoff = deleteAfter now;
          s1 = set_tunnels (\<lambda>t. t_id t = tid)
            (\<lambda>t. t\<lparr>t_status := TunSuspended, t_suspended_at := coalesce (t_suspended_at t) now,
                   t_delete_after := coalesce (t_delete_after t) cutoff\<rparr>) s;
          s2 = audit now ActSystem None ''billing.suspend'' (Some ''tunnel'') (Some tid)
            [(''previousStatus'', JStr (tunnel_status_name currentStatus)), (''deleteAfter'', JIso cutoff)] s1
      in notify userId ''billing.suspended'' SevWarning
           [(''kind'', JStr ''tunnel''), (''id'', JStr tid), (''deleteAfter'', JIso cutoff)] s2)"

definition suspend_block :: "uuid \<Rightarrow> ip_block_status \<Rightarrow> ms \<Rightarrow> uuid \<Rightarrow> string \<Rightarrow> db \<Rightarrow> db" where
  "suspend_block bid currentStatus now userId label s =
     (let cutoff = deleteAfter now;
          s1 = set_blocks (\<lambda>b. b_id b = bid)
            (\<lambda>b. b\<lparr>b_status := BlkSuspended, b_suspended_at := coalesce (b_suspended_at b) now,
                   b_delete_after := coalesce (b_delete_after b) cutoff\<rparr>) s;
          s2 = audit now ActSystem None ''billing.suspend'' (Some ''ip_block'') (Some bid)
            [(''previousStatus'', JStr (ip_block_status_name currentStatus)), (''deleteAfter'', JIso cutoff)] s1
      in notify userId ''billing.suspended'' SevWarning
           [(''kind'', JStr ''block''), (''id'', JStr bid), (''deleteAfter'', JIso cutoff)] s2)"

definition suspendPublicIp :: "ip4 \<Rightarrow> ip_status \<Rightarrow> ms \<Rightarrow> uuid \<Rightarrow> db \<Rightarrow> db" where
  "suspendPublicIp ip currentStatus now userId s =
     (let cutoff = deleteAfter now;
          s1 = set_ips (\<lambda>p. i_ip_address p = ip)
            (\<lambda>p. p\<lparr>i_status := IpSuspended, i_suspended_at := coalesce (i_suspended_at p) now,
                   i_delete_after := coalesce (i_delete_after p) cutoff\<rparr>) s;
          s2 = audit now ActSystem None ''billing.suspend'' (Some ''public_ip'') None
            [(''ip'', JStr ip), (''previousStatus'', JStr (ip_status_name currentStatus)),
             (''deleteAfter'', JIso cutoff)] s1
      in notify userId ''billing.suspended'' SevWarning
           [(''kind'', JStr ''ip''), (''ip'', JStr ip), (''deleteAfter'', JIso cutoff)] s2)"

section \<open>Per-item charge\<close>

text \<open>
  The tail the three charges share: the ledger insert protected by the idempotency key, then the
  wallet update. \<open>None\<close> when the key was already there.
\<close>

definition renewal :: "uuid_gen \<Rightarrow> wallet \<Rightarrow> uuid \<Rightarrow> credit_tx_type \<Rightarrow> satang \<Rightarrow> string \<Rightarrow> string \<Rightarrow>
    db \<Rightarrow> db option" where
  "renewal g w userId typ price desc key s =
     (let newBalance = w_balance w - price in
      case insert_tx_once \<lparr>x_id = g (length (txs s)), x_user_id = userId, x_wallet_id = w_id w,
          x_type = typ, x_amount = - price, x_balance_after = newBalance, x_description = desc,
          x_code_redemption_id = None, x_admin_user_id = None, x_idempotency_key = Some key\<rparr> s of
        None \<Rightarrow> None
      | Some s1 \<Rightarrow> Some (wallet_debit (w_id w) newBalance price s1))"

definition tunnel_price :: "tunnel \<Rightarrow> db \<Rightarrow> satang option" where
  "tunnel_price t s = (case t_price_satang t of
       Some p \<Rightarrow> Some p
     | None \<Rightarrow> (case speedTierPrice (t_speed_tier t) s of Inl e \<Rightarrow> None | Inr p \<Rightarrow> Some p))"

definition chargeOneTunnel :: "uuid_gen \<Rightarrow> ms \<Rightarrow> uuid \<Rightarrow> ChargeOutcome op" where
  "chargeOneTunnel g now tunnelId = sql_begin (\<lambda>s.
     case live_tunnel tunnelId s of
       None \<Rightarrow> Inr (Skipped, s)
     | Some t \<Rightarrow> (case tunnel_price t s of
         None \<Rightarrow> Inr (Skipped, s)
       | Some price \<Rightarrow> (case wallet_of (t_user_id t) s of
           None \<Rightarrow> Inr (Skipped, s)
         | Some w \<Rightarrow>
             if w_balance w < price
             then Inr (Suspended, suspend_tunnel (t_id t) (t_status t) now (t_user_id t) (t_name t) s)
             else (case renewal g w (t_user_id t) TxSubscriptionCharge price
                 (''Renewal: tunnel '' @ t_name t @ '' ('' @ t_speed_tier t @ '')'')
                 (chargeIdempotencyKey KTunnel (t_id t) (t_next_billing_at t)) s of
                 None \<Rightarrow> Inr (Skipped, s)
               | Some s2 \<Rightarrow> Inr (Charged, set_tunnels (\<lambda>v. t_id v = t_id t)
                   (\<lambda>v. v\<lparr>t_next_billing_at := nextBillingAt (t_next_billing_at t),
                          t_last_billed_at := Some now, t_status := TunActive,
                          t_suspended_at := None, t_delete_after := None\<rparr>) s2)))))"

text \<open>\<^verbatim>\<open>new Date(null)\<close> is the epoch.\<close>

definition chargeOnePublicIp :: "uuid_gen \<Rightarrow> ms \<Rightarrow> ip4 \<Rightarrow> ChargeOutcome op" where
  "chargeOnePublicIp g now ip = sql_begin (\<lambda>s.
     case find (\<lambda>p. i_ip_address p = ip) (ips s) of
       None \<Rightarrow> Inr (Skipped, s)
     | Some r \<Rightarrow> (case i_user_id r of
         None \<Rightarrow> Inr (Skipped, s)
       | Some userId \<Rightarrow>
           if i_block_id r \<noteq> None then Inr (Skipped, s)
           else (case (case i_price_satang r of Some p \<Rightarrow> Inr p | None \<Rightarrow> ipPrice 1 s) of
             Inl e \<Rightarrow> Inl e
           | Inr price \<Rightarrow> (case wallet_of userId s of
               None \<Rightarrow> Inr (Skipped, s)
             | Some w \<Rightarrow>
                 if w_balance w < price
                 then Inr (Suspended, suspendPublicIp ip (i_status r) now userId s)
                 else (let cycleDate = (case i_next_billing_at r of None \<Rightarrow> 0 | Some d \<Rightarrow> d) in
                   case renewal g w userId TxIpCharge price (''Renewal: Public IP '' @ ip)
                     (chargeIdempotencyKey KIp ip cycleDate) s of
                     None \<Rightarrow> Inr (Skipped, s)
                   | Some s2 \<Rightarrow> Inr (Charged, set_ips (\<lambda>p. i_ip_address p = ip)
                       (\<lambda>p. p\<lparr>i_next_billing_at := Some (nextBillingAt cycleDate),
                              i_last_billed_at := Some now, i_status := IpAllocated,
                              i_suspended_at := None, i_delete_after := None\<rparr>) s2))))))"

definition chargeOneIpBlock :: "uuid_gen \<Rightarrow> ms \<Rightarrow> uuid \<Rightarrow> ChargeOutcome op" where
  "chargeOneIpBlock g now blockId = sql_begin (\<lambda>s.
     case find (\<lambda>b. b_id b = blockId) (blocks s) of
       None \<Rightarrow> Inr (Skipped, s)
     | Some b \<Rightarrow> (case wallet_of (b_user_id b) s of
         None \<Rightarrow> Inr (Skipped, s)
       | Some w \<Rightarrow>
           if w_balance w < b_price_satang b
           then Inr (Suspended, suspend_block (b_id b) (b_status b) now (b_user_id b) (b_block b) s)
           else (case renewal g w (b_user_id b) TxIpCharge (b_price_satang b)
               (''Renewal: IP block '' @ b_block b)
               (chargeIdempotencyKey KBlock (b_id b) (b_next_billing_at b)) s of
               None \<Rightarrow> Inr (Skipped, s)
             | Some s2 \<Rightarrow> Inr (Charged, set_blocks (\<lambda>v. b_id v = b_id b)
                 (\<lambda>v. v\<lparr>b_next_billing_at := nextBillingAt (b_next_billing_at b),
                        b_last_billed_at := Some now, b_status := BlkActive,
                        b_suspended_at := None, b_delete_after := None\<rparr>) s2))))"

section \<open>Forced cancellation\<close>

text \<open>
  Calls to the gateway after the commit are best effort: an error is logged and swallowed, so
  they only appear in the log of calls.
\<close>

definition forceCancelTunnel :: "ms \<Rightarrow> uuid \<Rightarrow> unit op" where
  "forceCancelTunnel now tunnelId s =
     (case live_tunnel tunnelId s of
        None \<Rightarrow> (Inr (), s)
      | Some t \<Rightarrow>
          let ipRows = filter (\<lambda>p. i_tunnel_id p = Some tunnelId \<and> i_status p = IpAllocated) (ips s);
              s1 = (if ipRows \<noteq> []
                    then set_ips (\<lambda>p. i_tunnel_id p = Some tunnelId) (\<lambda>p. p\<lparr>i_tunnel_id := None\<rparr>) s
                    else s);
              s2 = set_tunnels (\<lambda>v. t_id v = tunnelId)
                (\<lambda>v. v\<lparr>t_status := TunDeleted, t_deleted_at := Some now,
                       t_suspended_at := None, t_delete_after := None\<rparr>) s1;
              s3 = gateway_drop (t_gateway_id t) s2;
              s4 = audit now ActSystem None ''billing.cancel'' (Some ''tunnel'') (Some tunnelId)
                [(''unassignedIps'', JNum (int (length ipRows)))] s3;
              s5 = notify (t_user_id t) ''billing.cancelled'' SevError
                [(''kind'', JStr ''tunnel''), (''id'', JStr tunnelId)] s4
          in (Inr (), send (DeletePeer (t_gateway_id t) (t_wg_public_key t)) s5))"

definition push_tunnel_cidrs :: "uuid \<Rightarrow> db \<Rightarrow> db" where
  "push_tunnel_cidrs tid s = (case live_tunnel tid s of
       None \<Rightarrow> s
     | Some t \<Rightarrow> send (UpdatePeerIps (t_gateway_id t) (t_wg_public_key t) (t_private_ip t)
         (tunnel_cidrs tid s) None) s)"

definition forceCancelPublicIp :: "ms \<Rightarrow> ip4 \<Rightarrow> unit op" where
  "forceCancelPublicIp now ip s =
     (case find (\<lambda>p. i_ip_address p = ip) (ips s) of
        None \<Rightarrow> (Inr (), s)
      | Some r \<Rightarrow>
          let s1 = set_ips (\<lambda>p. i_ip_address p = ip)
                (\<lambda>p. p\<lparr>i_status := IpAvailable, i_tunnel_id := None, i_user_id := None,
                       i_released_at := Some now, i_next_billing_at := None,
                       i_suspended_at := None, i_delete_after := None\<rparr>) s;
              s2 = pool_give (i_pool_id r) 1 s1;
              s3 = audit now ActSystem None ''billing.cancel'' (Some ''public_ip'') None
                [(''ip'', JStr ip), (''wasTunnel'', json_opt (i_tunnel_id r))] s2;
              s4 = (case i_user_id r of
                  None \<Rightarrow> s3
                | Some u \<Rightarrow> notify u ''billing.cancelled'' SevError [(''kind'', JStr ''ip''), (''ip'', JStr ip)] s3)
          in (Inr (), case i_tunnel_id r of None \<Rightarrow> s4 | Some tid \<Rightarrow> push_tunnel_cidrs tid s4))"

definition forceCancelIpBlock :: "ms \<Rightarrow> uuid \<Rightarrow> unit op" where
  "forceCancelIpBlock now blockId s =
     (case find (\<lambda>b. b_id b = blockId) (blocks s) of
        None \<Rightarrow> (Inr (), s)
      | Some b \<Rightarrow>
          let ipRows = filter (\<lambda>p. i_block_id p = Some blockId) (ips s);
              tunnelIds = uniq (List.map_filter i_tunnel_id ipRows);
              s1 = set_ips (\<lambda>p. i_block_id p = Some blockId)
                (\<lambda>p. p\<lparr>i_status := IpAvailable, i_tunnel_id := None, i_user_id := None,
                       i_block_id := None, i_released_at := Some now, i_next_billing_at := None,
                       i_suspended_at := None, i_delete_after := None\<rparr>) s;
              s2 = set_blocks (\<lambda>v. b_id v = blockId)
                (\<lambda>v. v\<lparr>b_status := BlkReleased, b_suspended_at := None, b_delete_after := None\<rparr>) s1;
              s3 = pool_give (b_pool_id b) (b_block_size b) s2;
              s4 = audit now ActSystem None ''billing.cancel'' (Some ''ip_block'') (Some blockId)
                [(''freed'', JNum (int (length ipRows))), (''affectedTunnels'', JArr (map JStr tunnelIds))] s3;
              s5 = notify (b_user_id b) ''billing.cancelled'' SevError
                [(''kind'', JStr ''block''), (''id'', JStr blockId), (''cidr'', JStr (b_block b))] s4
          in (Inr (), fold push_tunnel_cidrs tunnelIds s5))"

section \<open>The billing tick\<close>

definition grace_over :: "ms \<Rightarrow> ms option \<Rightarrow> bool" where
  "grace_over now deleteAt \<longleftrightarrow> (case deleteAt of None \<Rightarrow> False | Some d \<Rightarrow> d \<le> now)"

definition tunnel_due :: "ms \<Rightarrow> tunnel \<Rightarrow> bool" where
  "tunnel_due now t \<longleftrightarrow> t_deleted_at t = None \<and> t_status t \<in> {TunActive, TunSuspended} \<and>
     t_next_billing_at t \<le> now \<and> in_grace now (t_delete_after t)"

definition ip_due :: "ms \<Rightarrow> public_ip \<Rightarrow> bool" where
  "ip_due now p \<longleftrightarrow> i_status p \<in> {IpAllocated, IpSuspended} \<and> i_block_id p = None \<and>
     i_user_id p \<noteq> None \<and> (case i_next_billing_at p of None \<Rightarrow> False | Some d \<Rightarrow> d \<le> now) \<and>
     in_grace now (i_delete_after p)"

definition block_due :: "ms \<Rightarrow> ip_block \<Rightarrow> bool" where
  "block_due now b \<longleftrightarrow> b_status b \<in> {BlkActive, BlkSuspended} \<and> b_next_billing_at b \<le> now \<and>
     in_grace now (b_delete_after b)"

definition tunnel_expired :: "ms \<Rightarrow> tunnel \<Rightarrow> bool" where
  "tunnel_expired now t \<longleftrightarrow> t_deleted_at t = None \<and> grace_over now (t_delete_after t)"

definition ip_expired :: "ms \<Rightarrow> public_ip \<Rightarrow> bool" where
  "ip_expired now p \<longleftrightarrow> i_status p \<in> {IpAllocated, IpSuspended} \<and> i_block_id p = None \<and>
     grace_over now (i_delete_after p)"

definition block_expired :: "ms \<Rightarrow> ip_block \<Rightarrow> bool" where
  "block_expired now b \<longleftrightarrow> b_status b \<in> {BlkActive, BlkSuspended} \<and> grace_over now (b_delete_after b)"

record tick_counts =
  tc_charged :: nat
  tc_suspended :: nat
  tc_cancelled :: nat

record BillingTickReport =
  bt_tunnels :: tick_counts
  bt_ips :: tick_counts
  bt_blocks :: tick_counts
  bt_errors :: "(string \<times> string \<times> error) list"

definition errors_of :: "string \<Rightarrow> (string \<times> (error + 'r)) list \<Rightarrow> (string \<times> string \<times> error) list" where
  "errors_of kind rs = List.map_filter (\<lambda>(x, r). case r of Inl e \<Rightarrow> Some (kind, x, e) | Inr _ \<Rightarrow> None) rs"

definition counts_of :: "(string \<times> (error + ChargeOutcome)) list \<Rightarrow> (string \<times> (error + unit)) list \<Rightarrow> tick_counts" where
  "counts_of rs cs = \<lparr>tc_charged = count_outcome Charged rs, tc_suspended = count_outcome Suspended rs,
     tc_cancelled = count_outcome () cs\<rparr>"

definition tick_tunnels :: "uuid_gen \<Rightarrow> ms \<Rightarrow> db \<Rightarrow> (string \<times> (error + ChargeOutcome)) list \<times> db" where
  "tick_tunnels g now s =
     for_try (chargeOneTunnel g now) (map t_id (filter (tunnel_due now) (tunnels s))) s"

definition tick_ips :: "uuid_gen \<Rightarrow> ms \<Rightarrow> db \<Rightarrow> (string \<times> (error + ChargeOutcome)) list \<times> db" where
  "tick_ips g now s =
     for_try (chargeOnePublicIp g now) (map i_ip_address (filter (ip_due now) (ips s))) s"

definition tick_blocks :: "uuid_gen \<Rightarrow> ms \<Rightarrow> db \<Rightarrow> (string \<times> (error + ChargeOutcome)) list \<times> db" where
  "tick_blocks g now s =
     for_try (chargeOneIpBlock g now) (map b_id (filter (block_due now) (blocks s))) s"

definition cancel_tunnels :: "ms \<Rightarrow> db \<Rightarrow> (string \<times> (error + unit)) list \<times> db" where
  "cancel_tunnels now s =
     for_try (forceCancelTunnel now) (map t_id (filter (tunnel_expired now) (tunnels s))) s"

definition cancel_ips :: "ms \<Rightarrow> db \<Rightarrow> (string \<times> (error + unit)) list \<times> db" where
  "cancel_ips now s =
     for_try (forceCancelPublicIp now) (map i_ip_address (filter (ip_expired now) (ips s))) s"

definition cancel_blocks :: "ms \<Rightarrow> db \<Rightarrow> (string \<times> (error + unit)) list \<times> db" where
  "cancel_blocks now s =
     for_try (forceCancelIpBlock now) (map b_id (filter (block_expired now) (blocks s))) s"

definition runBillingTick :: "uuid_gen \<Rightarrow> ms \<Rightarrow> db \<Rightarrow> BillingTickReport \<times> db" where
  "runBillingTick g now s =
     (case tick_tunnels g now s of (r1, s1) \<Rightarrow>
      case tick_ips g now s1 of (r2, s2) \<Rightarrow>
      case tick_blocks g now s2 of (r3, s3) \<Rightarrow>
      case cancel_tunnels now s3 of (c1, s4) \<Rightarrow>
      case cancel_ips now s4 of (c2, s5) \<Rightarrow>
      case cancel_blocks now s5 of (c3, s6) \<Rightarrow>
        (\<lparr>bt_tunnels = counts_of r1 c1, bt_ips = counts_of r2 c2, bt_blocks = counts_of r3 c3,
          bt_errors = errors_of ''tunnel'' r1 @ errors_of ''ip'' r2 @ errors_of ''block'' r3 @
            errors_of ''tunnel'' c1 @ errors_of ''ip'' c2 @ errors_of ''block'' c3\<rparr>, s6))"

section \<open>The charges implement the billing specification\<close>

definition tunnel_item :: "uuid \<Rightarrow> db \<Rightarrow> bill_item option" where
  "tunnel_item k s = (case live_tunnel k s of None \<Rightarrow> None | Some t \<Rightarrow>
     (case tunnel_price t s of None \<Rightarrow> None | Some p \<Rightarrow>
       Some \<lparr>bi_owner = t_user_id t, bi_price = p, bi_due = t_next_billing_at t,
         bi_last = t_last_billed_at t, bi_active = (t_status t = TunActive),
         bi_susp = t_suspended_at t, bi_del = t_delete_after t\<rparr>))"

definition ip_item :: "ip4 \<Rightarrow> db \<Rightarrow> bill_item option" where
  "ip_item k s = (case find (\<lambda>p. i_ip_address p = k) (ips s) of None \<Rightarrow> None | Some r \<Rightarrow>
     (case i_user_id r of None \<Rightarrow> None | Some u \<Rightarrow>
       if i_block_id r \<noteq> None then None else
       (case (case i_price_satang r of Some p \<Rightarrow> Inr p | None \<Rightarrow> ipPrice 1 s) of Inl e \<Rightarrow> None | Inr p \<Rightarrow>
         Some \<lparr>bi_owner = u, bi_price = p,
           bi_due = (case i_next_billing_at r of None \<Rightarrow> 0 | Some d \<Rightarrow> d),
           bi_last = i_last_billed_at r, bi_active = (i_status r = IpAllocated),
           bi_susp = i_suspended_at r, bi_del = i_delete_after r\<rparr>)))"

definition block_item :: "uuid \<Rightarrow> db \<Rightarrow> bill_item option" where
  "block_item k s = (case find (\<lambda>b. b_id b = k) (blocks s) of None \<Rightarrow> None | Some b \<Rightarrow>
     Some \<lparr>bi_owner = b_user_id b, bi_price = b_price_satang b, bi_due = b_next_billing_at b,
       bi_last = b_last_billed_at b, bi_active = (b_status b = BlkActive),
       bi_susp = b_suspended_at b, bi_del = b_delete_after b\<rparr>)"

lemma renewal_eq:
  "renewal g w u typ price desc key s =
     (if key_used (Some key) s then None
      else Some (wallet_debit (w_id w) (w_balance w - price) price (s\<lparr>txs := txs s @
        [\<lparr>x_id = g (length (txs s)), x_user_id = u, x_wallet_id = w_id w, x_type = typ, x_amount = - price,
          x_balance_after = w_balance w - price, x_description = desc, x_code_redemption_id = None,
          x_admin_user_id = None, x_idempotency_key = Some key\<rparr>]\<rparr>)))"
  by (simp add: renewal_def insert_tx_once_def Let_def)

text \<open>The common shape of the three charges, against the abstract one.\<close>

lemma bill_refines:
  assumes b: "bill now (w_balance w) (key_used (Some key) s) it = (out, it')"
    and w: "w_user_id w = bi_owner it" and it: "item k s = Some it"
    and c: "c = (if w_balance w < bi_price it then (Inr Suspended, ss)
       else case renewal g w (bi_owner it) typ (bi_price it) desc key s of
         None \<Rightarrow> (Inr Skipped, s) | Some s2 \<Rightarrow> (Inr Charged, rr s2))"
    and ss: "item k ss = Some (on_hold now it)" "\<And>j. j \<noteq> k \<Longrightarrow> item j ss = item j s"
      "wallets ss = wallets s" "txs ss = txs s"
    and rr: "\<And>nb x. item k (rr (wallet_debit (w_id w) nb (bi_price it) (s\<lparr>txs := x\<rparr>))) = Some (renewed now it)"
      "\<And>nb x j. j \<noteq> k \<Longrightarrow> item j (rr (wallet_debit (w_id w) nb (bi_price it) (s\<lparr>txs := x\<rparr>))) = item j s"
      "\<And>s2. wallets (rr s2) = wallets s2" "\<And>s2. txs (rr s2) = txs s2"
  shows "\<exists>s'. c = (Inr out, s') \<and> item k s' = Some it' \<and> (\<forall>j. j \<noteq> k \<longrightarrow> item j s' = item j s) \<and>
     posted out w (bi_price it) key s s'"
proof (cases "w_balance w < bi_price it")
  case True
  with b have "out = Suspended" "it' = on_hold now it" by (auto simp: bill_def)
  with True ss show ?thesis by (auto simp: c posted_def)
next
  case rich: False
  show ?thesis
  proof (cases "key_used (Some key) s")
    case True
    with rich b have "out = Skipped" "it' = it" by (auto simp: bill_def)
    with rich True it show ?thesis by (auto simp: c posted_def renewal_eq)
  next
    case False
    with rich b have "out = Charged" "it' = renewed now it" by (auto simp: bill_def)
    with rich False rr w show ?thesis by (auto simp: c posted_def renewal_eq wallet_debit_def)
  qed
qed

lemma live_tunnel_Some: "live_tunnel k s = Some t \<Longrightarrow> t \<in> set (tunnels s) \<and> t_id t = k \<and> t_deleted_at t = None"
  by (auto simp: live_tunnel_def dest: find_SomeD)

lemma live_tunnel_upd:
  assumes "tunnels s' = upd_where (\<lambda>t. t_id t = k) f (tunnels s)"
    and "\<And>t. t_id (f t) = t_id t" "\<And>t. t_deleted_at (f t) = t_deleted_at t"
  shows "live_tunnel j s' = map_option (\<lambda>t. if t_id t = k then f t else t) (live_tunnel j s)"
  using assms by (simp add: live_tunnel_def find_upd_where)

lemma tunnel_price_cong:
  "t_price_satang t' = t_price_satang t \<Longrightarrow> t_speed_tier t' = t_speed_tier t \<Longrightarrow>
     pricing_speed s' = pricing_speed s \<Longrightarrow> tunnel_price t' s' = tunnel_price t s"
  by (simp add: tunnel_price_def speedTierPrice_def cong: option.case_cong)

text \<open>
  How the items of a kind change under an update of the row of one id: the others are as before,
  and the item of that id is read from the new row.
\<close>

lemma tunnel_item_upd:
  assumes "tunnels s' = upd_where (\<lambda>t. t_id t = k) f (tunnels s)" "pricing_speed s' = pricing_speed s"
    and f: "\<And>t. t_id (f t) = t_id t" "\<And>t. t_deleted_at (f t) = t_deleted_at t"
      "\<And>t. t_price_satang (f t) = t_price_satang t" "\<And>t. t_speed_tier (f t) = t_speed_tier t"
  shows "j \<noteq> k \<Longrightarrow> tunnel_item j s' = tunnel_item j s"
    and "live_tunnel k s = Some t \<Longrightarrow> tunnel_price t s = Some p \<Longrightarrow> tunnel_item k s' =
      Some \<lparr>bi_owner = t_user_id (f t), bi_price = p, bi_due = t_next_billing_at (f t),
         bi_last = t_last_billed_at (f t), bi_active = (t_status (f t) = TunActive),
         bi_susp = t_suspended_at (f t), bi_del = t_delete_after (f t)\<rparr>"
proof -
  note l = live_tunnel_upd [OF assms(1) f(1,2)]
  have p: "tunnel_price t s' = tunnel_price t s" "tunnel_price (f t) s = tunnel_price t s" for t
    using assms(2) f(3,4) by (auto intro: tunnel_price_cong)
  show "tunnel_item j s' = tunnel_item j s" if "j \<noteq> k"
    using that by (auto simp: tunnel_item_def l p dest: live_tunnel_Some split: option.splits)
  show "tunnel_item k s' = Some \<lparr>bi_owner = t_user_id (f t), bi_price = p, bi_due = t_next_billing_at (f t),
         bi_last = t_last_billed_at (f t), bi_active = (t_status (f t) = TunActive),
         bi_susp = t_suspended_at (f t), bi_del = t_delete_after (f t)\<rparr>"
    if "live_tunnel k s = Some t" "tunnel_price t s = Some p"
    using that live_tunnel_Some [of k s t] by (simp add: tunnel_item_def l p)
qed

interpretation tun: billable chargeOneTunnel tunnel_item "chargeIdempotencyKey KTunnel"
proof unfold_locales
  fix k s g now
  assume "tunnel_item k s = None"
  then show "snd (chargeOneTunnel g now k s) = s \<and>
      (\<forall>out. fst (chargeOneTunnel g now k s) = Inr out \<longrightarrow> out = Skipped)"
    by (auto simp: tunnel_item_def chargeOneTunnel_def sql_begin_def split: option.splits)
next
  fix k s it g now
  assume "tunnel_item k s = Some it" "wallet_of (bi_owner it) s = None"
  then show "chargeOneTunnel g now k s = (Inr Skipped, s)"
    by (auto simp: tunnel_item_def chargeOneTunnel_def sql_begin_def split: option.splits)
next
  fix k s it w now out it' g
  assume it: "tunnel_item k s = Some it" and w: "wallet_of (bi_owner it) s = Some w"
    and b: "bill now (w_balance w) (key_used (Some (chargeIdempotencyKey KTunnel k (bi_due it))) s) it = (out, it')"
  obtain t p where t: "live_tunnel k s = Some t" and p: "tunnel_price t s = Some p"
    and iteq: "it = \<lparr>bi_owner = t_user_id t, bi_price = p, bi_due = t_next_billing_at t,
         bi_last = t_last_billed_at t, bi_active = (t_status t = TunActive),
         bi_susp = t_suspended_at t, bi_del = t_delete_after t\<rparr>"
    using it by (auto simp: tunnel_item_def split: option.splits)
  have tid: "t_id t = k" and wu: "w_user_id w = t_user_id t"
    using live_tunnel_Some [OF t] wallet_of_Some [OF w] by (auto simp: iteq)
  note upd = tunnel_item_upd(2) [OF _ _ _ _ _ _ t p] tunnel_item_upd(1)
  let ?ss = "suspend_tunnel k (t_status t) now (t_user_id t) (t_name t) s"
  let ?rr = "set_tunnels (\<lambda>v. t_id v = k) (\<lambda>v. v\<lparr>t_next_billing_at := nextBillingAt (t_next_billing_at t),
      t_last_billed_at := Some now, t_status := TunActive, t_suspended_at := None, t_delete_after := None\<rparr>)"
  have ss: "tunnels ?ss = upd_where (\<lambda>t. t_id t = k) (\<lambda>t. t\<lparr>t_status := TunSuspended,
        t_suspended_at := coalesce (t_suspended_at t) now,
        t_delete_after := coalesce (t_delete_after t) (deleteAfter now)\<rparr>) (tunnels s)"
    "pricing_speed ?ss = pricing_speed s"
    by (simp_all add: suspend_tunnel_def Let_def)
  have rr: "tunnels (?rr (wallet_debit (w_id w) nb (bi_price it) (s\<lparr>txs := x\<rparr>))) =
      upd_where (\<lambda>t. t_id t = k) (\<lambda>v. v\<lparr>t_next_billing_at := nextBillingAt (t_next_billing_at t),
        t_last_billed_at := Some now, t_status := TunActive, t_suspended_at := None, t_delete_after := None\<rparr>) (tunnels s)"
    "pricing_speed (?rr (wallet_debit (w_id w) nb (bi_price it) (s\<lparr>txs := x\<rparr>))) = pricing_speed s" for nb x
    by simp_all
  show "\<exists>s'. chargeOneTunnel g now k s = (Inr out, s') \<and> tunnel_item k s' = Some it' \<and>
      (\<forall>j. j \<noteq> k \<longrightarrow> tunnel_item j s' = tunnel_item j s) \<and>
      posted out w (bi_price it) (chargeIdempotencyKey KTunnel k (bi_due it)) s s'"
  proof (rule bill_refines [where item = tunnel_item and ss = ?ss and rr = ?rr, OF b _ it])
    show "chargeOneTunnel g now k s = (if w_balance w < bi_price it then (Inr Suspended, ?ss)
       else case renewal g w (bi_owner it) TxSubscriptionCharge (bi_price it)
           (''Renewal: tunnel '' @ t_name t @ '' ('' @ t_speed_tier t @ '')'')
           (chargeIdempotencyKey KTunnel k (bi_due it)) s of
         None \<Rightarrow> (Inr Skipped, s) | Some s2 \<Rightarrow> (Inr Charged, ?rr s2))"
      using t p w by (simp add: chargeOneTunnel_def sql_begin_def tid iteq split: option.splits)
    show "tunnel_item k ?ss = Some (on_hold now it)"
      by (subst upd(1) [OF ss]) (simp_all add: iteq on_hold_def coalesce_Some deleteAfter_def cong: option.case_cong)
    show "tunnel_item j ?ss = tunnel_item j s" if "j \<noteq> k" for j
      using upd(2) [OF ss _ _ _ _ that] by simp
    show "tunnel_item k (?rr (wallet_debit (w_id w) nb (bi_price it) (s\<lparr>txs := x\<rparr>))) = Some (renewed now it)" for nb x
      by (subst upd(1) [OF rr]) (simp_all add: iteq renewed_def nextBillingAt_def BILLING_CYCLE_DAYS_def)
    show "tunnel_item j (?rr (wallet_debit (w_id w) nb (bi_price it) (s\<lparr>txs := x\<rparr>))) = tunnel_item j s"
      if "j \<noteq> k" for nb x j
      using upd(2) [OF rr _ _ _ _ that] by simp
  qed (simp_all add: wu iteq suspend_tunnel_def Let_def)
qed (simp add: charge_key_eq_iff)

lemma ip_item_upd:
  assumes "ips s' = upd_where (\<lambda>r. i_ip_address r = k) f (ips s)" "pricing_ip s' = pricing_ip s"
    and f: "\<And>r. i_ip_address (f r) = i_ip_address r" "\<And>r. i_user_id (f r) = i_user_id r"
      "\<And>r. i_block_id (f r) = i_block_id r" "\<And>r. i_price_satang (f r) = i_price_satang r"
  shows "j \<noteq> k \<Longrightarrow> ip_item j s' = ip_item j s"
    and "find (\<lambda>r. i_ip_address r = k) (ips s) = Some r \<Longrightarrow> ip_item k s = Some it \<Longrightarrow> ip_item k s' =
      Some \<lparr>bi_owner = bi_owner it, bi_price = bi_price it,
        bi_due = (case i_next_billing_at (f r) of None \<Rightarrow> 0 | Some d \<Rightarrow> d), bi_last = i_last_billed_at (f r),
        bi_active = (i_status (f r) = IpAllocated), bi_susp = i_suspended_at (f r), bi_del = i_delete_after (f r)\<rparr>"
proof -
  have l: "find (\<lambda>r. i_ip_address r = j) (ips s') =
      map_option (\<lambda>r. if i_ip_address r = k then f r else r) (find (\<lambda>r. i_ip_address r = j) (ips s))" for j
    using assms by (simp add: find_upd_where)
  have p: "ipPrice n s' = ipPrice n s" for n using assms(2) by (simp add: ipPrice_def)
  show "ip_item j s' = ip_item j s" if "j \<noteq> k"
    using that find_SomeD(2) [of "\<lambda>r. i_ip_address r = j" "ips s"]
    by (cases "find (\<lambda>r. i_ip_address r = j) (ips s)") (simp_all add: ip_item_def l p cong: option.case_cong if_cong)
  show "ip_item k s' = Some \<lparr>bi_owner = bi_owner it, bi_price = bi_price it,
        bi_due = (case i_next_billing_at (f r) of None \<Rightarrow> 0 | Some d \<Rightarrow> d), bi_last = i_last_billed_at (f r),
        bi_active = (i_status (f r) = IpAllocated), bi_susp = i_suspended_at (f r), bi_del = i_delete_after (f r)\<rparr>"
    if "find (\<lambda>r. i_ip_address r = k) (ips s) = Some r" "ip_item k s = Some it"
    using that find_SomeD(2) [OF that(1)]
    by (auto simp: ip_item_def l p f split: option.splits if_splits sum.splits)
qed

lemma chargeOnePublicIp_item:
  assumes it: "ip_item k s = Some it" and w: "wallet_of (bi_owner it) s = Some w"
  obtains r where "find (\<lambda>p. i_ip_address p = k) (ips s) = Some r"
    "it = \<lparr>bi_owner = bi_owner it, bi_price = bi_price it,
        bi_due = (case i_next_billing_at r of None \<Rightarrow> 0 | Some d \<Rightarrow> d), bi_last = i_last_billed_at r,
        bi_active = (i_status r = IpAllocated), bi_susp = i_suspended_at r, bi_del = i_delete_after r\<rparr>"
    "chargeOnePublicIp g now k s = (if w_balance w < bi_price it
       then (Inr Suspended, suspendPublicIp k (i_status r) now (bi_owner it) s)
       else case renewal g w (bi_owner it) TxIpCharge (bi_price it) (''Renewal: Public IP '' @ k)
           (chargeIdempotencyKey KIp k (bi_due it)) s of
         None \<Rightarrow> (Inr Skipped, s)
       | Some s2 \<Rightarrow> (Inr Charged, set_ips (\<lambda>p. i_ip_address p = k)
           (\<lambda>p. p\<lparr>i_next_billing_at := Some (nextBillingAt (bi_due it)), i_last_billed_at := Some now,
                  i_status := IpAllocated, i_suspended_at := None, i_delete_after := None\<rparr>) s2))"
proof -
  obtain r u p where r: "find (\<lambda>p. i_ip_address p = k) (ips s) = Some r" "i_user_id r = Some u"
      "i_block_id r = None" "(case i_price_satang r of Some p \<Rightarrow> Inr p | None \<Rightarrow> ipPrice 1 s) = Inr p"
    and iteq: "it = \<lparr>bi_owner = u, bi_price = p,
        bi_due = (case i_next_billing_at r of None \<Rightarrow> 0 | Some d \<Rightarrow> d), bi_last = i_last_billed_at r,
        bi_active = (i_status r = IpAllocated), bi_susp = i_suspended_at r, bi_del = i_delete_after r\<rparr>"
    using it by (auto simp: ip_item_def split: option.splits sum.splits if_splits)
  show thesis
  proof (rule that [OF r(1)])
  qed (use r w in \<open>simp_all add: iteq chargeOnePublicIp_def sql_begin_def Let_def split: option.splits\<close>)
qed

interpretation pip: billable chargeOnePublicIp ip_item "chargeIdempotencyKey KIp"
proof unfold_locales
  fix k s g now
  assume "ip_item k s = None"
  then show "snd (chargeOnePublicIp g now k s) = s \<and>
      (\<forall>out. fst (chargeOnePublicIp g now k s) = Inr out \<longrightarrow> out = Skipped)"
    by (auto simp: ip_item_def chargeOnePublicIp_def sql_begin_def split: option.splits sum.splits)
next
  fix k s it g now
  assume "ip_item k s = Some it" "wallet_of (bi_owner it) s = None"
  then show "chargeOnePublicIp g now k s = (Inr Skipped, s)"
    by (auto simp: ip_item_def chargeOnePublicIp_def sql_begin_def split: option.splits sum.splits if_splits)
next
  fix k s it w now out it' g
  assume it: "ip_item k s = Some it" and w: "wallet_of (bi_owner it) s = Some w"
    and b: "bill now (w_balance w) (key_used (Some (chargeIdempotencyKey KIp k (bi_due it))) s) it = (out, it')"
  obtain r where r: "find (\<lambda>p. i_ip_address p = k) (ips s) = Some r"
    and iteq: "it = \<lparr>bi_owner = bi_owner it, bi_price = bi_price it,
        bi_due = (case i_next_billing_at r of None \<Rightarrow> 0 | Some d \<Rightarrow> d), bi_last = i_last_billed_at r,
        bi_active = (i_status r = IpAllocated), bi_susp = i_suspended_at r, bi_del = i_delete_after r\<rparr>"
    and eq: "chargeOnePublicIp g now k s = (if w_balance w < bi_price it
       then (Inr Suspended, suspendPublicIp k (i_status r) now (bi_owner it) s)
       else case renewal g w (bi_owner it) TxIpCharge (bi_price it) (''Renewal: Public IP '' @ k)
           (chargeIdempotencyKey KIp k (bi_due it)) s of
         None \<Rightarrow> (Inr Skipped, s)
       | Some s2 \<Rightarrow> (Inr Charged, set_ips (\<lambda>p. i_ip_address p = k)
           (\<lambda>p. p\<lparr>i_next_billing_at := Some (nextBillingAt (bi_due it)), i_last_billed_at := Some now,
                  i_status := IpAllocated, i_suspended_at := None, i_delete_after := None\<rparr>) s2))"
    using chargeOnePublicIp_item [OF it w] by metis
  from iteq obtain u p where iteq: "it = \<lparr>bi_owner = u, bi_price = p,
        bi_due = (case i_next_billing_at r of None \<Rightarrow> 0 | Some d \<Rightarrow> d), bi_last = i_last_billed_at r,
        bi_active = (i_status r = IpAllocated), bi_susp = i_suspended_at r, bi_del = i_delete_after r\<rparr>" by blast
  note upd = ip_item_upd(2) [OF _ _ _ _ _ _ r it] ip_item_upd(1)
  let ?ss = "suspendPublicIp k (i_status r) now (bi_owner it) s"
  let ?rr = "set_ips (\<lambda>p. i_ip_address p = k) (\<lambda>p. p\<lparr>i_next_billing_at := Some (nextBillingAt (bi_due it)),
      i_last_billed_at := Some now, i_status := IpAllocated, i_suspended_at := None, i_delete_after := None\<rparr>)"
  have ss: "ips ?ss = upd_where (\<lambda>p. i_ip_address p = k) (\<lambda>p. p\<lparr>i_status := IpSuspended,
        i_suspended_at := coalesce (i_suspended_at p) now,
        i_delete_after := coalesce (i_delete_after p) (deleteAfter now)\<rparr>) (ips s)"
    "pricing_ip ?ss = pricing_ip s"
    by (simp_all add: suspendPublicIp_def Let_def)
  have rr: "ips (?rr (wallet_debit (w_id w) nb (bi_price it) (s\<lparr>txs := x\<rparr>))) =
      upd_where (\<lambda>p. i_ip_address p = k) (\<lambda>p. p\<lparr>i_next_billing_at := Some (nextBillingAt (bi_due it)),
        i_last_billed_at := Some now, i_status := IpAllocated, i_suspended_at := None, i_delete_after := None\<rparr>) (ips s)"
    "pricing_ip (?rr (wallet_debit (w_id w) nb (bi_price it) (s\<lparr>txs := x\<rparr>))) = pricing_ip s" for nb x
    by simp_all
  show "\<exists>s'. chargeOnePublicIp g now k s = (Inr out, s') \<and> ip_item k s' = Some it' \<and>
      (\<forall>j. j \<noteq> k \<longrightarrow> ip_item j s' = ip_item j s) \<and>
      posted out w (bi_price it) (chargeIdempotencyKey KIp k (bi_due it)) s s'"
  proof (rule bill_refines [where item = ip_item and ss = ?ss and rr = ?rr, OF b _ it])
    show "chargeOnePublicIp g now k s = (if w_balance w < bi_price it then (Inr Suspended, ?ss)
       else case renewal g w (bi_owner it) TxIpCharge (bi_price it) (''Renewal: Public IP '' @ k)
           (chargeIdempotencyKey KIp k (bi_due it)) s of
         None \<Rightarrow> (Inr Skipped, s) | Some s2 \<Rightarrow> (Inr Charged, ?rr s2))"
      by (rule eq)
    show "ip_item k ?ss = Some (on_hold now it)"
      by (subst upd(1) [OF ss]) (simp_all add: iteq on_hold_def coalesce_Some deleteAfter_def cong: option.case_cong)
    show "ip_item j ?ss = ip_item j s" if "j \<noteq> k" for j
      using upd(2) [OF ss _ _ _ _ that] by simp
    show "ip_item k (?rr (wallet_debit (w_id w) nb (bi_price it) (s\<lparr>txs := x\<rparr>))) = Some (renewed now it)" for nb x
      by (subst upd(1) [OF rr]) (simp_all add: iteq renewed_def nextBillingAt_def BILLING_CYCLE_DAYS_def)
    show "ip_item j (?rr (wallet_debit (w_id w) nb (bi_price it) (s\<lparr>txs := x\<rparr>))) = ip_item j s"
      if "j \<noteq> k" for nb x j
      using upd(2) [OF rr _ _ _ _ that] by simp
  qed (use wallet_of_Some [OF w] in \<open>simp_all add: suspendPublicIp_def Let_def\<close>)
qed (simp add: charge_key_eq_iff)

lemma block_item_upd:
  assumes "blocks s' = upd_where (\<lambda>b. b_id b = k) f (blocks s)" and f: "\<And>b. b_id (f b) = b_id b"
  shows "j \<noteq> k \<Longrightarrow> block_item j s' = block_item j s"
    and "find (\<lambda>b. b_id b = k) (blocks s) = Some b \<Longrightarrow> block_item k s' =
      Some \<lparr>bi_owner = b_user_id (f b), bi_price = b_price_satang (f b), bi_due = b_next_billing_at (f b),
       bi_last = b_last_billed_at (f b), bi_active = (b_status (f b) = BlkActive),
       bi_susp = b_suspended_at (f b), bi_del = b_delete_after (f b)\<rparr>"
proof -
  have l: "find (\<lambda>b. b_id b = j) (blocks s') =
      map_option (\<lambda>b. if b_id b = k then f b else b) (find (\<lambda>b. b_id b = j) (blocks s))" for j
    using assms by (simp add: find_upd_where)
  show "block_item j s' = block_item j s" if "j \<noteq> k"
    using that find_SomeD(2) [of "\<lambda>b. b_id b = j" "blocks s"]
    by (cases "find (\<lambda>b. b_id b = j) (blocks s)") (simp_all add: block_item_def l)
  show "block_item k s' = Some \<lparr>bi_owner = b_user_id (f b), bi_price = b_price_satang (f b),
       bi_due = b_next_billing_at (f b), bi_last = b_last_billed_at (f b),
       bi_active = (b_status (f b) = BlkActive), bi_susp = b_suspended_at (f b), bi_del = b_delete_after (f b)\<rparr>"
    if "find (\<lambda>b. b_id b = k) (blocks s) = Some b"
    using that find_SomeD(2) [OF that] by (simp add: block_item_def l)
qed

interpretation blk: billable chargeOneIpBlock block_item "chargeIdempotencyKey KBlock"
proof unfold_locales
  fix k s g now
  assume "block_item k s = None"
  then show "snd (chargeOneIpBlock g now k s) = s \<and>
      (\<forall>out. fst (chargeOneIpBlock g now k s) = Inr out \<longrightarrow> out = Skipped)"
    by (auto simp: block_item_def chargeOneIpBlock_def sql_begin_def split: option.splits)
next
  fix k s it g now
  assume "block_item k s = Some it" "wallet_of (bi_owner it) s = None"
  then show "chargeOneIpBlock g now k s = (Inr Skipped, s)"
    by (auto simp: block_item_def chargeOneIpBlock_def sql_begin_def split: option.splits)
next
  fix k s it w now out it' g
  assume it: "block_item k s = Some it" and w: "wallet_of (bi_owner it) s = Some w"
    and bl: "bill now (w_balance w) (key_used (Some (chargeIdempotencyKey KBlock k (bi_due it))) s) it = (out, it')"
  obtain b where b: "find (\<lambda>b. b_id b = k) (blocks s) = Some b"
    and iteq: "it = \<lparr>bi_owner = b_user_id b, bi_price = b_price_satang b, bi_due = b_next_billing_at b,
       bi_last = b_last_billed_at b, bi_active = (b_status b = BlkActive),
       bi_susp = b_suspended_at b, bi_del = b_delete_after b\<rparr>"
    using it by (auto simp: block_item_def split: option.splits)
  have bid: "b_id b = k" and wu: "w_user_id w = b_user_id b"
    using find_SomeD(2) [OF b] wallet_of_Some [OF w] by (auto simp: iteq)
  note upd = block_item_upd(2) [OF _ _ b] block_item_upd(1)
  let ?ss = "suspend_block k (b_status b) now (b_user_id b) (b_block b) s"
  let ?rr = "set_blocks (\<lambda>v. b_id v = k) (\<lambda>v. v\<lparr>b_next_billing_at := nextBillingAt (b_next_billing_at b),
      b_last_billed_at := Some now, b_status := BlkActive, b_suspended_at := None, b_delete_after := None\<rparr>)"
  have ss: "blocks ?ss = upd_where (\<lambda>b. b_id b = k) (\<lambda>b. b\<lparr>b_status := BlkSuspended,
        b_suspended_at := coalesce (b_suspended_at b) now,
        b_delete_after := coalesce (b_delete_after b) (deleteAfter now)\<rparr>) (blocks s)"
    by (simp add: suspend_block_def Let_def)
  have rr: "blocks (?rr (wallet_debit (w_id w) nb (bi_price it) (s\<lparr>txs := x\<rparr>))) =
      upd_where (\<lambda>b. b_id b = k) (\<lambda>v. v\<lparr>b_next_billing_at := nextBillingAt (b_next_billing_at b),
        b_last_billed_at := Some now, b_status := BlkActive, b_suspended_at := None, b_delete_after := None\<rparr>) (blocks s)"
    for nb x by simp
  show "\<exists>s'. chargeOneIpBlock g now k s = (Inr out, s') \<and> block_item k s' = Some it' \<and>
      (\<forall>j. j \<noteq> k \<longrightarrow> block_item j s' = block_item j s) \<and>
      posted out w (bi_price it) (chargeIdempotencyKey KBlock k (bi_due it)) s s'"
  proof (rule bill_refines [where item = block_item and ss = ?ss and rr = ?rr, OF bl _ it])
    show "chargeOneIpBlock g now k s = (if w_balance w < bi_price it then (Inr Suspended, ?ss)
       else case renewal g w (bi_owner it) TxIpCharge (bi_price it) (''Renewal: IP block '' @ b_block b)
           (chargeIdempotencyKey KBlock k (bi_due it)) s of
         None \<Rightarrow> (Inr Skipped, s) | Some s2 \<Rightarrow> (Inr Charged, ?rr s2))"
      using b w by (simp add: chargeOneIpBlock_def sql_begin_def bid iteq split: option.splits)
    show "block_item k ?ss = Some (on_hold now it)"
      by (subst upd(1) [OF ss]) (simp_all add: iteq on_hold_def coalesce_Some deleteAfter_def cong: option.case_cong)
    show "block_item j ?ss = block_item j s" if "j \<noteq> k" for j
      using upd(2) [OF ss _ that] by simp
    show "block_item k (?rr (wallet_debit (w_id w) nb (bi_price it) (s\<lparr>txs := x\<rparr>))) = Some (renewed now it)" for nb x
      by (subst upd(1) [OF rr]) (simp_all add: iteq renewed_def nextBillingAt_def BILLING_CYCLE_DAYS_def)
    show "block_item j (?rr (wallet_debit (w_id w) nb (bi_price it) (s\<lparr>txs := x\<rparr>))) = block_item j s"
      if "j \<noteq> k" for nb x j
      using upd(2) [OF rr _ that] by simp
  qed (simp_all add: wu iteq suspend_block_def Let_def)
qed (simp add: charge_key_eq_iff)

end
