(* ===== verification/Demo.thy ===== *)
theory Demo
  imports Ledger
begin

text \<open>
  A small database at which the properties are instantiated: two customers (one with 1,000 baht,
  one with 10 satang), a gateway, an address pool, a tunnel with one single address and a block
  of four, all due at the same moment, and part of the price catalogue of the seed migration.
\<close>

abbreviation T0 :: ms where
  "T0 \<equiv> 1747612800000"

definition demo_gen :: uuid_gen where
  "demo_gen n = ''row-'' @ show_nat n"

definition demo_wallet :: wallet where
  "demo_wallet = \<lparr>w_id = ''w1'', w_user_id = ''u1'', w_balance = 100000, w_lifetime_topup = 100000,
     w_lifetime_spent = 0, w_version = 1\<rparr>"

definition demo_tx :: "string \<Rightarrow> string \<Rightarrow> string \<Rightarrow> satang \<Rightarrow> credit_tx" where
  "demo_tx xid u w a = \<lparr>x_id = xid, x_user_id = u, x_wallet_id = w, x_type = TxAdminAdjustment, x_amount = a,
     x_balance_after = a, x_description = ''top-up'', x_code_redemption_id = None,
     x_admin_user_id = Some ''admin'', x_idempotency_key = None\<rparr>"

definition demo_tunnel :: tunnel where
  "demo_tunnel = \<lparr>t_id = ''t1'', t_user_id = ''u1'', t_gateway_id = ''gw1'', t_name = ''home'',
     t_description = None, t_protocol = ''wireguard'', t_speed_tier = ''tier_100mb'', t_price_satang = Some 10000,
     t_private_ip = ''10.8.0.2'', t_wg_public_key = Some ''pk1'', t_wg_private_key_encrypted = None,
     t_status = TunActive, t_last_handshake_at = None, t_next_billing_at = T0, t_last_billed_at = None,
     t_suspended_at = None, t_delete_after = None, t_deleted_at = None, t_remote_endpoint_host = None,
     t_remote_endpoint_ip = None, t_remote_endpoint_resolved_at = None, t_gre_key = None\<rparr>"

definition demo_ip :: "ip4 \<Rightarrow> uuid option \<Rightarrow> uuid option \<Rightarrow> uuid option \<Rightarrow> ip_status \<Rightarrow> ms option \<Rightarrow> public_ip" where
  "demo_ip ip u t b st due = \<lparr>i_ip_address = ip, i_pool_id = ''p1'', i_user_id = u, i_tunnel_id = t, i_block_id = b,
     i_status = st, i_price_satang = None, i_next_billing_at = due, i_last_billed_at = None,
     i_suspended_at = None, i_delete_after = None, i_allocated_at = None, i_released_at = None, i_sale_mode = ''single''\<rparr>"

definition demo_block :: ip_block where
  "demo_block = \<lparr>b_id = ''b1'', b_user_id = ''u1'', b_pool_id = ''p1'', b_block = ''203.0.113.8/30'',
     b_block_size = 4, b_price_satang = 40000, b_status = BlkActive, b_next_billing_at = T0,
     b_last_billed_at = None, b_suspended_at = None, b_delete_after = None\<rparr>"

definition demo_db :: db where
  "demo_db = empty_db\<lparr>
     users := [\<lparr>u_id = ''u1'', u_email = ''a@example.org'', u_status = UserActive, u_deleted_at = None\<rparr>,
               \<lparr>u_id = ''u2'', u_email = ''b@example.org'', u_status = UserActive, u_deleted_at = None\<rparr>],
     wallets := [demo_wallet, \<lparr>w_id = ''w2'', w_user_id = ''u2'', w_balance = 10, w_lifetime_topup = 10,
       w_lifetime_spent = 0, w_version = 1\<rparr>],
     txs := [demo_tx ''x1'' ''u1'' ''w1'' 100000, demo_tx ''x2'' ''u2'' ''w2'' 10],
     gateways := [\<lparr>g_id = ''gw1'', g_hostname = ''bkk-1'', g_wg_public_key = Some ''gpk'',
       g_wg_endpoint = Some ''gw1.example.net'', g_wg_port = Some 51820,
       g_private_subnet = ''10.8.0.0/24'', g_max_tunnels = 100, g_current_tunnels = 1, g_status = GwActive,
       g_supported_protocols = [''wireguard'', ''gre''], g_bgp_enabled = False, g_bgp_router_id = Some ''198.51.100.1''\<rparr>],
     pools := [\<lparr>p_id = ''p1'', p_block = ''203.0.113.0/24'', p_available_count = 250, p_allocated_count = 5\<rparr>],
     tunnels := [demo_tunnel],
     blocks := [demo_block],
     ips := [demo_ip ''203.0.113.1'' (Some ''u1'') (Some ''t1'') None IpAllocated (Some T0),
       demo_ip ''203.0.113.8'' (Some ''u1'') (Some ''t1'') (Some ''b1'') IpAllocated None,
       demo_ip ''203.0.113.9'' (Some ''u1'') (Some ''t1'') (Some ''b1'') IpAllocated None,
       demo_ip ''203.0.113.10'' (Some ''u1'') (Some ''t1'') (Some ''b1'') IpAllocated None,
       demo_ip ''203.0.113.11'' (Some ''u1'') (Some ''t1'') (Some ''b1'') IpAllocated None],
     pricing_speed := [\<lparr>ps_tier = ''tier_100mb'', ps_price = 10000, ps_sort_order = 1\<rparr>,
       \<lparr>ps_tier = ''tier_500mb'', ps_price = 20000, ps_sort_order = 2\<rparr>],
     pricing_ip := [\<lparr>pi_block_size = 1, pi_price = 10000\<rparr>, \<lparr>pi_block_size = 4, pi_price = 40000\<rparr>],
     pricing_allow := [\<lparr>pa_protocol = ''wireguard'', pa_tier = ''tier_100mb'', pa_enabled = True\<rparr>,
       \<lparr>pa_protocol = ''wireguard'', pa_tier = ''tier_500mb'', pa_enabled = True\<rparr>],
     admins := [\<lparr>au_id = ''a1'', au_email = ''root@example.org'', au_active = True\<rparr>]\<rparr>"

lemma demo_ledger_ok: "ledger_ok demo_db"
  by code_simp

text \<open>The same database when the first customer has spent the money.\<close>

definition poor_db :: db where
  "poor_db = demo_db\<lparr>wallets := [demo_wallet\<lparr>w_balance := 0, w_lifetime_spent := 100000\<rparr>],
     txs := [demo_tx ''x1'' ''u1'' ''w1'' 100000,
       (demo_tx ''x2'' ''u1'' ''w1'' (- 100000))\<lparr>x_balance_after := 0\<rparr>]\<rparr>"

lemma poor_ledger_ok: "ledger_ok poor_db"
  by code_simp

end
