(* ===== verification/Tenancy.thy ===== *)
theory Tenancy
  imports TunnelSync Demo
begin

text \<open>
  The isolation of customers: an address attached to a tunnel belongs to the owner of the tunnel,
  a member of a block belongs to the owner of the block, and both references point to existing
  rows. \<open>keeps\<close> is the interface of an operation that preserves an invariant, under a guard.
\<close>

definition tun_owners :: "db \<Rightarrow> (uuid \<times> uuid) list" where
  "tun_owners s = map (\<lambda>t. (t_id t, t_user_id t)) (tunnels s)"

definition blk_owners :: "db \<Rightarrow> (uuid \<times> uuid) list" where
  "blk_owners s = map (\<lambda>b. (b_id b, b_user_id b)) (blocks s)"

definition belongs :: "(uuid \<times> uuid) list \<Rightarrow> uuid option \<Rightarrow> uuid option \<Rightarrow> bool" where
  "belongs owners ref user \<longleftrightarrow> (case ref of None \<Rightarrow> True
     | Some r \<Rightarrow> (case user of None \<Rightarrow> False | Some u \<Rightarrow> map_of owners r = Some u))"

lemma belongs_None [simp]: "belongs owners None u"
  by (simp add: belongs_def)

lemma belongs_append: "belongs owners ref u \<Longrightarrow> belongs (owners @ new) ref u"
  by (auto simp: belongs_def map_add_def split: option.splits)

definition row_ok :: "db \<Rightarrow> public_ip \<Rightarrow> bool" where
  "row_ok s p \<longleftrightarrow> belongs (tun_owners s) (i_tunnel_id p) (i_user_id p) \<and>
     belongs (blk_owners s) (i_block_id p) (i_user_id p)"

text \<open>Primary keys of the tables the references point to.\<close>

definition ids_ok :: "db \<Rightarrow> bool" where
  "ids_ok s \<longleftrightarrow> distinct (map t_id (tunnels s)) \<and> distinct (map i_ip_address (ips s)) \<and> distinct (map b_id (blocks s))"

definition tenancy_ok :: "db \<Rightarrow> bool" where
  "tenancy_ok s \<longleftrightarrow> ids_ok s \<and> (\<forall>p \<in> set (ips s). row_ok s p)"

lemma tenancy_okD: "tenancy_ok s \<Longrightarrow> ids_ok s" "tenancy_ok s \<Longrightarrow> p \<in> set (ips s) \<Longrightarrow> row_ok s p"
  by (auto simp: tenancy_ok_def)

lemma row_ok_cong: "tun_owners s' = tun_owners s \<Longrightarrow> blk_owners s' = blk_owners s \<Longrightarrow> row_ok s' p = row_ok s p"
  by (simp add: row_ok_def)

lemma owners_ids: "map fst (tun_owners s) = map t_id (tunnels s)" "map fst (blk_owners s) = map b_id (blocks s)"
  by (simp_all add: tun_owners_def blk_owners_def)

text \<open>An operation that keeps the owners of tunnels and blocks only has to look at the rows it writes.\<close>

lemma tenancy_rows:
  assumes ok: "tenancy_ok s" and own: "tun_owners s' = tun_owners s" "blk_owners s' = blk_owners s"
    and ips: "ips s' = upd_where P f (ips s)" "\<And>p. i_ip_address (f p) = i_ip_address p"
    and row: "\<And>p. p \<in> set (ips s) \<Longrightarrow> P p \<Longrightarrow> row_ok s (f p)"
  shows "tenancy_ok s'"
proof -
  have "row_ok s' p" if "p \<in> set (ips s')" for p
    using that unfolding ips(1)
    by (cases rule: upd_whereE) (use ok row own in \<open>auto simp: row_ok_cong [OF own] dest: tenancy_okD\<close>)
  moreover have "ids_ok s'"
    using tenancy_okD(1) [OF ok] ips owners_ids [of s'] owners_ids [of s] own
    by (simp add: ids_ok_def map_upd_where_same)
  ultimately show ?thesis by (simp add: tenancy_ok_def)
qed

lemma tenancy_cong:
  assumes "tenancy_ok s" "tun_owners s' = tun_owners s" "blk_owners s' = blk_owners s" "ips s' = ips s"
  shows "tenancy_ok s'"
  by (rule tenancy_rows [OF assms(1-3), of "\<lambda>_. False" id]) (simp_all add: assms(4) upd_where_none)

lemma tenancy_set_ips:
  assumes "tenancy_ok s" "\<And>p. p \<in> set (ips s) \<Longrightarrow> P p \<Longrightarrow> row_ok s (f p)"
    and "\<And>p. i_ip_address (f p) = i_ip_address p"
  shows "tenancy_ok (set_ips P f s)"
  by (rule tenancy_rows [OF assms(1), where P = P and f = f])
    (use assms(2,3) in \<open>simp_all add: tun_owners_def blk_owners_def\<close>)

text \<open>Every address has one row.\<close>

lemma ids_ok_row:
  assumes "ids_ok s" "find (\<lambda>p. i_ip_address p = ip) (ips s) = Some row" "p \<in> set (ips s)" "i_ip_address p = ip"
  shows "p = row"
  using assms find_SomeD [OF assms(2)] distinct_key_eq [of i_ip_address "ips s" p row] by (auto simp: ids_ok_def)

lemma tun_owners_upd:
  "tunnels s' = upd_where P f (tunnels s) \<Longrightarrow> (\<And>t. t_id (f t) = t_id t) \<Longrightarrow> (\<And>t. t_user_id (f t) = t_user_id t) \<Longrightarrow>
     tun_owners s' = tun_owners s"
  by (simp add: tun_owners_def map_upd_where_same)

lemma blk_owners_upd:
  "blocks s' = upd_where P f (blocks s) \<Longrightarrow> (\<And>b. b_id (f b) = b_id b) \<Longrightarrow> (\<And>b. b_user_id (f b) = b_user_id b) \<Longrightarrow>
     blk_owners s' = blk_owners s"
  by (simp add: blk_owners_def map_upd_where_same)

lemma owners_same:
  "tunnels s' = tunnels s \<Longrightarrow> tun_owners s' = tun_owners s" "blocks s' = blocks s \<Longrightarrow> blk_owners s' = blk_owners s"
  by (simp_all add: tun_owners_def blk_owners_def)

lemma live_tunnel_owner:
  assumes "ids_ok s" "live_tunnel tid s = Some t"
  shows "map_of (tun_owners s) tid = Some (t_user_id t)"
proof -
  have "t \<in> set (tunnels s)" "t_id t = tid" using assms(2) by (auto simp: live_tunnel_def dest: find_SomeD)
  then have "(tid, t_user_id t) \<in> set (tun_owners s)" by (force simp: tun_owners_def)
  moreover have "distinct (map fst (tun_owners s))" using assms(1) by (simp add: owners_ids ids_ok_def)
  ultimately show ?thesis by simp
qed

text \<open>What the invariant says of an attached address.\<close>

lemma tenancy_attached:
  assumes "tenancy_ok s" "p \<in> set (ips s)" "t \<in> set (tunnels s)" "i_tunnel_id p = Some (t_id t)"
  shows "i_user_id p = Some (t_user_id t)"
proof -
  have "distinct (map fst (tun_owners s))" using tenancy_okD(1) [OF assms(1)] by (simp add: owners_ids ids_ok_def)
  moreover have "(t_id t, t_user_id t) \<in> set (tun_owners s)" using assms(3) by (force simp: tun_owners_def)
  ultimately have "map_of (tun_owners s) (t_id t) = Some (t_user_id t)" by simp
  with tenancy_okD(2) [OF assms(1,2)] assms(4) show ?thesis
    by (auto simp: row_ok_def belongs_def split: option.splits)
qed

section \<open>Operations that keep an invariant\<close>

locale keeps =
  fixes I :: "db \<Rightarrow> bool" and guard :: "'a \<Rightarrow> db \<Rightarrow> bool" and f :: "'a \<Rightarrow> 'r op"
  assumes kept: "I s \<Longrightarrow> guard x s \<Longrightarrow> I (snd (f x s))"
begin

lemma loop_kept: "I s \<Longrightarrow> (\<And>x s. x \<in> set xs \<Longrightarrow> guard x s) \<Longrightarrow> I (snd (for_try f xs s))"
  by (rule for_try_inv) (simp_all add: kept)

end

lemma demo_tenancy_ok: "tenancy_ok demo_db"
  by code_simp

end
