(* ===== verification/BillingTick.thy ===== *)
theory BillingTick
  imports BillingScheduler Tenancy
begin

text \<open>
  The properties of \<^verbatim>\<open>runBillingTick\<close>: the books stay right, the report counts the ledger rows,
  what is overdue is cancelled and what is in its grace period is not, customers who can pay keep
  everything; and the properties of single charges and cancellations. \<open>canceller\<close> is the
  interface of the three forced cancellations.
\<close>

section \<open>What each phase leaves alone\<close>

lemma for_try_field: "(\<And>x s. F (snd (f x s)) = F s) \<Longrightarrow> F (snd (for_try f xs s)) = F s"
  using for_try_inv [of xs "\<lambda>t. F t = F s" f s] by simp

lemma renewal_frame:
  "renewal g w u typ p d k s = Some s2 \<Longrightarrow> ips s2 = ips s \<and> tunnels s2 = tunnels s \<and> blocks s2 = blocks s \<and>
     pricing_speed s2 = pricing_speed s \<and> pricing_ip s2 = pricing_ip s"
  by (auto simp: renewal_eq split: if_splits)

lemma chargeOneTunnel_frame [simp]:
  "ips (snd (chargeOneTunnel g now k s)) = ips s" "blocks (snd (chargeOneTunnel g now k s)) = blocks s"
  "pricing_speed (snd (chargeOneTunnel g now k s)) = pricing_speed s"
  "pricing_ip (snd (chargeOneTunnel g now k s)) = pricing_ip s"
  by (auto simp: chargeOneTunnel_def sql_begin_def suspend_tunnel_def Let_def dest!: renewal_frame split: option.splits)

lemma chargeOnePublicIp_frame [simp]:
  "tunnels (snd (chargeOnePublicIp g now k s)) = tunnels s" "blocks (snd (chargeOnePublicIp g now k s)) = blocks s"
  "pricing_speed (snd (chargeOnePublicIp g now k s)) = pricing_speed s"
  "pricing_ip (snd (chargeOnePublicIp g now k s)) = pricing_ip s"
  by (auto simp: chargeOnePublicIp_def sql_begin_def suspendPublicIp_def Let_def dest!: renewal_frame
      split: option.splits sum.splits)

lemma chargeOneIpBlock_frame [simp]:
  "tunnels (snd (chargeOneIpBlock g now k s)) = tunnels s" "ips (snd (chargeOneIpBlock g now k s)) = ips s"
  "pricing_speed (snd (chargeOneIpBlock g now k s)) = pricing_speed s"
  "pricing_ip (snd (chargeOneIpBlock g now k s)) = pricing_ip s"
  by (auto simp: chargeOneIpBlock_def sql_begin_def suspend_block_def Let_def dest!: renewal_frame split: option.splits)

lemma push_tunnel_cidrs_frame [simp]:
  "wallets (push_tunnel_cidrs tid s) = wallets s" "txs (push_tunnel_cidrs tid s) = txs s"
  "ips (push_tunnel_cidrs tid s) = ips s" "tunnels (push_tunnel_cidrs tid s) = tunnels s"
  "blocks (push_tunnel_cidrs tid s) = blocks s" "pools (push_tunnel_cidrs tid s) = pools s"
  "pricing_speed (push_tunnel_cidrs tid s) = pricing_speed s" "pricing_ip (push_tunnel_cidrs tid s) = pricing_ip s"
  by (simp_all add: push_tunnel_cidrs_def split: option.splits)

lemma fold_push_frame [simp]:
  "wallets (fold push_tunnel_cidrs tids s) = wallets s" "txs (fold push_tunnel_cidrs tids s) = txs s"
  "ips (fold push_tunnel_cidrs tids s) = ips s" "tunnels (fold push_tunnel_cidrs tids s) = tunnels s"
  "blocks (fold push_tunnel_cidrs tids s) = blocks s" "pools (fold push_tunnel_cidrs tids s) = pools s"
  "pricing_speed (fold push_tunnel_cidrs tids s) = pricing_speed s"
  "pricing_ip (fold push_tunnel_cidrs tids s) = pricing_ip s"
  by (induction tids arbitrary: s) simp_all

lemma forceCancelTunnel_frame [simp]:
  "wallets (snd (forceCancelTunnel now k s)) = wallets s" "txs (snd (forceCancelTunnel now k s)) = txs s"
  "blocks (snd (forceCancelTunnel now k s)) = blocks s" "pools (snd (forceCancelTunnel now k s)) = pools s"
  "pricing_speed (snd (forceCancelTunnel now k s)) = pricing_speed s"
  "pricing_ip (snd (forceCancelTunnel now k s)) = pricing_ip s"
  by (simp_all add: forceCancelTunnel_def Let_def split: option.splits)

lemma forceCancelPublicIp_frame [simp]:
  "wallets (snd (forceCancelPublicIp now k s)) = wallets s" "txs (snd (forceCancelPublicIp now k s)) = txs s"
  "tunnels (snd (forceCancelPublicIp now k s)) = tunnels s" "blocks (snd (forceCancelPublicIp now k s)) = blocks s"
  "pricing_speed (snd (forceCancelPublicIp now k s)) = pricing_speed s"
  "pricing_ip (snd (forceCancelPublicIp now k s)) = pricing_ip s"
  by (simp_all add: forceCancelPublicIp_def Let_def split: option.splits)

lemma forceCancelIpBlock_frame [simp]:
  "wallets (snd (forceCancelIpBlock now k s)) = wallets s" "txs (snd (forceCancelIpBlock now k s)) = txs s"
  "tunnels (snd (forceCancelIpBlock now k s)) = tunnels s"
  "pricing_speed (snd (forceCancelIpBlock now k s)) = pricing_speed s"
  "pricing_ip (snd (forceCancelIpBlock now k s)) = pricing_ip s"
  by (simp_all add: forceCancelIpBlock_def Let_def split: option.splits)

interpretation cancel_tunnel: wallet_frame "forceCancelTunnel now" for now
  by unfold_locales simp

interpretation cancel_ip: wallet_frame "forceCancelPublicIp now" for now
  by unfold_locales simp

interpretation cancel_block: wallet_frame "forceCancelIpBlock now" for now
  by unfold_locales simp

text \<open>The six phases of a tick.\<close>

lemma snd_runBillingTick:
  "snd (runBillingTick g now s) = snd (cancel_blocks now (snd (cancel_ips now (snd (cancel_tunnels now
     (snd (tick_blocks g now (snd (tick_ips g now (snd (tick_tunnels g now s)))))))))))"
  by (simp add: runBillingTick_def case_prod_beta)

lemma tick_frame [simp]:
  "ips (snd (tick_tunnels g now s)) = ips s" "blocks (snd (tick_tunnels g now s)) = blocks s"
  "pricing_ip (snd (tick_tunnels g now s)) = pricing_ip s" "pricing_speed (snd (tick_tunnels g now s)) = pricing_speed s"
  "tunnels (snd (tick_ips g now s)) = tunnels s" "blocks (snd (tick_ips g now s)) = blocks s"
  "pricing_ip (snd (tick_ips g now s)) = pricing_ip s" "pricing_speed (snd (tick_ips g now s)) = pricing_speed s"
  "tunnels (snd (tick_blocks g now s)) = tunnels s" "ips (snd (tick_blocks g now s)) = ips s"
  "pricing_ip (snd (tick_blocks g now s)) = pricing_ip s" "pricing_speed (snd (tick_blocks g now s)) = pricing_speed s"
  by (simp_all add: tick_tunnels_def tick_ips_def tick_blocks_def for_try_field)

lemma cancel_frame [simp]:
  "wallets (snd (cancel_tunnels now s)) = wallets s" "txs (snd (cancel_tunnels now s)) = txs s"
  "blocks (snd (cancel_tunnels now s)) = blocks s" "pricing_ip (snd (cancel_tunnels now s)) = pricing_ip s"
  "pricing_speed (snd (cancel_tunnels now s)) = pricing_speed s"
  "wallets (snd (cancel_ips now s)) = wallets s" "txs (snd (cancel_ips now s)) = txs s"
  "tunnels (snd (cancel_ips now s)) = tunnels s" "blocks (snd (cancel_ips now s)) = blocks s"
  "pricing_ip (snd (cancel_ips now s)) = pricing_ip s" "pricing_speed (snd (cancel_ips now s)) = pricing_speed s"
  "wallets (snd (cancel_blocks now s)) = wallets s" "txs (snd (cancel_blocks now s)) = txs s"
  "tunnels (snd (cancel_blocks now s)) = tunnels s" "pricing_ip (snd (cancel_blocks now s)) = pricing_ip s"
  "pricing_speed (snd (cancel_blocks now s)) = pricing_speed s"
  by (simp_all add: cancel_tunnels_def cancel_ips_def cancel_blocks_def for_try_field)

section \<open>Cancellation loops\<close>

text \<open>
  The contract of a forced cancellation: of the rows that are past their deadline, the one it is
  called for is gone afterwards and no other one appears. The loop over a list of ids then leaves
  no overdue row whose id is in the list.
\<close>

locale canceller =
  fixes cancel :: "'k \<Rightarrow> unit op" and rows :: "db \<Rightarrow> 'row list" and bad :: "'row \<Rightarrow> bool" and key :: "'row \<Rightarrow> 'k"
  assumes clears: "r \<in> set (rows (snd (cancel k s))) \<Longrightarrow> bad r \<Longrightarrow>
    \<exists>q \<in> set (rows s). bad q \<and> key q = key r \<and> key r \<noteq> k"
begin

lemma loop_clears:
  "r \<in> set (rows (snd (for_try cancel ks s))) \<Longrightarrow> bad r \<Longrightarrow>
     \<exists>q \<in> set (rows s). bad q \<and> key q = key r \<and> key r \<notin> set ks"
proof (induction ks arbitrary: s)
  case (Cons k ks)
  from Cons.IH [of "snd (cancel k s)"] Cons.prems obtain q where
    q: "q \<in> set (rows (snd (cancel k s)))" "bad q" "key q = key r" "key r \<notin> set ks"
    by (auto simp: case_prod_beta)
  from clears [OF q(1,2)] q(3,4) show ?case by auto
qed auto

lemma sweep: "\<forall>r \<in> set (rows (snd (for_try cancel (map key (filter bad (rows s))) s))). \<not> bad r"
proof
  fix r assume r: "r \<in> set (rows (snd (for_try cancel (map key (filter bad (rows s))) s)))"
  show "\<not> bad r"
  proof
    assume "bad r"
    from loop_clears [OF r this] obtain q where "q \<in> set (rows s)" "bad q" "key q = key r"
      "key r \<notin> set (map key (filter bad (rows s)))" by blast
    then show False by (simp add: image_iff) metis
  qed
qed

end

lemma tunnels_forceCancelTunnel:
  "tunnels (snd (forceCancelTunnel now k s)) = (if live_tunnel k s = None then tunnels s
     else upd_where (\<lambda>v. t_id v = k) (\<lambda>v. v\<lparr>t_status := TunDeleted, t_deleted_at := Some now,
       t_suspended_at := None, t_delete_after := None\<rparr>) (tunnels s))"
  by (simp add: forceCancelTunnel_def Let_def split: option.splits)

lemma ips_forceCancelPublicIp:
  "ips (snd (forceCancelPublicIp now k s)) = upd_where (\<lambda>p. i_ip_address p = k)
     (\<lambda>p. p\<lparr>i_status := IpAvailable, i_tunnel_id := None, i_user_id := None, i_released_at := Some now,
            i_next_billing_at := None, i_suspended_at := None, i_delete_after := None\<rparr>) (ips s)"
  by (cases "find (\<lambda>p. i_ip_address p = k) (ips s)")
    (simp_all add: forceCancelPublicIp_def Let_def upd_where_absent split: option.splits)

lemma blocks_forceCancelIpBlock:
  "blocks (snd (forceCancelIpBlock now k s)) = upd_where (\<lambda>v. b_id v = k)
     (\<lambda>v. v\<lparr>b_status := BlkReleased, b_suspended_at := None, b_delete_after := None\<rparr>) (blocks s)"
  by (cases "find (\<lambda>b. b_id b = k) (blocks s)")
    (simp_all add: forceCancelIpBlock_def Let_def upd_where_absent)

lemma ips_forceCancelIpBlock:
  "ips (snd (forceCancelIpBlock now k s)) = (if find (\<lambda>b. b_id b = k) (blocks s) = None then ips s
     else upd_where (\<lambda>p. i_block_id p = Some k)
       (\<lambda>p. p\<lparr>i_status := IpAvailable, i_tunnel_id := None, i_user_id := None, i_block_id := None,
              i_released_at := Some now, i_next_billing_at := None, i_suspended_at := None,
              i_delete_after := None\<rparr>) (ips s))"
  by (simp add: forceCancelIpBlock_def Let_def split: option.splits)

interpretation sweep_tunnel: canceller "forceCancelTunnel now" tunnels "tunnel_expired now" t_id for now
proof unfold_locales
  fix r k s
  assume r: "r \<in> set (tunnels (snd (forceCancelTunnel now k s)))" and bad: "tunnel_expired now r"
  have dead: "t_deleted_at q \<noteq> None" if "live_tunnel k s = None" "q \<in> set (tunnels s)" "t_id q = k" for q
    using that by (auto simp: live_tunnel_def find_None_iff_none)
  show "\<exists>q \<in> set (tunnels s). tunnel_expired now q \<and> t_id q = t_id r \<and> t_id r \<noteq> k"
  proof (cases "live_tunnel k s")
    case None
    with r bad dead [OF None, of r] show ?thesis
      by (auto simp: tunnels_forceCancelTunnel tunnel_expired_def intro!: bexI [of _ r])
  next
    case (Some t)
    with r have "r \<in> set (upd_where (\<lambda>v. t_id v = k) (\<lambda>v. v\<lparr>t_status := TunDeleted,
        t_deleted_at := Some now, t_suspended_at := None, t_delete_after := None\<rparr>) (tunnels s))"
      by (simp add: tunnels_forceCancelTunnel)
    then show ?thesis by (cases rule: upd_whereE) (use bad in \<open>auto simp: tunnel_expired_def\<close>)
  qed
qed

interpretation sweep_ip: canceller "forceCancelPublicIp now" ips "ip_expired now" i_ip_address for now
proof unfold_locales
  fix r k s
  assume r: "r \<in> set (ips (snd (forceCancelPublicIp now k s)))" and bad: "ip_expired now r"
  from r show "\<exists>q \<in> set (ips s). ip_expired now q \<and> i_ip_address q = i_ip_address r \<and> i_ip_address r \<noteq> k"
    unfolding ips_forceCancelPublicIp
    by (cases rule: upd_whereE) (use bad in \<open>auto simp: ip_expired_def\<close>)
qed

interpretation sweep_block: canceller "forceCancelIpBlock now" blocks "block_expired now" b_id for now
proof unfold_locales
  fix r k s
  assume r: "r \<in> set (blocks (snd (forceCancelIpBlock now k s)))" and bad: "block_expired now r"
  from r show "\<exists>q \<in> set (blocks s). block_expired now q \<and> b_id q = b_id r \<and> b_id r \<noteq> k"
    unfolding blocks_forceCancelIpBlock
    by (cases rule: upd_whereE) (use bad in \<open>auto simp: block_expired_def\<close>)
qed
section \<open>Properties of the billing tick\<close>

lemma tick_ledger_phases:
  assumes "ledger_ok s"
  shows "ledger_ok (snd (tick_tunnels g now s))" "ledger_ok (snd (tick_ips g now s))"
    "ledger_ok (snd (tick_blocks g now s))"
  using tun.money.loop_ledger_kept [OF assms] pip.money.loop_ledger_kept [OF assms]
    blk.money.loop_ledger_kept [OF assms]
  by (simp_all add: tick_tunnels_def tick_ips_def tick_blocks_def)

lemma cancel_ledger_phases:
  assumes "ledger_ok s"
  shows "ledger_ok (snd (cancel_tunnels now s))" "ledger_ok (snd (cancel_ips now s))"
    "ledger_ok (snd (cancel_blocks now s))"
  using cancel_tunnel.money.loop_ledger_kept [OF assms] cancel_ip.money.loop_ledger_kept [OF assms]
    cancel_block.money.loop_ledger_kept [OF assms]
  by (simp_all add: cancel_tunnels_def cancel_ips_def cancel_blocks_def)

text \<open>
  A billing tick keeps the books: whatever is due, suspended or cancelled, afterwards every
  wallet balance is non-negative and equals the sum of its ledger rows, the running balances of
  the ledger are right, and no idempotency key occurs twice.
\<close>

theorem runBillingTick_ledger:
  assumes "ledger_ok s"
  shows "ledger_ok (snd (runBillingTick g now s))"
  unfolding snd_runBillingTick by (intro tick_ledger_phases cancel_ledger_phases assms)

theorem runBillingTick_ledger_witness: "ledger_ok (snd (runBillingTick demo_gen T0 demo_db))"
  by (rule runBillingTick_ledger [OF demo_ledger_ok])

text \<open>
  The report counts what happened to the ledger: a tick only appends rows, each carries an
  idempotency key, and their number is the sum of the three \<^verbatim>\<open>charged\<close> counters.
\<close>

theorem runBillingTick_report:
  "\<exists>new. txs (snd (runBillingTick g now s)) = txs s @ new \<and>
     (\<forall>x \<in> set new. x_idempotency_key x \<noteq> None) \<and>
     length new = (case fst (runBillingTick g now s) of r \<Rightarrow>
       tc_charged (bt_tunnels r) + tc_charged (bt_ips r) + tc_charged (bt_blocks r))"
proof -
  obtain r1 s1 where 1: "tick_tunnels g now s = (r1, s1)" by fastforce
  obtain r2 s2 where 2: "tick_ips g now s1 = (r2, s2)" by fastforce
  obtain r3 s3 where 3: "tick_blocks g now s2 = (r3, s3)" by fastforce
  from tun.loop_append [of g now _ s] 1 obtain n1 where n1: "txs s1 = txs s @ n1"
    "\<forall>x \<in> set n1. x_idempotency_key x \<noteq> None" "length n1 = count_outcome Charged r1"
    by (metis tick_tunnels_def fst_conv snd_conv)
  from pip.loop_append [of g now _ s1] 2 obtain n2 where n2: "txs s2 = txs s1 @ n2"
    "\<forall>x \<in> set n2. x_idempotency_key x \<noteq> None" "length n2 = count_outcome Charged r2"
    by (metis tick_ips_def fst_conv snd_conv)
  from blk.loop_append [of g now _ s2] 3 obtain n3 where n3: "txs s3 = txs s2 @ n3"
    "\<forall>x \<in> set n3. x_idempotency_key x \<noteq> None" "length n3 = count_outcome Charged r3"
    by (metis tick_blocks_def fst_conv snd_conv)
  have "txs (snd (runBillingTick g now s)) = txs s @ (n1 @ n2 @ n3)"
    by (simp add: snd_runBillingTick 1 2 3 n1 n2 n3)
  moreover have "length (n1 @ n2 @ n3) = (case fst (runBillingTick g now s) of r \<Rightarrow>
       tc_charged (bt_tunnels r) + tc_charged (bt_ips r) + tc_charged (bt_blocks r))"
    by (simp add: runBillingTick_def 1 2 3 n1 n2 n3 counts_of_def case_prod_beta)
  moreover have "\<forall>x \<in> set (n1 @ n2 @ n3). x_idempotency_key x \<noteq> None" using n1 n2 n3 by auto
  ultimately show ?thesis by blast
qed

theorem runBillingTick_report_witness:
  "\<exists>new. txs (snd (runBillingTick demo_gen T0 demo_db)) = txs demo_db @ new"
  using runBillingTick_report [of demo_gen T0 demo_db] by blast

lemma cancel_blocks_ips:
  assumes "\<forall>r \<in> set (ips s). \<not> ip_expired now r"
  shows "\<forall>r \<in> set (ips (snd (cancel_blocks now s))). \<not> ip_expired now r"
  unfolding cancel_blocks_def
proof (rule for_try_inv [where I = "\<lambda>t. \<forall>r \<in> set (ips t). \<not> ip_expired now r"])
  fix k and t :: db
  assume "\<forall>r \<in> set (ips t). \<not> ip_expired now r"
  then show "\<forall>r \<in> set (ips (snd (forceCancelIpBlock now k t))). \<not> ip_expired now r"
    by (auto simp: ips_forceCancelIpBlock ip_expired_def elim!: upd_whereE)
qed (rule assms)

text \<open>
  C4. After a tick nothing overdue is left: no live tunnel, no allocated or suspended single
  address and no active or suspended block has a deadline at or before the time of the tick.
\<close>

theorem tick_cancels_overdue:
  fixes g now s
  defines "s' \<equiv> snd (runBillingTick g now s)"
  shows "(\<forall>t \<in> set (tunnels s'). \<not> tunnel_expired now t) \<and> (\<forall>p \<in> set (ips s'). \<not> ip_expired now p) \<and>
     (\<forall>b \<in> set (blocks s'). \<not> block_expired now b)"
proof -
  let ?s3 = "snd (tick_blocks g now (snd (tick_ips g now (snd (tick_tunnels g now s)))))"
  let ?s5 = "snd (cancel_ips now (snd (cancel_tunnels now ?s3)))"
  have "\<forall>t \<in> set (tunnels (snd (cancel_tunnels now ?s3))). \<not> tunnel_expired now t"
    unfolding cancel_tunnels_def by (rule sweep_tunnel.sweep)
  then have "\<forall>t \<in> set (tunnels s'). \<not> tunnel_expired now t"
    by (simp add: s'_def snd_runBillingTick)
  moreover have "\<forall>p \<in> set (ips ?s5). \<not> ip_expired now p"
    unfolding cancel_ips_def by (rule sweep_ip.sweep)
  then have "\<forall>p \<in> set (ips s'). \<not> ip_expired now p"
    unfolding s'_def snd_runBillingTick by (rule cancel_blocks_ips)
  moreover have "\<forall>b \<in> set (blocks s'). \<not> block_expired now b"
    unfolding s'_def snd_runBillingTick cancel_blocks_def by (rule sweep_block.sweep)
  ultimately show ?thesis by blast
qed

theorem tick_cancels_overdue_witness:
  "filter (tunnel_expired T0) (tunnels (snd (runBillingTick demo_gen T0 (demo_db\<lparr>tunnels :=
     [demo_tunnel\<lparr>t_status := TunSuspended, t_suspended_at := Some (T0 - 3 * DAY_MS), t_delete_after := Some T0\<rparr>]\<rparr>)))) = []"
  using tick_cancels_overdue [of demo_gen T0] by (simp add: filter_empty_conv)
section \<open>Rows inside their grace period\<close>

lemma for_try_keeps:
  assumes "\<And>k s r. k \<in> set ks \<Longrightarrow> r \<in> set (rows s) \<Longrightarrow> G r \<Longrightarrow> \<exists>r' \<in> set (rows (snd (f k s))). G r'"
    and "r \<in> set (rows s)" "G r"
  shows "\<exists>r' \<in> set (rows (snd (for_try f ks s))). G r'"
  using assms by (intro for_try_inv [where I = "\<lambda>t. \<exists>r \<in> set (rows t). G r"]) blast+

lemma upd_where_keeps:
  "r \<in> set rows \<Longrightarrow> G r \<Longrightarrow> (P r \<Longrightarrow> G (f r)) \<Longrightarrow> \<exists>r' \<in> set (upd_where P f rows). G r'"
  by (rule bexI [of _ "if P r then f r else r"]) (auto simp: in_set_upd_where)

text \<open>One charge updates the row of its id only, and leaves a row that is in its grace period there.\<close>

lemma chargeOneTunnel_row:
  obtains f where "tunnels (snd (chargeOneTunnel g now k s)) = upd_where (\<lambda>t. t_id t = k) f (tunnels s)"
    "\<And>t. t_id (f t) = t_id t" "\<And>t. t_user_id (f t) = t_user_id t" "\<And>t. t_deleted_at (f t) = t_deleted_at t"
    "\<And>t. in_grace now (t_delete_after t) \<Longrightarrow> in_grace now (t_delete_after (f t))"
proof -
  let ?rows = "tunnels (snd (chargeOneTunnel g now k s))"
  let ?hold = "\<lambda>t. t\<lparr>t_status := TunSuspended, t_suspended_at := coalesce (t_suspended_at t) now,
      t_delete_after := coalesce (t_delete_after t) (deleteAfter now)\<rparr>"
  let ?renew = "\<lambda>due t. t\<lparr>t_next_billing_at := due, t_last_billed_at := Some now, t_status := TunActive,
      t_suspended_at := None, t_delete_after := None\<rparr>"
  have "?rows = tunnels s \<or> ?rows = upd_where (\<lambda>t. t_id t = k) ?hold (tunnels s) \<or>
      (\<exists>due. ?rows = upd_where (\<lambda>t. t_id t = k) (?renew due) (tunnels s))"
    by (auto simp: chargeOneTunnel_def sql_begin_def suspend_tunnel_def Let_def renewal_frame
        dest!: live_tunnel_Some split: option.splits sum.splits)
  then consider "?rows = upd_where (\<lambda>t. t_id t = k) (\<lambda>t. t) (tunnels s)"
    | "?rows = upd_where (\<lambda>t. t_id t = k) ?hold (tunnels s)"
    | due where "?rows = upd_where (\<lambda>t. t_id t = k) (?renew due) (tunnels s)"
    by (auto simp: upd_where_def)
  then show thesis
  proof cases
    case 1
    then show thesis by (rule that) simp_all
  next
    case 2
    then show thesis by (rule that) (auto simp: in_grace_def coalesce_Some deleteAfter_def split: option.splits)
  next
    case 3
    then show thesis by (rule that) (simp_all add: in_grace_def)
  qed
qed

lemma chargeOnePublicIp_row:
  obtains f where "ips (snd (chargeOnePublicIp g now k s)) = upd_where (\<lambda>p. i_ip_address p = k) f (ips s)"
    "\<And>p. i_ip_address (f p) = i_ip_address p" "\<And>p. i_user_id (f p) = i_user_id p"
    "\<And>p. i_block_id (f p) = i_block_id p"
    "\<And>p. in_grace now (i_delete_after p) \<Longrightarrow> in_grace now (i_delete_after (f p))"
proof -
  let ?rows = "ips (snd (chargeOnePublicIp g now k s))"
  let ?hold = "\<lambda>p. p\<lparr>i_status := IpSuspended, i_suspended_at := coalesce (i_suspended_at p) now,
      i_delete_after := coalesce (i_delete_after p) (deleteAfter now)\<rparr>"
  let ?renew = "\<lambda>due p. p\<lparr>i_next_billing_at := due, i_last_billed_at := Some now, i_status := IpAllocated,
      i_suspended_at := None, i_delete_after := None\<rparr>"
  have "?rows = ips s \<or> ?rows = upd_where (\<lambda>p. i_ip_address p = k) ?hold (ips s) \<or>
      (\<exists>due. ?rows = upd_where (\<lambda>p. i_ip_address p = k) (?renew due) (ips s))"
  proof (cases "ip_item k s")
    case None
    then show ?thesis using pip.absent [of k s g now] by simp
  next
    case it: (Some it)
    show ?thesis
    proof (cases "wallet_of (bi_owner it) s")
      case None
      then show ?thesis using pip.no_wallet [OF it None, of g now] by simp
    next
      case (Some w)
      show ?thesis
        by (rule chargeOnePublicIp_item [OF it Some, of g now])
          (auto simp: suspendPublicIp_def Let_def renewal_frame split: option.splits)
    qed
  qed
  then consider "?rows = upd_where (\<lambda>p. i_ip_address p = k) (\<lambda>p. p) (ips s)"
    | "?rows = upd_where (\<lambda>p. i_ip_address p = k) ?hold (ips s)"
    | due where "?rows = upd_where (\<lambda>p. i_ip_address p = k) (?renew due) (ips s)"
    by (auto simp: upd_where_def)
  then show thesis
  proof cases
    case 1
    then show thesis by (rule that) simp_all
  next
    case 2
    then show thesis by (rule that) (auto simp: in_grace_def coalesce_Some deleteAfter_def split: option.splits)
  next
    case 3
    then show thesis by (rule that) (simp_all add: in_grace_def)
  qed
qed

lemma chargeOneIpBlock_row:
  obtains f where "blocks (snd (chargeOneIpBlock g now k s)) = upd_where (\<lambda>b. b_id b = k) f (blocks s)"
    "\<And>b. b_id (f b) = b_id b" "\<And>b. b_user_id (f b) = b_user_id b"
    "\<And>b. b_status b \<noteq> BlkReleased \<Longrightarrow> b_status (f b) \<noteq> BlkReleased"
    "\<And>b. in_grace now (b_delete_after b) \<Longrightarrow> in_grace now (b_delete_after (f b))"
proof -
  let ?rows = "blocks (snd (chargeOneIpBlock g now k s))"
  let ?hold = "\<lambda>b. b\<lparr>b_status := BlkSuspended, b_suspended_at := coalesce (b_suspended_at b) now,
      b_delete_after := coalesce (b_delete_after b) (deleteAfter now)\<rparr>"
  let ?renew = "\<lambda>due b. b\<lparr>b_next_billing_at := due, b_last_billed_at := Some now, b_status := BlkActive,
      b_suspended_at := None, b_delete_after := None\<rparr>"
  have "?rows = blocks s \<or> ?rows = upd_where (\<lambda>b. b_id b = k) ?hold (blocks s) \<or>
      (\<exists>due. ?rows = upd_where (\<lambda>b. b_id b = k) (?renew due) (blocks s))"
    by (auto simp: chargeOneIpBlock_def sql_begin_def suspend_block_def Let_def renewal_frame
        dest!: find_SomeD(2) split: option.splits sum.splits)
  then consider "?rows = upd_where (\<lambda>b. b_id b = k) (\<lambda>b. b) (blocks s)"
    | "?rows = upd_where (\<lambda>b. b_id b = k) ?hold (blocks s)"
    | due where "?rows = upd_where (\<lambda>b. b_id b = k) (?renew due) (blocks s)"
    by (auto simp: upd_where_def)
  then show thesis
  proof cases
    case 1
    then show thesis by (rule that) simp_all
  next
    case 2
    then show thesis by (rule that) (auto simp: in_grace_def coalesce_Some deleteAfter_def split: option.splits)
  next
    case 3
    then show thesis by (rule that) (simp_all add: in_grace_def)
  qed
qed


section \<open>Nothing in its grace period is cancelled\<close>

lemma id_not_listed:
  assumes "distinct (map key rows)" "r \<in> set rows" "\<not> bad r"
  shows "key r \<notin> set (map key (filter bad rows))"
  using assms by (auto dest: distinct_key_eq)

lemma sweep_keeps:
  assumes ids: "distinct (map key (rows s))" and r: "r \<in> set (rows s)" "G r"
    and G: "\<And>q. G q \<Longrightarrow> key q = key r \<and> \<not> bad q"
    and step: "\<And>k u q. q \<in> set (rows u) \<Longrightarrow> G q \<Longrightarrow> key q \<noteq> k \<Longrightarrow> \<exists>r' \<in> set (rows (snd (cancel k u))). G r'"
  shows "\<exists>r' \<in> set (rows (snd (for_try cancel (map key (filter bad (rows s))) s))). G r'"
proof (rule for_try_keeps [where rows = rows and G = G, OF _ r])
  fix k u q
  assume k: "k \<in> set (map key (filter bad (rows s)))" and q: "q \<in> set (rows u)" "G q"
  have "key r \<noteq> k"
    using k r G [OF r(2)] id_not_listed [OF ids r(1), of bad] by auto
  then show "\<exists>r' \<in> set (rows (snd (cancel k u))). G r'"
    using step [OF q] G [OF q(2)] by simp
qed

lemma tick_columns:
  "map t_id (tunnels (snd (tick_tunnels g now s))) = map t_id (tunnels s)"
  "map i_ip_address (ips (snd (tick_ips g now s))) = map i_ip_address (ips s)"
  "map b_id (blocks (snd (tick_blocks g now s))) = map b_id (blocks s)"
proof -
  have "map t_id (tunnels (snd (chargeOneTunnel g now k t))) = map t_id (tunnels t)" for k t
    by (rule chargeOneTunnel_row [of g now k t]) (simp add: map_upd_where_same)
  then show "map t_id (tunnels (snd (tick_tunnels g now s))) = map t_id (tunnels s)"
    unfolding tick_tunnels_def by (rule for_try_field [where F = "\<lambda>t. map t_id (tunnels t)"])
  have "map i_ip_address (ips (snd (chargeOnePublicIp g now k t))) = map i_ip_address (ips t)" for k t
    by (rule chargeOnePublicIp_row [of g now k t]) (simp add: map_upd_where_same)
  then show "map i_ip_address (ips (snd (tick_ips g now s))) = map i_ip_address (ips s)"
    unfolding tick_ips_def by (rule for_try_field [where F = "\<lambda>t. map i_ip_address (ips t)"])
  have "map b_id (blocks (snd (chargeOneIpBlock g now k t))) = map b_id (blocks t)" for k t
    by (rule chargeOneIpBlock_row [of g now k t]) (simp add: map_upd_where_same)
  then show "map b_id (blocks (snd (tick_blocks g now s))) = map b_id (blocks s)"
    unfolding tick_blocks_def by (rule for_try_field [where F = "\<lambda>t. map b_id (blocks t)"])
qed

lemma ips_forceCancelTunnel:
  "ips (snd (forceCancelTunnel now k s)) = (if live_tunnel k s = None \<or>
       filter (\<lambda>p. i_tunnel_id p = Some k \<and> i_status p = IpAllocated) (ips s) = [] then ips s
     else upd_where (\<lambda>p. i_tunnel_id p = Some k) (\<lambda>p. p\<lparr>i_tunnel_id := None\<rparr>) (ips s))"
  by (simp add: forceCancelTunnel_def Let_def split: option.splits)

lemma tick_keeps_tunnel:
  assumes ids: "ids_ok s" and t: "t \<in> set (tunnels s)" "t_deleted_at t = None" "in_grace now (t_delete_after t)"
  shows "\<exists>t' \<in> set (tunnels (snd (runBillingTick g now s))).
     t_id t' = t_id t \<and> t_user_id t' = t_user_id t \<and> t_deleted_at t' = None"
proof -
  define G where "G r \<longleftrightarrow> t_id r = t_id t \<and> t_user_id r = t_user_id t \<and> t_deleted_at r = None \<and>
    in_grace now (t_delete_after r)" for r :: tunnel
  let ?s1 = "snd (tick_tunnels g now s)" and ?s3 = "snd (tick_blocks g now (snd (tick_ips g now (snd (tick_tunnels g now s)))))"
  have "\<exists>r' \<in> set (tunnels ?s1). G r'" unfolding tick_tunnels_def
  proof (rule for_try_keeps [where rows = tunnels and G = G and r = t])
    show "\<exists>r' \<in> set (tunnels (snd (chargeOneTunnel g now k u))). G r'" if "r \<in> set (tunnels u)" "G r" for k u r
      by (rule chargeOneTunnel_row [of g now k u]) (use that in \<open>auto simp: G_def intro!: upd_where_keeps\<close>)
  qed (use t in \<open>simp_all add: G_def\<close>)
  then obtain r where r: "r \<in> set (tunnels ?s3)" "G r" by auto
  have "\<exists>r' \<in> set (tunnels (snd (cancel_tunnels now ?s3))). G r'" unfolding cancel_tunnels_def
  proof (rule sweep_keeps [where rows = tunnels and G = G, OF _ r])
    show "distinct (map t_id (tunnels ?s3))" using ids tick_columns(1) [of g now s] by (simp add: ids_ok_def)
    show "t_id q = t_id r \<and> \<not> tunnel_expired now q" if "G q" for q
      using that r(2) by (auto simp: G_def tunnel_expired_def grace_over_def in_grace_def split: option.splits)
    show "\<exists>r' \<in> set (tunnels (snd (forceCancelTunnel now k u))). G r'" if "q \<in> set (tunnels u)" "G q" "t_id q \<noteq> k" for k u q
      using that by (auto simp: tunnels_forceCancelTunnel intro!: upd_where_keeps)
  qed
  then show ?thesis by (auto simp: snd_runBillingTick G_def)
qed

lemma tick_keeps_block:
  assumes ids: "ids_ok s" and b: "b \<in> set (blocks s)" "b_status b \<noteq> BlkReleased" "in_grace now (b_delete_after b)"
  shows "\<exists>b' \<in> set (blocks (snd (runBillingTick g now s))).
     b_id b' = b_id b \<and> b_user_id b' = b_user_id b \<and> b_status b' \<noteq> BlkReleased"
proof -
  define G where "G r \<longleftrightarrow> b_id r = b_id b \<and> b_user_id r = b_user_id b \<and> b_status r \<noteq> BlkReleased \<and>
    in_grace now (b_delete_after r)" for r :: ip_block
  let ?s1 = "snd (tick_blocks g now (snd (tick_ips g now (snd (tick_tunnels g now s)))))" and ?s3 = "snd (cancel_ips now (snd (cancel_tunnels now (snd (tick_blocks g now (snd (tick_ips g now (snd (tick_tunnels g now s)))))))))"
  have "\<exists>r' \<in> set (blocks ?s1). G r'" unfolding tick_blocks_def
  proof (rule for_try_keeps [where rows = blocks and G = G and r = b])
    show "\<exists>r' \<in> set (blocks (snd (chargeOneIpBlock g now k u))). G r'" if "r \<in> set (blocks u)" "G r" for k u r
      by (rule chargeOneIpBlock_row [of g now k u]) (use that in \<open>auto simp: G_def intro!: upd_where_keeps\<close>)
  qed (use b in \<open>simp_all add: G_def\<close>)
  then obtain r where r: "r \<in> set (blocks ?s3)" "G r" by auto
  have "\<exists>r' \<in> set (blocks (snd (cancel_blocks now ?s3))). G r'" unfolding cancel_blocks_def
  proof (rule sweep_keeps [where rows = blocks and G = G, OF _ r])
    show "distinct (map b_id (blocks ?s3))" using ids tick_columns(3) [of g now "snd (tick_ips g now (snd (tick_tunnels g now s)))"] by (simp add: ids_ok_def)
    show "b_id q = b_id r \<and> \<not> block_expired now q" if "G q" for q
      using that r(2) by (auto simp: G_def block_expired_def grace_over_def in_grace_def split: option.splits)
    show "\<exists>r' \<in> set (blocks (snd (forceCancelIpBlock now k u))). G r'" if "q \<in> set (blocks u)" "G q" "b_id q \<noteq> k" for k u q
      using that by (auto simp: blocks_forceCancelIpBlock intro!: upd_where_keeps)
  qed
  then show ?thesis by (auto simp: snd_runBillingTick G_def)
qed

lemma cancel_tunnels_columns: "map i_ip_address (ips (snd (cancel_tunnels now s))) = map i_ip_address (ips s)"
  unfolding cancel_tunnels_def
  by (rule for_try_field [where F = "\<lambda>t. map i_ip_address (ips t)"])
    (simp add: ips_forceCancelTunnel map_upd_where_same)

lemma tick_keeps_ip:
  assumes ids: "ids_ok s" and p: "p \<in> set (ips s)" "i_block_id p = None" "in_grace now (i_delete_after p)"
  shows "\<exists>p' \<in> set (ips (snd (runBillingTick g now s))).
     i_ip_address p' = i_ip_address p \<and> i_user_id p' = i_user_id p \<and> i_block_id p' = None"
proof -
  define G where "G r \<longleftrightarrow> i_ip_address r = i_ip_address p \<and> i_user_id r = i_user_id p \<and> i_block_id r = None \<and>
    in_grace now (i_delete_after r)" for r :: public_ip
  let ?s1 = "snd (tick_ips g now (snd (tick_tunnels g now s)))" and ?s3 = "snd (cancel_tunnels now (snd (tick_blocks g now (snd (tick_ips g now (snd (tick_tunnels g now s)))))))"
  have "\<exists>r' \<in> set (ips ?s1). G r'" unfolding tick_ips_def
  proof (rule for_try_keeps [where rows = ips and G = G and r = p])
    show "\<exists>r' \<in> set (ips (snd (chargeOnePublicIp g now k u))). G r'" if "r \<in> set (ips u)" "G r" for k u r
      by (rule chargeOnePublicIp_row [of g now k u]) (use that in \<open>auto simp: G_def intro!: upd_where_keeps\<close>)
  qed (use p in \<open>simp_all add: G_def\<close>)
  then obtain r1 where "r1 \<in> set (ips (snd (tick_blocks g now ?s1)))" "G r1" by auto
  then have "\<exists>r \<in> set (ips ?s3). G r" unfolding cancel_tunnels_def
    by (rule for_try_keeps [where rows = ips and G = G, rotated])
      (auto simp: ips_forceCancelTunnel G_def intro!: upd_where_keeps)
  then obtain r where r: "r \<in> set (ips ?s3)" "G r" by blast
  have "\<exists>r' \<in> set (ips (snd (cancel_ips now ?s3))). G r'" unfolding cancel_ips_def
  proof (rule sweep_keeps [where rows = ips and G = G, OF _ r])
    show "distinct (map i_ip_address (ips ?s3))" 
      using ids tick_columns(2) [of g now "snd (tick_tunnels g now s)"] by (simp add: ids_ok_def cancel_tunnels_columns)
    show "i_ip_address q = i_ip_address r \<and> \<not> ip_expired now q" if "G q" for q
      using that r(2) by (auto simp: G_def ip_expired_def grace_over_def in_grace_def split: option.splits)
    show "\<exists>r' \<in> set (ips (snd (forceCancelPublicIp now k u))). G r'" if "q \<in> set (ips u)" "G q" "i_ip_address q \<noteq> k" for k u q
      using that by (auto simp: ips_forceCancelPublicIp intro!: upd_where_keeps)
  qed
  then obtain q where "q \<in> set (ips (snd (cancel_ips now ?s3)))" "G q" by blast
  then have "\<exists>r' \<in> set (ips (snd (cancel_blocks now (snd (cancel_ips now ?s3))))). G r'"
    unfolding cancel_blocks_def
    by (rule for_try_keeps [where rows = ips and G = G, rotated])
      (auto simp: ips_forceCancelIpBlock G_def intro!: upd_where_keeps)
  then show ?thesis by (auto simp: snd_runBillingTick G_def)
qed

text \<open>
  C5. A tick cancels nothing whose grace period is still running: a live tunnel, a single
  address and an active or suspended block with no deadline, or one after the time of the tick,
  are still there afterwards and belong to the same user.
\<close>

theorem tick_spares_grace:
  fixes g now s
  assumes "ids_ok s"
  defines "s' \<equiv> snd (runBillingTick g now s)"
  shows "(\<forall>t \<in> set (tunnels s). t_deleted_at t = None \<longrightarrow> in_grace now (t_delete_after t) \<longrightarrow>
       (\<exists>t' \<in> set (tunnels s'). t_id t' = t_id t \<and> t_user_id t' = t_user_id t \<and> t_deleted_at t' = None)) \<and>
     (\<forall>p \<in> set (ips s). i_block_id p = None \<longrightarrow> in_grace now (i_delete_after p) \<longrightarrow>
       (\<exists>p' \<in> set (ips s'). i_ip_address p' = i_ip_address p \<and> i_user_id p' = i_user_id p \<and> i_block_id p' = None)) \<and>
     (\<forall>b \<in> set (blocks s). b_status b \<noteq> BlkReleased \<longrightarrow> in_grace now (b_delete_after b) \<longrightarrow>
       (\<exists>b' \<in> set (blocks s'). b_id b' = b_id b \<and> b_user_id b' = b_user_id b \<and> b_status b' \<noteq> BlkReleased))"
  unfolding s'_def
  using tick_keeps_tunnel [OF assms(1)] tick_keeps_ip [OF assms(1)] tick_keeps_block [OF assms(1)] by blast

lemma demo_ids_ok: "ids_ok demo_db"
  by code_simp

theorem tick_spares_grace_witness:
  "\<exists>t' \<in> set (tunnels (snd (runBillingTick demo_gen T0 demo_db))). t_id t' = ''t1'' \<and> t_deleted_at t' = None"
proof -
  have "demo_tunnel \<in> set (tunnels demo_db)" by (simp add: demo_db_def)
  moreover have "t_deleted_at demo_tunnel = None" "in_grace T0 (t_delete_after demo_tunnel)" "t_id demo_tunnel = ''t1''"
    by (simp_all add: demo_tunnel_def in_grace_def)
  ultimately show ?thesis
    using tick_spares_grace [OF demo_ids_ok, of T0 demo_gen] by metis
qed
section \<open>Cancellation leaves other items alone\<close>

lemma find_map_eq:
  assumes "\<And>r. r \<in> set rows \<Longrightarrow> P (f r) = P r" "\<And>r. r \<in> set rows \<Longrightarrow> P r \<Longrightarrow> h (f r) = h r"
  shows "map_option h (find P (map f rows)) = map_option h (find P rows)"
  using assms by (induction rows) auto

lemma tunnel_item_cong:
  "live_tunnel k s' = live_tunnel k s \<Longrightarrow> pricing_speed s' = pricing_speed s \<Longrightarrow> tunnel_item k s' = tunnel_item k s"
  by (simp add: tunnel_item_def tunnel_price_cong [of _ _ s' s] cong: option.case_cong)

lemma tunnel_item_same: "tunnels s' = tunnels s \<Longrightarrow> pricing_speed s' = pricing_speed s \<Longrightarrow> tunnel_item k s' = tunnel_item k s"
  by (rule tunnel_item_cong) (simp_all add: live_tunnel_def)

lemma block_item_same: "blocks s' = blocks s \<Longrightarrow> block_item k s' = block_item k s"
  by (simp add: block_item_def)

definition ip_cols :: "public_ip \<Rightarrow> public_ip" where
  "ip_cols r = r\<lparr>i_tunnel_id := None\<rparr>"

lemma ip_item_cong:
  assumes "map_option ip_cols (find (\<lambda>r. i_ip_address r = k) (ips s')) = map_option ip_cols (find (\<lambda>r. i_ip_address r = k) (ips s))"
    and "pricing_ip s' = pricing_ip s"
  shows "ip_item k s' = ip_item k s"
proof -
  have p: "ipPrice 1 s' = ipPrice 1 s" using assms(2) by (simp add: ipPrice_def)
  have c: "ip_cols r' = ip_cols r \<Longrightarrow> i_user_id r' = i_user_id r \<and> i_block_id r' = i_block_id r \<and>
      i_price_satang r' = i_price_satang r \<and> i_next_billing_at r' = i_next_billing_at r \<and>
      i_last_billed_at r' = i_last_billed_at r \<and> i_status r' = i_status r \<and>
      i_suspended_at r' = i_suspended_at r \<and> i_delete_after r' = i_delete_after r" for r r' :: public_ip
    by (cases r; cases r') (simp add: ip_cols_def)
  show ?thesis
    using assms(1) p
    by (cases "find (\<lambda>r. i_ip_address r = k) (ips s)"; cases "find (\<lambda>r. i_ip_address r = k) (ips s')")
      (auto simp: ip_item_def dest!: c cong: option.case_cong if_cong sum.case_cong)
qed

lemma cancel_tunnel_other: "j \<noteq> k \<Longrightarrow> tunnel_item k (snd (forceCancelTunnel now j s)) = tunnel_item k s"
proof (rule tunnel_item_cong)
  assume "j \<noteq> k"
  have "find (\<lambda>t. t_id t = k \<and> t_deleted_at t = None) (upd_where (\<lambda>v. t_id v = j) f rows) =
      find (\<lambda>t. t_id t = k \<and> t_deleted_at t = None) rows" if "\<And>t. t_id (f t) = t_id t" for f and rows :: "tunnel list"
    using that \<open>j \<noteq> k\<close> by (induction rows) auto
  then show "live_tunnel k (snd (forceCancelTunnel now j s)) = live_tunnel k s"
    by (simp add: live_tunnel_def tunnels_forceCancelTunnel)
qed simp

lemma cancel_tunnel_ip: "ip_item k (snd (forceCancelTunnel now j s)) = ip_item k s"
  by (rule ip_item_cong) (auto simp: ips_forceCancelTunnel upd_where_def ip_cols_def intro!: find_map_eq)

lemma cancel_ip_other: "j \<noteq> k \<Longrightarrow> ip_item k (snd (forceCancelPublicIp now j s)) = ip_item k s"
  by (rule ip_item_cong) (simp_all add: ips_forceCancelPublicIp find_upd_other)

lemma cancel_block_ip:
  assumes "ip_item k s = Some it"
  shows "ip_item k (snd (forceCancelIpBlock now j s)) = Some it"
proof -
  obtain r where r: "find (\<lambda>r. i_ip_address r = k) (ips s) = Some r" "i_block_id r = None"
    using assms by (auto simp: ip_item_def split: option.splits if_splits)
  have "find (\<lambda>r. i_ip_address r = k) (upd_where (\<lambda>p. i_block_id p = Some j) f (ips s)) = Some r"
    if "\<And>r. i_ip_address (f r) = i_ip_address r" for f
    using that r by (simp add: find_upd_where)
  with r(1) have "find (\<lambda>r. i_ip_address r = k) (ips (snd (forceCancelIpBlock now j s))) = Some r"
    by (simp add: ips_forceCancelIpBlock)
  with assms r(1) show ?thesis
    using ip_item_cong [of k "snd (forceCancelIpBlock now j s)" s] by simp
qed

lemma cancel_block_other: "j \<noteq> k \<Longrightarrow> block_item k (snd (forceCancelIpBlock now j s)) = block_item k s"
  by (simp add: block_item_def blocks_forceCancelIpBlock find_upd_other)
section \<open>Customers who can pay keep everything\<close>

abbreviation due_tunnels :: "ms \<Rightarrow> db \<Rightarrow> uuid list" where
  "due_tunnels now s \<equiv> map t_id (filter (tunnel_due now) (tunnels s))"

abbreviation due_ips :: "ms \<Rightarrow> db \<Rightarrow> ip4 list" where
  "due_ips now s \<equiv> map i_ip_address (filter (ip_due now) (ips s))"

abbreviation due_blocks :: "ms \<Rightarrow> db \<Rightarrow> uuid list" where
  "due_blocks now s \<equiv> map b_id (filter (block_due now) (blocks s))"

lemma distinct_map_filter: "distinct (map f xs) \<Longrightarrow> distinct (map f (filter P xs))"
  by (induction xs) auto

lemma keys_apart:
  "key_used (Some (chargeIdempotencyKey c k d)) (snd (tick_tunnels g now s)) \<Longrightarrow> c \<noteq> KTunnel \<Longrightarrow>
     key_used (Some (chargeIdempotencyKey c k d)) s"
  "key_used (Some (chargeIdempotencyKey c k d)) (snd (tick_ips g now s)) \<Longrightarrow> c \<noteq> KIp \<Longrightarrow>
     key_used (Some (chargeIdempotencyKey c k d)) s"
  using tun.loop_keys [of "chargeIdempotencyKey c k d" g now _ s] pip.loop_keys [of "chargeIdempotencyKey c k d" g now _ s]
  by (auto simp: tick_tunnels_def tick_ips_def charge_key_eq_iff)

lemma for_try_other:
  assumes "k \<notin> set js" "\<And>j s. j \<noteq> k \<Longrightarrow> item k (snd (f j s)) = item k s"
  shows "item k (snd (for_try f js s)) = item k s"
  by (rule for_try_inv [where I = "\<lambda>u. item k u = item k s"]) (use assms in metis)+

lemma tick_keeps_renewed:
  fixes now s3
  assumes ids: "ids_ok s3"
  defines "s6 \<equiv> snd (cancel_blocks now (snd (cancel_ips now (snd (cancel_tunnels now s3)))))"
  shows "tunnel_item k s3 = Some it \<Longrightarrow> bi_del it = None \<Longrightarrow> tunnel_item k s6 = Some it"
    and "ip_item a s3 = Some it \<Longrightarrow> bi_del it = None \<Longrightarrow> ip_item a s6 = Some it"
    and "block_item b s3 = Some it \<Longrightarrow> bi_del it = None \<Longrightarrow> block_item b s6 = Some it"
proof -
  let ?s4 = "snd (cancel_tunnels now s3)" and ?s5 = "snd (cancel_ips now (snd (cancel_tunnels now s3)))"
  show "tunnel_item k s6 = Some it" if it: "tunnel_item k s3 = Some it" "bi_del it = None"
  proof -
    obtain t where t: "t \<in> set (tunnels s3)" "t_id t = k" "t_delete_after t = None"
      using it by (auto simp: tunnel_item_def dest!: live_tunnel_Some split: option.splits)
    have "k \<notin> set (map t_id (filter (tunnel_expired now) (tunnels s3)))"
      using id_not_listed [of t_id "tunnels s3" t "tunnel_expired now"] ids t
      by (auto simp: ids_ok_def tunnel_expired_def grace_over_def)
    from for_try_other [where item = tunnel_item and f = "forceCancelTunnel now", OF this cancel_tunnel_other] it(1) have "tunnel_item k ?s4 = Some it"
      unfolding cancel_tunnels_def by simp
    then show ?thesis using tunnel_item_same [of s6 ?s4 k] by (simp add: s6_def)
  qed
  show "ip_item a s6 = Some it" if it: "ip_item a s3 = Some it" "bi_del it = None"
  proof -
    have i4: "ip_item a ?s4 = Some it"
      unfolding cancel_tunnels_def using it(1) by (simp add: for_try_field [of "ip_item a"] cancel_tunnel_ip)
    obtain r where r: "r \<in> set (ips ?s4)" "i_ip_address r = a" "i_delete_after r = None"
      using i4 it(2) by (auto simp: ip_item_def dest!: find_Some_iff_first split: option.splits if_splits sum.splits)
    have "distinct (map i_ip_address (ips ?s4))" using ids by (simp add: cancel_tunnels_columns ids_ok_def)
    then have "a \<notin> set (map i_ip_address (filter (ip_expired now) (ips ?s4)))"
      using id_not_listed [of i_ip_address "ips ?s4" r "ip_expired now"] r
      by (auto simp: ip_expired_def grace_over_def)
    from for_try_other [where item = ip_item and f = "forceCancelPublicIp now", OF this cancel_ip_other] i4 have "ip_item a ?s5 = Some it"
      unfolding cancel_ips_def by simp
    then show ?thesis unfolding s6_def cancel_blocks_def
      by (intro for_try_inv [where I = "\<lambda>u. ip_item a u = Some it"]) (use cancel_block_ip in auto)
  qed
  show "block_item b s6 = Some it" if it: "block_item b s3 = Some it" "bi_del it = None"
  proof -
    have i5: "block_item b ?s5 = Some it" using it(1) block_item_same [of ?s5 s3 b] by simp
    obtain r where r: "r \<in> set (blocks ?s5)" "b_id r = b" "b_delete_after r = None"
      using i5 it(2) by (auto simp: block_item_def dest!: find_Some_iff_first split: option.splits)
    have "b \<notin> set (map b_id (filter (block_expired now) (blocks ?s5)))"
      using id_not_listed [of b_id "blocks ?s5" r "block_expired now"] r ids
      by (auto simp: ids_ok_def block_expired_def grace_over_def)
    from for_try_other [where item = block_item and f = "forceCancelIpBlock now", OF this cancel_block_other] i5 show ?thesis
      unfolding s6_def cancel_blocks_def by simp
  qed
qed

lemma tick_funded:
  fixes g now s
  assumes ok: "ledger_ok s" and ids: "ids_ok s" and w: "wallet_of u s = Some w"
    and pay: "owed tunnel_item u (due_tunnels now s) s + owed ip_item u (due_ips now s) s +
      owed block_item u (due_blocks now s) s \<le> w_balance w"
    and new: "chargeable tunnel_item (chargeIdempotencyKey KTunnel) u (due_tunnels now s) s"
      "chargeable ip_item (chargeIdempotencyKey KIp) u (due_ips now s) s"
      "chargeable block_item (chargeIdempotencyKey KBlock) u (due_blocks now s) s"
  defines "s' \<equiv> snd (runBillingTick g now s)"
  shows "all_renewed tunnel_item now u (due_tunnels now s) s s' \<and> all_renewed ip_item now u (due_ips now s) s s' \<and>
     all_renewed block_item now u (due_blocks now s) s s' \<and>
     (\<exists>w'. wallet_of u s' = Some w' \<and> w_balance w' = w_balance w -
       (owed tunnel_item u (due_tunnels now s) s + owed ip_item u (due_ips now s) s + owed block_item u (due_blocks now s) s))"
proof -
  let ?s1 = "snd (tick_tunnels g now s)"
  let ?s2 = "snd (tick_ips g now ?s1)"
  let ?s3 = "snd (tick_blocks g now ?s2)"
  let ?T = "owed tunnel_item u (due_tunnels now s) s" and ?I = "owed ip_item u (due_ips now s) s"
    and ?B = "owed block_item u (due_blocks now s) s"
  have nn: "0 \<le> ?I" "0 \<le> ?B" using new(2,3) by (auto intro!: owed_nonneg simp: chargeable_def split: option.splits)
  note dist = ids [unfolded ids_ok_def]
  have i1: "ip_item k ?s1 = ip_item k s" for k by (rule ip_item_cong) simp_all
  have b2: "block_item k ?s2 = block_item k s" for k by (rule block_item_same) simp
  have T: "all_renewed tunnel_item now u (due_tunnels now s) s ?s1"
    "\<exists>w'. wallet_of u ?s1 = Some w' \<and> w_balance w' = w_balance w - ?T"
    unfolding tick_tunnels_def
    by (rule tun.loop_funded' [OF ok _ w _ new(1)]; use dist pay nn in \<open>simp add: distinct_map_filter\<close>)+
  then obtain w1 where w1: "wallet_of u ?s1 = Some w1" "w_balance w1 = w_balance w - ?T" by blast
  have "chargeable ip_item (chargeIdempotencyKey KIp) u (due_ips now s) ?s1"
    using keys_apart(1) by (rule chargeable_cong [OF new(2) i1]) simp_all
  moreover have "owed ip_item u (due_ips now s) ?s1 = ?I" by (rule owed_cong) (rule i1)
  ultimately have I: "all_renewed ip_item now u (due_ips now s) ?s1 ?s2"
    "\<exists>w'. wallet_of u ?s2 = Some w' \<and> w_balance w' = w_balance w1 - ?I"
    using pip.loop_funded' [OF tick_ledger_phases(1) [OF ok] _ w1(1), of "due_ips now s"] dist pay nn w1(2)
    by (simp_all add: tick_ips_def distinct_map_filter)
  then obtain w2 where w2: "wallet_of u ?s2 = Some w2" "w_balance w2 = w_balance w1 - ?I" by blast
  have "chargeable block_item (chargeIdempotencyKey KBlock) u (due_blocks now s) ?s2"
    by (rule chargeable_cong [OF new(3) b2]) (use keys_apart in blast)
  moreover have "owed block_item u (due_blocks now s) ?s2 = ?B" by (rule owed_cong) (rule b2)
  ultimately have B: "all_renewed block_item now u (due_blocks now s) ?s2 ?s3"
    "\<exists>w'. wallet_of u ?s3 = Some w' \<and> w_balance w' = w_balance w2 - ?B"
    using blk.loop_funded' [OF tick_ledger_phases(2) [OF tick_ledger_phases(1) [OF ok]] _ w2(1), of "due_blocks now s"]
      dist pay w1(2) w2(2)
    by (simp_all add: tick_blocks_def distinct_map_filter)
  have ids3: "ids_ok ?s3"
    using dist tick_columns(1) [of g now s] tick_columns(2) [of g now ?s1] tick_columns(3) [of g now ?s2]
    by (simp add: ids_ok_def)
  note kept = tick_keeps_renewed [OF ids3, where now = now, folded snd_runBillingTick, folded s'_def]
  have "all_renewed tunnel_item now u (due_tunnels now s) s s'"
    by (rule all_renewed_later [OF T(1)]) (use kept(1) tunnel_item_same [of ?s3 ?s1] in simp)
  moreover have "all_renewed ip_item now u (due_ips now s) s s'"
    by (rule all_renewed_later [where ?s1.0 = ?s2])
      (use I(1) i1 kept(2) ip_item_cong [of _ ?s3 ?s2] in \<open>simp_all add: all_renewed_def\<close>)
  moreover have "all_renewed block_item now u (due_blocks now s) s s'"
    by (rule all_renewed_later [where ?s1.0 = ?s3]) (use B(1) b2 kept(3) in \<open>simp_all add: all_renewed_def\<close>)
  moreover have "wallet_of u s' = wallet_of u ?s3" by (simp add: s'_def snd_runBillingTick wallet_of_def)
  ultimately show ?thesis using B(2) w1(2) w2(2) by auto
qed

text \<open>
  C3. A customer whose balance covers everything that is due loses nothing: after the tick each
  of their due tunnels, addresses and blocks is renewed for 31 days and out of suspension, and
  the wallet was debited by exactly the sum, whatever the tick does to other customers.
\<close>

theorem tick_renews_funded:
  assumes "ledger_ok s" "ids_ok s" "wallet_of u s = Some w"
    and "owed tunnel_item u (due_tunnels now s) s + owed ip_item u (due_ips now s) s +
      owed block_item u (due_blocks now s) s \<le> w_balance w"
    and "chargeable tunnel_item (chargeIdempotencyKey KTunnel) u (due_tunnels now s) s"
      "chargeable ip_item (chargeIdempotencyKey KIp) u (due_ips now s) s"
      "chargeable block_item (chargeIdempotencyKey KBlock) u (due_blocks now s) s"
  shows "all_renewed tunnel_item now u (due_tunnels now s) s (snd (runBillingTick g now s)) \<and>
     all_renewed ip_item now u (due_ips now s) s (snd (runBillingTick g now s)) \<and>
     all_renewed block_item now u (due_blocks now s) s (snd (runBillingTick g now s)) \<and>
     (\<exists>w'. wallet_of u (snd (runBillingTick g now s)) = Some w' \<and> w_balance w' = w_balance w -
       (owed tunnel_item u (due_tunnels now s) s + owed ip_item u (due_ips now s) s + owed block_item u (due_blocks now s) s))"
  using assms by (rule tick_funded)

theorem tick_renews_funded_witness:
  "\<exists>w'. wallet_of ''u1'' (snd (runBillingTick demo_gen T0 demo_db)) = Some w' \<and> w_balance w' = 40000"
proof -
  have w: "wallet_of ''u1'' demo_db = Some demo_wallet" by code_simp
  have o: "owed tunnel_item ''u1'' (due_tunnels T0 demo_db) demo_db = 10000"
    "owed ip_item ''u1'' (due_ips T0 demo_db) demo_db = 10000"
    "owed block_item ''u1'' (due_blocks T0 demo_db) demo_db = 40000"
    by code_simp+
  have c: "chargeable tunnel_item (chargeIdempotencyKey KTunnel) ''u1'' (due_tunnels T0 demo_db) demo_db"
    "chargeable ip_item (chargeIdempotencyKey KIp) ''u1'' (due_ips T0 demo_db) demo_db"
    "chargeable block_item (chargeIdempotencyKey KBlock) ''u1'' (due_blocks T0 demo_db) demo_db"
    by code_simp+
  have "w_balance demo_wallet = 100000" by (simp add: demo_wallet_def)
  then show ?thesis
    using tick_renews_funded [OF demo_ledger_ok demo_ids_ok w _ c, of demo_gen] by (simp add: o)
qed

section \<open>Properties of single charges and cancellations\<close>

text \<open>
  C6. Charging a tunnel does what the billing specification says: with enough balance and a
  cycle not charged before, one ledger row over the price is written under the key of the cycle,
  the wallet pays it and the tunnel is active for 31 more days; with too little balance the
  tunnel is suspended and its deadline is three days after the first failure; a cycle charged
  before changes nothing. No other tunnel is touched.
\<close>

theorem chargeOneTunnel_refines:
  assumes "tunnel_item k s = Some it" "wallet_of (bi_owner it) s = Some w"
    and "bill now (w_balance w) (key_used (Some (chargeIdempotencyKey KTunnel k (bi_due it))) s) it = (out, it')"
  shows "\<exists>s'. chargeOneTunnel g now k s = (Inr out, s') \<and> tunnel_item k s' = Some it' \<and>
     (\<forall>j. j \<noteq> k \<longrightarrow> tunnel_item j s' = tunnel_item j s) \<and>
     posted out w (bi_price it) (chargeIdempotencyKey KTunnel k (bi_due it)) s s'"
  using assms by (rule tun.refines)

theorem chargeOneTunnel_refines_witness:
  "\<exists>s'. chargeOneTunnel demo_gen T0 ''t1'' demo_db = (Inr Charged, s') \<and>
     map_option bi_due (tunnel_item ''t1'' s') = Some (T0 + 31 * DAY_MS) \<and> length (txs s') = 3"
proof -
  have it: "tunnel_item ''t1'' demo_db = Some \<lparr>bi_owner = ''u1'', bi_price = 10000, bi_due = T0, bi_last = None,
      bi_active = True, bi_susp = None, bi_del = None\<rparr>" (is "_ = Some ?it")
    by code_simp
  have w: "wallet_of (bi_owner ?it) demo_db = Some demo_wallet" by code_simp
  have b: "bill T0 (w_balance demo_wallet) (key_used (Some (chargeIdempotencyKey KTunnel ''t1'' (bi_due ?it))) demo_db) ?it =
      (Charged, renewed T0 ?it)" by code_simp
  have "length (txs demo_db) = 2" by code_simp
  then show ?thesis
    using chargeOneTunnel_refines [OF it w b, of demo_gen]
    by (auto simp: renewed_def dest!: posted_length)
qed

text \<open>
  The same for a single public address: the price is the one locked at purchase, or the
  catalogue price of one address when none was stored, and block members are never charged.
\<close>

theorem chargeOnePublicIp_refines:
  assumes "ip_item k s = Some it" "wallet_of (bi_owner it) s = Some w"
    and "bill now (w_balance w) (key_used (Some (chargeIdempotencyKey KIp k (bi_due it))) s) it = (out, it')"
  shows "\<exists>s'. chargeOnePublicIp g now k s = (Inr out, s') \<and> ip_item k s' = Some it' \<and>
     (\<forall>j. j \<noteq> k \<longrightarrow> ip_item j s' = ip_item j s) \<and>
     posted out w (bi_price it) (chargeIdempotencyKey KIp k (bi_due it)) s s'"
  using assms by (rule pip.refines)

theorem chargeOnePublicIp_refines_witness:
  "\<exists>s'. chargeOnePublicIp demo_gen T0 ''203.0.113.1'' poor_db = (Inr Suspended, s') \<and>
     map_option bi_del (ip_item ''203.0.113.1'' s') = Some (Some (T0 + 3 * DAY_MS)) \<and> txs s' = txs poor_db"
proof -
  have it: "ip_item ''203.0.113.1'' poor_db = Some \<lparr>bi_owner = ''u1'', bi_price = 10000, bi_due = T0, bi_last = None,
      bi_active = True, bi_susp = None, bi_del = None\<rparr>" (is "_ = Some ?it")
    by code_simp
  obtain w where w: "wallet_of (bi_owner ?it) poor_db = Some w" "w_balance w = 0"
    by (simp add: wallet_of_def poor_db_def demo_wallet_def)
  have b: "bill T0 (w_balance w) already ?it = (Suspended, on_hold T0 ?it)" for already
    by (simp add: bill_def w(2))
  show ?thesis
    using chargeOnePublicIp_refines [OF it w(1) b, of demo_gen] by (auto simp: on_hold_def posted_def)
qed

text \<open>
  The same for a block of addresses, at the price stored with the block.
\<close>

theorem chargeOneIpBlock_refines:
  assumes "block_item k s = Some it" "wallet_of (bi_owner it) s = Some w"
    and "bill now (w_balance w) (key_used (Some (chargeIdempotencyKey KBlock k (bi_due it))) s) it = (out, it')"
  shows "\<exists>s'. chargeOneIpBlock g now k s = (Inr out, s') \<and> block_item k s' = Some it' \<and>
     (\<forall>j. j \<noteq> k \<longrightarrow> block_item j s' = block_item j s) \<and>
     posted out w (bi_price it) (chargeIdempotencyKey KBlock k (bi_due it)) s s'"
  using assms by (rule blk.refines)

theorem chargeOneIpBlock_refines_witness:
  "\<exists>s'. chargeOneIpBlock demo_gen T0 ''b1'' demo_db = (Inr Charged, s') \<and>
     map_option bi_due (block_item ''b1'' s') = Some (T0 + 31 * DAY_MS) \<and> length (txs s') = 3"
proof -
  have it: "block_item ''b1'' demo_db = Some \<lparr>bi_owner = ''u1'', bi_price = 40000, bi_due = T0, bi_last = None,
      bi_active = True, bi_susp = None, bi_del = None\<rparr>" (is "_ = Some ?it")
    by code_simp
  have w: "wallet_of (bi_owner ?it) demo_db = Some demo_wallet" by code_simp
  have b: "bill T0 (w_balance demo_wallet) (key_used (Some (chargeIdempotencyKey KBlock ''b1'' (bi_due ?it))) demo_db) ?it =
      (Charged, renewed T0 ?it)" by code_simp
  have "length (txs demo_db) = 2" by code_simp
  then show ?thesis
    using chargeOneIpBlock_refines [OF it w b, of demo_gen]
    by (auto simp: renewed_def dest!: posted_length)
qed

text \<open>
  C7. The deadline of a suspended tunnel never moves: however many charges fail after the first
  one, at whatever times, the tunnel stays suspended with the deadline the first failure set.
\<close>

theorem failed_charges_keep_deadline:
  assumes "tunnel_item k s = Some it" "wallet_of (bi_owner it) s = Some w" "w_balance w < bi_price it"
    and "bi_del it = None"
  shows "\<exists>it'. tunnel_item k (snd (for_try (\<lambda>now. chargeOneTunnel g now k) (t0 # ts) s)) = Some it' \<and>
     bi_del it' = Some (t0 + 3 * DAY_MS) \<and> \<not> bi_active it'"
  by (rule tun.failed_charges_deadline [OF assms(1-3)]) (use assms(4) in simp_all)

theorem failed_charges_keep_deadline_witness:
  "\<exists>it'. tunnel_item ''t1'' (snd (for_try (\<lambda>now. chargeOneTunnel demo_gen now ''t1'') [T0, T0 + DAY_MS, T0 + 2 * DAY_MS] poor_db)) =
     Some it' \<and> bi_del it' = Some (T0 + 3 * DAY_MS) \<and> \<not> bi_active it'"
proof -
  have it: "tunnel_item ''t1'' poor_db = Some \<lparr>bi_owner = ''u1'', bi_price = 10000, bi_due = T0, bi_last = None,
      bi_active = True, bi_susp = None, bi_del = None\<rparr>" (is "_ = Some ?it")
    by code_simp
  obtain w where "wallet_of (bi_owner ?it) poor_db = Some w" "w_balance w < bi_price ?it"
    by (simp add: wallet_of_def poor_db_def demo_wallet_def)
  from failed_charges_keep_deadline [OF it this, of demo_gen T0 "[T0 + DAY_MS, T0 + 2 * DAY_MS]"]
  show ?thesis by (simp del: for_try.simps)
qed

text \<open>
  C39. The charge itself does not look at the due date. When two ticks have selected the same due
  tunnel, the second charge reads the advanced cycle under its lock and charges that cycle too:
  the customer pays two cycles at once, although the comment in \<^verbatim>\<open>chargeOneTunnel\<close> counts on the
  idempotency key to stop a double tick.
\<close>

theorem double_tick_charges_twice:
  assumes "tunnel_item k s = Some it" "wallet_of (bi_owner it) s = Some w"
    and "0 \<le> bi_price it" "2 * bi_price it \<le> w_balance w" "0 \<le> bi_due it" "bi_due it + 31 * DAY_MS < ISO_END"
    and "\<not> key_used (Some (chargeIdempotencyKey KTunnel k (bi_due it))) s"
      "\<not> key_used (Some (chargeIdempotencyKey KTunnel k (bi_due it + 31 * DAY_MS))) s"
  shows "fst (chargeOneTunnel g now k s) = Inr Charged \<and>
     fst (chargeOneTunnel g now k (snd (chargeOneTunnel g now k s))) = Inr Charged"
proof (rule tun.charged_twice [OF assms(1-4,7,8)])
  show "chargeIdempotencyKey KTunnel k (bi_due it + 31 * DAY_MS) \<noteq> chargeIdempotencyKey KTunnel k (bi_due it)"
    using charge_key_next_cycle [of "bi_due it" KTunnel k] assms(5,6)
    by (simp add: nextBillingAt_def BILLING_CYCLE_DAYS_def)
qed

theorem double_tick_charges_twice_witness:
  "fst (chargeOneTunnel demo_gen T0 ''t1'' (snd (chargeOneTunnel demo_gen T0 ''t1'' demo_db))) = Inr Charged"
proof -
  have it: "tunnel_item ''t1'' demo_db = Some \<lparr>bi_owner = ''u1'', bi_price = 10000, bi_due = T0, bi_last = None,
      bi_active = True, bi_susp = None, bi_del = None\<rparr>" (is "_ = Some ?it")
    by code_simp
  have w: "wallet_of (bi_owner ?it) demo_db = Some demo_wallet" by code_simp
  have nokeys: "\<not> key_used (Some x) demo_db" for x
    by (simp add: key_used_def demo_db_def demo_tx_def)
  show ?thesis
    by (rule double_tick_charges_twice [OF it w, THEN conjunct2]) (simp_all add: demo_wallet_def nokeys)
qed

text \<open>
  Cancelling an overdue address returns it to the pool: it has no owner, no tunnel and no
  billing dates, no other address changes, the pool counts it as available again, and when it
  was routed to a live tunnel the gateway is sent that tunnel's remaining addresses, which no
  longer contain it.
\<close>

theorem forceCancelPublicIp_returns:
  fixes now ip s
  assumes "find (\<lambda>p. i_ip_address p = ip) (ips s) = Some r"
  defines "s' \<equiv> snd (forceCancelPublicIp now ip s)"
  shows "find (\<lambda>p. i_ip_address p = ip) (ips s') = Some (r\<lparr>i_status := IpAvailable, i_tunnel_id := None,
       i_user_id := None, i_released_at := Some now, i_next_billing_at := None, i_suspended_at := None,
       i_delete_after := None\<rparr>) \<and>
     (\<forall>a. a \<noteq> ip \<longrightarrow> find (\<lambda>p. i_ip_address p = a) (ips s') = find (\<lambda>p. i_ip_address p = a) (ips s)) \<and>
     pools s' = pools (pool_give (i_pool_id r) 1 s) \<and>
     (\<forall>tid t. i_tunnel_id r = Some tid \<longrightarrow> live_tunnel tid s = Some t \<longrightarrow>
        calls s' = calls s @ [UpdatePeerIps (t_gateway_id t) (t_wg_public_key t) (t_private_ip t) (tunnel_cidrs tid s') None] \<and>
        ip @ ''/32'' \<notin> set (tunnel_singles tid s'))"
proof -
  have ips': "ips s' = upd_where (\<lambda>p. i_ip_address p = ip) (\<lambda>p. p\<lparr>i_status := IpAvailable, i_tunnel_id := None,
      i_user_id := None, i_released_at := Some now, i_next_billing_at := None, i_suspended_at := None,
      i_delete_after := None\<rparr>) (ips s)"
    by (simp add: s'_def ips_forceCancelPublicIp)
  have blocks': "blocks s' = blocks s" by (simp add: s'_def)
  have 1: "find (\<lambda>p. i_ip_address p = ip) (ips s') = Some (r\<lparr>i_status := IpAvailable, i_tunnel_id := None,
       i_user_id := None, i_released_at := Some now, i_next_billing_at := None, i_suspended_at := None,
       i_delete_after := None\<rparr>)"
    using assms(1) find_SomeD(2) [OF assms(1)] by (simp add: ips' find_upd_where)
  have 2: "find (\<lambda>p. i_ip_address p = a) (ips s') = find (\<lambda>p. i_ip_address p = a) (ips s)" if "a \<noteq> ip" for a
    using that by (simp add: ips' find_upd_other)
  have 3: "pools s' = pools (pool_give (i_pool_id r) 1 s)"
    using assms(1) by (simp add: s'_def forceCancelPublicIp_def Let_def pool_give_def split: option.splits)
  have 4: "calls s' = calls s @ [UpdatePeerIps (t_gateway_id t) (t_wg_public_key t) (t_private_ip t) (tunnel_cidrs tid s') None]"
    if tid: "i_tunnel_id r = Some tid" and t: "live_tunnel tid s = Some t" for tid t
  proof -
    obtain u where u: "s' = push_tunnel_cidrs tid u" "tunnels u = tunnels s" "calls u = calls s"
    proof -
      have "\<exists>u. s' = push_tunnel_cidrs tid u \<and> tunnels u = tunnels s \<and> calls u = calls s"
        by (simp add: s'_def forceCancelPublicIp_def Let_def assms(1) tid)
          (rule exI, rule conjI, rule refl, simp split: option.splits)
      then show thesis using that by blast
    qed
    have "live_tunnel tid u = Some t" using t u(2) by (simp add: live_tunnel_def)
    then have "calls s' = calls s @ [UpdatePeerIps (t_gateway_id t) (t_wg_public_key t) (t_private_ip t) (tunnel_cidrs tid u) None]"
      by (simp add: u(1,3) push_tunnel_cidrs_def)
    moreover have "tunnel_cidrs tid u = tunnel_cidrs tid s'"
      by (simp add: u(1) tunnel_cidrs_def tunnel_singles_def tunnel_block_cidrs_def)
    ultimately show ?thesis by simp
  qed
  have "i_ip_address p \<noteq> ip" if "p \<in> set (ips s')" "i_tunnel_id p = Some tid" for p tid
    using that(1) unfolding ips' by (cases rule: upd_whereE) (use that(2) in auto)
  then have 5: "ip @ ''/32'' \<notin> set (tunnel_singles tid s')" for tid
    by (auto simp: tunnel_singles_def)
  show ?thesis using 1 2 3 4 5 by blast
qed

theorem forceCancelPublicIp_returns_witness:
  "map_option i_user_id (find (\<lambda>p. i_ip_address p = ''203.0.113.1'') (ips (snd (forceCancelPublicIp T0 ''203.0.113.1'' demo_db)))) =
     Some None"
proof -
  have "find (\<lambda>p. i_ip_address p = ''203.0.113.1'') (ips demo_db) =
      Some (demo_ip ''203.0.113.1'' (Some ''u1'') (Some ''t1'') None IpAllocated (Some T0))" by code_simp
  from forceCancelPublicIp_returns [OF this, of T0] show ?thesis by simp
qed

text \<open>
  Cancelling a tunnel detaches its addresses only when at least one of them is in status
  \<^verbatim>\<open>allocated\<close>: a tunnel whose attached addresses are all suspended is deleted and keeps them
  attached, contrary to the comment that all attached addresses are unassigned.
\<close>

theorem forceCancelTunnel_detaches:
  assumes "live_tunnel k s = Some t"
  shows "live_tunnel k (snd (forceCancelTunnel now k s)) = None \<and>
    ((\<forall>p \<in> set (ips (snd (forceCancelTunnel now k s))). i_tunnel_id p \<noteq> Some k) \<longleftrightarrow>
     (\<exists>p \<in> set (ips s). i_tunnel_id p = Some k \<and> i_status p = IpAllocated) \<or>
     (\<forall>p \<in> set (ips s). i_tunnel_id p \<noteq> Some k))"
proof -
  have "\<forall>v \<in> set (tunnels (snd (forceCancelTunnel now k s))). \<not> (t_id v = k \<and> t_deleted_at v = None)"
    by (simp add: tunnels_forceCancelTunnel assms ball_upd_where)
  then have "live_tunnel k (snd (forceCancelTunnel now k s)) = None"
    unfolding live_tunnel_def find_None_iff_none .
  moreover have "\<forall>p \<in> set (upd_where (\<lambda>p. i_tunnel_id p = Some k) (\<lambda>p. p\<lparr>i_tunnel_id := None\<rparr>) (ips s)). i_tunnel_id p \<noteq> Some k"
    by (simp add: ball_upd_where)
  ultimately show ?thesis
    using assms by (auto simp: ips_forceCancelTunnel filter_empty_conv)
qed

theorem forceCancelTunnel_detaches_witness:
  "\<not> (\<forall>p \<in> set (ips (snd (forceCancelTunnel T0 ''t1'' (demo_db\<lparr>ips :=
      [demo_ip ''203.0.113.1'' (Some ''u1'') (Some ''t1'') None IpSuspended (Some T0)]\<rparr>)))). i_tunnel_id p \<noteq> Some ''t1'')"
proof -
  have "live_tunnel ''t1'' (demo_db\<lparr>ips := xs\<rparr>) = Some demo_tunnel" for xs
    by (simp add: live_tunnel_def demo_db_def demo_tunnel_def)
  from forceCancelTunnel_detaches [OF this] show ?thesis by (simp add: demo_ip_def)
qed

end
