(* ===== verification/Flow.thy ===== *)
theory Flow
  imports Tenancy
begin

text \<open>
  Sequencing of fallible code. A transaction body is a value \<open>error + ('r \<times> db)\<close>: \<open>throw_if\<close> is
  \<^verbatim>\<open>if (c) throw e\<close>, \<open>or_throw\<close> is \<^verbatim>\<open>if (!row) throw e\<close>, \<open>andThen\<close> is the next statement.
  Code outside a transaction is an \<open>op\<close>, whose effects stay when it throws later: \<open>seq\<close> is its
  next statement, \<open>do_stmt\<close> a statement that cannot fail, \<open>request\<close> an awaited agent call and
  \<open>catch_op\<close> is \<^verbatim>\<open>try { ... } catch (e) { ... }\<close> with the error kept as a value.
\<close>

named_theorems flow \<open>what a run that returned says of its steps\<close>

definition throw_if :: "bool \<Rightarrow> error \<Rightarrow> error + unit" where
  "throw_if c e = (if c then Inl e else Inr ())"

definition or_throw :: "error \<Rightarrow> 'a option \<Rightarrow> error + 'a" where
  "or_throw e x = (case x of None \<Rightarrow> Inl e | Some v \<Rightarrow> Inr v)"

definition andThen :: "error + 'a \<Rightarrow> ('a \<Rightarrow> error + 'b) \<Rightarrow> error + 'b" where
  "andThen m f = (case m of Inl e \<Rightarrow> Inl e | Inr x \<Rightarrow> f x)"

text \<open>\<^verbatim>\<open>try { x = m } catch { throw e }\<close>.\<close>

definition rethrow :: "error \<Rightarrow> error + 'a \<Rightarrow> error + 'a" where
  "rethrow e m = (case m of Inl _ \<Rightarrow> Inl e | Inr x \<Rightarrow> Inr x)"

lemma throw_if_Inr [flow]: "throw_if c e = Inr u \<longleftrightarrow> \<not> c"
  by (simp add: throw_if_def)

lemma or_throw_Inr [flow]: "or_throw e x = Inr v \<longleftrightarrow> x = Some v"
  by (simp add: or_throw_def split: option.splits)

lemma andThen_Inr [flow]: "andThen m f = Inr y \<longleftrightarrow> (\<exists>x. m = Inr x \<and> f x = Inr y)"
  by (simp add: andThen_def split: sum.splits)

lemma rethrow_Inr [flow]: "rethrow e m = Inr y \<longleftrightarrow> m = Inr y"
  by (simp add: rethrow_def split: sum.splits)

lemma andThen_simps [simp]: "andThen (Inl e) f = Inl e" "andThen (Inr x) f = f x"
  by (simp_all add: andThen_def)

lemma throw_if_simps [simp]: "throw_if True e = Inl e" "throw_if False e = Inr ()"
  by (simp_all add: throw_if_def)

lemma or_throw_simps [simp]: "or_throw e None = Inl e" "or_throw e (Some x) = Inr x"
  by (simp_all add: or_throw_def)

lemma rethrow_simps [simp]: "rethrow e (Inl d) = Inl e" "rethrow e (Inr x) = Inr x"
  by (simp_all add: rethrow_def)

definition seq :: "'a op \<Rightarrow> ('a \<Rightarrow> 'b op) \<Rightarrow> 'b op" where
  "seq m k s = (case m s of (Inl e, s1) \<Rightarrow> (Inl e, s1) | (Inr x, s1) \<Rightarrow> k x s1)"

definition do_stmt :: "(db \<Rightarrow> db) \<Rightarrow> unit op" where
  "do_stmt f s = (Inr (), f s)"

definition done_with :: "'a \<Rightarrow> 'a op" where
  "done_with x s = (Inr x, s)"

definition attempt :: "error + 'a \<Rightarrow> 'a op" where
  "attempt r s = (r, s)"

definition request :: "agent \<Rightarrow> gw_call \<Rightarrow> unit op" where
  "request agent c s = (case agent c of None \<Rightarrow> (Inr (), send c s) | Some e \<Rightarrow> (Inl e, send c s))"

definition catch_op :: "'a op \<Rightarrow> (error + 'a) op" where
  "catch_op m s = (case m s of (r, s1) \<Rightarrow> (Inr r, s1))"

lemma seq_Inr [flow]: "seq m k s = (Inr y, s') \<longleftrightarrow> (\<exists>x s1. m s = (Inr x, s1) \<and> k x s1 = (Inr y, s'))"
  by (auto simp: seq_def split: prod.splits sum.splits)

lemma do_stmt_Inr [flow]: "do_stmt f s = (Inr y, s') \<longleftrightarrow> s' = f s"
  by (auto simp: do_stmt_def)

lemma done_with_Inr [flow]: "done_with x s = (Inr y, s') \<longleftrightarrow> y = x \<and> s' = s"
  by (auto simp: done_with_def)

lemma attempt_Inr [flow]: "attempt r s = (Inr y, s') \<longleftrightarrow> r = Inr y \<and> s' = s"
  by (auto simp: attempt_def)

lemma request_Inr [flow]: "request agent c s = (Inr y, s') \<longleftrightarrow> agent c = None \<and> s' = send c s"
  by (auto simp: request_def split: option.splits)

lemma catch_op_Inr [flow]: "catch_op m s = (Inr r, s') \<longleftrightarrow> m s = (r, s')"
  by (auto simp: catch_op_def split: prod.splits)

lemma sql_begin_Inr [flow]: "sql_begin body s = (Inr r, s') \<longleftrightarrow> body s = Inr (r, s')"
  by (auto simp: sql_begin_def split: sum.splits)

text \<open>Evaluation runs the steps one after the other, never under a binder.\<close>

declare andThen_def [code_unfold] seq_def [code_unfold]

lemmas flow_defs = seq_def do_stmt_def done_with_def attempt_def request_def catch_op_def

lemma pair_fst: "fst p = a \<Longrightarrow> p = (a, snd p)"
  by (cases p) simp

text \<open>
  An invariant survives a sequence when each step keeps it, also on the paths that throw.
\<close>

named_theorems inv_intros \<open>steps that keep an invariant\<close>

definition preserves :: "(db \<Rightarrow> bool) \<Rightarrow> 'r op \<Rightarrow> bool" where
  "preserves I m \<longleftrightarrow> (\<forall>s. I s \<longrightarrow> I (snd (m s)))"

lemma preservesI: "(\<And>s. I s \<Longrightarrow> I (snd (m s))) \<Longrightarrow> preserves I m"
  by (simp add: preserves_def)

lemma preservesD: "preserves I m \<Longrightarrow> I s \<Longrightarrow> I (snd (m s))"
  by (simp add: preserves_def)

lemma preserves_seq [inv_intros]: "preserves I m \<Longrightarrow> (\<And>x. preserves I (k x)) \<Longrightarrow> preserves I (seq m k)"
  by (fastforce simp: preserves_def seq_def split: prod.splits sum.splits)

lemma preserves_stmt [inv_intros]: "(\<And>s. I s \<Longrightarrow> I (f s)) \<Longrightarrow> preserves I (do_stmt f)"
  by (simp add: preserves_def do_stmt_def)

lemma preserves_done [inv_intros]: "preserves I (done_with x)"
  by (simp add: preserves_def done_with_def)

lemma preserves_attempt [inv_intros]: "preserves I (attempt r)"
  by (simp add: preserves_def attempt_def)

lemma preserves_request [inv_intros]: "(\<And>s c. I s \<Longrightarrow> I (send c s)) \<Longrightarrow> preserves I (request agent c)"
  by (simp add: preserves_def request_def split: option.splits)

lemma preserves_catch [inv_intros]: "preserves I m \<Longrightarrow> preserves I (catch_op m)"
  by (simp add: preserves_def catch_op_def case_prod_beta)

lemma preserves_begin [inv_intros]:
  "(\<And>s r s'. I s \<Longrightarrow> body s = Inr (r, s') \<Longrightarrow> I s') \<Longrightarrow> preserves I (sql_begin body)"
  by (rule preservesI, rule sql_begin_inv) blast+

lemma preserves_if [inv_intros]: "(c \<Longrightarrow> preserves I a) \<Longrightarrow> (\<not> c \<Longrightarrow> preserves I b) \<Longrightarrow> preserves I (if c then a else b)"
  by simp

lemma preserves_option [inv_intros]:
  "(x = None \<Longrightarrow> preserves I a) \<Longrightarrow> (\<And>v. x = Some v \<Longrightarrow> preserves I (b v)) \<Longrightarrow>
     preserves I (case x of None \<Rightarrow> a | Some v \<Rightarrow> b v)"
  by (cases x) simp_all

section \<open>Statements and the two invariants\<close>

lemma tunnel_cidrs_stmt [simp]:
  "tunnel_cidrs tid (set_tunnels P f s) = tunnel_cidrs tid s" "tunnel_cidrs tid (wallet_debit a b n s) = tunnel_cidrs tid s"
  "tunnel_cidrs tid (s\<lparr>txs := xs\<rparr>) = tunnel_cidrs tid s" "tunnel_cidrs tid (s\<lparr>wallets := ws\<rparr>) = tunnel_cidrs tid s"
  "tunnel_cidrs tid (audit now ac i act rt ri md s) = tunnel_cidrs tid s" "tunnel_cidrs tid (send c s) = tunnel_cidrs tid s"
  by (rule tunnel_cidrs_cong; simp add: stmt_defs)+

lemma ledger_stmt [simp]:
  "ledger_ok (audit now a i act rt ri md s) = ledger_ok s" "ledger_ok (notify u ty sv md s) = ledger_ok s"
  "ledger_ok (set_ips P f s) = ledger_ok s" "ledger_ok (set_tunnels P2 f2 s) = ledger_ok s"
  "ledger_ok (set_blocks P3 f3 s) = ledger_ok s" "ledger_ok (set_gateways P4 f4 s) = ledger_ok s"
  "ledger_ok (gateway_drop g s) = ledger_ok s" "ledger_ok (pool_give p n s) = ledger_ok s"
  "ledger_ok (pool_take p n s) = ledger_ok s" "ledger_ok (send c s) = ledger_ok s"
  by (rule ledger_ok_cong; simp)+

lemma tenancy_congs: "tunnels s' = tunnels s \<Longrightarrow> blocks s' = blocks s \<Longrightarrow> ips s' = ips s \<Longrightarrow> tenancy_ok s' = tenancy_ok s"
  by (simp add: tenancy_ok_def ids_ok_def row_ok_def tun_owners_def blk_owners_def)

lemma tenancy_stmt [simp]:
  "tenancy_ok (audit now a i act rt ri md s) = tenancy_ok s" "tenancy_ok (notify u ty sv md s) = tenancy_ok s"
  "tenancy_ok (set_gateways P4 f4 s) = tenancy_ok s" "tenancy_ok (gateway_drop g s) = tenancy_ok s"
  "tenancy_ok (pool_give p n s) = tenancy_ok s" "tenancy_ok (pool_take p n s) = tenancy_ok s"
  "tenancy_ok (send c s) = tenancy_ok s"
  by (rule tenancy_congs; simp)+

lemma tenancy_set_tunnels:
  "tenancy_ok s \<Longrightarrow> (\<And>t. t_id (f t) = t_id t) \<Longrightarrow> (\<And>t. t_user_id (f t) = t_user_id t) \<Longrightarrow>
     tenancy_ok (set_tunnels P f s)"
  by (rule tenancy_cong) (auto intro: tun_owners_upd owners_same)

lemma tenancy_set_blocks:
  "tenancy_ok s \<Longrightarrow> (\<And>b. b_id (f b) = b_id b) \<Longrightarrow> (\<And>b. b_user_id (f b) = b_user_id b) \<Longrightarrow>
     tenancy_ok (set_blocks P f s)"
  by (rule tenancy_cong) (auto intro: blk_owners_upd owners_same)

text \<open>Taking an address off its tunnel never breaks the isolation.\<close>

lemma tenancy_detach: "tenancy_ok s \<Longrightarrow> tenancy_ok (set_ips P (\<lambda>p. p\<lparr>i_tunnel_id := None\<rparr>) s)"
  by (rule tenancy_set_ips) (auto simp: row_ok_def dest: tenancy_okD)

text \<open>A new tunnel has no addresses yet.\<close>

lemma tenancy_add_tunnel:
  assumes ok: "tenancy_ok s" and new: "t_id t \<notin> set (map t_id (tunnels s))"
  shows "tenancy_ok (s\<lparr>tunnels := tunnels s @ [t]\<rparr>)"
proof -
  let ?s' = "s\<lparr>tunnels := tunnels s @ [t]\<rparr>"
  have o: "tun_owners ?s' = tun_owners s @ [(t_id t, t_user_id t)]" "blk_owners ?s' = blk_owners s"
    by (simp_all add: tun_owners_def blk_owners_def)
  have "row_ok ?s' p" if "row_ok s p" for p
    using that by (auto simp: row_ok_def o belongs_append)
  with ok new show ?thesis by (auto simp: tenancy_ok_def ids_ok_def)
qed

end
