(* ===== verification/PublicIp.thy ===== *)
theory PublicIp
  imports Tenancy
begin

text \<open>
  \<^verbatim>\<open>packages/provisioning/src/public-ip.ts\<close>: buying a single public address, assigning it to a
  tunnel, moving, detaching and releasing it. \<^verbatim>\<open>block >>= ip\<close> is containment of the address in
  the CIDR of the pool; a text that is not an address fails the cast to \<^verbatim>\<open>inet\<close>.
\<close>

section \<open>Purchase\<close>

text \<open>
  The tail of a purchase: the wallet pays and the ledger row is inserted under its key; a key
  that is already there raises, and the transaction is rolled back.
\<close>

definition pay :: "uuid_gen \<Rightarrow> wallet \<Rightarrow> uuid \<Rightarrow> credit_tx_type \<Rightarrow> satang \<Rightarrow> string \<Rightarrow> string \<Rightarrow>
    db \<Rightarrow> error + db" where
  "pay g w userId typ price desc key s =
     (let newBalance = w_balance w - price in
      insert_tx \<lparr>x_id = g (length (txs s)), x_user_id = userId, x_wallet_id = w_id w,
          x_type = typ, x_amount = - price, x_balance_after = newBalance, x_description = desc,
          x_code_redemption_id = None, x_admin_user_id = None, x_idempotency_key = Some key\<rparr>
        (wallet_debit (w_id w) newBalance price s))"

definition pool_covers :: "ip4 \<Rightarrow> pool \<Rightarrow> bool" where
  "pool_covers ip p = (let q = parseCidr (p_block p) in net q \<le> ip4ToInt ip \<and> ip4ToInt ip < net q + size q)"

definition pool_plans :: "uuid \<Rightarrow> db \<Rightarrow> sale_plan list" where
  "pool_plans pid s = map (\<lambda>p. \<lparr>sp_id = pl_id p, sp_cidr = pl_cidr p, sp_saleMode = pl_sale_mode p,
     sp_blockSize = pl_block_size p\<rparr>) (filter (\<lambda>p. pl_pool_id p = pid) (plans s))"

definition pool_taken :: "uuid \<Rightarrow> db \<Rightarrow> int list" where
  "pool_taken pid s = map (\<lambda>p. ip4ToInt (i_ip_address p))
     (filter (\<lambda>p. i_pool_id p = pid \<and> i_status p \<noteq> IpAvailable) (ips s))"

record BuyIpResult =
  br_ip :: ip4
  br_newBalanceSatang :: satang

text \<open>\<^verbatim>\<open>INSERT ... ON CONFLICT (ip_address) DO UPDATE\<close>.\<close>

definition upsert_ip :: "public_ip \<Rightarrow> (public_ip \<Rightarrow> public_ip) \<Rightarrow> db \<Rightarrow> db" where
  "upsert_ip row upd s =
     (if find (\<lambda>p. i_ip_address p = i_ip_address row) (ips s) = None then s\<lparr>ips := ips s @ [row]\<rparr>
      else set_ips (\<lambda>p. i_ip_address p = i_ip_address row) upd s)"

definition new_ip :: "ip4 \<Rightarrow> uuid \<Rightarrow> uuid \<Rightarrow> uuid option \<Rightarrow> satang option \<Rightarrow> ms option \<Rightarrow> ms \<Rightarrow> public_ip" where
  "new_ip ip pid userId blk price due now = \<lparr>i_ip_address = ip, i_pool_id = pid, i_user_id = Some userId,
     i_tunnel_id = None, i_block_id = blk, i_status = IpAllocated, i_price_satang = price,
     i_next_billing_at = due, i_last_billed_at = None, i_suspended_at = None, i_delete_after = None,
     i_allocated_at = Some now, i_released_at = None, i_sale_mode = ''single''\<rparr>"

text \<open>
  The cast \<^verbatim>\<open>ip::inet\<close> is modelled on the addresses of the \<^verbatim>\<open>ip4\<close> domain, the canonical dotted
  quads: there it is the identity, and any other text is refused here. PostgreSQL takes more (a
  text with a mask such as \<^verbatim>\<open>203.0.113.5/25\<close>, which it keeps as a value of its own, or IPv6);
  what the code does with those is not modelled, and the property of a purchase assumes
  \<open>is_ip4\<close>.
\<close>

definition buyPublicIp :: "uuid_gen \<Rightarrow> ms \<Rightarrow> uuid \<Rightarrow> ip4 \<Rightarrow> BuyIpResult op" where
  "buyPublicIp g now userId ip s =
     (case ipPrice 1 s of
        Inl e \<Rightarrow> (Inl e, s)
      | Inr price \<Rightarrow> sql_begin (\<lambda>s.
          if \<not> is_ip4 ip then Inl (JsError (''invalid input syntax for type inet: '' @ ip))
          else case find (pool_covers ip) (pools s) of
            None \<Rightarrow> Inl (ValidationError (ip @ '' is not in any ip_pool block''))
          | Some pool \<Rightarrow> (case isIpSellableAsSingle ip (pool_plans (p_id pool) s) of
              Inl reason \<Rightarrow> Inl (ValidationError reason)
            | Inr _ \<Rightarrow> (case wallet_of userId s of
                None \<Rightarrow> Inl (NotFound ''wallet'')
              | Some w \<Rightarrow>
                  if w_balance w < price then Inl (InsufficientCredit price (w_balance w))
                  else if (case find (\<lambda>p. i_ip_address p = ip) (ips s) of
                             None \<Rightarrow> False | Some ex \<Rightarrow> i_status ex = IpAllocated)
                  then Inl (ValidationError (ip @ '' is already allocated''))
                  else
                    let nextBilling = now + 31 * DAY_MS;
                        s1 = upsert_ip (new_ip ip (p_id pool) userId None (Some price) (Some nextBilling) now)
                          (\<lambda>p. p\<lparr>i_user_id := Some userId, i_tunnel_id := None, i_block_id := None,
                                 i_status := IpAllocated, i_price_satang := Some price,
                                 i_next_billing_at := Some nextBilling, i_allocated_at := Some now,
                                 i_released_at := None\<rparr>) s;
                        s2 = pool_take (p_id pool) 1 s1
                    in (case pay g w userId TxIpCharge price (''Public IP '' @ ip)
                          (''buy-ip-'' @ ip @ ''-'' @ show_int now) s2 of
                          Inl e \<Rightarrow> Inl e
                        | Inr s3 \<Rightarrow> Inr (\<lparr>br_ip = ip, br_newBalanceSatang = w_balance w - price\<rparr>,
                            audit now ActUser (Some userId) ''ip.buy'' (Some ''public_ip'') None
                              [(''ip'', JStr ip)] s3))))) s)"

text \<open>The loop over the pools: the first pool with a candidate decides, even when the purchase fails.\<close>

fun first_candidate :: "pool list \<Rightarrow> db \<Rightarrow> ip4 option" where
  "first_candidate [] s = None"
| "first_candidate (p # ps) s =
     (case findFreeSingleIp (p_block p) (pool_plans (p_id p) s) (pool_taken (p_id p) s) of
        Some ip \<Rightarrow> Some ip
      | None \<Rightarrow> first_candidate ps s)"

definition buyFirstAvailableSingleIp :: "uuid_gen \<Rightarrow> ms \<Rightarrow> uuid \<Rightarrow> BuyIpResult op" where
  "buyFirstAvailableSingleIp g now userId s =
     (case first_candidate (pools s) s of
        Some ip \<Rightarrow> buyPublicIp g now userId ip s
      | None \<Rightarrow> (Inl NoIpAvailable, s))"

section \<open>Assignment and release\<close>

text \<open>The check of a target tunnel that moving an address and moving a block share.\<close>

definition check_target :: "string \<Rightarrow> uuid \<Rightarrow> uuid option \<Rightarrow> db \<Rightarrow> error option" where
  "check_target what userId toTunnelId s =
     (case toTunnelId of
        None \<Rightarrow> None
      | Some tid \<Rightarrow> (case live_tunnel tid s of
          None \<Rightarrow> Some (NotFound ''target tunnel'')
        | Some t \<Rightarrow>
            if t_user_id t \<noteq> userId then Some (ValidationError (''cannot assign '' @ what @ '' to another user's tunnel''))
            else if t_status t \<noteq> TunActive
            then Some (ValidationError (''target tunnel is '' @ tunnel_status_name (t_status t) @ '', must be active''))
            else None))"

definition affected :: "uuid option \<Rightarrow> uuid option \<Rightarrow> uuid list" where
  "affected fromT toT = (case fromT of None \<Rightarrow> [] | Some a \<Rightarrow> [a]) @ (case toT of None \<Rightarrow> [] | Some b \<Rightarrow> [b])"

definition moveIp_tx :: "ms \<Rightarrow> uuid \<Rightarrow> ip4 \<Rightarrow> uuid option \<Rightarrow> (uuid option \<times> TunnelSyncInfo list) op" where
  "moveIp_tx now userId ip toTunnelId = sql_begin (\<lambda>s.
     case find (\<lambda>p. i_ip_address p = ip) (ips s) of
       None \<Rightarrow> Inl (NotFound (''public IP '' @ ip))
     | Some row \<Rightarrow>
         if i_user_id row \<noteq> Some userId then Inl (ValidationError (ip @ '' not owned by you''))
         else if i_status row \<noteq> IpAllocated
         then Inl (ValidationError (ip @ '' is not allocated (status='' @ ip_status_name (i_status row) @ '')''))
         else (case i_block_id row of
           Some bid \<Rightarrow> Inl (ValidationError (ip @ '' belongs to a block''))
         | None \<Rightarrow> (case check_target ''IP'' userId toTunnelId s of
             Some e \<Rightarrow> Inl e
           | None \<Rightarrow>
               if i_tunnel_id row = toTunnelId then Inr ((i_tunnel_id row, []), s)
               else
                 let s1 = set_ips (\<lambda>p. i_ip_address p = ip) (\<lambda>p. p\<lparr>i_tunnel_id := toTunnelId\<rparr>) s;
                     s2 = audit now ActUser (Some userId)
                       (if toTunnelId \<noteq> None then ''ip.assign'' else ''ip.unassign'') (Some ''public_ip'') None
                       [(''ip'', JStr ip), (''from'', json_opt (i_tunnel_id row)), (''to'', json_opt toTunnelId)] s1
                 in Inr ((i_tunnel_id row, load_syncs (affected (i_tunnel_id row) toTunnelId) s2), s2))))"

definition moveIp :: "agent \<Rightarrow> ms \<Rightarrow> uuid \<Rightarrow> ip4 \<Rightarrow> uuid option \<Rightarrow> (uuid option \<times> uuid option) op" where
  "moveIp agent now userId ip toTunnelId s =
     (case moveIp_tx now userId ip toTunnelId s of
        (Inl e, s1) \<Rightarrow> (Inl e, s1)
      | (Inr (fromT, syncs), s1) \<Rightarrow> (case pushSyncs agent syncs s1 of
          (Inl e, s2) \<Rightarrow> (Inl e, s2)
        | (Inr _, s2) \<Rightarrow> (Inr (fromT, toTunnelId), s2)))"

definition releasePublicIp :: "ms \<Rightarrow> uuid \<Rightarrow> ip4 \<Rightarrow> ip4 op" where
  "releasePublicIp now userId ip = sql_begin (\<lambda>s.
     case find (\<lambda>p. i_ip_address p = ip) (ips s) of
       None \<Rightarrow> Inl (NotFound (''public IP '' @ ip))
     | Some row \<Rightarrow>
         if i_user_id row \<noteq> Some userId then Inl (ValidationError (ip @ '' not owned by you''))
         else if i_status row \<noteq> IpAllocated
         then Inl (ValidationError (ip @ '' is not allocated (status='' @ ip_status_name (i_status row) @ '')''))
         else if i_block_id row \<noteq> None then Inl (ValidationError (ip @ '' belongs to a block''))
         else if i_tunnel_id row \<noteq> None then Inl (ValidationError (''detach '' @ ip @ '' first''))
         else Inr (ip, audit now ActUser (Some userId) ''ip.release'' (Some ''public_ip'') None [(''ip'', JStr ip)]
           (pool_give (i_pool_id row) 1
             (set_ips (\<lambda>p. i_ip_address p = ip)
               (\<lambda>p. p\<lparr>i_status := IpAvailable, i_tunnel_id := None, i_user_id := None,
                      i_released_at := Some now, i_next_billing_at := None\<rparr>) s))))"

section \<open>Money\<close>

lemma pay_Inr:
  assumes "pay g w u typ price desc key s = Inr s'"
  shows "\<not> key_used (Some key) s"
    and "s' = (wallet_debit (w_id w) (w_balance w - price) price s)\<lparr>txs := txs s @
      [\<lparr>x_id = g (length (txs s)), x_user_id = u, x_wallet_id = w_id w, x_type = typ, x_amount = - price,
        x_balance_after = w_balance w - price, x_description = desc, x_code_redemption_id = None,
        x_admin_user_id = None, x_idempotency_key = Some key\<rparr>]\<rparr>"
  using assms by (auto simp: pay_def insert_tx_def Let_def key_used_def split: if_splits)

lemma pay_frame:
  assumes "pay g w u typ price desc key s = Inr s'"
  shows "ips s' = ips s" "tunnels s' = tunnels s" "blocks s' = blocks s" "gateways s' = gateways s"
    "pools s' = pools s" "calls s' = calls s"
  using pay_Inr(2) [OF assms] by (simp_all add: wallet_debit_def)

text \<open>
  A purchase keeps the books when the statements before the payment leave wallets and ledger alone.
\<close>

lemma pay_ledger:
  assumes ok: "ledger_ok s" and w: "wallet_of u s = Some w" "\<not> w_balance w < price"
    and s1: "wallets s1 = wallets s" "txs s1 = txs s"
    and p: "pay g w u typ price desc key s1 = Inr s2"
    and s3: "wallets s3 = wallets s2" "txs s3 = txs s2"
  shows "ledger_ok s3"
proof -
  note e = pay_Inr [OF p]
  show ?thesis
  proof (rule ledger_debit [OF ok])
    show "w \<in> set (wallets s)" using wallet_of_Some [OF w(1)] by simp
    show "wallets s3 = wallets (wallet_debit (w_id w) (w_balance w - price) price s)"
      using s3(1) s1(1) e(2) by (simp add: wallet_debit_def)
    show "txs s3 = txs s @ [\<lparr>x_id = g (length (txs s1)), x_user_id = u, x_wallet_id = w_id w, x_type = typ,
        x_amount = - price, x_balance_after = w_balance w - price, x_description = desc,
        x_code_redemption_id = None, x_admin_user_id = None, x_idempotency_key = Some key\<rparr>]"
      using s3(2) s1(2) e(2) by simp
  qed (use w(2) e(1) s1(2) in \<open>simp_all add: key_used_def\<close>)
qed

lemma upsert_ip_frame [simp]:
  "wallets (upsert_ip r u s) = wallets s" "txs (upsert_ip r u s) = txs s" "tunnels (upsert_ip r u s) = tunnels s"
  "blocks (upsert_ip r u s) = blocks s" "pools (upsert_ip r u s) = pools s" "gateways (upsert_ip r u s) = gateways s"
  "calls (upsert_ip r u s) = calls s"
  by (simp_all add: upsert_ip_def)

text \<open>The state a successful purchase leaves, and the checks it passed.\<close>

lemma buyPublicIp_Inr:
  assumes "buyPublicIp g now userId ip s = (Inr r, s')"
  obtains price pool w s2 s3 where
    "ipPrice 1 s = Inr price" "is_ip4 ip" "find (pool_covers ip) (pools s) = Some pool"
    "isIpSellableAsSingle ip (pool_plans (p_id pool) s) = Inr ()"
    "wallet_of userId s = Some w" "\<not> w_balance w < price"
    "\<And>ex. find (\<lambda>p. i_ip_address p = ip) (ips s) = Some ex \<Longrightarrow> i_status ex \<noteq> IpAllocated"
    "s2 = pool_take (p_id pool) 1 (upsert_ip (new_ip ip (p_id pool) userId None (Some price) (Some (now + 31 * DAY_MS)) now)
       (\<lambda>p. p\<lparr>i_user_id := Some userId, i_tunnel_id := None, i_block_id := None, i_status := IpAllocated,
          i_price_satang := Some price, i_next_billing_at := Some (now + 31 * DAY_MS), i_allocated_at := Some now,
          i_released_at := None\<rparr>) s)"
    "pay g w userId TxIpCharge price (''Public IP '' @ ip) (''buy-ip-'' @ ip @ ''-'' @ show_int now) s2 = Inr s3"
    "s' = audit now ActUser (Some userId) ''ip.buy'' (Some ''public_ip'') None [(''ip'', JStr ip)] s3"
    "r = \<lparr>br_ip = ip, br_newBalanceSatang = w_balance w - price\<rparr>"
proof -
  from assms show thesis
    unfolding buyPublicIp_def sql_begin_def Let_def
    by (auto split: sum.splits option.splits if_splits intro: that)
qed

lemma buyPublicIp_fail: "fst (buyPublicIp g now userId ip s) = Inl e \<Longrightarrow> snd (buyPublicIp g now userId ip s) = s"
  by (auto simp: buyPublicIp_def sql_begin_def split: sum.splits)
interpretation buy_ip: money_op "buyPublicIp g now u" for g now u
proof unfold_locales
  fix s ip
  assume ok: "ledger_ok s"
  show "ledger_ok (snd (buyPublicIp g now u ip s))"
  proof (cases "buyPublicIp g now u ip s")
    case (Pair r s')
    show ?thesis
    proof (cases r)
      case (Inl e)
      with Pair ok buyPublicIp_fail [of g now u ip s e] show ?thesis by simp
    next
      case (Inr x)
      with Pair have "buyPublicIp g now u ip s = (Inr x, s')" by simp
      then show ?thesis
      proof (rule buyPublicIp_Inr)
        fix price pool w s2 s3
        assume a: "wallet_of u s = Some w" "\<not> w_balance w < price"
          "s2 = pool_take (p_id pool) 1 (upsert_ip (new_ip ip (p_id pool) u None (Some price) (Some (now + 31 * DAY_MS)) now)
            (\<lambda>p. p\<lparr>i_user_id := Some u, i_tunnel_id := None, i_block_id := None, i_status := IpAllocated,
              i_price_satang := Some price, i_next_billing_at := Some (now + 31 * DAY_MS), i_allocated_at := Some now,
              i_released_at := None\<rparr>) s)"
          "pay g w u TxIpCharge price (''Public IP '' @ ip) (''buy-ip-'' @ ip @ ''-'' @ show_int now) s2 = Inr s3"
          "s' = audit now ActUser (Some u) ''ip.buy'' (Some ''public_ip'') None [(''ip'', JStr ip)] s3"
        show ?thesis
          unfolding Pair snd_conv by (rule pay_ledger [OF ok a(1,2) _ _ a(4)]) (simp_all add: a(3,5))
      qed
    qed
  qed
qed

interpretation buy_first: money_op "buyFirstAvailableSingleIp g now" for g now
  by unfold_locales (simp add: buyFirstAvailableSingleIp_def buy_ip.ledger_kept split: option.splits)

lemma moveIp_tx_frame:
  "wallets (snd (moveIp_tx now u ip t s)) = wallets s" "txs (snd (moveIp_tx now u ip t s)) = txs s"
  "tunnels (snd (moveIp_tx now u ip t s)) = tunnels s" "blocks (snd (moveIp_tx now u ip t s)) = blocks s"
  "pools (snd (moveIp_tx now u ip t s)) = pools s" "gateways (snd (moveIp_tx now u ip t s)) = gateways s"
  "calls (snd (moveIp_tx now u ip t s)) = calls s"
  by (simp_all add: moveIp_tx_def sql_begin_def Let_def split: option.splits)

text \<open>The database part of a move is its transaction; the pushes only add calls.\<close>

lemma moveIp_snd:
  "\<exists>cs. snd (moveIp agent now u ip t s) = (snd (moveIp_tx now u ip t s))\<lparr>calls := calls s @ cs\<rparr>"
proof -
  obtain r s1 where 1: "moveIp_tx now u ip t s = (r, s1)" by fastforce
  have c: "calls s1 = calls s" using moveIp_tx_frame(7) [of now u ip t s] by (simp add: 1)
  show ?thesis
  proof (cases r)
    case (Inl e)
    then have "snd (moveIp agent now u ip t s) = s1" by (simp add: moveIp_def 1)
    then show ?thesis using 1 c by (auto intro!: exI [of _ "[]"])
  next
    case (Inr x)
    obtain fromT syncs where x: "x = (fromT, syncs)" by fastforce
    obtain r2 s2 where 2: "pushSyncs agent syncs s1 = (r2, s2)" by fastforce
    then have "snd (moveIp agent now u ip t s) = s2"
      by (cases r2) (simp_all add: moveIp_def 1 Inr x)
    then show ?thesis using pushSyncs_frame [of agent syncs s1] 1 2 c by auto
  qed
qed

interpretation move_ip: wallet_frame "\<lambda>(u, ip, t). moveIp agent now u ip t" for agent now
proof unfold_locales
  fix x s
  show "wallets (snd ((\<lambda>(u, ip, t). moveIp agent now u ip t) x s)) = wallets s \<and>
      txs (snd ((\<lambda>(u, ip, t). moveIp agent now u ip t) x s)) = txs s"
  proof (cases x)
    case (fields u ip t)
    obtain cs where "snd (moveIp agent now u ip t s) = (snd (moveIp_tx now u ip t s))\<lparr>calls := calls s @ cs\<rparr>"
      using moveIp_snd by blast
    then show ?thesis by (simp add: fields moveIp_tx_frame)
  qed
qed

lemma releasePublicIp_frame [simp]:
  "wallets (snd (releasePublicIp now u ip s)) = wallets s" "txs (snd (releasePublicIp now u ip s)) = txs s"
  "tunnels (snd (releasePublicIp now u ip s)) = tunnels s" "blocks (snd (releasePublicIp now u ip s)) = blocks s"
  "calls (snd (releasePublicIp now u ip s)) = calls s"
  by (simp_all add: releasePublicIp_def sql_begin_def split: option.splits)

interpretation release_ip: wallet_frame "releasePublicIp now u" for now u
  by unfold_locales simp

section \<open>Isolation\<close>

lemma tenancy_upsert:
  assumes ok: "tenancy_ok s" and row: "row_ok s r" "\<And>p. p \<in> set (ips s) \<Longrightarrow> row_ok s (f p)"
    and addr: "\<And>p. i_ip_address (f p) = i_ip_address p"
  shows "tenancy_ok (upsert_ip r f s)"
proof (cases "find (\<lambda>p. i_ip_address p = i_ip_address r) (ips s)")
  case None
  then have s': "upsert_ip r f s = s\<lparr>ips := ips s @ [r]\<rparr>" by (simp add: upsert_ip_def)
  have "row_ok (s\<lparr>ips := ips s @ [r]\<rparr>) p = row_ok s p" for p
    by (rule row_ok_cong) (simp_all add: tun_owners_def blk_owners_def)
  with ok row(1) None show ?thesis
    by (auto simp: s' tenancy_ok_def ids_ok_def find_None_iff_none)
next
  case (Some q)
  then have s': "upsert_ip r f s = set_ips (\<lambda>p. i_ip_address p = i_ip_address r) f s" by (simp add: upsert_ip_def)
  show ?thesis
    unfolding s' by (rule tenancy_set_ips [OF ok row(2) addr])
qed

lemma buyPublicIp_tenancy:
  assumes ok: "tenancy_ok s"
  shows "tenancy_ok (snd (buyPublicIp g now u ip s))"
proof (cases "fst (buyPublicIp g now u ip s)")
  case (Inl e)
  with ok buyPublicIp_fail show ?thesis by metis
next
  case (Inr x)
  then have "buyPublicIp g now u ip s = (Inr x, snd (buyPublicIp g now u ip s))" by (metis prod.collapse)
  then show ?thesis
  proof (rule buyPublicIp_Inr)
    fix price pool w s2 s3
    let ?f = "\<lambda>p. p\<lparr>i_user_id := Some u, i_tunnel_id := None, i_block_id := None, i_status := IpAllocated,
      i_price_satang := Some price, i_next_billing_at := Some (now + 31 * DAY_MS), i_allocated_at := Some now,
      i_released_at := None\<rparr>"
    let ?r = "new_ip ip (p_id pool) u None (Some price) (Some (now + 31 * DAY_MS)) now"
    assume a: "s2 = pool_take (p_id pool) 1 (upsert_ip ?r ?f s)"
      "pay g w u TxIpCharge price (''Public IP '' @ ip) (''buy-ip-'' @ ip @ ''-'' @ show_int now) s2 = Inr s3"
      "snd (buyPublicIp g now u ip s) = audit now ActUser (Some u) ''ip.buy'' (Some ''public_ip'') None [(''ip'', JStr ip)] s3"
    have "tenancy_ok (upsert_ip ?r ?f s)"
      by (rule tenancy_upsert [OF ok]) (simp_all add: row_ok_def new_ip_def)
    then show ?thesis
      by (rule tenancy_cong)
        (use pay_frame [OF a(2)] in \<open>simp_all add: a(1,3) tun_owners_def blk_owners_def\<close>)
  qed
qed

lemma check_target_ok:
  assumes "ids_ok s" "check_target what u (Some tid) s = None"
  shows "map_of (tun_owners s) tid = Some u" "\<exists>t. live_tunnel tid s = Some t \<and> t_user_id t = u \<and> t_status t = TunActive"
proof -
  show *: "\<exists>t. live_tunnel tid s = Some t \<and> t_user_id t = u \<and> t_status t = TunActive"
    using assms(2) by (auto simp: check_target_def split: option.splits if_splits)
  then show "map_of (tun_owners s) tid = Some u" using live_tunnel_owner [OF assms(1)] by auto
qed

lemma moveIp_tx_cases:
  obtains (Same) "snd (moveIp_tx now u ip t s) = s"
  | (Moved) row where "find (\<lambda>p. i_ip_address p = ip) (ips s) = Some row" "i_user_id row = Some u"
      "i_block_id row = None" "check_target ''IP'' u t s = None"
      "ips (snd (moveIp_tx now u ip t s)) = upd_where (\<lambda>p. i_ip_address p = ip) (\<lambda>p. p\<lparr>i_tunnel_id := t\<rparr>) (ips s)"
  by (cases "snd (moveIp_tx now u ip t s) = s")
    (auto simp: moveIp_tx_def sql_begin_def Let_def split: option.splits if_splits)

lemma moveIp_tenancy:
  assumes ok: "tenancy_ok s"
  shows "tenancy_ok (snd (moveIp agent now u ip t s))"
proof -
  let ?s1 = "snd (moveIp_tx now u ip t s)"
  have "tenancy_ok ?s1"
  proof (cases rule: moveIp_tx_cases [of now u ip t s])
    case Same
    with ok show ?thesis by simp
  next
    case (Moved row)
    note ids = tenancy_okD(1) [OF ok]
    have user: "p = row" if "p \<in> set (ips s)" "i_ip_address p = ip" for p
      by (rule ids_ok_row [OF ids Moved(1) that])
    show ?thesis
    proof (rule tenancy_rows [OF ok _ _ Moved(5)])
      show "row_ok s (p\<lparr>i_tunnel_id := t\<rparr>)" if "p \<in> set (ips s)" "i_ip_address p = ip" for p
        using user [OF that] Moved(2-4) check_target_ok(1) [OF ids]
        by (cases t) (auto simp: row_ok_def belongs_def)
    qed (simp_all add: moveIp_tx_frame tun_owners_def blk_owners_def)
  qed
  then show ?thesis
    by (rule tenancy_cong) (use moveIp_snd [of agent now u ip t s] in \<open>auto simp: tun_owners_def blk_owners_def\<close>)
qed

lemma releasePublicIp_cases:
  obtains (Same) "snd (releasePublicIp now u ip s) = s"
  | (Released) row where "find (\<lambda>p. i_ip_address p = ip) (ips s) = Some row" "i_user_id row = Some u"
      "i_status row = IpAllocated" "i_block_id row = None" "i_tunnel_id row = None"
      "releasePublicIp now u ip s = (Inr ip, audit now ActUser (Some u) ''ip.release'' (Some ''public_ip'') None [(''ip'', JStr ip)]
        (pool_give (i_pool_id row) 1 (set_ips (\<lambda>p. i_ip_address p = ip)
          (\<lambda>p. p\<lparr>i_status := IpAvailable, i_tunnel_id := None, i_user_id := None, i_released_at := Some now,
            i_next_billing_at := None\<rparr>) s)))"
  by (cases "snd (releasePublicIp now u ip s) = s")
    (auto simp: releasePublicIp_def sql_begin_def split: option.splits if_splits)

lemma releasePublicIp_tenancy:
  assumes ok: "tenancy_ok s"
  shows "tenancy_ok (snd (releasePublicIp now u ip s))"
proof (cases rule: releasePublicIp_cases [of now u ip s])
  case Same
  with ok show ?thesis by simp
next
  case (Released row)
  have "p = row" if "p \<in> set (ips s)" "i_ip_address p = ip" for p
    by (rule ids_ok_row [OF tenancy_okD(1) [OF ok] Released(1) that])
  then have "tenancy_ok (set_ips (\<lambda>p. i_ip_address p = ip) (\<lambda>p. p\<lparr>i_status := IpAvailable, i_tunnel_id := None,
      i_user_id := None, i_released_at := Some now, i_next_billing_at := None\<rparr>) s)"
    by (intro tenancy_set_ips [OF ok]) (use Released(4) in \<open>auto simp: row_ok_def\<close>)
  then show ?thesis
    unfolding Released(6) snd_conv by (rule tenancy_cong) (simp_all add: tun_owners_def blk_owners_def)
qed

interpretation buy_ip_iso: keeps tenancy_ok "\<lambda>_ _. True" "buyPublicIp g now u" for g now u
  by unfold_locales (rule buyPublicIp_tenancy)

interpretation move_ip_iso: keeps tenancy_ok "\<lambda>_ _. True" "\<lambda>(u, ip, t). moveIp agent now u ip t" for agent now
  by unfold_locales (auto intro: moveIp_tenancy)

interpretation release_ip_iso: keeps tenancy_ok "\<lambda>_ _. True" "releasePublicIp now u" for now u
  by unfold_locales (rule releasePublicIp_tenancy)
section \<open>Properties\<close>

lemma find_upsert:
  assumes "\<And>p. i_ip_address (f p) = i_ip_address p"
  shows "find (\<lambda>p. i_ip_address p = a) (ips (upsert_ip r f s)) =
    (if a \<noteq> i_ip_address r then find (\<lambda>p. i_ip_address p = a) (ips s)
     else case find (\<lambda>p. i_ip_address p = a) (ips s) of None \<Rightarrow> Some r | Some p \<Rightarrow> Some (f p))"
proof (cases "find (\<lambda>p. i_ip_address p = i_ip_address r) (ips s)")
  case None
  then show ?thesis
    by (auto simp: upsert_ip_def find_append_case split: option.splits)
next
  case (Some q)
  show ?thesis
  proof (cases "a = i_ip_address r")
    case True
    then show ?thesis
      using Some assms find_SomeD(2) [OF Some] by (simp add: upsert_ip_def find_upd_where)
  next
    case False
    then show ?thesis
      using Some assms by (simp add: upsert_ip_def find_upd_other)
  qed
qed

lemma filter_upd_where_other:
  assumes "\<And>r. P r \<Longrightarrow> P (f r)"
  shows "filter (\<lambda>r. \<not> P r) (upd_where P f rows) = filter (\<lambda>r. \<not> P r) rows"
  using assms by (induction rows) auto

lemma upsert_ip_others:
  assumes "\<And>p. i_ip_address (f p) = i_ip_address p"
  shows "filter (\<lambda>p. i_ip_address p \<noteq> i_ip_address r) (ips (upsert_ip r f s)) =
    filter (\<lambda>p. i_ip_address p \<noteq> i_ip_address r) (ips s)"
  using assms filter_upd_where_other [of "\<lambda>p. i_ip_address p = i_ip_address r" f "ips s"]
  by (simp add: upsert_ip_def set_ips_def)

lemma upsert_ip_eq: "upsert_ip r f s = s\<lparr>ips := ips (upsert_ip r f s)\<rparr>"
  by (simp add: upsert_ip_def set_ips_def)

text \<open>Charging a wallet for addresses taken from a pool: the whole state afterwards.\<close>

lemma charged_state:
  assumes "pay g w u typ price desc key (pool_take pid n (s\<lparr>ips := ys\<rparr>)) = Inr s'"
  shows "\<exists>x. s' = s\<lparr>wallets := upd_where (\<lambda>v. w_id v = w_id w) (\<lambda>v. v\<lparr>w_balance := w_balance w - price,
              w_lifetime_spent := w_lifetime_spent v + price, w_version := w_version v + 1\<rparr>) (wallets s),
            txs := txs s @ [x],
            pools := upd_where (\<lambda>p. p_id p = pid) (\<lambda>p. p\<lparr>p_available_count := p_available_count p - n,
              p_allocated_count := p_allocated_count p + n\<rparr>) (pools s),
            ips := ys\<rparr> \<and>
     x_user_id x = u \<and> x_wallet_id x = w_id w \<and> x_type x = typ \<and> x_amount x = - price \<and>
     x_balance_after x = w_balance w - price \<and> x_idempotency_key x = Some key \<and> \<not> key_used (x_idempotency_key x) s"
  using pay_Inr [OF assms]
  by (intro exI [of _ "\<lparr>x_id = g (length (txs s)), x_user_id = u, x_wallet_id = w_id w, x_type = typ,
        x_amount = - price, x_balance_after = w_balance w - price, x_description = desc,
        x_code_redemption_id = None, x_admin_user_id = None, x_idempotency_key = Some key\<rparr>"])
    (simp add: wallet_debit_def pool_take_def key_used_def)

text \<open>
  C8. A purchase that succeeds sells exactly what was asked for at the catalogue price: the
  address lies in a pool, was not allocated and is on sale as a single; afterwards it belongs to
  the buyer, is attached to nothing and is next billed 31 days later at the price paid; the
  buyer's wallet could pay and paid exactly that price, with one ledger row for it. Nothing else
  changes: the state is the old one with that wallet, that ledger row, one address moved from
  available to allocated on that pool's counters, that address's row and one audit row; every
  other row of every table is as before, in its place. The text is an address in the canonical form.
\<close>

theorem buyPublicIp_correct:
  assumes canonical: "is_ip4 ip" and buy: "buyPublicIp g now u ip s = (Inr r, s')"
  shows "\<exists>price w w' pool row x a. ipPrice 1 s = Inr price \<and> wallet_of u s = Some w \<and> price \<le> w_balance w \<and>
     wallet_of u s' = Some w' \<and> w_balance w' = w_balance w - price \<and>
     r = \<lparr>br_ip = ip, br_newBalanceSatang = w_balance w - price\<rparr> \<and>
     pool \<in> set (pools s) \<and> pool_covers ip pool \<and> isIpSellableAsSingle ip (pool_plans (p_id pool) s) = Inr () \<and>
     (\<forall>old. find (\<lambda>p. i_ip_address p = ip) (ips s) = Some old \<longrightarrow> i_status old \<noteq> IpAllocated) \<and>
     find (\<lambda>p. i_ip_address p = ip) (ips s') = Some row \<and> i_status row = IpAllocated \<and>
     i_user_id row = Some u \<and> i_tunnel_id row = None \<and> i_block_id row = None \<and>
     i_price_satang row = Some price \<and> i_next_billing_at row = Some (now + 31 * DAY_MS) \<and>
     (\<forall>a. a \<noteq> ip \<longrightarrow> find (\<lambda>p. i_ip_address p = a) (ips s') = find (\<lambda>p. i_ip_address p = a) (ips s)) \<and>
     filter (\<lambda>p. i_ip_address p \<noteq> ip) (ips s') = filter (\<lambda>p. i_ip_address p \<noteq> ip) (ips s) \<and>
     s' = s\<lparr>wallets := upd_where (\<lambda>v. w_id v = w_id w) (\<lambda>v. v\<lparr>w_balance := w_balance w - price,
              w_lifetime_spent := w_lifetime_spent v + price, w_version := w_version v + 1\<rparr>) (wallets s),
            txs := txs s @ [x],
            pools := upd_where (\<lambda>p. p_id p = p_id pool) (\<lambda>p. p\<lparr>p_available_count := p_available_count p - 1,
              p_allocated_count := p_allocated_count p + 1\<rparr>) (pools s),
            ips := ips s', audits := audits s @ [a]\<rparr> \<and>
     x_user_id x = u \<and> x_wallet_id x = w_id w \<and> x_type x = TxIpCharge \<and> x_amount x = - price \<and>
     x_balance_after x = w_balance w - price \<and>
     x_idempotency_key x = Some (''buy-ip-'' @ ip @ ''-'' @ show_int now) \<and>
     \<not> key_used (x_idempotency_key x) s \<and>
     a_action a = ''ip.buy'' \<and> a_actor_id a = Some u"
proof (rule buyPublicIp_Inr [OF buy])
  fix price and pool :: pool and w s2 s3
  let ?f = "\<lambda>p. p\<lparr>i_user_id := Some u, i_tunnel_id := None, i_block_id := None, i_status := IpAllocated,
    i_price_satang := Some price, i_next_billing_at := Some (now + 31 * DAY_MS), i_allocated_at := Some now,
    i_released_at := None\<rparr>"
  let ?r = "new_ip ip (p_id pool) u None (Some price) (Some (now + 31 * DAY_MS)) now"
  assume a: "ipPrice 1 s = Inr price" "find (pool_covers ip) (pools s) = Some pool"
    "isIpSellableAsSingle ip (pool_plans (p_id pool) s) = Inr ()" "wallet_of u s = Some w" "\<not> w_balance w < price"
    "\<And>ex. find (\<lambda>p. i_ip_address p = ip) (ips s) = Some ex \<Longrightarrow> i_status ex \<noteq> IpAllocated"
    and s2: "s2 = pool_take (p_id pool) 1 (upsert_ip ?r ?f s)"
    and p: "pay g w u TxIpCharge price (''Public IP '' @ ip) (''buy-ip-'' @ ip @ ''-'' @ show_int now) s2 = Inr s3"
    and s': "s' = audit now ActUser (Some u) ''ip.buy'' (Some ''public_ip'') None [(''ip'', JStr ip)] s3"
    and r: "r = \<lparr>br_ip = ip, br_newBalanceSatang = w_balance w - price\<rparr>"
  have ips': "ips s' = ips (upsert_ip ?r ?f s)" using pay_frame(1) [OF p] by (simp add: s' s2)
  define ys where "ys = ips (upsert_ip ?r ?f s)"
  have ex: "upsert_ip ?r ?f s = s\<lparr>ips := ys\<rparr>" unfolding ys_def by (rule upsert_ip_eq)
  note y = ips' [folded ys_def]
  have w': "\<exists>w'. wallet_of u s' = Some w' \<and> w_balance w' = w_balance w - price"
    using pay_Inr(2) [OF p] a(4) by (auto simp: s' s2 wallet_of_def wallet_debit_def find_upd_where)
  have row: "\<exists>row. find (\<lambda>p. i_ip_address p = ip) (ips s') = Some row \<and> (row = ?r \<or> (\<exists>q. row = ?f q))"
    unfolding ips' by (subst find_upsert) (auto simp: new_ip_def split: option.splits)
  have other: "\<forall>x. x \<noteq> ip \<longrightarrow> find (\<lambda>p. i_ip_address p = x) (ips s') = find (\<lambda>p. i_ip_address p = x) (ips s)"
    unfolding ips' by (subst find_upsert) (simp_all add: new_ip_def)
  have rest: "filter (\<lambda>p. i_ip_address p \<noteq> ip) (ips s') = filter (\<lambda>p. i_ip_address p \<noteq> ip) (ips s)"
    using upsert_ip_others [of ?f ?r s] by (simp add: ips' new_ip_def)
  obtain x b where st: "s' = s\<lparr>wallets := upd_where (\<lambda>v. w_id v = w_id w) (\<lambda>v. v\<lparr>w_balance := w_balance w - price,
              w_lifetime_spent := w_lifetime_spent v + price, w_version := w_version v + 1\<rparr>) (wallets s),
            txs := txs s @ [x],
            pools := upd_where (\<lambda>p. p_id p = p_id pool) (\<lambda>p. p\<lparr>p_available_count := p_available_count p - 1,
              p_allocated_count := p_allocated_count p + 1\<rparr>) (pools s),
            ips := ips s', audits := audits s @ [b]\<rparr>"
    and x: "x_user_id x = u \<and> x_wallet_id x = w_id w \<and> x_type x = TxIpCharge \<and> x_amount x = - price \<and>
      x_balance_after x = w_balance w - price \<and>
      x_idempotency_key x = Some (''buy-ip-'' @ ip @ ''-'' @ show_int now) \<and> \<not> key_used (x_idempotency_key x) s"
    and b: "a_action b = ''ip.buy'' \<and> a_actor_id b = Some u"
    using charged_state [OF p [unfolded s2 ex]] unfolding y by (force simp: s' audit_def)
  from row obtain row where row: "find (\<lambda>p. i_ip_address p = ip) (ips s') = Some row"
    "i_status row = IpAllocated \<and> i_user_id row = Some u \<and> i_tunnel_id row = None \<and> i_block_id row = None \<and>
     i_price_satang row = Some price \<and> i_next_billing_at row = Some (now + 31 * DAY_MS)"
    by (auto simp: new_ip_def)
  from w' obtain w' where w': "wallet_of u s' = Some w'" "w_balance w' = w_balance w - price" by blast
  have "price \<le> w_balance w" "pool \<in> set (pools s)" "pool_covers ip pool"
    using a(5) find_SomeD [OF a(2)] by simp_all
  then show ?thesis
    by (intro exI [of _ price] exI [of _ w] exI [of _ w'] exI [of _ pool] exI [of _ row] exI [of _ x] exI [of _ b] conjI
          a(1,3,4) w' row(1) other rest st r)
      (use row(2) x b a(6) in blast)+
qed

lemma buyPublicIp_succeeds:
  assumes "ipPrice 1 s = Inr price" "is_ip4 ip" "find (pool_covers ip) (pools s) = Some pool"
    and "isIpSellableAsSingle ip (pool_plans (p_id pool) s) = Inr ()"
    and "wallet_of u s = Some w" "price \<le> w_balance w"
    and "\<not> key_used (Some (''buy-ip-'' @ ip @ ''-'' @ show_int now)) s"
    and "\<And>ex. find (\<lambda>p. i_ip_address p = ip) (ips s) = Some ex \<Longrightarrow> i_status ex \<noteq> IpAllocated"
  shows "\<exists>r s'. buyPublicIp g now u ip s = (Inr r, s') \<and>
    ips s' = ips (upsert_ip (new_ip ip (p_id pool) u None (Some price) (Some (now + 31 * DAY_MS)) now)
      (\<lambda>p. p\<lparr>i_user_id := Some u, i_tunnel_id := None, i_block_id := None, i_status := IpAllocated,
        i_price_satang := Some price, i_next_billing_at := Some (now + 31 * DAY_MS), i_allocated_at := Some now,
        i_released_at := None\<rparr>) s)"
proof -
  let ?s2 = "pool_take (p_id pool) 1 (upsert_ip (new_ip ip (p_id pool) u None (Some price) (Some (now + 31 * DAY_MS)) now)
      (\<lambda>p. p\<lparr>i_user_id := Some u, i_tunnel_id := None, i_block_id := None, i_status := IpAllocated,
        i_price_satang := Some price, i_next_billing_at := Some (now + 31 * DAY_MS), i_allocated_at := Some now,
        i_released_at := None\<rparr>) s)"
  obtain s3 where p: "pay g w u TxIpCharge price (''Public IP '' @ ip) (''buy-ip-'' @ ip @ ''-'' @ show_int now) ?s2 = Inr s3"
    using assms(7) by (simp add: pay_def insert_tx_def key_used_def Let_def)
  have "buyPublicIp g now u ip s = (Inr \<lparr>br_ip = ip, br_newBalanceSatang = w_balance w - price\<rparr>,
      audit now ActUser (Some u) ''ip.buy'' (Some ''public_ip'') None [(''ip'', JStr ip)] s3)"
    using assms p by (simp add: buyPublicIp_def sql_begin_def Let_def split: option.splits)
  then show ?thesis using pay_frame(1) [OF p] by simp
qed

lemma demo_buy: "\<exists>r s'. buyPublicIp demo_gen T0 ''u1'' ''203.0.113.2'' demo_db = (Inr r, s')"
proof -
  have pool: "find (pool_covers ''203.0.113.2'') (pools demo_db) = Some (hd (pools demo_db))" by code_simp
  have 1: "ipPrice 1 demo_db = Inr 10000" by code_simp
  have 2: "is_ip4 ''203.0.113.2''" by code_simp
  have 3: "isIpSellableAsSingle ''203.0.113.2'' (pool_plans (p_id (hd (pools demo_db))) demo_db) = Inr ()" by code_simp
  have 4: "wallet_of ''u1'' demo_db = Some demo_wallet" by code_simp
  have 5: "find (\<lambda>p. i_ip_address p = ''203.0.113.2'') (ips demo_db) = None" by code_simp
  have 6: "\<not> key_used (Some x) demo_db" for x by (simp add: key_used_def demo_db_def demo_tx_def)
  have "10000 \<le> w_balance demo_wallet" by (simp add: demo_wallet_def)
  from buyPublicIp_succeeds [OF 1 2 pool 3 4 this 6, where g = demo_gen and now = T0] 5 show ?thesis by auto
qed

theorem buyPublicIp_correct_witness:
  "\<exists>s' w' x. snd (buyPublicIp demo_gen T0 ''u1'' ''203.0.113.2'' demo_db) = s' \<and>
     wallet_of ''u1'' s' = Some w' \<and> w_balance w' = 90000 \<and> txs s' = txs demo_db @ [x] \<and> x_amount x = - 10000 \<and>
     tunnels s' = tunnels demo_db"
proof -
  obtain r s' where b: "buyPublicIp demo_gen T0 ''u1'' ''203.0.113.2'' demo_db = (Inr r, s')" using demo_buy by blast
  have c: "is_ip4 ''203.0.113.2''" "ipPrice 1 demo_db = Inr 10000" "wallet_of ''u1'' demo_db = Some demo_wallet"
    by code_simp+
  from buyPublicIp_correct [OF c(1) b] obtain price w w' x ws ps rs as where
    "ipPrice 1 demo_db = Inr price" "wallet_of ''u1'' demo_db = Some w" "x_amount x = - price"
    "wallet_of ''u1'' s' = Some w'" "w_balance w' = w_balance w - price"
    and s': "s' = demo_db\<lparr>wallets := ws, txs := txs demo_db @ [x], pools := ps, ips := rs, audits := as\<rparr>"
    by - (elim exE conjE, rule that; assumption)
  then have "wallet_of ''u1'' s' = Some w'" "w_balance w' = 90000" "x_amount x = - 10000"
    using c(2,3) by (auto simp: demo_wallet_def)
  moreover have "txs s' = txs demo_db @ [x]" "tunnels s' = tunnels demo_db" by (subst s', simp)+
  ultimately show ?thesis by (auto simp: b)
qed

text \<open>
  C40. The only status \<^verbatim>\<open>buyPublicIp\<close> refuses is \<^verbatim>\<open>allocated\<close>: an address another customer owns
  and has not lost yet, because it is suspended in its grace period, can be bought away; and the
  old deadline stays on the row, so the next tick after it cancels the new owner's address.
\<close>

theorem buyPublicIp_takes_suspended:
  assumes "ipPrice 1 s = Inr price" "is_ip4 ip" "find (pool_covers ip) (pools s) = Some pool"
    and "isIpSellableAsSingle ip (pool_plans (p_id pool) s) = Inr ()"
    and "wallet_of u s = Some w" "price \<le> w_balance w"
    and "\<not> key_used (Some (''buy-ip-'' @ ip @ ''-'' @ show_int now)) s"
    and "find (\<lambda>p. i_ip_address p = ip) (ips s) = Some old" "i_status old = IpSuspended" "i_user_id old = Some victim"
  shows "\<exists>r s' row. buyPublicIp g now u ip s = (Inr r, s') \<and> find (\<lambda>p. i_ip_address p = ip) (ips s') = Some row \<and>
     i_user_id row = Some u \<and> i_delete_after row = i_delete_after old"
proof -
  from buyPublicIp_succeeds [OF assms(1-7), where g = g] assms(8,9) obtain r s' where
    "buyPublicIp g now u ip s = (Inr r, s')"
    and "ips s' = ips (upsert_ip (new_ip ip (p_id pool) u None (Some price) (Some (now + 31 * DAY_MS)) now)
      (\<lambda>p. p\<lparr>i_user_id := Some u, i_tunnel_id := None, i_block_id := None, i_status := IpAllocated,
        i_price_satang := Some price, i_next_billing_at := Some (now + 31 * DAY_MS), i_allocated_at := Some now,
        i_released_at := None\<rparr>) s)" by auto
  then show ?thesis using assms(8) by (simp add: find_upsert new_ip_def)
qed

definition stolen_db :: db where
  "stolen_db = demo_db\<lparr>ips := [(demo_ip ''203.0.113.1'' (Some ''u2'') None None IpSuspended (Some T0))
     \<lparr>i_suspended_at := Some T0, i_delete_after := Some (T0 + 3 * DAY_MS)\<rparr>]\<rparr>"

theorem buyPublicIp_takes_suspended_witness:
  "\<exists>r s' row. buyPublicIp demo_gen (T0 + DAY_MS) ''u1'' ''203.0.113.1'' stolen_db = (Inr r, s') \<and>
     find (\<lambda>p. i_ip_address p = ''203.0.113.1'') (ips s') = Some row \<and> i_user_id row = Some ''u1'' \<and>
     i_delete_after row = Some (T0 + 3 * DAY_MS)"
proof -
  obtain pool where pool: "find (pool_covers ''203.0.113.1'') (pools stolen_db) = Some pool" "p_id pool = ''p1''"
  proof -
    have "map_option p_id (find (pool_covers ''203.0.113.1'') (pools stolen_db)) = Some ''p1''" by code_simp
    then show thesis using that by auto
  qed
  have f: "find (\<lambda>p. i_ip_address p = ''203.0.113.1'') (ips stolen_db) =
      Some ((demo_ip ''203.0.113.1'' (Some ''u2'') None None IpSuspended (Some T0))
        \<lparr>i_suspended_at := Some T0, i_delete_after := Some (T0 + 3 * DAY_MS)\<rparr>)"
    by (simp add: stolen_db_def demo_ip_def)
  have "ipPrice 1 stolen_db = Inr 10000" "is_ip4 ''203.0.113.1''"
    "isIpSellableAsSingle ''203.0.113.1'' (pool_plans ''p1'' stolen_db) = Inr ()"
    "wallet_of ''u1'' stolen_db = Some demo_wallet" by code_simp+
  moreover have "\<not> key_used (Some x) stolen_db" for x
    by (simp add: key_used_def stolen_db_def demo_db_def demo_tx_def)
  ultimately show ?thesis
    using buyPublicIp_takes_suspended [OF _ _ pool(1) _ _ _ _ f, where g = demo_gen and now = "T0 + DAY_MS"] pool(2)
    by (simp add: demo_wallet_def demo_ip_def)
qed
section \<open>The first available address\<close>

text \<open>
  A well-formed inventory: addresses are written canonically, a row names the pool its address
  lies in, the sale plans of a pool are well formed and lie inside it.
\<close>

definition inventory_ok :: "db \<Rightarrow> bool" where
  "inventory_ok s \<longleftrightarrow>
     (\<forall>p \<in> set (ips s). is_ip4 (i_ip_address p)) \<and>
     (\<forall>q \<in> set (pools s). wf_plans (p_block q) (pool_plans (p_id q) s) \<and>
       (\<forall>c \<in> set (pool_plans (p_id q) s). addrs (sp_cidr c) \<subseteq> addrs (p_block q)) \<and>
       (\<forall>p \<in> set (ips s). pool_covers (i_ip_address p) q \<longrightarrow> i_pool_id p = p_id q))"

lemma first_candidate_Some:
  "first_candidate ps s = Some ip \<Longrightarrow>
     \<exists>q \<in> set ps. findFreeSingleIp (p_block q) (pool_plans (p_id q) s) (pool_taken (p_id q) s) = Some ip"
  by (induction ps) (auto split: option.splits)

lemma first_candidate_None:
  "first_candidate ps s = None \<Longrightarrow> q \<in> set ps \<Longrightarrow>
     findFreeSingleIp (p_block q) (pool_plans (p_id q) s) (pool_taken (p_id q) s) = None"
  by (induction ps) (auto split: option.splits)

lemma pool_covers_iff: "pool_covers ip q \<longleftrightarrow> ip4ToInt ip \<in> addrs (p_block q)"
  by (simp add: pool_covers_def addrs_def Let_def)

lemma findFreeSingleIp_in_pool:
  assumes "inventory_ok s" "q \<in> set (pools s)"
    and f: "findFreeSingleIp (p_block q) (pool_plans (p_id q) s) taken = Some ip"
  shows "pool_covers ip q"
proof -
  let ?plans = "pool_plans (p_id q) s"
  from f obtain a where a: "scan_single taken (single_ranges (p_block q) ?plans) = Some a" "ip = intToIp4 a"
    by (auto simp: findFreeSingleIp_def)
  from scan_single_Some [OF a(1)] obtain r where
    r: "r \<in> set (single_ranges (p_block q) ?plans)" "a \<in> range_addrs r" by blast
  have wf: "wf_plans (p_block q) ?plans" and sub: "\<And>c. c \<in> set ?plans \<Longrightarrow> addrs (sp_cidr c) \<subseteq> addrs (p_block q)"
    using assms(1,2) by (auto simp: inventory_ok_def)
  have "0 \<le> a" "a < 2 ^ 32" using single_ranges_wf [OF wf r(1)] r(2) by auto
  moreover have "a \<in> addrs (p_block q)"
    using r sub by (auto simp: single_ranges_def addrs_range_addrs [symmetric] split: if_splits)
  ultimately show ?thesis using a(2) by (simp add: pool_covers_iff ip4ToInt_intToIp4)
qed

text \<open>
  Buying the first available address never takes an address somebody holds: if it succeeds,
  the address had no row, or a row in status \<^verbatim>\<open>available\<close>; and it reports that no address is
  available only when every address on sale as a single is taken.
\<close>

theorem buyFirstAvailable_safe:
  assumes inv: "inventory_ok s"
  shows "(\<forall>r s' p. buyFirstAvailableSingleIp g now u s = (Inr r, s') \<longrightarrow> p \<in> set (ips s) \<longrightarrow>
       i_ip_address p = br_ip r \<longrightarrow> i_status p = IpAvailable) \<and>
     (first_candidate (pools s) s = None \<longleftrightarrow> (\<forall>q \<in> set (pools s).
       if pool_plans (p_id q) s = [] then addrs (p_block q) \<subseteq> set (pool_taken (p_id q) s)
       else \<forall>c \<in> set (pool_plans (p_id q) s). sp_saleMode c = SaleSingle \<longrightarrow>
         addrs (sp_cidr c) \<subseteq> set (pool_taken (p_id q) s)))"
  (is "?safe \<and> (_ \<longleftrightarrow> (\<forall>q \<in> set (pools s). ?full q))")
proof
  show ?safe
  proof (intro allI impI)
    fix r s' p
    assume b: "buyFirstAvailableSingleIp g now u s = (Inr r, s')" and p: "p \<in> set (ips s)" "i_ip_address p = br_ip r"
    from b obtain ip where ip: "first_candidate (pools s) s = Some ip" "buyPublicIp g now u ip s = (Inr r, s')"
      by (auto simp: buyFirstAvailableSingleIp_def split: option.splits)
    have eq: "br_ip r = ip" by (rule buyPublicIp_Inr [OF ip(2)]) simp
    from first_candidate_Some [OF ip(1)] obtain q where q: "q \<in> set (pools s)"
      and f: "findFreeSingleIp (p_block q) (pool_plans (p_id q) s) (pool_taken (p_id q) s) = Some ip" by blast
    have wf: "wf_plans (p_block q) (pool_plans (p_id q) s)" using inv q by (simp add: inventory_ok_def)
    have "ip4ToInt ip \<notin> set (pool_taken (p_id q) s)"
      using findFreeSingleIp_sound [OF wf f] by simp
    moreover have "i_pool_id p = p_id q"
      using inv q p eq findFreeSingleIp_in_pool [OF inv q f] by (auto simp: inventory_ok_def)
    ultimately show "i_status p = IpAvailable" using p eq by (auto simp: pool_taken_def)
  qed
  have full: "?full q \<longleftrightarrow> findFreeSingleIp (p_block q) (pool_plans (p_id q) s) (pool_taken (p_id q) s) = None"
    if "q \<in> set (pools s)" for q
    using findFreeSingleIp_None_iff [of "p_block q" "pool_plans (p_id q) s" "pool_taken (p_id q) s"] by simp
  show "first_candidate (pools s) s = None \<longleftrightarrow> (\<forall>q \<in> set (pools s). ?full q)"
  proof
    show "first_candidate (pools s) s = None \<Longrightarrow> \<forall>q \<in> set (pools s). ?full q"
      using full first_candidate_None by blast
    show "\<forall>q \<in> set (pools s). ?full q \<Longrightarrow> first_candidate (pools s) s = None"
      using full first_candidate_Some by (metis not_None_eq)
  qed
qed


theorem buyFirstAvailable_safe_witness:
  "\<exists>q \<in> set (pools demo_db). \<not> addrs (p_block q) \<subseteq> set (pool_taken (p_id q) demo_db)"
proof -
  have inv: "inventory_ok demo_db" by code_simp
  have c: "first_candidate (pools demo_db) demo_db \<noteq> None" by code_simp
  have "pool_plans (p_id q) demo_db = []" for q by (simp add: pool_plans_def demo_db_def empty_db_def)
  note np = this
  from buyFirstAvailable_safe [OF inv, of demo_gen T0 "''u1''", THEN conjunct2] c show ?thesis by (simp add: np)
qed

section \<open>Moving and releasing\<close>

lemma moveIp_Inr:
  assumes "moveIp agent now u ip t s = (Inr (fromT, toT), s')"
  obtains row where "toT = t" "find (\<lambda>p. i_ip_address p = ip) (ips s) = Some row" "i_user_id row = Some u"
    "i_status row = IpAllocated" "i_block_id row = None" "check_target ''IP'' u t s = None" "fromT = i_tunnel_id row"
    "fromT \<noteq> t \<Longrightarrow> ips s' = upd_where (\<lambda>p. i_ip_address p = ip) (\<lambda>p. p\<lparr>i_tunnel_id := t\<rparr>) (ips s)"
    "tunnels s' = tunnels s" "blocks s' = blocks s"
    "fromT \<noteq> t \<Longrightarrow> calls s' = calls s @ map (\<lambda>y. projr (sync_call y)) (load_syncs (affected fromT t) s')"
proof -
  obtain syncs s1 r where m: "moveIp_tx now u ip t s = (Inr (fromT, syncs), s1)" "pushSyncs agent syncs s1 = (Inr r, s')"
    and to: "toT = t"
    using assms by (auto simp: moveIp_def split: prod.splits sum.splits)
  note push = pushSyncs_Inr [OF m(2)]
  have fr: "tunnels s1 = tunnels s" "blocks s1 = blocks s" "calls s1 = calls s"
    using moveIp_tx_frame [of now u ip t s] by (simp_all add: m(1))
  from m(1) obtain row where row: "find (\<lambda>p. i_ip_address p = ip) (ips s) = Some row" "i_user_id row = Some u"
    "i_status row = IpAllocated" "i_block_id row = None" "check_target ''IP'' u t s = None" "fromT = i_tunnel_id row"
    and moved: "fromT \<noteq> t \<Longrightarrow> ips s1 = upd_where (\<lambda>p. i_ip_address p = ip) (\<lambda>p. p\<lparr>i_tunnel_id := t\<rparr>) (ips s) \<and>
      syncs = load_syncs (affected fromT t) s1"
    by (auto simp: moveIp_tx_def sql_begin_def Let_def split: option.splits if_splits)
  have "load_syncs (affected fromT t) s' = load_syncs (affected fromT t) s1"
    using push by (intro load_syncs_cong) simp_all
  then have "fromT \<noteq> t \<Longrightarrow> calls s' = calls s @ map (\<lambda>y. projr (sync_call y)) (load_syncs (affected fromT t) s')"
    using moved push fr(3) by simp
  then show thesis using that [OF to row] moved push fr(1,2) by simp
qed

text \<open>
  Assigning an address to a tunnel reroutes it: the target is an active tunnel of the same
  owner, afterwards the address is attached to it, every other address is as before, and the
  gateways were sent the new lists of both tunnels, the target's with the address and the
  source's without it.
\<close>

theorem moveIp_reroutes:
  assumes move: "moveIp agent now u ip (Some tid) s = (Inr (fromT, toT), s')" and new: "fromT \<noteq> Some tid"
  shows "(\<exists>t. live_tunnel tid s = Some t \<and> t_user_id t = u \<and> t_status t = TunActive) \<and>
     (\<exists>row. find (\<lambda>p. i_ip_address p = ip) (ips s) = Some row \<and> i_user_id row = Some u \<and>
        find (\<lambda>p. i_ip_address p = ip) (ips s') = Some (row\<lparr>i_tunnel_id := Some tid\<rparr>)) \<and>
     (\<forall>a. a \<noteq> ip \<longrightarrow> find (\<lambda>p. i_ip_address p = a) (ips s') = find (\<lambda>p. i_ip_address p = a) (ips s)) \<and>
     ip @ ''/32'' \<in> set (tunnel_cidrs tid s') \<and>
     (\<forall>old. fromT = Some old \<longrightarrow> ip @ ''/32'' \<notin> set (tunnel_singles old s')) \<and>
     calls s' = calls s @ map (\<lambda>y. projr (sync_call y)) (load_syncs (affected fromT (Some tid)) s')"
proof (rule moveIp_Inr [OF move])
  fix row
  assume row: "find (\<lambda>p. i_ip_address p = ip) (ips s) = Some row" "i_user_id row = Some u" "i_status row = IpAllocated"
      "i_block_id row = None" "check_target ''IP'' u (Some tid) s = None"
    and upd: "fromT \<noteq> Some tid \<Longrightarrow> ips s' = upd_where (\<lambda>p. i_ip_address p = ip) (\<lambda>p. p\<lparr>i_tunnel_id := Some tid\<rparr>) (ips s)"
    and calls: "fromT \<noteq> Some tid \<Longrightarrow> calls s' = calls s @ map (\<lambda>y. projr (sync_call y)) (load_syncs (affected fromT (Some tid)) s')"
  note ips' = upd [OF new]
  have t: "\<exists>t. live_tunnel tid s = Some t \<and> t_user_id t = u \<and> t_status t = TunActive"
    using row(5) by (auto simp: check_target_def split: option.splits if_splits)
  have here: "find (\<lambda>p. i_ip_address p = ip) (ips s') = Some (row\<lparr>i_tunnel_id := Some tid\<rparr>)"
    using row(1) find_SomeD(2) [OF row(1)] by (simp add: ips' find_upd_where)
  have others: "find (\<lambda>p. i_ip_address p = a) (ips s') = find (\<lambda>p. i_ip_address p = a) (ips s)" if "a \<noteq> ip" for a
    using that by (simp add: ips' find_upd_other)
  have "ip @ ''/32'' \<in> set (tunnel_singles tid s')"
    using find_SomeD [OF here] row(3,4)
    by (auto simp: in_tunnel_cidrs intro!: bexI [of _ "row\<lparr>i_tunnel_id := Some tid\<rparr>"])
  then have "ip @ ''/32'' \<in> set (tunnel_cidrs tid s')" using singles_in_cidrs by blast
  moreover have "ip @ ''/32'' \<notin> set (tunnel_singles old s')" if "fromT = Some old" for old
  proof
    assume "ip @ ''/32'' \<in> set (tunnel_singles old s')"
    then obtain p where p: "p \<in> set (ips s')" "i_ip_address p = ip" "i_tunnel_id p = Some old"
      by (auto simp: in_tunnel_cidrs)
    from p(1) show False unfolding ips'
      by (cases rule: upd_whereE) (use p(2,3) that new in auto)
  qed
  ultimately show ?thesis using t row here others calls [OF new] by blast
qed

definition idle_db :: db where
  "idle_db = demo_db\<lparr>ips := [demo_ip ''203.0.113.1'' (Some ''u1'') None None IpAllocated (Some T0)]\<rparr>"

theorem moveIp_reroutes_witness:
  "calls (snd (moveIp (\<lambda>_. None) T0 ''u1'' ''203.0.113.1'' (Some ''t1'') idle_db)) =
     [UpdatePeerIps ''gw1'' (Some ''pk1'') ''10.8.0.2'' [''203.0.113.1/32''] (Some 160000)]"
proof -
  have "fst (moveIp (\<lambda>_. None) T0 ''u1'' ''203.0.113.1'' (Some ''t1'') idle_db) = Inr (None, Some ''t1'')" by code_simp
  then have m: "moveIp (\<lambda>_. None) T0 ''u1'' ''203.0.113.1'' (Some ''t1'') idle_db =
      (Inr (None, Some ''t1''), snd (moveIp (\<lambda>_. None) T0 ''u1'' ''203.0.113.1'' (Some ''t1'') idle_db))"
    by (metis prod.collapse)
  have c: "calls idle_db = []" by code_simp
  have "map (\<lambda>y. projr (sync_call y)) (load_syncs (affected None (Some ''t1''))
      (snd (moveIp (\<lambda>_. None) T0 ''u1'' ''203.0.113.1'' (Some ''t1'') idle_db))) =
      [UpdatePeerIps ''gw1'' (Some ''pk1'') ''10.8.0.2'' [''203.0.113.1/32''] (Some 160000)]" by code_simp
  with moveIp_reroutes [OF m] c show ?thesis by simp
qed

text \<open>
  An address can be released exactly when the caller owns it, it is allocated, is not a block
  member and is detached from every tunnel; it then goes back to the pool without owner and
  billing date, no other address changes and there is no refund. In every other case nothing
  changes.
\<close>

theorem releasePublicIp_correct:
  "case find (\<lambda>p. i_ip_address p = ip) (ips s) of
     None \<Rightarrow> releasePublicIp now u ip s = (Inl (NotFound (''public IP '' @ ip)), s)
   | Some row \<Rightarrow>
       if i_user_id row = Some u \<and> i_status row = IpAllocated \<and> i_block_id row = None \<and> i_tunnel_id row = None
       then \<exists>s'. releasePublicIp now u ip s = (Inr ip, s') \<and>
         find (\<lambda>p. i_ip_address p = ip) (ips s') = Some (row\<lparr>i_status := IpAvailable, i_tunnel_id := None,
           i_user_id := None, i_released_at := Some now, i_next_billing_at := None\<rparr>) \<and>
         (\<forall>a. a \<noteq> ip \<longrightarrow> find (\<lambda>p. i_ip_address p = a) (ips s') = find (\<lambda>p. i_ip_address p = a) (ips s)) \<and>
         pools s' = pools (pool_give (i_pool_id row) 1 s) \<and> wallets s' = wallets s \<and> txs s' = txs s
       else \<exists>msg. releasePublicIp now u ip s = (Inl (ValidationError msg), s)"
proof (cases "find (\<lambda>p. i_ip_address p = ip) (ips s)")
  case None
  then show ?thesis by (simp add: releasePublicIp_def sql_begin_def)
next
  case (Some row)
  have "i_ip_address row = ip" using find_SomeD(2) [OF Some] by simp
  moreover from this have "find (\<lambda>p. i_ip_address p = ip) (upd_where (\<lambda>p. i_ip_address p = ip) f (ips s)) = Some (f row)"
    if "\<And>p. i_ip_address (f p) = i_ip_address p" for f
    using that Some by (simp add: find_upd_where)
  moreover have "find (\<lambda>p. i_ip_address p = a) (upd_where (\<lambda>p. i_ip_address p = ip) f (ips s)) =
      find (\<lambda>p. i_ip_address p = a) (ips s)" if "\<And>p. i_ip_address (f p) = i_ip_address p" "a \<noteq> ip" for f a
    using that by (simp add: find_upd_other)
  ultimately show ?thesis
    using Some by (simp add: releasePublicIp_def sql_begin_def pool_give_def)
qed

theorem releasePublicIp_correct_witness:
  "\<exists>s'. releasePublicIp T0 ''u1'' ''203.0.113.1'' idle_db = (Inr ''203.0.113.1'', s') \<and> txs s' = txs idle_db"
proof -
  have "find (\<lambda>p. i_ip_address p = ''203.0.113.1'') (ips idle_db) =
      Some (demo_ip ''203.0.113.1'' (Some ''u1'') None None IpAllocated (Some T0))" by code_simp
  with releasePublicIp_correct [where ip = "''203.0.113.1''" and s = idle_db and now = T0 and u = "''u1''"] show ?thesis
    by (auto simp: demo_ip_def)
qed

end
