(* ===== verification/IpBlock.thy ===== *)
theory IpBlock
  imports PublicIp
begin

text \<open>
  \<^verbatim>\<open>packages/provisioning/src/ip-block.ts\<close>: buying an aligned block of addresses, moving it
  between tunnels and releasing it. \<^verbatim>\<open>loadTunnelSync\<close> and \<^verbatim>\<open>pushSyncs\<close> are those of \<open>TunnelSync\<close>. The cast
  to \<^verbatim>\<open>cidr\<close> rejects a text with host bits.
\<close>

record BuyBlockResult =
  bb_blockId :: uuid
  bb_cidr :: cidr
  bb_ips :: "ip4 list"
  bb_newBalanceSatang :: satang

fun choose_block :: "int \<Rightarrow> int \<Rightarrow> pool list \<Rightarrow> db \<Rightarrow> (uuid \<times> ip4 list \<times> cidr) option" where
  "choose_block blockSize pfx [] s = None"
| "choose_block blockSize pfx (p # ps) s =
     (case findFreeBlock (p_block p) (pool_plans (p_id p) s) blockSize (pool_taken (p_id p) s) of
        Some (start, addresses) \<Rightarrow> Some (p_id p, addresses, intToIp4 start @ ''/'' @ show_int pfx)
      | None \<Rightarrow> choose_block blockSize pfx ps s)"

definition block_row :: "ms \<Rightarrow> uuid \<Rightarrow> uuid \<Rightarrow> uuid \<Rightarrow> ip4 \<Rightarrow> db \<Rightarrow> db" where
  "block_row now poolId userId blockId ip =
     upsert_ip (new_ip ip poolId userId (Some blockId) None None now)
       (\<lambda>p. p\<lparr>i_user_id := Some userId, i_tunnel_id := None, i_block_id := Some blockId,
              i_status := IpAllocated, i_allocated_at := Some now, i_released_at := None,
              i_next_billing_at := None\<rparr>)"

definition buyIpBlock :: "uuid_gen \<Rightarrow> ms \<Rightarrow> uuid \<Rightarrow> int \<Rightarrow> BuyBlockResult op" where
  "buyIpBlock g now userId blockSize s =
     (case BLOCK_SIZE_TO_PREFIX blockSize of
        None \<Rightarrow> (Inl (ValidationError (''unsupported block_size '' @ show_int blockSize)), s)
      | Some pfx \<Rightarrow> (case ipPrice blockSize s of
          Inl e \<Rightarrow> (Inl e, s)
        | Inr price \<Rightarrow> sql_begin (\<lambda>s.
            case wallet_of userId s of
              None \<Rightarrow> Inl (NotFound ''wallet'')
            | Some w \<Rightarrow>
                if w_balance w < price then Inl (InsufficientCredit price (w_balance w))
                else (case choose_block blockSize pfx (pools s) s of
                  None \<Rightarrow> Inl NoIpAvailable
                | Some (poolId, addresses, c) \<Rightarrow>
                    if \<not> isAligned c then Inl (JsError (''invalid cidr value: '' @ c))
                    else
                    let blockId = g (length (blocks s));
                        s1 = s\<lparr>blocks := blocks s @ [\<lparr>b_id = blockId, b_user_id = userId, b_pool_id = poolId,
                               b_block = c, b_block_size = blockSize, b_price_satang = price,
                               b_status = BlkActive, b_next_billing_at = now + 31 * DAY_MS,
                               b_last_billed_at = None, b_suspended_at = None, b_delete_after = None\<rparr>]\<rparr>;
                        s2 = fold (block_row now poolId userId blockId) addresses s1;
                        s3 = pool_take poolId blockSize s2
                    in (case pay g w userId TxIpCharge price (''Public IP block '' @ c)
                          (''buy-block-'' @ blockId @ ''-'' @ show_int now) s3 of
                          Inl e \<Rightarrow> Inl e
                        | Inr s4 \<Rightarrow> Inr (\<lparr>bb_blockId = blockId, bb_cidr = c, bb_ips = addresses,
                              bb_newBalanceSatang = w_balance w - price\<rparr>,
                            audit now ActUser (Some userId) ''ipblock.buy'' (Some ''ip_block'') (Some blockId)
                              [(''cidr'', JStr c), (''priceSatang'', JNum price)] s4)))) s))"

definition active_block :: "uuid \<Rightarrow> db \<Rightarrow> ip_block option" where
  "active_block bid s = find (\<lambda>b. b_id b = bid \<and> b_status b = BlkActive) (blocks s)"

definition block_ip_rows :: "uuid \<Rightarrow> db \<Rightarrow> public_ip list" where
  "block_ip_rows bid s = filter (\<lambda>p. i_block_id p = Some bid) (ips s)"

definition first_tunnel :: "public_ip list \<Rightarrow> uuid option" where
  "first_tunnel rows = (case uniq (List.map_filter i_tunnel_id rows) of [] \<Rightarrow> None | t # _ \<Rightarrow> Some t)"

definition moveIpBlock_tx :: "ms \<Rightarrow> uuid \<Rightarrow> uuid \<Rightarrow> uuid option \<Rightarrow>
    (ip4 list \<times> uuid option \<times> TunnelSyncInfo list) op" where
  "moveIpBlock_tx now userId blockId toTunnelId = sql_begin (\<lambda>s.
     case active_block blockId s of
       None \<Rightarrow> Inl (NotFound ''ip_block'')
     | Some b \<Rightarrow>
         if b_user_id b \<noteq> userId then Inl (ValidationError (''block '' @ blockId @ '' not owned by you''))
         else (case check_target ''block'' userId toTunnelId s of
           Some e \<Rightarrow> Inl e
         | None \<Rightarrow>
             let rows = block_ip_rows blockId s; fromT = first_tunnel rows in
             if fromT = toTunnelId then Inr ((map i_ip_address rows, fromT, []), s)
             else
               let s1 = set_ips (\<lambda>p. i_block_id p = Some blockId) (\<lambda>p. p\<lparr>i_tunnel_id := toTunnelId\<rparr>) s;
                   s2 = audit now ActUser (Some userId)
                     (if toTunnelId \<noteq> None then ''ipblock.assign'' else ''ipblock.unassign'')
                     (Some ''ip_block'') (Some blockId)
                     [(''from'', json_opt fromT), (''to'', json_opt toTunnelId)] s1
               in Inr ((map i_ip_address rows, fromT, load_syncs (affected fromT toTunnelId) s2), s2)))"

definition moveIpBlock :: "agent \<Rightarrow> ms \<Rightarrow> uuid \<Rightarrow> uuid \<Rightarrow> uuid option \<Rightarrow>
    (uuid option \<times> uuid option \<times> ip4 list) op" where
  "moveIpBlock agent now userId blockId toTunnelId s =
     (case moveIpBlock_tx now userId blockId toTunnelId s of
        (Inl e, s1) \<Rightarrow> (Inl e, s1)
      | (Inr (addresses, fromT, syncs), s1) \<Rightarrow> (case pushSyncs agent syncs s1 of
          (Inl e, s2) \<Rightarrow> (Inl e, s2)
        | (Inr _, s2) \<Rightarrow> (Inr (fromT, toTunnelId, addresses), s2)))"

definition releaseIpBlock :: "ms \<Rightarrow> uuid \<Rightarrow> uuid \<Rightarrow> (uuid \<times> nat) op" where
  "releaseIpBlock now userId blockId = sql_begin (\<lambda>s.
     case active_block blockId s of
       None \<Rightarrow> Inl (NotFound ''ip_block'')
     | Some b \<Rightarrow>
         if b_user_id b \<noteq> userId then Inl (ValidationError (''block '' @ blockId @ '' not owned by you''))
         else
           let rows = block_ip_rows blockId s in
           if filter (\<lambda>p. i_tunnel_id p \<noteq> None) rows \<noteq> [] then Inl (ValidationError ''detach the block first'')
           else Inr ((blockId, length rows),
             audit now ActUser (Some userId) ''ipblock.release'' (Some ''ip_block'') (Some blockId)
               [(''freed'', JNum (int (length rows)))]
               (pool_give (b_pool_id b) (b_block_size b)
                 (set_blocks (\<lambda>v. b_id v = blockId) (\<lambda>v. v\<lparr>b_status := BlkReleased\<rparr>)
                   (set_ips (\<lambda>p. i_block_id p = Some blockId)
                     (\<lambda>p. p\<lparr>i_status := IpAvailable, i_tunnel_id := None, i_user_id := None, i_block_id := None,
                            i_released_at := Some now, i_next_billing_at := None\<rparr>) s)))))"

section \<open>Money and isolation\<close>

lemma block_row_frame [simp]:
  "wallets (block_row now p u b ip s) = wallets s" "txs (block_row now p u b ip s) = txs s"
  "tunnels (block_row now p u b ip s) = tunnels s" "blocks (block_row now p u b ip s) = blocks s"
  "pools (block_row now p u b ip s) = pools s"
  by (simp_all add: block_row_def)

lemma fold_block_row_frame [simp]:
  "wallets (fold (block_row now p u b) xs s) = wallets s" "txs (fold (block_row now p u b) xs s) = txs s"
  "tunnels (fold (block_row now p u b) xs s) = tunnels s" "blocks (fold (block_row now p u b) xs s) = blocks s"
  "pools (fold (block_row now p u b) xs s) = pools s"
  by (induction xs arbitrary: s) simp_all

definition bought_block :: "uuid \<Rightarrow> uuid \<Rightarrow> uuid \<Rightarrow> cidr \<Rightarrow> int \<Rightarrow> satang \<Rightarrow> ms \<Rightarrow> ip_block" where
  "bought_block bid u pid c n price now = \<lparr>b_id = bid, b_user_id = u, b_pool_id = pid, b_block = c,
     b_block_size = n, b_price_satang = price, b_status = BlkActive, b_next_billing_at = now + 31 * DAY_MS,
     b_last_billed_at = None, b_suspended_at = None, b_delete_after = None\<rparr>"

lemma buyIpBlock_Inr:
  assumes "buyIpBlock g now u n s = (Inr r, s')"
  obtains pfx price w pid addresses c s3 s4 where
    "BLOCK_SIZE_TO_PREFIX n = Some pfx" "ipPrice n s = Inr price" "wallet_of u s = Some w" "\<not> w_balance w < price"
    "choose_block n pfx (pools s) s = Some (pid, addresses, c)" "isAligned c"
    "s3 = pool_take pid n (fold (block_row now pid u (g (length (blocks s)))) addresses
       (s\<lparr>blocks := blocks s @ [bought_block (g (length (blocks s))) u pid c n price now]\<rparr>))"
    "pay g w u TxIpCharge price (''Public IP block '' @ c) (''buy-block-'' @ g (length (blocks s)) @ ''-'' @ show_int now) s3 = Inr s4"
    "s' = audit now ActUser (Some u) ''ipblock.buy'' (Some ''ip_block'') (Some (g (length (blocks s))))
       [(''cidr'', JStr c), (''priceSatang'', JNum price)] s4"
    "r = \<lparr>bb_blockId = g (length (blocks s)), bb_cidr = c, bb_ips = addresses, bb_newBalanceSatang = w_balance w - price\<rparr>"
proof -
  from assms obtain pfx price where 1: "BLOCK_SIZE_TO_PREFIX n = Some pfx" and 2: "ipPrice n s = Inr price"
    by (auto simp: buyIpBlock_def split: option.splits sum.splits)
  from assms obtain w where w: "wallet_of u s = Some w" "\<not> w_balance w < price"
    by (auto simp: buyIpBlock_def sql_begin_def 1 2 split: option.splits if_splits)
  from assms obtain pid addresses c where c: "choose_block n pfx (pools s) s = Some (pid, addresses, c)" "isAligned c"
    by (auto simp: buyIpBlock_def sql_begin_def 1 2 w split: option.splits if_splits)
  let ?s3 = "pool_take pid n (fold (block_row now pid u (g (length (blocks s)))) addresses
       (s\<lparr>blocks := blocks s @ [bought_block (g (length (blocks s))) u pid c n price now]\<rparr>))"
  from assms obtain s4 where "pay g w u TxIpCharge price (''Public IP block '' @ c)
      (''buy-block-'' @ g (length (blocks s)) @ ''-'' @ show_int now) ?s3 = Inr s4"
    "s' = audit now ActUser (Some u) ''ipblock.buy'' (Some ''ip_block'') (Some (g (length (blocks s))))
       [(''cidr'', JStr c), (''priceSatang'', JNum price)] s4"
    "r = \<lparr>bb_blockId = g (length (blocks s)), bb_cidr = c, bb_ips = addresses, bb_newBalanceSatang = w_balance w - price\<rparr>"
    by (auto simp: buyIpBlock_def sql_begin_def 1 2 w c Let_def bought_block_def split: sum.splits)
  from that [OF 1 2 w c refl this] show thesis .
qed

lemma buyIpBlock_fail: "fst (buyIpBlock g now u n s) = Inl e \<Longrightarrow> snd (buyIpBlock g now u n s) = s"
  by (auto simp: buyIpBlock_def sql_begin_def split: sum.splits option.splits)

lemma op_cases:
  obtains (Fail) e where "fst r = Inl e" | (Ok) x where "r = (Inr x, snd r)"
  by (cases r; cases "fst r") auto

interpretation buy_block: money_op "buyIpBlock g now u" for g now u
proof unfold_locales
  fix s n
  assume ok: "ledger_ok s"
  show "ledger_ok (snd (buyIpBlock g now u n s))"
  proof (cases rule: op_cases [of "buyIpBlock g now u n s"])
    case (Fail e)
    with ok buyIpBlock_fail show ?thesis by metis
  next
    case (Ok x)
    then show ?thesis
    proof (rule buyIpBlock_Inr)
      fix pfx price w pid addresses c s3 s4
      assume a: "wallet_of u s = Some w" "\<not> w_balance w < price"
        and s3: "s3 = pool_take pid n (fold (block_row now pid u (g (length (blocks s)))) addresses
          (s\<lparr>blocks := blocks s @ [bought_block (g (length (blocks s))) u pid c n price now]\<rparr>))"
        and p: "pay g w u TxIpCharge price (''Public IP block '' @ c) (''buy-block-'' @ g (length (blocks s)) @ ''-'' @ show_int now) s3 = Inr s4"
        and s': "snd (buyIpBlock g now u n s) = audit now ActUser (Some u) ''ipblock.buy'' (Some ''ip_block'') (Some (g (length (blocks s))))
          [(''cidr'', JStr c), (''priceSatang'', JNum price)] s4"
      show ?thesis by (rule pay_ledger [OF ok a _ _ p]) (simp_all add: s' s3)
    qed
  qed
qed

definition fresh_block :: "uuid_gen \<Rightarrow> db \<Rightarrow> bool" where
  "fresh_block g s \<longleftrightarrow> g (length (blocks s)) \<notin> set (map b_id (blocks s))"

lemma tenancy_add_block:
  assumes ok: "tenancy_ok s" and new: "b_id b \<notin> set (map b_id (blocks s))"
  shows "tenancy_ok (s\<lparr>blocks := blocks s @ [b]\<rparr>)"
    and "map_of (blk_owners (s\<lparr>blocks := blocks s @ [b]\<rparr>)) (b_id b) = Some (b_user_id b)"
proof -
  let ?s' = "s\<lparr>blocks := blocks s @ [b]\<rparr>"
  have o: "tun_owners ?s' = tun_owners s" "blk_owners ?s' = blk_owners s @ [(b_id b, b_user_id b)]"
    by (simp_all add: tun_owners_def blk_owners_def)
  have "row_ok ?s' p" if "row_ok s p" for p
    using that by (auto simp: row_ok_def o belongs_append)
  with ok new show "tenancy_ok ?s'" by (auto simp: tenancy_ok_def ids_ok_def)
  have "map_of (blk_owners s) (b_id b) = None"
    using new by (auto simp: map_of_eq_None_iff blk_owners_def)
  then show "map_of (blk_owners ?s') (b_id b) = Some (b_user_id b)" by (simp add: o map_add_def)
qed

lemma tenancy_block_rows:
  "tenancy_ok s \<Longrightarrow> map_of (blk_owners s) b = Some u \<Longrightarrow> tenancy_ok (fold (block_row now p u b) xs s)"
proof (induction xs arbitrary: s)
  case (Cons x xs)
  have "tenancy_ok (block_row now p u b x s)"
    unfolding block_row_def
    by (rule tenancy_upsert [OF Cons.prems(1)])
      (use Cons.prems(2) in \<open>simp_all add: row_ok_def new_ip_def belongs_def\<close>)
  moreover have "map_of (blk_owners (block_row now p u b x s)) b = Some u"
    using Cons.prems(2) by (simp add: blk_owners_def)
  ultimately show ?case using Cons.IH by simp
qed simp

lemma buyIpBlock_tenancy:
  assumes ok: "tenancy_ok s" and new: "fresh_block g s"
  shows "tenancy_ok (snd (buyIpBlock g now u n s))"
proof (cases rule: op_cases [of "buyIpBlock g now u n s"])
  case (Fail e)
  with ok buyIpBlock_fail show ?thesis by metis
next
  case (Ok x)
  then show ?thesis
  proof (rule buyIpBlock_Inr)
    fix pfx price w pid addresses c s3 s4
    let ?b = "bought_block (g (length (blocks s))) u pid c n price now"
    assume s3: "s3 = pool_take pid n (fold (block_row now pid u (g (length (blocks s)))) addresses (s\<lparr>blocks := blocks s @ [?b]\<rparr>))"
      and p: "pay g w u TxIpCharge price (''Public IP block '' @ c) (''buy-block-'' @ g (length (blocks s)) @ ''-'' @ show_int now) s3 = Inr s4"
      and s': "snd (buyIpBlock g now u n s) = audit now ActUser (Some u) ''ipblock.buy'' (Some ''ip_block'') (Some (g (length (blocks s))))
        [(''cidr'', JStr c), (''priceSatang'', JNum price)] s4"
    have b: "b_id ?b = g (length (blocks s))" "b_user_id ?b = u" by (simp_all add: bought_block_def)
    have "tenancy_ok (fold (block_row now pid u (g (length (blocks s)))) addresses (s\<lparr>blocks := blocks s @ [?b]\<rparr>))"
      using tenancy_add_block [OF ok, of ?b] new b by (intro tenancy_block_rows) (simp_all add: fresh_block_def)
    then show ?thesis
      by (rule tenancy_cong) (use pay_frame [OF p] in \<open>simp_all add: s' s3 tun_owners_def blk_owners_def\<close>)
  qed
qed

lemma moveIpBlock_tx_frame:
  "wallets (snd (moveIpBlock_tx now u b t s)) = wallets s" "txs (snd (moveIpBlock_tx now u b t s)) = txs s"
  "tunnels (snd (moveIpBlock_tx now u b t s)) = tunnels s" "blocks (snd (moveIpBlock_tx now u b t s)) = blocks s"
  "pools (snd (moveIpBlock_tx now u b t s)) = pools s" "calls (snd (moveIpBlock_tx now u b t s)) = calls s"
  by (simp_all add: moveIpBlock_tx_def sql_begin_def Let_def split: option.splits)

lemma moveIpBlock_snd:
  "\<exists>cs. snd (moveIpBlock agent now u b t s) = (snd (moveIpBlock_tx now u b t s))\<lparr>calls := calls s @ cs\<rparr>"
proof -
  obtain r s1 where 1: "moveIpBlock_tx now u b t s = (r, s1)" by fastforce
  have c: "calls s1 = calls s" using moveIpBlock_tx_frame(6) [of now u b t s] by (simp add: 1)
  show ?thesis
  proof (cases r)
    case (Inl e)
    then have "snd (moveIpBlock agent now u b t s) = s1" by (simp add: moveIpBlock_def 1)
    then show ?thesis using 1 c by (auto intro!: exI [of _ "[]"])
  next
    case (Inr x)
    obtain as fromT syncs where x: "x = (as, fromT, syncs)" by (cases x) auto
    obtain r2 s2 where 2: "pushSyncs agent syncs s1 = (r2, s2)" by fastforce
    then have "snd (moveIpBlock agent now u b t s) = s2"
      by (cases r2) (simp_all add: moveIpBlock_def 1 Inr x)
    then show ?thesis using pushSyncs_frame [of agent syncs s1] 1 2 c by auto
  qed
qed

interpretation move_block: wallet_frame "\<lambda>(u, b, t). moveIpBlock agent now u b t" for agent now
proof unfold_locales
  fix x s
  show "wallets (snd ((\<lambda>(u, b, t). moveIpBlock agent now u b t) x s)) = wallets s \<and>
      txs (snd ((\<lambda>(u, b, t). moveIpBlock agent now u b t) x s)) = txs s"
  proof (cases x)
    case (fields u b t)
    obtain cs where "snd (moveIpBlock agent now u b t s) = (snd (moveIpBlock_tx now u b t s))\<lparr>calls := calls s @ cs\<rparr>"
      using moveIpBlock_snd by blast
    then show ?thesis by (simp add: fields moveIpBlock_tx_frame)
  qed
qed

lemma active_block_owner:
  assumes "ids_ok s" "active_block bid s = Some b"
  shows "map_of (blk_owners s) bid = Some (b_user_id b)"
proof -
  have "b \<in> set (blocks s)" "b_id b = bid" using assms(2) by (auto simp: active_block_def dest: find_SomeD)
  then have "(bid, b_user_id b) \<in> set (blk_owners s)" by (force simp: blk_owners_def)
  moreover have "distinct (map fst (blk_owners s))" using assms(1) by (simp add: owners_ids ids_ok_def)
  ultimately show ?thesis by simp
qed

lemma moveIpBlock_tx_cases:
  obtains (Same) "snd (moveIpBlock_tx now u bid t s) = s"
  | (Moved) b where "active_block bid s = Some b" "b_user_id b = u" "check_target ''block'' u t s = None"
      "ips (snd (moveIpBlock_tx now u bid t s)) = upd_where (\<lambda>p. i_block_id p = Some bid) (\<lambda>p. p\<lparr>i_tunnel_id := t\<rparr>) (ips s)"
  by (cases "snd (moveIpBlock_tx now u bid t s) = s")
    (auto simp: moveIpBlock_tx_def sql_begin_def Let_def split: option.splits if_splits)

lemma moveIpBlock_tenancy:
  assumes ok: "tenancy_ok s"
  shows "tenancy_ok (snd (moveIpBlock agent now u bid t s))"
proof -
  let ?s1 = "snd (moveIpBlock_tx now u bid t s)"
  have "tenancy_ok ?s1"
  proof (cases rule: moveIpBlock_tx_cases [of now u bid t s])
    case Same
    with ok show ?thesis by simp
  next
    case (Moved b)
    note ids = tenancy_okD(1) [OF ok]
    show ?thesis
    proof (rule tenancy_rows [OF ok _ _ Moved(4)])
      show "row_ok s (p\<lparr>i_tunnel_id := t\<rparr>)" if "p \<in> set (ips s)" "i_block_id p = Some bid" for p
        using tenancy_okD(2) [OF ok that(1)] that(2) Moved(2,3) active_block_owner [OF ids Moved(1)] check_target_ok(1) [OF ids]
        by (cases t) (auto simp: row_ok_def belongs_def split: option.splits)
    qed (simp_all add: moveIpBlock_tx_frame tun_owners_def blk_owners_def)
  qed
  then show ?thesis
    by (rule tenancy_cong) (use moveIpBlock_snd [of agent now u bid t s] in \<open>auto simp: tun_owners_def blk_owners_def\<close>)
qed

lemma releaseIpBlock_frame [simp]:
  "wallets (snd (releaseIpBlock now u b s)) = wallets s" "txs (snd (releaseIpBlock now u b s)) = txs s"
  "tunnels (snd (releaseIpBlock now u b s)) = tunnels s" "calls (snd (releaseIpBlock now u b s)) = calls s"
  by (simp_all add: releaseIpBlock_def sql_begin_def Let_def split: option.splits)

interpretation release_block: wallet_frame "releaseIpBlock now u" for now u
  by unfold_locales simp

lemma releaseIpBlock_tenancy:
  assumes ok: "tenancy_ok s"
  shows "tenancy_ok (snd (releaseIpBlock now u bid s))"
proof -
  have "snd (releaseIpBlock now u bid s) = s \<or>
      ips (snd (releaseIpBlock now u bid s)) = upd_where (\<lambda>p. i_block_id p = Some bid)
        (\<lambda>p. p\<lparr>i_status := IpAvailable, i_tunnel_id := None, i_user_id := None, i_block_id := None,
          i_released_at := Some now, i_next_billing_at := None\<rparr>) (ips s) \<and>
      blocks (snd (releaseIpBlock now u bid s)) = upd_where (\<lambda>v. b_id v = bid) (\<lambda>v. v\<lparr>b_status := BlkReleased\<rparr>) (blocks s)"
    by (simp add: releaseIpBlock_def sql_begin_def Let_def split: option.splits)
  then show ?thesis
  proof (elim disjE conjE)
    assume i: "ips (snd (releaseIpBlock now u bid s)) = upd_where (\<lambda>p. i_block_id p = Some bid)
        (\<lambda>p. p\<lparr>i_status := IpAvailable, i_tunnel_id := None, i_user_id := None, i_block_id := None,
          i_released_at := Some now, i_next_billing_at := None\<rparr>) (ips s)"
      and b: "blocks (snd (releaseIpBlock now u bid s)) = upd_where (\<lambda>v. b_id v = bid) (\<lambda>v. v\<lparr>b_status := BlkReleased\<rparr>) (blocks s)"
    show ?thesis
      by (rule tenancy_rows [OF ok _ _ i]) (simp_all add: blk_owners_upd [OF b] tun_owners_def row_ok_def)
  qed (simp add: ok)
qed

interpretation buy_block_iso: keeps tenancy_ok "\<lambda>_. fresh_block g" "buyIpBlock g now u" for g now u
  by unfold_locales (rule buyIpBlock_tenancy)

interpretation move_block_iso: keeps tenancy_ok "\<lambda>_ _. True" "\<lambda>(u, b, t). moveIpBlock agent now u b t" for agent now
  by unfold_locales (auto intro: moveIpBlock_tenancy)

interpretation release_block_iso: keeps tenancy_ok "\<lambda>_ _. True" "releaseIpBlock now u" for now u
  by unfold_locales (rule releaseIpBlock_tenancy)
section \<open>Properties\<close>

lemma choose_block_Some:
  "choose_block n pfx ps s = Some (pid, addresses, c) \<Longrightarrow>
     \<exists>q \<in> set ps. \<exists>start. pid = p_id q \<and> c = intToIp4 start @ ''/'' @ show_int pfx \<and>
       findFreeBlock (p_block q) (pool_plans (p_id q) s) n (pool_taken (p_id q) s) = Some (start, addresses)"
  by (induction ps) (auto split: option.splits)

lemma find_block_rows:
  "a \<notin> set xs \<Longrightarrow> find (\<lambda>p. i_ip_address p = a) (ips (fold (block_row now pid u b) xs s)) =
     find (\<lambda>p. i_ip_address p = a) (ips s)"
  "a \<in> set xs \<Longrightarrow> \<exists>row. find (\<lambda>p. i_ip_address p = a) (ips (fold (block_row now pid u b) xs s)) = Some row \<and>
     i_status row = IpAllocated \<and> i_user_id row = Some u \<and> i_tunnel_id row = None \<and> i_block_id row = Some b"
proof -
  have other: "find (\<lambda>p. i_ip_address p = a) (ips (block_row now pid u b x t)) = find (\<lambda>p. i_ip_address p = a) (ips t)"
    if "a \<noteq> x" for x t
    unfolding block_row_def using that by (subst find_upsert) (simp_all add: new_ip_def)
  have here: "\<exists>row. find (\<lambda>p. i_ip_address p = a) (ips (block_row now pid u b a t)) = Some row \<and>
     i_status row = IpAllocated \<and> i_user_id row = Some u \<and> i_tunnel_id row = None \<and> i_block_id row = Some b" for t
    unfolding block_row_def by (subst find_upsert) (auto simp: new_ip_def split: option.splits)
  have not_in: "find (\<lambda>p. i_ip_address p = a) (ips (fold (block_row now pid u b) ys t)) = find (\<lambda>p. i_ip_address p = a) (ips t)"
    if "a \<notin> set ys" for ys t
    using that by (induction ys arbitrary: t) (simp_all add: other)
  show "find (\<lambda>p. i_ip_address p = a) (ips (fold (block_row now pid u b) xs s)) = find (\<lambda>p. i_ip_address p = a) (ips s)"
    if "a \<notin> set xs" using that by (rule not_in)
  show "\<exists>row. find (\<lambda>p. i_ip_address p = a) (ips (fold (block_row now pid u b) xs s)) = Some row \<and>
     i_status row = IpAllocated \<and> i_user_id row = Some u \<and> i_tunnel_id row = None \<and> i_block_id row = Some b" if "a \<in> set xs"
    using that
  proof (induction xs arbitrary: s)
    case (Cons x xs)
    show ?case
    proof (cases "a \<in> set xs")
      case True
      from Cons.IH [OF True, of "block_row now pid u b x s"] show ?thesis by simp
    next
      case False
      with Cons.prems have "x = a" by simp
      with here [of s] not_in [OF False, of "block_row now pid u b x s"] show ?thesis by simp
    qed
  qed simp
qed

text \<open>
  C9. Buying a block sells a contiguous range nobody holds: the addresses are exactly those of
  the CIDR the block is recorded under, none of them had a row in a status other than
  \<^verbatim>\<open>available\<close>, afterwards each belongs to the buyer as a member of the new block and is attached
  to nothing, every other address is as before, and the wallet paid the catalogue price of that
  block size once.
\<close>

theorem buyIpBlock_correct:
  assumes buy: "buyIpBlock g now u n s = (Inr r, s')" and inv: "inventory_ok s"
  shows "\<exists>pfx price w w' start pid. BLOCK_SIZE_TO_PREFIX n = Some pfx \<and> ipPrice n s = Inr price \<and>
     wallet_of u s = Some w \<and> price \<le> w_balance w \<and> wallet_of u s' = Some w' \<and> w_balance w' = w_balance w - price \<and>
     bb_ips r = block_ips start n \<and> distinct (bb_ips r) \<and> length (bb_ips r) = nat n \<and>
     bb_cidr r = intToIp4 start @ ''/'' @ show_int pfx \<and>
     blocks s' = blocks s @ [bought_block (bb_blockId r) u pid (bb_cidr r) n price now] \<and>
     (\<forall>p \<in> set (ips s). i_ip_address p \<in> set (bb_ips r) \<longrightarrow> i_status p = IpAvailable) \<and>
     (\<forall>a \<in> set (bb_ips r). \<exists>row. find (\<lambda>p. i_ip_address p = a) (ips s') = Some row \<and> i_status row = IpAllocated \<and>
        i_user_id row = Some u \<and> i_tunnel_id row = None \<and> i_block_id row = Some (bb_blockId r)) \<and>
     (\<forall>a. a \<notin> set (bb_ips r) \<longrightarrow> find (\<lambda>p. i_ip_address p = a) (ips s') = find (\<lambda>p. i_ip_address p = a) (ips s))"
proof (rule buyIpBlock_Inr [OF buy])
  fix pfx price w pid addresses c s3 s4
  let ?bid = "g (length (blocks s))"
  let ?s1 = "s\<lparr>blocks := blocks s @ [bought_block ?bid u pid c n price now]\<rparr>"
  assume a: "BLOCK_SIZE_TO_PREFIX n = Some pfx" "ipPrice n s = Inr price" "wallet_of u s = Some w" "\<not> w_balance w < price"
    and ch: "choose_block n pfx (pools s) s = Some (pid, addresses, c)"
    and s3: "s3 = pool_take pid n (fold (block_row now pid u ?bid) addresses ?s1)"
    and p: "pay g w u TxIpCharge price (''Public IP block '' @ c) (''buy-block-'' @ ?bid @ ''-'' @ show_int now) s3 = Inr s4"
    and s': "s' = audit now ActUser (Some u) ''ipblock.buy'' (Some ''ip_block'') (Some ?bid) [(''cidr'', JStr c), (''priceSatang'', JNum price)] s4"
    and r: "r = \<lparr>bb_blockId = ?bid, bb_cidr = c, bb_ips = addresses, bb_newBalanceSatang = w_balance w - price\<rparr>"
  from choose_block_Some [OF ch] obtain q start where q: "q \<in> set (pools s)" and c: "c = intToIp4 start @ ''/'' @ show_int pfx"
    and f: "findFreeBlock (p_block q) (pool_plans (p_id q) s) n (pool_taken (p_id q) s) = Some (start, addresses)" by blast
  have wf: "wf_plans (p_block q) (pool_plans (p_id q) s)"
    and sub: "\<And>c. c \<in> set (pool_plans (p_id q) s) \<Longrightarrow> addrs (sp_cidr c) \<subseteq> addrs (p_block q)"
    and rows: "\<And>p. p \<in> set (ips s) \<Longrightarrow> is_ip4 (i_ip_address p) \<and> (pool_covers (i_ip_address p) q \<longrightarrow> i_pool_id p = p_id q)"
    using inv q by (auto simp: inventory_ok_def)
  note found = findFreeBlock_sound [OF wf a(1) f]
  have inpool: "{start ..< start + n} \<subseteq> addrs (p_block q)"
    using found(6) sub by (auto split: if_splits)
  have avail: "i_status x = IpAvailable" if x: "x \<in> set (ips s)" "i_ip_address x \<in> set addresses" for x
  proof -
    from x(2) found(1) obtain i where i: "i < nat n" "i_ip_address x = intToIp4 (start + int i)"
      by (auto simp: block_ips_def)
    have "start + int i < 2 ^ 32" using i(1) found(4) by linarith
    then have int: "ip4ToInt (i_ip_address x) = start + int i" using i(2) found(3) by (simp add: ip4ToInt_intToIp4)
    have mem: "start + int i \<in> {start ..< start + n}" using i(1) by auto
    then have "start + int i \<in> addrs (p_block q)" using inpool by blast
    then have "i_pool_id x = p_id q" using rows [OF x(1)] int by (simp add: pool_covers_iff)
    moreover have "start + int i \<notin> set (pool_taken (p_id q) s)" using found(5) mem by blast
    ultimately show ?thesis using x(1) int by (simp add: pool_taken_def image_iff) metis
  qed
  have "wallets s' = wallets (wallet_debit (w_id w) (w_balance w - price) price s)"
    using pay_Inr(2) [OF p] by (simp add: s' s3 wallet_debit_def)
  with a(3) obtain w' where w': "wallet_of u s' = Some w'" "w_balance w' = w_balance w - price"
    by (auto simp: wallet_of_def wallet_debit_def find_upd_where)
  have ips': "ips s' = ips (fold (block_row now pid u ?bid) addresses ?s1)" and b': "blocks s' = blocks ?s1"
    using pay_frame [OF p] by (simp_all add: s' s3)
  have out: "find (\<lambda>p. i_ip_address p = x) (ips s') = find (\<lambda>p. i_ip_address p = x) (ips s)" if "x \<notin> set addresses" for x
    unfolding ips' using find_block_rows(1) [OF that, of now pid u ?bid ?s1] by simp
  show ?thesis
    using a w' found(1,2) c b' avail out find_block_rows(2) [of _ addresses now pid u ?bid ?s1] r
    by (intro exI [of _ pfx] exI [of _ price] exI [of _ w] exI [of _ w'] exI [of _ start] exI [of _ pid])
      (simp add: ips' block_ips_def)
qed

lemma demo_inventory_ok: "inventory_ok demo_db"
  by code_simp

lemma demo_buy_block: "\<exists>r s'. buyIpBlock demo_gen T0 ''u1'' 4 demo_db = (Inr r, s') \<and> bb_cidr r = ''203.0.113.4/30''"
proof -
  have "map_option snd (choose_block 4 30 (pools demo_db) demo_db) = Some (block_ips 3405803780 4, ''203.0.113.4/30'')"
    by code_simp
  then obtain pid where ch: "choose_block 4 30 (pools demo_db) demo_db = Some (pid, block_ips 3405803780 4, ''203.0.113.4/30'')"
    by auto
  have a: "BLOCK_SIZE_TO_PREFIX 4 = Some 30" "ipPrice 4 demo_db = Inr 40000" "wallet_of ''u1'' demo_db = Some demo_wallet"
    "isAligned ''203.0.113.4/30''" by code_simp+
  have b: "\<not> w_balance demo_wallet < 40000" by (simp add: demo_wallet_def)
  have k: "txs demo_db = [demo_tx ''x1'' ''u1'' ''w1'' 100000, demo_tx ''x2'' ''u2'' ''w2'' 10]" by (simp add: demo_db_def)
  show ?thesis
    by (simp add: buyIpBlock_def sql_begin_def a b ch Let_def pay_def insert_tx_def key_used_def k demo_tx_def)
qed

theorem buyIpBlock_correct_witness:
  "\<exists>r s' w'. buyIpBlock demo_gen T0 ''u1'' 4 demo_db = (Inr r, s') \<and> length (bb_ips r) = 4 \<and>
     wallet_of ''u1'' s' = Some w' \<and> w_balance w' = 60000"
proof -
  obtain r s' where b: "buyIpBlock demo_gen T0 ''u1'' 4 demo_db = (Inr r, s')" using demo_buy_block by blast
  have "ipPrice 4 demo_db = Inr 40000" "wallet_of ''u1'' demo_db = Some demo_wallet" by code_simp+
  with buyIpBlock_correct [OF b demo_inventory_ok] show ?thesis by (auto simp: b demo_wallet_def)
qed

lemma moveIpBlock_Inr:
  assumes "moveIpBlock agent now u bid t s = (Inr (fromT, toT, addresses), s')"
  obtains b where "active_block bid s = Some b" "b_user_id b = u" "check_target ''block'' u t s = None"
    "fromT = first_tunnel (block_ip_rows bid s)" "addresses = map i_ip_address (block_ip_rows bid s)"
    "fromT \<noteq> t \<Longrightarrow> ips s' = upd_where (\<lambda>p. i_block_id p = Some bid) (\<lambda>p. p\<lparr>i_tunnel_id := t\<rparr>) (ips s)"
    "tunnels s' = tunnels s" "blocks s' = blocks s"
    "fromT \<noteq> t \<Longrightarrow> calls s' = calls s @ map (\<lambda>y. projr (sync_call y)) (load_syncs (affected fromT t) s')"
proof -
  obtain syncs s1 r where m: "moveIpBlock_tx now u bid t s = (Inr (addresses, fromT, syncs), s1)" "pushSyncs agent syncs s1 = (Inr r, s')"
    using assms by (auto simp: moveIpBlock_def split: prod.splits sum.splits)
  note push = pushSyncs_Inr [OF m(2)]
  have fr: "tunnels s1 = tunnels s" "blocks s1 = blocks s" "calls s1 = calls s"
    using moveIpBlock_tx_frame [of now u bid t s] by (simp_all add: m(1))
  from m(1) obtain b where b: "active_block bid s = Some b" "b_user_id b = u" "check_target ''block'' u t s = None"
      "fromT = first_tunnel (block_ip_rows bid s)" "addresses = map i_ip_address (block_ip_rows bid s)"
    and moved: "fromT \<noteq> t \<Longrightarrow> ips s1 = upd_where (\<lambda>p. i_block_id p = Some bid) (\<lambda>p. p\<lparr>i_tunnel_id := t\<rparr>) (ips s) \<and>
      syncs = load_syncs (affected fromT t) s1"
    by (auto simp: moveIpBlock_tx_def sql_begin_def Let_def split: option.splits if_splits)
  have "load_syncs (affected fromT t) s' = load_syncs (affected fromT t) s1"
    using push by (intro load_syncs_cong) simp_all
  then have "fromT \<noteq> t \<Longrightarrow> calls s' = calls s @ map (\<lambda>y. projr (sync_call y)) (load_syncs (affected fromT t) s')"
    using moved push fr(3) by simp
  then show thesis using that [OF b] moved push fr(1,2) by simp
qed

text \<open>
  Assigning a block to a tunnel moves it as a whole: the block is active and belongs to the
  caller, who also owns the active target tunnel; afterwards every member is attached to it, no
  other address is touched, the block's CIDR is among the routes of the target as soon as one
  member is allocated, and the gateways were sent the new routes of both tunnels.
\<close>

theorem moveIpBlock_reroutes:
  assumes move: "moveIpBlock agent now u bid (Some tid) s = (Inr (fromT, toT, addresses), s')" and new: "fromT \<noteq> Some tid"
  shows "\<exists>b t. active_block bid s = Some b \<and> b_user_id b = u \<and>
     live_tunnel tid s = Some t \<and> t_user_id t = u \<and> t_status t = TunActive \<and>
     (\<forall>p \<in> set (ips s'). i_block_id p = Some bid \<longrightarrow> i_tunnel_id p = Some tid) \<and>
     filter (\<lambda>p. i_block_id p \<noteq> Some bid) (ips s') = filter (\<lambda>p. i_block_id p \<noteq> Some bid) (ips s) \<and>
     addresses = map i_ip_address (filter (\<lambda>p. i_block_id p = Some bid) (ips s')) \<and>
     ((\<exists>p \<in> set (ips s). i_block_id p = Some bid \<and> i_status p = IpAllocated) \<longrightarrow> b_block b \<in> set (tunnel_cidrs tid s')) \<and>
     calls s' = calls s @ map (\<lambda>y. projr (sync_call y)) (load_syncs (affected fromT (Some tid)) s')"
proof (rule moveIpBlock_Inr [OF move])
  fix b
  assume b: "active_block bid s = Some b" "b_user_id b = u" "check_target ''block'' u (Some tid) s = None"
    "addresses = map i_ip_address (block_ip_rows bid s)"
    and upd: "fromT \<noteq> Some tid \<Longrightarrow> ips s' = upd_where (\<lambda>p. i_block_id p = Some bid) (\<lambda>p. p\<lparr>i_tunnel_id := Some tid\<rparr>) (ips s)"
    and blocks': "blocks s' = blocks s"
    and calls: "fromT \<noteq> Some tid \<Longrightarrow> calls s' = calls s @ map (\<lambda>y. projr (sync_call y)) (load_syncs (affected fromT (Some tid)) s')"
  note ips' = upd [OF new]
  obtain t where t: "live_tunnel tid s = Some t" "t_user_id t = u" "t_status t = TunActive"
    using b(3) by (auto simp: check_target_def split: option.splits if_splits)
  have 1: "\<forall>p \<in> set (ips s'). i_block_id p = Some bid \<longrightarrow> i_tunnel_id p = Some tid"
    by (simp add: ips' ball_upd_where)
  have 2: "filter (\<lambda>p. i_block_id p \<noteq> Some bid) (upd_where (\<lambda>p. i_block_id p = Some bid) (\<lambda>p. p\<lparr>i_tunnel_id := Some tid\<rparr>) xs) =
      filter (\<lambda>p. i_block_id p \<noteq> Some bid) xs" for xs by (induction xs) auto
  have 3: "map i_ip_address (filter (\<lambda>p. i_block_id p = Some bid) (upd_where (\<lambda>p. i_block_id p = Some bid) (\<lambda>p. p\<lparr>i_tunnel_id := Some tid\<rparr>) xs)) =
      map i_ip_address (filter (\<lambda>p. i_block_id p = Some bid) xs)" for xs by (induction xs) auto
  have bb: "b \<in> set (blocks s)" "b_id b = bid" using b(1) by (auto simp: active_block_def dest: find_SomeD)
  have 4: "b_block b \<in> set (tunnel_cidrs tid s')" if "p \<in> set (ips s)" "i_block_id p = Some bid" "i_status p = IpAllocated" for p
  proof -
    let ?p = "p\<lparr>i_tunnel_id := Some tid\<rparr>"
    have "?p \<in> set (ips s')" using that(1,2) by (force simp: ips' in_set_upd_where)
    moreover have "i_tunnel_id ?p = Some tid" "i_status ?p = IpAllocated" "i_block_id ?p = Some (b_id b)"
      using that bb by simp_all
    ultimately show ?thesis
      unfolding tunnel_cidrs_def tunnel_block_cidrs_def using bb(1) blocks' by force
  qed
  show ?thesis
    by (rule exI [of _ b], rule exI [of _ t])
      (use b t 1 2 [of "ips s"] 3 [of "ips s", symmetric] 4 calls [OF new] in \<open>auto simp: ips' block_ip_rows_def\<close>)
qed

theorem moveIpBlock_reroutes_witness:
  "calls (snd (moveIpBlock (\<lambda>_. None) T0 ''u1'' ''b1'' (Some ''t1'')
     (demo_db\<lparr>ips := [demo_ip ''203.0.113.8'' (Some ''u1'') None (Some ''b1'') IpAllocated None]\<rparr>))) =
     [UpdatePeerIps ''gw1'' (Some ''pk1'') ''10.8.0.2'' [''203.0.113.8/30''] (Some 160000)]"
proof -
  let ?s = "demo_db\<lparr>ips := [demo_ip ''203.0.113.8'' (Some ''u1'') None (Some ''b1'') IpAllocated None]\<rparr>"
  let ?m = "moveIpBlock (\<lambda>_. None) T0 ''u1'' ''b1'' (Some ''t1'') ?s"
  have "fst ?m = Inr (None, Some ''t1'', [''203.0.113.8''])" by code_simp
  then have m: "?m = (Inr (None, Some ''t1'', [''203.0.113.8'']), snd ?m)" by (metis prod.collapse)
  have c: "calls ?s = []" by code_simp
  have "map (\<lambda>y. projr (sync_call y)) (load_syncs (affected None (Some ''t1'')) (snd ?m)) =
      [UpdatePeerIps ''gw1'' (Some ''pk1'') ''10.8.0.2'' [''203.0.113.8/30''] (Some 160000)]" by code_simp
  with moveIpBlock_reroutes [OF m] c show ?thesis by auto
qed

text \<open>
  A block can be released exactly when it is active, belongs to the caller and no member is
  attached to a tunnel; then every member goes back to the pool without owner and block, the
  pool counters get the block size back and there is no refund. Otherwise nothing changes.
\<close>

theorem releaseIpBlock_correct:
  "case active_block bid s of
     None \<Rightarrow> releaseIpBlock now u bid s = (Inl (NotFound ''ip_block''), s)
   | Some b \<Rightarrow>
       if b_user_id b = u \<and> (\<forall>p \<in> set (ips s). i_block_id p = Some bid \<longrightarrow> i_tunnel_id p = None)
       then \<exists>s'. releaseIpBlock now u bid s = (Inr (bid, length (block_ip_rows bid s)), s') \<and>
         ips s' = upd_where (\<lambda>p. i_block_id p = Some bid)
           (\<lambda>p. p\<lparr>i_status := IpAvailable, i_tunnel_id := None, i_user_id := None, i_block_id := None,
                  i_released_at := Some now, i_next_billing_at := None\<rparr>) (ips s) \<and>
         active_block bid s' = None \<and> pools s' = pools (pool_give (b_pool_id b) (b_block_size b) s) \<and>
         wallets s' = wallets s \<and> txs s' = txs s
       else \<exists>msg. releaseIpBlock now u bid s = (Inl (ValidationError msg), s)"
proof (cases "active_block bid s")
  case None
  then show ?thesis by (simp add: releaseIpBlock_def sql_begin_def)
next
  case (Some b)
  have gone: "active_block bid s' = None" if "blocks s' = upd_where (\<lambda>v. b_id v = bid) (\<lambda>v. v\<lparr>b_status := BlkReleased\<rparr>) (blocks s)" for s'
    unfolding active_block_def find_None_iff_none that by (simp add: ball_upd_where)
  have att: "filter (\<lambda>p. i_tunnel_id p \<noteq> None) (block_ip_rows bid s) = [] \<longleftrightarrow>
      (\<forall>p \<in> set (ips s). i_block_id p = Some bid \<longrightarrow> i_tunnel_id p = None)"
    by (auto simp: block_ip_rows_def filter_empty_conv)
  show ?thesis
    using Some by (simp add: releaseIpBlock_def sql_begin_def Let_def att gone pool_give_def del: not_None_eq)
qed

theorem releaseIpBlock_correct_witness:
  "\<exists>s'. releaseIpBlock T0 ''u1'' ''b1'' (demo_db\<lparr>ips := [demo_ip ''203.0.113.8'' (Some ''u1'') None (Some ''b1'') IpAllocated None]\<rparr>) =
     (Inr (''b1'', 1), s') \<and> active_block ''b1'' s' = None"
proof -
  let ?s = "demo_db\<lparr>ips := [demo_ip ''203.0.113.8'' (Some ''u1'') None (Some ''b1'') IpAllocated None]\<rparr>"
  have "active_block ''b1'' ?s = Some demo_block" "b_user_id demo_block = ''u1''" "length (block_ip_rows ''b1'' ?s) = 1"
    by code_simp+
  with releaseIpBlock_correct [where bid = "''b1''" and s = ?s and now = T0 and u = "''u1''"] show ?thesis
    by (auto simp: demo_ip_def)
qed

end
