(* ===== verification/Provision.thy ===== *)
theory Provision
  imports Flow IpBlock
begin

text \<open>
  The life of a WireGuard tunnel: \<^verbatim>\<open>packages/provisioning/src/ip.ts\<close> (the private address),
  \<^verbatim>\<open>provision.ts\<close> (the paid transaction), \<^verbatim>\<open>activate.ts\<close> (the worker step that drives the agent)
  and \<^verbatim>\<open>delete-tunnel.ts\<close>. The WireGuard key pair and the encrypted private key are the argument
  \<open>kp\<close>. Names are matched against \<^verbatim>\<open>TUNNEL_NAME_RE\<close>, so \<^verbatim>\<open>lower(name)\<close> only meets ASCII.
\<close>

section \<open>Private addresses\<close>

definition show_number :: "int option \<Rightarrow> string" where
  "show_number n = (case n of None \<Rightarrow> ''NaN'' | Some v \<Rightarrow> show_int v)"

definition host_ip :: "int list \<Rightarrow> int \<Rightarrow> ip4" where
  "host_ip oct host = join ''.'' (map show_int [oct ! 0, oct ! 1, oct ! 2, host])"

definition allocatePrivateIp :: "cidr \<Rightarrow> ip4 list \<Rightarrow> error + ip4" where
  "allocatePrivateIp c used =
     (let parts = split_on CHR ''/'' c;
          pfx = (if 2 \<le> length parts then js_Number (parts ! 1) else None);
          oct = map js_Number (split_on CHR ''.'' (hd parts))
      in if length oct \<noteq> 4 \<or> None \<in> set oct then Inl (ValidationError (''bad subnet '' @ c))
         else if pfx \<noteq> Some 24
         then Inl (ValidationError (''only /24 gateway subnets supported, got /'' @ show_number pfx))
         else case first_off (\<lambda>host. host_ip (map the oct) host \<notin> set used) 1 0 254 2 of
           Some host \<Rightarrow> Inr (host_ip (map the oct) host)
         | None \<Rightarrow> Inl NoIpAvailable)"

section \<open>Creation\<close>

definition lower_char :: "char \<Rightarrow> char" where
  "lower_char c = (if CHR ''A'' \<le> c \<and> c \<le> CHR ''Z'' then char_of (of_char c + 32 :: nat) else c)"

definition lower :: "string \<Rightarrow> string" where
  "lower = map lower_char"

definition is_alnum :: "char \<Rightarrow> bool" where
  "is_alnum c \<longleftrightarrow> CHR ''A'' \<le> c \<and> c \<le> CHR ''Z'' \<or> CHR ''a'' \<le> c \<and> c \<le> CHR ''z'' \<or>
     CHR ''0'' \<le> c \<and> c \<le> CHR ''9''"

definition TUNNEL_NAME_RE :: "string \<Rightarrow> bool" where
  "TUNNEL_NAME_RE n \<longleftrightarrow> 1 \<le> length n \<and> length n \<le> 100 \<and>
     (\<forall>c \<in> set n. is_alnum c \<or> c = CHR ''_'' \<or> c = CHR ''-'')"

definition trim_description :: "string option \<Rightarrow> string option" where
  "trim_description d = (case take 300 (case d of None \<Rightarrow> [] | Some x \<Rightarrow> x) of [] \<Rightarrow> None | x # xs \<Rightarrow> Some (x # xs))"

record CreateTunnelInput =
  ci_userId :: uuid
  ci_speedTier :: string
  ci_name :: string
  ci_description :: "string option"
  ci_gatewayHostname :: "string option"
  ci_protocol :: "string option"

record CreateTunnelResult =
  cr_tunnelId :: uuid
  cr_gatewayId :: uuid
  cr_gatewayHostname :: string
  cr_privateIp :: ip4
  cr_publicKey :: string

record keypair =
  kp_publicKey :: string
  kp_encPrivate :: string

text \<open>
  A hostname that is given selects the gateway whatever its load; otherwise the least loaded one
  with room, the first in table order among equals.
\<close>

definition pick_gateway :: "(gateway \<Rightarrow> bool) \<Rightarrow> string option \<Rightarrow> db \<Rightarrow> gateway option" where
  "pick_gateway serves hostname s =
     (case hostname of
        Some (h # hs) \<Rightarrow> find (\<lambda>g. g_hostname g = h # hs \<and> g_status g = GwActive \<and> serves g) (gateways s)
      | _ \<Rightarrow> (case sort_key g_current_tunnels
                (filter (\<lambda>g. g_status g = GwActive \<and> g_current_tunnels g < g_max_tunnels g \<and> serves g) (gateways s)) of
              [] \<Rightarrow> None | g # _ \<Rightarrow> Some g))"

definition name_taken :: "uuid \<Rightarrow> string \<Rightarrow> db \<Rightarrow> bool" where
  "name_taken userId name s \<longleftrightarrow>
     (\<exists>t \<in> set (tunnels s). t_user_id t = userId \<and> lower (t_name t) = lower name \<and> t_deleted_at t = None)"

definition used_private :: "uuid \<Rightarrow> db \<Rightarrow> ip4 list" where
  "used_private gid s = map t_private_ip (filter (\<lambda>t. t_gateway_id t = gid) (tunnels s))"

text \<open>
  The insert into \<^verbatim>\<open>tunnels\<close> with its uniqueness constraints (the names by migration 0009, the GRE
  keys by 0015).
\<close>

definition insert_tunnel :: "tunnel \<Rightarrow> db \<Rightarrow> error + db" where
  "insert_tunnel t s =
     (let peers = filter (\<lambda>u. t_gateway_id u = t_gateway_id t) (tunnels s) in
      if t_private_ip t \<in> set (map t_private_ip peers)
      then Inl (UniqueViolation ''tunnels_gateway_id_private_ip_key'')
      else if t_wg_public_key t \<noteq> None \<and> t_wg_public_key t \<in> set (map t_wg_public_key peers)
      then Inl (UniqueViolation ''tunnels_gateway_id_wg_public_key_key'')
      else if t_gre_key t \<noteq> None \<and> t_gre_key t \<in> set (map t_gre_key (filter (\<lambda>u. t_deleted_at u = None) peers))
      then Inl (UniqueViolation ''tunnels_gre_key_per_gateway'')
      else if t_deleted_at t = None \<and> name_taken (t_user_id t) (t_name t) s
      then Inl (UniqueViolation ''uq_tunnels_user_name'')
      else Inr (s\<lparr>tunnels := tunnels s @ [t]\<rparr>))"

definition gateway_add :: "uuid \<Rightarrow> db \<Rightarrow> db" where
  "gateway_add gid = set_gateways (\<lambda>g. g_id g = gid) (\<lambda>g. g\<lparr>g_current_tunnels := g_current_tunnels g + 1\<rparr>)"

text \<open>The price and allow-matrix checks of both kinds of tunnel.\<close>

definition tier_price :: "string \<Rightarrow> string \<Rightarrow> db \<Rightarrow> error + satang" where
  "tier_price protocol tier s =
     andThen (rethrow (ValidationError (''bad speedTier '' @ tier)) (speedTierPrice tier s)) (\<lambda>price.
     andThen (throw_if (\<not> tierAllowed protocol tier s) (ValidationError (protocol @ '' not sold: '' @ tier))) (\<lambda>_.
     Inr price))"

text \<open>The wallet and name checks that open both transactions.\<close>

definition check_buyer :: "uuid \<Rightarrow> string \<Rightarrow> satang \<Rightarrow> db \<Rightarrow> error + wallet" where
  "check_buyer userId name price s =
     andThen (or_throw (ValidationError ''wallet not found for user'') (wallet_of userId s)) (\<lambda>w.
     andThen (throw_if (w_balance w < price) (InsufficientCredit price (w_balance w))) (\<lambda>_.
     andThen (throw_if (name_taken userId name s)
       (ValidationError (''tunnel name '' @ name @ '' is already in use''))) (\<lambda>_.
     Inr w)))"

definition new_wg_tunnel :: "uuid \<Rightarrow> CreateTunnelInput \<Rightarrow> uuid \<Rightarrow> satang \<Rightarrow> ip4 \<Rightarrow> keypair \<Rightarrow> ms \<Rightarrow> tunnel" where
  "new_wg_tunnel tid inp gid price ip kp now =
     \<lparr>t_id = tid, t_user_id = ci_userId inp, t_gateway_id = gid, t_name = ci_name inp,
      t_description = trim_description (ci_description inp), t_protocol = ''wireguard'',
      t_speed_tier = ci_speedTier inp, t_price_satang = Some price, t_private_ip = ip,
      t_wg_public_key = Some (kp_publicKey kp), t_wg_private_key_encrypted = Some (kp_encPrivate kp),
      t_status = TunProvisioning, t_last_handshake_at = None, t_next_billing_at = now + 31 * DAY_MS,
      t_last_billed_at = None, t_suspended_at = None, t_delete_after = None, t_deleted_at = None,
      t_remote_endpoint_host = None, t_remote_endpoint_ip = None, t_remote_endpoint_resolved_at = None,
      t_gre_key = None\<rparr>"

definition createTunnel_tx :: "uuid_gen \<Rightarrow> ms \<Rightarrow> keypair \<Rightarrow> CreateTunnelInput \<Rightarrow> satang \<Rightarrow> db \<Rightarrow>
    error + (CreateTunnelResult \<times> db)" where
  "createTunnel_tx g now kp inp price s =
     andThen (check_buyer (ci_userId inp) (ci_name inp) price s) (\<lambda>w.
     andThen (or_throw NoGatewayAvailable
       (pick_gateway (\<lambda>gw. g_wg_public_key gw \<noteq> None) (ci_gatewayHostname inp) s)) (\<lambda>gw.
     andThen (allocatePrivateIp (g_private_subnet gw) (used_private (g_id gw) s)) (\<lambda>ip.
     let tid = g (length (tunnels s)) in
     andThen (insert_tunnel (new_wg_tunnel tid inp (g_id gw) price ip kp now) s) (\<lambda>s1.
     andThen (pay g w (ci_userId inp) TxSubscriptionCharge price
       (''Tunnel '' @ ci_name inp @ '' ('' @ ci_speedTier inp @ '')'')
       (''buy-tunnel-'' @ tid @ ''-'' @ show_int now) s1) (\<lambda>s2.
     Inr (\<lparr>cr_tunnelId = tid, cr_gatewayId = g_id gw, cr_gatewayHostname = g_hostname gw, cr_privateIp = ip,
           cr_publicKey = kp_publicKey kp\<rparr>,
        audit now ActSystem (Some (ci_userId inp)) ''tunnel.create'' (Some ''tunnel'') (Some tid)
          [(''gateway'', JStr (g_hostname gw)), (''privateIp'', JStr ip), (''priceSatang'', JNum price)]
          (gateway_add (g_id gw) s2)))))))"

definition createTunnel :: "uuid_gen \<Rightarrow> ms \<Rightarrow> keypair \<Rightarrow> CreateTunnelInput \<Rightarrow> CreateTunnelResult op" where
  "createTunnel g now kp inp s =
     seq (attempt (throw_if (\<not> TUNNEL_NAME_RE (ci_name inp)) (ValidationError
       ''name must be 1-100 chars: letters, digits, - or _ only (use Description for other languages)''))) (\<lambda>_.
     seq (attempt (case ci_protocol inp of
         Some (c # cs) \<Rightarrow> throw_if (c # cs \<noteq> ''wireguard'')
           (ValidationError (''protocol '' @ (c # cs) @ '' not supported (WireGuard only)''))
       | _ \<Rightarrow> Inr ())) (\<lambda>_.
     seq (\<lambda>s. attempt (tier_price ''wireguard'' (ci_speedTier inp) s) s) (\<lambda>price.
     sql_begin (createTunnel_tx g now kp inp price)))) s"

section \<open>Activation and removal by the worker\<close>

definition tunnel_with_gateway :: "uuid \<Rightarrow> db \<Rightarrow> (tunnel \<times> gateway) option" where
  "tunnel_with_gateway tid s = (case find (\<lambda>t. t_id t = tid) (tunnels s) of
       None \<Rightarrow> None
     | Some t \<Rightarrow> map_option (\<lambda>g. (t, g)) (find (\<lambda>g. g_id g = t_gateway_id t) (gateways s)))"

text \<open>The results \<^verbatim>\<open>alreadyActive\<close> of activation, \<^verbatim>\<open>removed\<close>/\<^verbatim>\<open>notFound\<close> of removal.\<close>

definition activateTunnel :: "agent \<Rightarrow> ms \<Rightarrow> uuid \<Rightarrow> bool op" where
  "activateTunnel agent now tid s =
     (case tunnel_with_gateway tid s of
        None \<Rightarrow> (Inl (NotFound ''tunnel''), s)
      | Some (t, gw) \<Rightarrow>
          if t_status t = TunActive then (Inr True, s)
          else
            seq (request agent (CreatePeer (g_id gw) tid (t_wg_public_key t) (t_private_ip t) []
              (tierRateKbit (t_speed_tier t)))) (\<lambda>_.
            seq (do_stmt (set_tunnels (\<lambda>t. t_id t = tid) (\<lambda>t. t\<lparr>t_status := TunActive\<rparr>))) (\<lambda>_.
            seq (do_stmt (audit now ActSystem None ''tunnel.activate'' (Some ''tunnel'') (Some tid) [])) (\<lambda>_.
            done_with False))) s)"

definition mark_deleted :: "ms \<Rightarrow> uuid \<Rightarrow> db \<Rightarrow> db" where
  "mark_deleted now tid = set_tunnels (\<lambda>t. t_id t = tid) (\<lambda>t. t\<lparr>t_status := TunDeleted, t_deleted_at := Some now\<rparr>)"

definition removeTunnel :: "agent \<Rightarrow> ms \<Rightarrow> uuid \<Rightarrow> bool op" where
  "removeTunnel agent now tid s =
     (case tunnel_with_gateway tid s of
        None \<Rightarrow> (Inr False, s)
      | Some (t, gw) \<Rightarrow>
          seq (request agent (DeletePeer (g_id gw) (t_wg_public_key t))) (\<lambda>_.
          seq (sql_begin (\<lambda>s. Inr ((), audit now ActSystem None ''tunnel.delete'' (Some ''tunnel'') (Some tid) []
              (gateway_drop (t_gateway_id t) (mark_deleted now tid s))))) (\<lambda>_.
          done_with True)) s)"

section \<open>Deletion by the customer\<close>

definition attached_rows :: "uuid \<Rightarrow> db \<Rightarrow> public_ip list" where
  "attached_rows tid s = filter (\<lambda>p. i_tunnel_id p = Some tid \<and> i_status p = IpAllocated) (ips s)"

definition detach_message :: "public_ip list \<Rightarrow> string" where
  "detach_message rows =
     (let singles = length (filter (\<lambda>p. i_block_id p = None) rows);
          blks = length (remdups (List.map_filter i_block_id rows))
      in ''detach '' @ join '' + ''
        ((if singles \<noteq> 0 then [show_nat singles @ '' single IP(s)''] else []) @
         (if blks \<noteq> 0 then [show_nat blks @ '' block(s)''] else [])) @ '' first'')"

definition deleteTunnel_tx :: "ms \<Rightarrow> uuid \<Rightarrow> uuid \<Rightarrow> db \<Rightarrow> error + ((uuid \<times> string option) \<times> db)" where
  "deleteTunnel_tx now tid userId s =
     andThen (or_throw (NotFound ''tunnel'')
       (find (\<lambda>t. t_id t = tid \<and> t_user_id t = userId \<and> t_deleted_at t = None) (tunnels s))) (\<lambda>t.
     andThen (throw_if (attached_rows tid s \<noteq> []) (ValidationError (detach_message (attached_rows tid s)))) (\<lambda>_.
     Inr ((t_gateway_id t, t_wg_public_key t),
       audit now ActUser (Some userId) ''tunnel.delete'' (Some ''tunnel'') (Some tid) [(''noRefund'', JBool True)]
         (gateway_drop (t_gateway_id t) (mark_deleted now tid s)))))"

definition deleteTunnel :: "agent \<Rightarrow> ms \<Rightarrow> uuid \<Rightarrow> uuid \<Rightarrow> uuid op" where
  "deleteTunnel agent now tid userId s =
     seq (sql_begin (deleteTunnel_tx now tid userId)) (\<lambda>(gid, pk).
     seq (catch_op (request agent (DeletePeer gid pk))) (\<lambda>_.
     done_with tid)) s"

section \<open>The private address\<close>

text \<open>
  What both kinds of tunnel rely on: an allocator never hands out a used address. Then the insert
  cannot meet the uniqueness of \<^verbatim>\<open>(gateway_id, private_ip)\<close>.
\<close>

locale host_allocator =
  fixes alloc :: "cidr \<Rightarrow> ip4 list \<Rightarrow> error + ip4"
  assumes fresh: "alloc c used = Inr ip \<Longrightarrow> ip \<notin> set used"
begin

lemma no_collision:
  assumes "alloc c (used_private gid s) = Inr ip" "t_gateway_id t = gid" "t_private_ip t = ip"
  shows "insert_tunnel t s \<noteq> Inl (UniqueViolation ''tunnels_gateway_id_private_ip_key'')"
  using fresh [OF assms(1)] assms(2,3) by (auto simp: insert_tunnel_def used_private_def Let_def)

lemma distinct_addresses:
  assumes "alloc c (used_private gid s) = Inr ip" "t_gateway_id t = gid" "t_private_ip t = ip"
    and "distinct (map (\<lambda>u. (t_gateway_id u, t_private_ip u)) (tunnels s))"
  shows "distinct (map (\<lambda>u. (t_gateway_id u, t_private_ip u)) (tunnels s @ [t]))"
  using fresh [OF assms(1)] assms(2-4) by (auto simp: used_private_def)

end

interpretation wg_alloc: host_allocator allocatePrivateIp
proof unfold_locales
  fix c used ip
  assume "allocatePrivateIp c used = Inr ip"
  then show "ip \<notin> set used"
    by (auto simp: allocatePrivateIp_def Let_def split: if_splits option.splits dest!: first_off_sound [rotated])
qed

lemma split_subnet: "split_on CHR ''/'' (quad a b c d @ CHR ''/'' # n) = quad a b c d # split_on CHR ''/'' n"
  by (rule split_on_sep) (auto simp: quad_def show_nat_no_slash)

lemma host_ip_quad: "0 \<le> h \<Longrightarrow> host_ip (map int [a, b, c, d]) h = quad a b c (nat h)"
  by (simp add: host_ip_def quad_def show_int_nonneg)

lemma allocatePrivateIp_24:
  "allocatePrivateIp (quad a b c d @ ''/24'') used =
     (case first_off (\<lambda>h. host_ip (map int [a, b, c, d]) h \<notin> set used) 1 0 254 2 of
        Some h \<Rightarrow> Inr (host_ip (map int [a, b, c, d]) h) | None \<Rightarrow> Inl NoIpAvailable)"
proof -
  have n: "split_on CHR ''/'' ''24'' = [''24'']" "js_Number ''24'' = Some 24" by code_simp+
  show ?thesis
    by (simp add: allocatePrivateIp_def Let_def split_subnet split_quad n split: option.splits)
qed

lemma host_scan:
  "first_off free 1 0 254 2 = Some h \<longleftrightarrow> free h \<and> 2 \<le> h \<and> h \<le> 254 \<and> (\<forall>k. 2 \<le> k \<and> k < h \<longrightarrow> \<not> free k)"
proof
  assume f: "first_off free 1 0 254 2 = Some h"
  have "\<not> free k" if "2 \<le> k" "k < h" for k
    using first_off_least [OF _ f, of "nat (k - 2)"] that by simp
  with first_off_sound [OF _ f] show "free h \<and> 2 \<le> h \<and> h \<le> 254 \<and> (\<forall>k. 2 \<le> k \<and> k < h \<longrightarrow> \<not> free k)" by auto
next
  assume r: "free h \<and> 2 \<le> h \<and> h \<le> 254 \<and> (\<forall>k. 2 \<le> k \<and> k < h \<longrightarrow> \<not> free k)"
  then obtain r where f: "first_off free 1 0 254 2 = Some r"
    using first_off_complete [of 1 free 2 "nat (h - 2)" 0 254] by auto
  have "r = h"
  proof (rule antisym)
    show "h \<le> r" using r first_off_sound [OF _ f] by force
    show "r \<le> h" using r first_off_least [OF _ f, of "nat (h - 2)"] by (cases "h < r") auto
  qed
  with f show "first_off free 1 0 254 2 = Some h" by simp
qed

lemma host_scan_None: "first_off free 1 0 254 2 = None \<longleftrightarrow> (\<forall>k. 2 \<le> k \<and> k \<le> 254 \<longrightarrow> \<not> free k)"
proof (cases "first_off free 1 0 254 2")
  case None
  have "\<not> free k" if "2 \<le> k" "k \<le> 254" for k
    using first_off_None [OF _ None, of "nat (k - 2)"] that by simp
  with None show ?thesis by simp
next
  case (Some h)
  then show ?thesis using host_scan [of free h] by auto
qed

lemma all_hosts:
  "(\<forall>k::int. 2 \<le> k \<and> k < int h \<longrightarrow> host_ip (map int [a, b, c, d]) k \<in> U) \<longleftrightarrow>
     (\<forall>k. 2 \<le> k \<and> k < h \<longrightarrow> quad a b c k \<in> U)"
proof (intro iffI allI impI)
  fix k :: nat
  assume u: "\<forall>k::int. 2 \<le> k \<and> k < int h \<longrightarrow> host_ip (map int [a, b, c, d]) k \<in> U" and k: "2 \<le> k \<and> k < h"
  have "host_ip (map int [a, b, c, d]) (int k) \<in> U" by (rule u [rule_format]) (use k in simp)
  then show "quad a b c k \<in> U" using host_ip_quad [of "int k" a b c d] by simp
next
  fix k :: int
  assume u: "\<forall>k. 2 \<le> k \<and> k < h \<longrightarrow> quad a b c k \<in> U" and k: "2 \<le> k \<and> k < int h"
  then have "2 \<le> nat k \<and> nat k < h" by linarith
  with u k show "host_ip (map int [a, b, c, d]) k \<in> U" using host_ip_quad [of k a b c d] by simp
qed

lemma allocatePrivateIp_iff:
  "allocatePrivateIp (quad a b c d @ ''/24'') used = Inr ip \<longleftrightarrow>
     (\<exists>h. 2 \<le> h \<and> h \<le> 254 \<and> ip = quad a b c h \<and> ip \<notin> set used \<and>
        (\<forall>k. 2 \<le> k \<and> k < h \<longrightarrow> quad a b c k \<in> set used))"
  "allocatePrivateIp (quad a b c d @ ''/24'') used = Inl NoIpAvailable \<longleftrightarrow>
     (\<forall>h. 2 \<le> h \<and> h \<le> 254 \<longrightarrow> quad a b c h \<in> set used)"
proof -
  let ?free = "\<lambda>h. host_ip (map int [a, b, c, d]) h \<notin> set used"
  have q: "?free (int h) \<longleftrightarrow> quad a b c h \<notin> set used" for h
    using host_ip_quad [of "int h" a b c d] by simp
  have nn: "(\<forall>k::int. 2 \<le> k \<and> k < int h \<longrightarrow> \<not> ?free k) \<longleftrightarrow> (\<forall>k. 2 \<le> k \<and> k < h \<longrightarrow> quad a b c k \<in> set used)" for h
    using all_hosts [of h a b c d "set used"] by simp
  show "allocatePrivateIp (quad a b c d @ ''/24'') used = Inr ip \<longleftrightarrow>
     (\<exists>h. 2 \<le> h \<and> h \<le> 254 \<and> ip = quad a b c h \<and> ip \<notin> set used \<and>
        (\<forall>k. 2 \<le> k \<and> k < h \<longrightarrow> quad a b c k \<in> set used))" (is "?l \<longleftrightarrow> ?r")
  proof
    assume ?l
    then obtain h where h: "first_off ?free 1 0 254 2 = Some h" "ip = host_ip (map int [a, b, c, d]) h"
      unfolding allocatePrivateIp_24 by (auto split: option.splits)
    from host_scan [of ?free h] h(1) have s: "?free h" "2 \<le> h" "h \<le> 254" "\<forall>k. 2 \<le> k \<and> k < h \<longrightarrow> \<not> ?free k" by blast+
    from s(2) have "h = int (nat h)" by simp
    with s nn [of "nat h"] h(2) show ?r
      by (intro exI [of _ "nat h"]) (use host_ip_quad [of h a b c d] in auto)
  next
    assume ?r
    then obtain h where h: "2 \<le> h" "h \<le> 254" "ip = quad a b c h" "quad a b c h \<notin> set used"
      "\<forall>k. 2 \<le> k \<and> k < h \<longrightarrow> quad a b c k \<in> set used" by blast
    have "first_off ?free 1 0 254 2 = Some (int h)"
      unfolding host_scan using h q nn [of h] by auto
    then show ?l
      using h(3) host_ip_quad [of "int h" a b c d] unfolding allocatePrivateIp_24 by simp
  qed
  show "allocatePrivateIp (quad a b c d @ ''/24'') used = Inl NoIpAvailable \<longleftrightarrow>
     (\<forall>h. 2 \<le> h \<and> h \<le> 254 \<longrightarrow> quad a b c h \<in> set used)" (is "?l \<longleftrightarrow> ?r")
  proof -
    have "?l \<longleftrightarrow> (\<forall>k::int. 2 \<le> k \<and> k < int 255 \<longrightarrow> \<not> ?free k)"
      unfolding allocatePrivateIp_24 using host_scan_None [of ?free] by (auto split: option.splits)
    also have "\<dots> \<longleftrightarrow> (\<forall>k. 2 \<le> k \<and> k < 255 \<longrightarrow> quad a b c k \<in> set used)" by (rule nn)
    also have "\<dots> \<longleftrightarrow> ?r" by (simp add: less_Suc_eq_le [of _ 254, simplified])
    finally show ?thesis .
  qed
qed

text \<open>
  C20. The private address of a tunnel: in a /24 the allocator returns the lowest host from .2 to
  .254 that is not in use, and reports exhaustion exactly when all 253 of them are taken.
\<close>

theorem allocatePrivateIp_correct:
  "(allocatePrivateIp (quad a b c d @ ''/24'') used = Inr ip \<longleftrightarrow>
     (\<exists>h. 2 \<le> h \<and> h \<le> 254 \<and> ip = quad a b c h \<and> ip \<notin> set used \<and>
        (\<forall>k. 2 \<le> k \<and> k < h \<longrightarrow> quad a b c k \<in> set used))) \<and>
   (allocatePrivateIp (quad a b c d @ ''/24'') used = Inl NoIpAvailable \<longleftrightarrow>
     (\<forall>h. 2 \<le> h \<and> h \<le> 254 \<longrightarrow> quad a b c h \<in> set used))"
  using allocatePrivateIp_iff by (rule conjI)

theorem allocatePrivateIp_correct_witness:
  "allocatePrivateIp ''10.8.0.0/24'' [''10.8.0.2'', ''10.8.0.4''] = Inr ''10.8.0.3'' \<and>
   allocatePrivateIp ''10.8.0.0/24'' [] \<noteq> Inl NoIpAvailable"
proof -
  have q: "quad 10 8 0 0 = ''10.8.0.0''" "quad 10 8 0 3 = ''10.8.0.3''" "quad 10 8 0 2 = ''10.8.0.2''" by code_simp+
  have "allocatePrivateIp (quad 10 8 0 0 @ ''/24'') [''10.8.0.2'', ''10.8.0.4''] = Inr ''10.8.0.3''"
    unfolding conjunct1 [OF allocatePrivateIp_correct]
    by (rule exI [of _ 3]) (use q in \<open>auto simp: less_Suc_eq numeral_eq_Suc\<close>)
  moreover have "allocatePrivateIp (quad 10 8 0 0 @ ''/24'') [] \<noteq> Inl NoIpAvailable"
    unfolding conjunct2 [OF allocatePrivateIp_correct] by (auto intro: exI [of _ 2])
  ultimately show ?thesis by (simp add: q)
qed
section \<open>Creation\<close>

lemma insert_tunnel_Inr:
  "insert_tunnel t s = Inr s' \<Longrightarrow> s' = s\<lparr>tunnels := tunnels s @ [t]\<rparr> \<and>
     (\<forall>u \<in> set (tunnels s). t_gateway_id u = t_gateway_id t \<longrightarrow> t_private_ip u \<noteq> t_private_ip t)"
  by (auto simp: insert_tunnel_def Let_def image_iff split: if_splits)

lemma gateway_add_frame [simp]:
  "wallets (gateway_add gid s) = wallets s" "txs (gateway_add gid s) = txs s" "tunnels (gateway_add gid s) = tunnels s"
  "blocks (gateway_add gid s) = blocks s" "ips (gateway_add gid s) = ips s" "pools (gateway_add gid s) = pools s"
  "calls (gateway_add gid s) = calls s" "tenancy_ok (gateway_add gid s) = tenancy_ok s"
  by (simp_all add: gateway_add_def)

lemma mark_deleted_frame [simp]:
  "wallets (mark_deleted now tid s) = wallets s" "txs (mark_deleted now tid s) = txs s"
  "blocks (mark_deleted now tid s) = blocks s" "ips (mark_deleted now tid s) = ips s"
  "pools (mark_deleted now tid s) = pools s" "calls (mark_deleted now tid s) = calls s"
  "ledger_ok (mark_deleted now tid s) = ledger_ok s"
  by (simp_all add: mark_deleted_def)

text \<open>
  The part of a purchase of a tunnel that WireGuard and GRE share: the row is inserted, the wallet
  pays, the gateway counts one more.
\<close>

definition bought_tunnel :: "uuid_gen \<Rightarrow> wallet \<Rightarrow> uuid \<Rightarrow> satang \<Rightarrow> tunnel \<Rightarrow> db \<Rightarrow> db \<Rightarrow> bool" where
  "bought_tunnel g w u price t s s' \<longleftrightarrow>
     wallet_of u s = Some w \<and> price \<le> w_balance w \<and> t_user_id t = u \<and>
     tunnels s' = tunnels s @ [t] \<and> t_id t = g (length (tunnels s)) \<and>
     (\<forall>v \<in> set (tunnels s). t_gateway_id v = t_gateway_id t \<longrightarrow> t_private_ip v \<noteq> t_private_ip t) \<and>
     wallets s' = wallets (wallet_debit (w_id w) (w_balance w - price) price s) \<and>
     (\<exists>x. txs s' = txs s @ [x] \<and> x_wallet_id x = w_id w \<and> x_amount x = - price \<and>
        x_balance_after x = w_balance w - price \<and> \<not> key_used (x_idempotency_key x) s) \<and>
     gateways s' = gateways (gateway_add (t_gateway_id t) s) \<and>
     ips s' = ips s \<and> blocks s' = blocks s \<and> pools s' = pools s \<and> calls s' = calls s"

lemma bought_tunnel_ledger:
  assumes "ledger_ok s" "bought_tunnel g w u price t s s'"
  shows "ledger_ok s'"
proof -
  from assms(2) obtain x where x: "txs s' = txs s @ [x]" "x_wallet_id x = w_id w" "x_amount x = - price"
    "x_balance_after x = w_balance w - price" "\<not> key_used (x_idempotency_key x) s"
    by (auto simp: bought_tunnel_def)
  from assms(2) have w: "w \<in> set (wallets s)" "price \<le> w_balance w"
    "wallets s' = wallets (wallet_debit (w_id w) (w_balance w - price) price s)"
    by (auto simp: bought_tunnel_def dest: wallet_of_Some)
  show ?thesis by (rule ledger_debit [OF assms(1) w(1,2) x(5,2,3,4) w(3) x(1)])
qed

definition fresh_tunnel :: "uuid_gen \<Rightarrow> db \<Rightarrow> bool" where
  "fresh_tunnel g s \<longleftrightarrow> g (length (tunnels s)) \<notin> set (map t_id (tunnels s))"

lemma bought_tunnel_tenancy:
  assumes ok: "tenancy_ok s" and b: "bought_tunnel g w u price t s s'" and new: "fresh_tunnel g s"
  shows "tenancy_ok s'"
proof -
  from b new have "t_id t \<notin> set (map t_id (tunnels s))" by (simp add: bought_tunnel_def fresh_tunnel_def)
  from tenancy_add_tunnel [OF ok this] show ?thesis
    by (rule tenancy_cong) (use b in \<open>auto simp: bought_tunnel_def tun_owners_def blk_owners_def\<close>)
qed

lemma check_buyer_Inr:
  "check_buyer u n price s = Inr w \<longleftrightarrow> wallet_of u s = Some w \<and> price \<le> w_balance w \<and> \<not> name_taken u n s"
  by (auto simp: check_buyer_def flow)

lemma tier_price_Inr:
  "tier_price proto tier s = Inr price \<longleftrightarrow> speedTierPrice tier s = Inr price \<and> tierAllowed proto tier s"
  by (auto simp: tier_price_def flow)

lemma buy_tunnel_post:
  assumes w: "wallet_of u s = Some w" "price \<le> w_balance w"
    and ins: "insert_tunnel t s = Inr s1" and id: "t_id t = g (length (tunnels s))" "t_user_id t = u"
    and p: "pay g w u typ price desc key s1 = Inr s2"
    and s': "s' = audit now actor aid act rt ri md (gateway_add (t_gateway_id t) s2)"
  shows "bought_tunnel g w u price t s s'"
proof -
  note i = insert_tunnel_Inr [OF ins] and e = pay_Inr [OF p]
  from i have s1: "s1 = s\<lparr>tunnels := tunnels s @ [t]\<rparr>" by simp
  have "\<not> key_used (Some key) s" using e(1) by (simp add: s1 key_used_def)
  then show ?thesis
    unfolding bought_tunnel_def s' using w id i e(2)
    by (auto simp: s1 wallet_debit_def gateway_add_def set_gateways_def)
qed

lemma createTunnel_Inr:
  assumes "createTunnel g now kp inp s = (Inr r, s')"
  obtains price w gw where
    "TUNNEL_NAME_RE (ci_name inp)" "speedTierPrice (ci_speedTier inp) s = Inr price"
    "tierAllowed ''wireguard'' (ci_speedTier inp) s" "\<not> name_taken (ci_userId inp) (ci_name inp) s"
    "pick_gateway (\<lambda>gw. g_wg_public_key gw \<noteq> None) (ci_gatewayHostname inp) s = Some gw"
    "allocatePrivateIp (g_private_subnet gw) (used_private (g_id gw) s) = Inr (cr_privateIp r)"
    "bought_tunnel g w (ci_userId inp) price
       (new_wg_tunnel (cr_tunnelId r) inp (g_id gw) price (cr_privateIp r) kp now) s s'"
    "cr_gatewayId r = g_id gw" "cr_publicKey r = kp_publicKey kp"
proof -
  from assms obtain price where n: "TUNNEL_NAME_RE (ci_name inp)" and pr: "speedTierPrice (ci_speedTier inp) s = Inr price"
      "tierAllowed ''wireguard'' (ci_speedTier inp) s"
    and t: "createTunnel_tx g now kp inp price s = Inr (r, s')"
    by (auto simp: createTunnel_def flow tier_price_Inr)
  from t obtain w gw ip s1 s2 where w: "wallet_of (ci_userId inp) s = Some w" "price \<le> w_balance w"
      "\<not> name_taken (ci_userId inp) (ci_name inp) s"
    and gw: "pick_gateway (\<lambda>gw. g_wg_public_key gw \<noteq> None) (ci_gatewayHostname inp) s = Some gw"
    and ip: "allocatePrivateIp (g_private_subnet gw) (used_private (g_id gw) s) = Inr ip"
    and ins: "insert_tunnel (new_wg_tunnel (g (length (tunnels s))) inp (g_id gw) price ip kp now) s = Inr s1"
    and p: "pay g w (ci_userId inp) TxSubscriptionCharge price
       (''Tunnel '' @ ci_name inp @ '' ('' @ ci_speedTier inp @ '')'')
       (''buy-tunnel-'' @ g (length (tunnels s)) @ ''-'' @ show_int now) s1 = Inr s2"
    and s': "s' = audit now ActSystem (Some (ci_userId inp)) ''tunnel.create'' (Some ''tunnel'') (Some (g (length (tunnels s))))
          [(''gateway'', JStr (g_hostname gw)), (''privateIp'', JStr ip), (''priceSatang'', JNum price)]
          (gateway_add (g_id gw) s2)"
    and r: "r = \<lparr>cr_tunnelId = g (length (tunnels s)), cr_gatewayId = g_id gw, cr_gatewayHostname = g_hostname gw,
          cr_privateIp = ip, cr_publicKey = kp_publicKey kp\<rparr>"
    unfolding createTunnel_tx_def Let_def by (clarsimp simp only: flow check_buyer_Inr sum.inject prod.inject) blast
  have "bought_tunnel g w (ci_userId inp) price
      (new_wg_tunnel (g (length (tunnels s))) inp (g_id gw) price ip kp now) s s'"
    by (rule buy_tunnel_post [OF w(1,2) ins _ _ p]) (simp_all add: new_wg_tunnel_def s')
  with that [OF n pr w(3) gw, of w] ip r show thesis by simp
qed

section \<open>Contracts\<close>

text \<open>The head of a stable sort: the first of the least.\<close>

lemma sort_key_head:
  "(\<exists>gs. sort_key f zs = g # gs) \<longleftrightarrow>
     (\<exists>xs ys. zs = xs @ g # ys \<and> (\<forall>v \<in> set xs. f g < f v) \<and> (\<forall>v \<in> set ys. f g \<le> (f v :: 'k :: linorder)))"
proof (induction zs)
  case Nil
  then show ?case by simp
next
  case (Cons z zs)
  have step: "(\<exists>gs. sort_key f (z # zs) = g # gs) \<longleftrightarrow>
      (g = z \<and> (\<forall>v \<in> set zs. f z \<le> f v)) \<or> (f g < f z \<and> (\<exists>gs. sort_key f zs = g # gs))"
  proof (cases "sort_key f zs")
    case Nil
    then have "zs = []" by (metis length_0_conv length_sort)
    then show ?thesis by auto
  next
    case (Cons h hs)
    have srt: "sorted (map f (h # hs))" using Cons by (metis sorted_sort_key)
    have ss: "set zs = insert h (set hs)" using Cons by (metis list.simps(15) set_sort)
    have all: "(\<forall>v \<in> set zs. f z \<le> f v) \<longleftrightarrow> f z \<le> f h" using srt by (auto simp: ss)
    show ?thesis unfolding all using Cons by (auto simp: not_le)
  qed
  show ?case
  proof
    assume "\<exists>gs. sort_key f (z # zs) = g # gs"
    then consider "g = z" "\<forall>v \<in> set zs. f z \<le> f v" | "f g < f z" "\<exists>gs. sort_key f zs = g # gs"
      unfolding step by blast
    then show "\<exists>xs ys. z # zs = xs @ g # ys \<and> (\<forall>v \<in> set xs. f g < f v) \<and> (\<forall>v \<in> set ys. f g \<le> f v)"
    proof cases
      case 1
      then show ?thesis by (intro exI [of _ "[]"] exI [of _ zs]) simp
    next
      case 2
      with Cons.IH obtain xs ys where "zs = xs @ g # ys" "\<forall>v \<in> set xs. f g < f v" "\<forall>v \<in> set ys. f g \<le> f v" by blast
      with 2 show ?thesis by (intro exI [of _ "z # xs"] exI [of _ ys]) simp
    qed
  next
    assume "\<exists>xs ys. z # zs = xs @ g # ys \<and> (\<forall>v \<in> set xs. f g < f v) \<and> (\<forall>v \<in> set ys. f g \<le> f v)"
    then obtain xs ys where e: "z # zs = xs @ g # ys" "\<forall>v \<in> set xs. f g < f v" "\<forall>v \<in> set ys. f g \<le> f v" by blast
    show "\<exists>gs. sort_key f (z # zs) = g # gs"
    proof (cases xs)
      case Nil
      with e show ?thesis unfolding step by simp
    next
      case (Cons x xs')
      with e have "zs = xs' @ g # ys" "f g < f z" "\<forall>v \<in> set xs'. f g < f v" by auto
      with e(3) Cons.IH show ?thesis unfolding step by blast
    qed
  qed
qed

text \<open>
  The choice written out: the first serving gateway of the name that was asked for, else the first
  of the least loaded ones with room.
\<close>

lemma pick_gateway_iff:
  "pick_gateway serves h s = Some gw \<longleftrightarrow>
     (if h = None \<or> h = Some ''''
      then \<exists>xs ys. filter (\<lambda>v. g_status v = GwActive \<and> g_current_tunnels v < g_max_tunnels v \<and> serves v) (gateways s) =
          xs @ gw # ys \<and> (\<forall>v \<in> set xs. g_current_tunnels gw < g_current_tunnels v) \<and>
          (\<forall>v \<in> set ys. g_current_tunnels gw \<le> g_current_tunnels v)
      else \<exists>ys. filter (\<lambda>v. h = Some (g_hostname v) \<and> g_status v = GwActive \<and> serves v) (gateways s) = gw # ys)"
proof -
  have find_filter: "find P xs = Some x \<longleftrightarrow> (\<exists>ys. filter P xs = x # ys)" for P :: "gateway \<Rightarrow> bool" and xs x
    by (induction xs) auto
  have least: "(case sort_key g_current_tunnels zs of [] \<Rightarrow> None | g # _ \<Rightarrow> Some g) = Some gw \<longleftrightarrow>
      (\<exists>gs. sort_key g_current_tunnels zs = gw # gs)" for zs
    by (auto split: list.splits)
  show ?thesis
  proof (cases "h = None \<or> h = Some ''''")
    case True
    then show ?thesis by (elim disjE) (simp_all add: pick_gateway_def least sort_key_head)
  next
    case False
    then obtain c cs where h: "h = Some (c # cs)" by (cases h) (auto simp: neq_Nil_conv)
    have eq: "(\<lambda>v. g_hostname v = c # cs \<and> g_status v = GwActive \<and> serves v) =
        (\<lambda>v. h = Some (g_hostname v) \<and> g_status v = GwActive \<and> serves v)" by (auto simp: h)
    show ?thesis using False by (simp add: pick_gateway_def h find_filter eq [unfolded h])
  qed
qed

lemma pick_gateway_Some:
  assumes "pick_gateway serves h s = Some gw"
  shows "gw \<in> set (gateways s) \<and> g_status gw = GwActive \<and> serves gw \<and>
    (h \<noteq> None \<and> h \<noteq> Some '''' \<longrightarrow> h = Some (g_hostname gw)) \<and>
    (h = None \<or> h = Some '''' \<longrightarrow> g_current_tunnels gw < g_max_tunnels gw \<and> (\<forall>v \<in> set (gateways s).
       g_status v = GwActive \<and> g_current_tunnels v < g_max_tunnels v \<and> serves v \<longrightarrow> g_current_tunnels gw \<le> g_current_tunnels v))"
proof (cases "h = None \<or> h = Some ''''")
  case True
  with assms obtain xs ys where f: "filter (\<lambda>v. g_status v = GwActive \<and> g_current_tunnels v < g_max_tunnels v \<and> serves v)
      (gateways s) = xs @ gw # ys" "\<forall>v \<in> set xs. g_current_tunnels gw < g_current_tunnels v"
      "\<forall>v \<in> set ys. g_current_tunnels gw \<le> g_current_tunnels v"
    unfolding pick_gateway_iff by auto
  let ?P = "\<lambda>v. g_status v = GwActive \<and> g_current_tunnels v < g_max_tunnels v \<and> serves v"
  have m: "v \<in> set (gateways s) \<and> ?P v \<longleftrightarrow> v \<in> set (xs @ gw # ys)" for v by (subst f(1) [symmetric]) simp
  have "gw \<in> set (gateways s) \<and> ?P gw" unfolding m by simp
  moreover have "g_current_tunnels gw \<le> g_current_tunnels v" if "v \<in> set (gateways s) \<and> ?P v" for v
    using that [unfolded m] f(2,3) by auto
  ultimately show ?thesis using True by blast
next
  case False
  with assms obtain ys where f: "filter (\<lambda>v. h = Some (g_hostname v) \<and> g_status v = GwActive \<and> serves v) (gateways s) = gw # ys"
    unfolding pick_gateway_iff by auto
  then have "gw \<in> set (filter (\<lambda>v. h = Some (g_hostname v) \<and> g_status v = GwActive \<and> serves v) (gateways s))" by simp
  with False show ?thesis by auto
qed

lemma createTunnel_fail: "fst (createTunnel g now kp inp s) = Inl e \<Longrightarrow> snd (createTunnel g now kp inp s) = s"
  by (auto simp: createTunnel_def flow_defs sql_begin_def split: sum.splits prod.splits)

interpretation create_tunnel: money_op "createTunnel g now kp" for g now kp
proof unfold_locales
  fix s inp
  assume ok: "ledger_ok s"
  show "ledger_ok (snd (createTunnel g now kp inp s))"
  proof (cases rule: op_cases [of "createTunnel g now kp inp s"])
    case (Fail e)
    with ok createTunnel_fail show ?thesis by metis
  next
    case (Ok x)
    then show ?thesis by (rule createTunnel_Inr) (rule bought_tunnel_ledger [OF ok])
  qed
qed

interpretation create_tunnel_iso: keeps tenancy_ok "\<lambda>_. fresh_tunnel g" "createTunnel g now kp" for g now kp
proof unfold_locales
  fix s inp
  assume ok: "tenancy_ok s" "fresh_tunnel g s"
  show "tenancy_ok (snd (createTunnel g now kp inp s))"
  proof (cases rule: op_cases [of "createTunnel g now kp inp s"])
    case (Fail e)
    with ok createTunnel_fail show ?thesis by metis
  next
    case (Ok x)
    then show ?thesis by (rule createTunnel_Inr) (rule bought_tunnel_tenancy [OF ok(1) _ ok(2)])
  qed
qed

interpretation activate_tunnel: wallet_frame "activateTunnel agent now" for agent now
  by unfold_locales (simp add: activateTunnel_def flow_defs split: option.splits)

interpretation activate_tunnel_iso: keeps tenancy_ok "\<lambda>_ _. True" "activateTunnel agent now" for agent now
  by unfold_locales (auto simp: activateTunnel_def flow_defs split: option.splits intro!: tenancy_set_tunnels)

lemma tenancy_mark_deleted: "tenancy_ok s \<Longrightarrow> tenancy_ok (mark_deleted now tid s)"
  unfolding mark_deleted_def by (rule tenancy_set_tunnels) simp_all

interpretation remove_tunnel: wallet_frame "removeTunnel agent now" for agent now
  by unfold_locales (simp add: removeTunnel_def flow_defs sql_begin_def split: option.splits)

interpretation remove_tunnel_iso: keeps tenancy_ok "\<lambda>_ _. True" "removeTunnel agent now" for agent now
  by unfold_locales
    (auto simp: removeTunnel_def flow_defs sql_begin_def split: option.splits intro!: tenancy_mark_deleted)

lemma deleteTunnel_tx_Inr:
  "deleteTunnel_tx now tid u s = Inr (r, s') \<longleftrightarrow>
     (\<exists>t. find (\<lambda>t. t_id t = tid \<and> t_user_id t = u \<and> t_deleted_at t = None) (tunnels s) = Some t \<and>
        attached_rows tid s = [] \<and> r = (t_gateway_id t, t_wg_public_key t) \<and>
        s' = audit now ActUser (Some u) ''tunnel.delete'' (Some ''tunnel'') (Some tid) [(''noRefund'', JBool True)]
          (gateway_drop (t_gateway_id t) (mark_deleted now tid s)))"
  by (auto simp: deleteTunnel_tx_def flow)

text \<open>The deletion is its transaction; the request to the agent is best effort.\<close>

lemma deleteTunnel_run:
  "deleteTunnel agent now tid u s =
     (case deleteTunnel_tx now tid u s of
        Inl e \<Rightarrow> (Inl e, s)
      | Inr ((gid, pk), s1) \<Rightarrow> (Inr tid, send (DeletePeer gid pk) s1))"
  by (auto simp: deleteTunnel_def flow_defs sql_begin_def split: sum.splits option.splits)

interpretation delete_tunnel: wallet_frame "\<lambda>(tid, u). deleteTunnel agent now tid u" for agent now
  by unfold_locales (auto simp: deleteTunnel_run deleteTunnel_tx_Inr split: sum.splits prod.splits)

interpretation delete_tunnel_iso: keeps tenancy_ok "\<lambda>_ _. True" "\<lambda>(tid, u). deleteTunnel agent now tid u" for agent now
  by unfold_locales (auto simp: deleteTunnel_run deleteTunnel_tx_Inr tenancy_mark_deleted split: sum.splits prod.splits)

section \<open>Properties\<close>

lemma insert_tunnel_iff:
  "insert_tunnel t s = Inr s' \<longleftrightarrow>
     (\<forall>v \<in> set (tunnels s). t_gateway_id v = t_gateway_id t \<longrightarrow> t_private_ip v \<noteq> t_private_ip t) \<and>
     (\<forall>v \<in> set (tunnels s). t_gateway_id v = t_gateway_id t \<longrightarrow> t_wg_public_key t \<noteq> None \<longrightarrow>
        t_wg_public_key v \<noteq> t_wg_public_key t) \<and>
     (\<forall>v \<in> set (tunnels s). t_gateway_id v = t_gateway_id t \<longrightarrow> t_deleted_at v = None \<longrightarrow> t_gre_key t \<noteq> None \<longrightarrow>
        t_gre_key v \<noteq> t_gre_key t) \<and>
     (t_deleted_at t = None \<longrightarrow> \<not> name_taken (t_user_id t) (t_name t) s) \<and>
     s' = s\<lparr>tunnels := tunnels s @ [t]\<rparr>"
  by (auto simp: insert_tunnel_def Let_def image_iff)

lemma pay_iff: "(\<exists>s'. pay g w u typ price desc key s = Inr s') \<longleftrightarrow> \<not> key_used (Some key) s"
  by (auto simp: pay_def insert_tx_def Let_def key_used_def wallet_debit_def)

definition sold_row :: "uuid_gen \<Rightarrow> ms \<Rightarrow> keypair \<Rightarrow> CreateTunnelInput \<Rightarrow> satang \<Rightarrow> gateway \<Rightarrow> ip4 \<Rightarrow> db \<Rightarrow> tunnel" where
  "sold_row g now kp inp price gw ip s = new_wg_tunnel (g (length (tunnels s))) inp (g_id gw) price ip kp now"

lemma createTunnel_tx_iff:
  "createTunnel_tx g now kp inp price s = Inr (r, s') \<longleftrightarrow>
     (\<exists>w gw ip s2. wallet_of (ci_userId inp) s = Some w \<and> price \<le> w_balance w \<and>
        \<not> name_taken (ci_userId inp) (ci_name inp) s \<and>
        pick_gateway (\<lambda>gw. g_wg_public_key gw \<noteq> None) (ci_gatewayHostname inp) s = Some gw \<and>
        allocatePrivateIp (g_private_subnet gw) (used_private (g_id gw) s) = Inr ip \<and>
        (\<forall>v \<in> set (tunnels s). t_gateway_id v = g_id gw \<longrightarrow> t_wg_public_key v \<noteq> Some (kp_publicKey kp)) \<and>
        pay g w (ci_userId inp) TxSubscriptionCharge price
          (''Tunnel '' @ ci_name inp @ '' ('' @ ci_speedTier inp @ '')'')
          (''buy-tunnel-'' @ g (length (tunnels s)) @ ''-'' @ show_int now)
          (s\<lparr>tunnels := tunnels s @ [sold_row g now kp inp price gw ip s]\<rparr>) = Inr s2 \<and>
        r = \<lparr>cr_tunnelId = g (length (tunnels s)), cr_gatewayId = g_id gw, cr_gatewayHostname = g_hostname gw,
          cr_privateIp = ip, cr_publicKey = kp_publicKey kp\<rparr> \<and>
        s' = audit now ActSystem (Some (ci_userId inp)) ''tunnel.create'' (Some ''tunnel'') (Some (g (length (tunnels s))))
          [(''gateway'', JStr (g_hostname gw)), (''privateIp'', JStr ip), (''priceSatang'', JNum price)]
          (gateway_add (g_id gw) s2))" (is "_ \<longleftrightarrow> ?r")
proof -
  have ins: "insert_tunnel (sold_row g now kp inp price gw ip s) s = Inr s1 \<longleftrightarrow>
      (\<forall>v \<in> set (tunnels s). t_gateway_id v = g_id gw \<longrightarrow> t_wg_public_key v \<noteq> Some (kp_publicKey kp)) \<and>
      s1 = s\<lparr>tunnels := tunnels s @ [sold_row g now kp inp price gw ip s]\<rparr>"
    if "allocatePrivateIp (g_private_subnet gw) (used_private (g_id gw) s) = Inr ip"
      "\<not> name_taken (ci_userId inp) (ci_name inp) s" for gw ip s1
    using wg_alloc.fresh [OF that(1)] that(2)
    by (auto simp: insert_tunnel_iff used_private_def sold_row_def new_wg_tunnel_def)
  show ?thesis
    unfolding createTunnel_tx_def Let_def flow check_buyer_Inr sold_row_def [symmetric]
    using ins by (auto 0 4)
qed

lemma protocol_arg:
  "(case p of None \<Rightarrow> Inr () | Some [] \<Rightarrow> Inr ()
      | Some (c # cs) \<Rightarrow> throw_if (c # cs \<noteq> ''wireguard'') (e c cs)) = Inr y \<longleftrightarrow>
      p \<in> {None, Some '''', Some ''wireguard''}"
  by (auto simp: throw_if_def split: option.splits list.splits)

lemma createTunnel_iff:
  "createTunnel g now kp inp s = (Inr r, s') \<longleftrightarrow>
     TUNNEL_NAME_RE (ci_name inp) \<and> ci_protocol inp \<in> {None, Some '''', Some ''wireguard''} \<and>
     (\<exists>price. speedTierPrice (ci_speedTier inp) s = Inr price \<and> tierAllowed ''wireguard'' (ci_speedTier inp) s \<and>
        createTunnel_tx g now kp inp price s = Inr (r, s'))"
  unfolding createTunnel_def flow protocol_arg tier_price_Inr by auto

text \<open>A sold tunnel: the whole state afterwards.\<close>

lemma sold_state:
  assumes "pay g w u typ price desc key (s\<lparr>tunnels := ts\<rparr>) = Inr s2"
  shows "\<exists>x a. audit now actor aid act rt ri md (gateway_add gid s2) =
     s\<lparr>wallets := upd_where (\<lambda>v. w_id v = w_id w) (\<lambda>v. v\<lparr>w_balance := w_balance w - price,
           w_lifetime_spent := w_lifetime_spent v + price, w_version := w_version v + 1\<rparr>) (wallets s),
         txs := txs s @ [x],
         gateways := upd_where (\<lambda>v. g_id v = gid) (\<lambda>v. v\<lparr>g_current_tunnels := g_current_tunnels v + 1\<rparr>) (gateways s),
         tunnels := ts, audits := audits s @ [a]\<rparr> \<and>
     x_user_id x = u \<and> x_wallet_id x = w_id w \<and> x_type x = typ \<and> x_amount x = - price \<and>
     x_balance_after x = w_balance w - price \<and> x_idempotency_key x = Some key \<and> \<not> key_used (x_idempotency_key x) s \<and>
     a_action a = act \<and> a_actor_id a = aid"
  using pay_Inr [OF assms]
  by (intro exI [of _ "\<lparr>x_id = g (length (txs s)), x_user_id = u, x_wallet_id = w_id w, x_type = typ,
        x_amount = - price, x_balance_after = w_balance w - price, x_description = desc,
        x_code_redemption_id = None, x_admin_user_id = None, x_idempotency_key = Some key\<rparr>"]
      exI [of _ "\<lparr>a_actor_type = actor, a_actor_id = aid, a_action = act, a_resource_type = rt, a_resource_id = ri,
        a_metadata = md, a_created_at = now\<rparr>"])
    (simp add: wallet_debit_def gateway_add_def set_gateways_def audit_def key_used_def)

text \<open>
  C10. Buying a tunnel. When \<^verbatim>\<open>createTunnel\<close> returns, the name is well formed and no live tunnel
  of the customer has it, and the tier is on sale. The gateway is active, has a WireGuard key, and
  is the one whose hostname was asked for; when none was, it has room and is the least loaded of
  the gateways that could serve. The new row is the customer's, in status provisioning, with the
  tier, the price paid, the key pair and the first renewal in 31 days, on a private address no
  tunnel of that gateway ever held. The rest is exact: the state is the old one with the price
  moved from the customer's wallet, which could pay, to one ledger row, that tunnel, one tunnel
  more on that gateway's counter and one audit row; nothing else changes.
\<close>

theorem createTunnel_correct:
  assumes "createTunnel g now kp inp s = (Inr r, s')"
  shows "\<exists>price w t gw x a. TUNNEL_NAME_RE (ci_name inp) \<and>
     (\<forall>v \<in> set (tunnels s). t_user_id v = ci_userId inp \<and> t_deleted_at v = None \<longrightarrow> lower (t_name v) \<noteq> lower (ci_name inp)) \<and>
     speedTierPrice (ci_speedTier inp) s = Inr price \<and> tierAllowed ''wireguard'' (ci_speedTier inp) s \<and>
     gw \<in> set (gateways s) \<and> g_status gw = GwActive \<and> g_wg_public_key gw \<noteq> None \<and>
     (ci_gatewayHostname inp \<noteq> None \<and> ci_gatewayHostname inp \<noteq> Some '''' \<longrightarrow>
        ci_gatewayHostname inp = Some (g_hostname gw)) \<and>
     (ci_gatewayHostname inp = None \<or> ci_gatewayHostname inp = Some '''' \<longrightarrow>
        g_current_tunnels gw < g_max_tunnels gw \<and> (\<forall>v \<in> set (gateways s).
          g_status v = GwActive \<and> g_current_tunnels v < g_max_tunnels v \<and> g_wg_public_key v \<noteq> None \<longrightarrow>
          g_current_tunnels gw \<le> g_current_tunnels v)) \<and>
     r = \<lparr>cr_tunnelId = t_id t, cr_gatewayId = g_id gw, cr_gatewayHostname = g_hostname gw,
          cr_privateIp = t_private_ip t, cr_publicKey = kp_publicKey kp\<rparr> \<and>
     t_id t = g (length (tunnels s)) \<and> t_user_id t = ci_userId inp \<and> t_name t = ci_name inp \<and>
     t_gateway_id t = g_id gw \<and> t_protocol t = ''wireguard'' \<and> t_speed_tier t = ci_speedTier inp \<and>
     t_wg_public_key t = Some (kp_publicKey kp) \<and> t_wg_private_key_encrypted t = Some (kp_encPrivate kp) \<and>
     t_status t = TunProvisioning \<and> t_price_satang t = Some price \<and> t_next_billing_at t = now + 31 * DAY_MS \<and>
     t_deleted_at t = None \<and> t_suspended_at t = None \<and> t_delete_after t = None \<and>
     (\<forall>v \<in> set (tunnels s). t_gateway_id v = t_gateway_id t \<longrightarrow> t_private_ip v \<noteq> t_private_ip t) \<and>
     wallet_of (ci_userId inp) s = Some w \<and> price \<le> w_balance w \<and>
     s' = s\<lparr>wallets := upd_where (\<lambda>v. w_id v = w_id w) (\<lambda>v. v\<lparr>w_balance := w_balance w - price,
              w_lifetime_spent := w_lifetime_spent v + price, w_version := w_version v + 1\<rparr>) (wallets s),
            txs := txs s @ [x],
            gateways := upd_where (\<lambda>v. g_id v = g_id gw) (\<lambda>v. v\<lparr>g_current_tunnels := g_current_tunnels v + 1\<rparr>) (gateways s),
            tunnels := tunnels s @ [t], audits := audits s @ [a]\<rparr> \<and>
     x_user_id x = ci_userId inp \<and> x_wallet_id x = w_id w \<and> x_type x = TxSubscriptionCharge \<and> x_amount x = - price \<and>
     x_balance_after x = w_balance w - price \<and> \<not> key_used (x_idempotency_key x) s \<and>
     a_action a = ''tunnel.create'' \<and> a_actor_id a = Some (ci_userId inp)"
proof -
  from assms obtain price w gw ip s2 where
    a: "TUNNEL_NAME_RE (ci_name inp)" "speedTierPrice (ci_speedTier inp) s = Inr price"
      "tierAllowed ''wireguard'' (ci_speedTier inp) s" "wallet_of (ci_userId inp) s = Some w" "price \<le> w_balance w"
    and n: "\<not> name_taken (ci_userId inp) (ci_name inp) s"
    and gw: "pick_gateway (\<lambda>gw. g_wg_public_key gw \<noteq> None) (ci_gatewayHostname inp) s = Some gw"
    and ip: "allocatePrivateIp (g_private_subnet gw) (used_private (g_id gw) s) = Inr ip"
    and p: "pay g w (ci_userId inp) TxSubscriptionCharge price
          (''Tunnel '' @ ci_name inp @ '' ('' @ ci_speedTier inp @ '')'')
          (''buy-tunnel-'' @ g (length (tunnels s)) @ ''-'' @ show_int now)
          (s\<lparr>tunnels := tunnels s @ [sold_row g now kp inp price gw ip s]\<rparr>) = Inr s2"
    and r: "r = \<lparr>cr_tunnelId = g (length (tunnels s)), cr_gatewayId = g_id gw, cr_gatewayHostname = g_hostname gw,
          cr_privateIp = ip, cr_publicKey = kp_publicKey kp\<rparr>"
    and s': "s' = audit now ActSystem (Some (ci_userId inp)) ''tunnel.create'' (Some ''tunnel'') (Some (g (length (tunnels s))))
          [(''gateway'', JStr (g_hostname gw)), (''privateIp'', JStr ip), (''priceSatang'', JNum price)]
          (gateway_add (g_id gw) s2)"
    unfolding createTunnel_iff createTunnel_tx_iff by blast
  let ?t = "sold_row g now kp inp price gw ip s"
  note row = sold_row_def new_wg_tunnel_def
  have fresh: "\<forall>v \<in> set (tunnels s). t_gateway_id v = t_gateway_id ?t \<longrightarrow> t_private_ip v \<noteq> t_private_ip ?t"
    using wg_alloc.fresh [OF ip] by (auto simp: used_private_def row)
  have name: "\<forall>v \<in> set (tunnels s). t_user_id v = ci_userId inp \<and> t_deleted_at v = None \<longrightarrow> lower (t_name v) \<noteq> lower (ci_name inp)"
    using n by (auto simp: name_taken_def)
  from sold_state [OF p] obtain x b where
    st: "s' = s\<lparr>wallets := upd_where (\<lambda>v. w_id v = w_id w) (\<lambda>v. v\<lparr>w_balance := w_balance w - price,
              w_lifetime_spent := w_lifetime_spent v + price, w_version := w_version v + 1\<rparr>) (wallets s),
            txs := txs s @ [x],
            gateways := upd_where (\<lambda>v. g_id v = g_id gw) (\<lambda>v. v\<lparr>g_current_tunnels := g_current_tunnels v + 1\<rparr>) (gateways s),
            tunnels := tunnels s @ [?t], audits := audits s @ [b]\<rparr>"
    and x: "x_user_id x = ci_userId inp \<and> x_wallet_id x = w_id w \<and> x_type x = TxSubscriptionCharge \<and> x_amount x = - price \<and>
      x_balance_after x = w_balance w - price \<and> \<not> key_used (x_idempotency_key x) s \<and>
      a_action b = ''tunnel.create'' \<and> a_actor_id b = Some (ci_userId inp)"
    unfolding s' by blast
  show ?thesis
    using pick_gateway_Some [OF gw] x
    by (intro exI [of _ price] exI [of _ w] exI [of _ ?t] exI [of _ gw] exI [of _ x] exI [of _ b] conjI a st fresh name)
      (simp_all add: r row)
qed

definition demo_input :: CreateTunnelInput where
  "demo_input = \<lparr>ci_userId = ''u1'', ci_speedTier = ''tier_100mb'', ci_name = ''office'', ci_description = None,
     ci_gatewayHostname = None, ci_protocol = None\<rparr>"

definition demo_keys :: keypair where
  "demo_keys = \<lparr>kp_publicKey = ''pk9'', kp_encPrivate = ''enc''\<rparr>"

lemma demo_create:
  "createTunnel demo_gen T0 demo_keys demo_input demo_db =
     (Inr \<lparr>cr_tunnelId = ''row-1'', cr_gatewayId = ''gw1'', cr_gatewayHostname = ''bkk-1'', cr_privateIp = ''10.8.0.3'',
        cr_publicKey = ''pk9''\<rparr>, snd (createTunnel demo_gen T0 demo_keys demo_input demo_db))"
  by (rule pair_fst) code_simp

theorem createTunnel_correct_witness:
  "\<exists>t x s'. snd (createTunnel demo_gen T0 demo_keys demo_input demo_db) = s' \<and> tunnels s' = tunnels demo_db @ [t] \<and>
     t_id t = ''row-1'' \<and> t_status t = TunProvisioning \<and> txs s' = txs demo_db @ [x] \<and> x_amount x = - 10000 \<and> ips s' = ips demo_db"
proof -
  let ?s = "snd (createTunnel demo_gen T0 demo_keys demo_input demo_db)"
  have p: "speedTierPrice ''tier_100mb'' demo_db = Inr 10000" by code_simp
  from createTunnel_correct [OF demo_create] obtain price t x ws gs as where
    "speedTierPrice (ci_speedTier demo_input) demo_db = Inr price" "t_id t = demo_gen (length (tunnels demo_db))"
    "t_status t = TunProvisioning" "x_amount x = - price"
    and s': "?s = demo_db\<lparr>wallets := ws, txs := txs demo_db @ [x], gateways := gs, tunnels := tunnels demo_db @ [t], audits := as\<rparr>"
    by - (elim exE conjE, rule that; assumption)
  moreover have "demo_gen (length (tunnels demo_db)) = ''row-1''" by code_simp
  moreover have "tunnels ?s = tunnels demo_db @ [t]" "txs ?s = txs demo_db @ [x]" "ips ?s = ips demo_db" by (subst s', simp)+
  ultimately show ?thesis using p by (auto simp: demo_input_def)
qed

lemma createTunnel_refused:
  assumes "createTunnel g now kp inp s = (Inl e, s')"
  shows "s' = s" "e \<noteq> UniqueViolation ''tunnels_gateway_id_private_ip_key''"
proof -
  from createTunnel_fail [of g now kp inp s e] assms show "s' = s" by simp
  show "e \<noteq> UniqueViolation ''tunnels_gateway_id_private_ip_key''"
  proof
    assume e: "e = UniqueViolation ''tunnels_gateway_id_private_ip_key''"
    have early: "throw_if c (ValidationError m) \<noteq> Inl e" "tier_price p t s \<noteq> Inl e" "check_buyer u n pr s \<noteq> Inl e"
      "allocatePrivateIp sn us \<noteq> Inl e" "pay g w u ty pr d k s1 \<noteq> Inl e" for c m p t u n pr sn us w ty d k s1
      by (auto simp: e throw_if_def tier_price_def check_buyer_def rethrow_def or_throw_def andThen_def
        allocatePrivateIp_def Let_def pay_def insert_tx_def split: sum.splits option.splits if_splits)
    from assms early obtain price where "createTunnel_tx g now kp inp price s = Inl e"
      by (auto simp: createTunnel_def flow_defs sql_begin_def split: sum.splits prod.splits option.splits list.splits)
    with early obtain gw ip where
      "pick_gateway (\<lambda>gw. g_wg_public_key gw \<noteq> None) (ci_gatewayHostname inp) s = Some gw"
      "allocatePrivateIp (g_private_subnet gw) (used_private (g_id gw) s) = Inr ip"
      "insert_tunnel (new_wg_tunnel (g (length (tunnels s))) inp (g_id gw) price ip kp now) s = Inl e"
      by (auto simp: createTunnel_tx_def Let_def andThen_def or_throw_def e split: sum.splits option.splits)
    with wg_alloc.no_collision show False by (simp add: e new_wg_tunnel_def)
  qed
qed

lemma createTunnel_accepts:
  "(\<exists>r s'. createTunnel g now kp inp s = (Inr r, s')) \<longleftrightarrow>
     TUNNEL_NAME_RE (ci_name inp) \<and> ci_protocol inp \<in> {None, Some '''', Some ''wireguard''} \<and>
     (\<exists>price w gw ip. speedTierPrice (ci_speedTier inp) s = Inr price \<and> tierAllowed ''wireguard'' (ci_speedTier inp) s \<and>
        wallet_of (ci_userId inp) s = Some w \<and> price \<le> w_balance w \<and> \<not> name_taken (ci_userId inp) (ci_name inp) s \<and>
        pick_gateway (\<lambda>gw. g_wg_public_key gw \<noteq> None) (ci_gatewayHostname inp) s = Some gw \<and>
        allocatePrivateIp (g_private_subnet gw) (used_private (g_id gw) s) = Inr ip \<and>
        \<not> (\<exists>v \<in> set (tunnels s). t_gateway_id v = g_id gw \<and> t_wg_public_key v = Some (kp_publicKey kp)) \<and>
        \<not> key_used (Some (''buy-tunnel-'' @ g (length (tunnels s)) @ ''-'' @ show_int now)) s)"
    (is "?l \<longleftrightarrow> ?n \<and> ?p \<and> (\<exists>price w gw ip. ?c price w gw ip)")
proof -
  let ?pay = "\<lambda>price w gw ip. pay g w (ci_userId inp) TxSubscriptionCharge price
          (''Tunnel '' @ ci_name inp @ '' ('' @ ci_speedTier inp @ '')'')
          (''buy-tunnel-'' @ g (length (tunnels s)) @ ''-'' @ show_int now)
          (s\<lparr>tunnels := tunnels s @ [sold_row g now kp inp price gw ip s]\<rparr>)"
  have k: "(\<exists>s2. ?pay price w gw ip = Inr s2) \<longleftrightarrow>
      \<not> key_used (Some (''buy-tunnel-'' @ g (length (tunnels s)) @ ''-'' @ show_int now)) s" for price w gw ip
    by (simp add: pay_iff key_used_def)
  have tx: "(\<exists>r s'. createTunnel_tx g now kp inp price s = Inr (r, s')) \<and> speedTierPrice (ci_speedTier inp) s = Inr price \<and>
      tierAllowed ''wireguard'' (ci_speedTier inp) s \<longleftrightarrow> (\<exists>w gw ip. ?c price w gw ip)" for price
  proof (rule iffI)
    assume l: "(\<exists>r s'. createTunnel_tx g now kp inp price s = Inr (r, s')) \<and> speedTierPrice (ci_speedTier inp) s = Inr price \<and>
      tierAllowed ''wireguard'' (ci_speedTier inp) s"
    then obtain r s' where "createTunnel_tx g now kp inp price s = Inr (r, s')" by blast
    then show "\<exists>w gw ip. ?c price w gw ip" unfolding createTunnel_tx_iff
    proof (elim exE conjE)
      fix w gw ip s2
      assume p: "?pay price w gw ip = Inr s2"
      have "\<not> key_used (Some (''buy-tunnel-'' @ g (length (tunnels s)) @ ''-'' @ show_int now)) s"
        using p k by blast
      moreover assume "wallet_of (ci_userId inp) s = Some w" "price \<le> w_balance w"
        "\<not> name_taken (ci_userId inp) (ci_name inp) s"
        "pick_gateway (\<lambda>gw. g_wg_public_key gw \<noteq> None) (ci_gatewayHostname inp) s = Some gw"
        "allocatePrivateIp (g_private_subnet gw) (used_private (g_id gw) s) = Inr ip"
        "\<forall>v \<in> set (tunnels s). t_gateway_id v = g_id gw \<longrightarrow> t_wg_public_key v \<noteq> Some (kp_publicKey kp)"
      ultimately show ?thesis using l by blast
    qed
  next
    assume "\<exists>w gw ip. ?c price w gw ip"
    then obtain w gw ip where c: "?c price w gw ip" by blast
    then obtain s2 where "?pay price w gw ip = Inr s2" using k by blast
    with c show "(\<exists>r s'. createTunnel_tx g now kp inp price s = Inr (r, s')) \<and> speedTierPrice (ci_speedTier inp) s = Inr price \<and>
      tierAllowed ''wireguard'' (ci_speedTier inp) s"
      unfolding createTunnel_tx_iff by blast
  qed
  have "?l \<longleftrightarrow> ?n \<and> ?p \<and> (\<exists>price. (\<exists>r s'. createTunnel_tx g now kp inp price s = Inr (r, s')) \<and>
      speedTierPrice (ci_speedTier inp) s = Inr price \<and> tierAllowed ''wireguard'' (ci_speedTier inp) s)"
    unfolding createTunnel_iff by blast
  then show ?thesis unfolding tx .
qed

lemma key_used_alt: "key_used (Some k) s \<longleftrightarrow> (\<exists>x \<in> set (txs s). x_idempotency_key x = Some k)"
  by (auto simp: key_used_def image_iff intro: sym)

lemma createTunnel_reaches_tx:
  assumes "TUNNEL_NAME_RE (ci_name inp)" "ci_protocol inp \<in> {None, Some '''', Some ''wireguard''}"
    "speedTierPrice (ci_speedTier inp) s = Inr price" "tierAllowed ''wireguard'' (ci_speedTier inp) s"
  shows "createTunnel g now kp inp s = sql_begin (createTunnel_tx g now kp inp price) s"
  using assms by (auto simp: createTunnel_def flow_defs tier_price_def)

text \<open>
  C21. Which purchases of a tunnel are refused: a call returns exactly when the name is well
  formed, the protocol is WireGuard or left out, the tier has a price and is on sale, the customer
  has a wallet that covers the price and no live tunnel of that name, a gateway with a WireGuard
  key serves (the first active one of the hostname asked for, else the first of the least loaded
  active ones with room), that gateway has a private address left, its rows do not hold the new
  public key, and the ledger key is new. Every other purchase is refused and leaves the database
  as it was; a wallet that falls short is told the price and its balance, no gateway is reported
  as such, and none is refused for the uniqueness of the private address.
\<close>

theorem createTunnel_errors:
  "((\<exists>r s'. createTunnel g now kp inp s = (Inr r, s')) \<longleftrightarrow>
     TUNNEL_NAME_RE (ci_name inp) \<and> ci_protocol inp \<in> {None, Some '''', Some ''wireguard''} \<and>
     (\<exists>price w gw ip. speedTierPrice (ci_speedTier inp) s = Inr price \<and> tierAllowed ''wireguard'' (ci_speedTier inp) s \<and>
        wallet_of (ci_userId inp) s = Some w \<and> price \<le> w_balance w \<and>
        \<not> (\<exists>v \<in> set (tunnels s). t_user_id v = ci_userId inp \<and> lower (t_name v) = lower (ci_name inp) \<and> t_deleted_at v = None) \<and>
        (if ci_gatewayHostname inp = None \<or> ci_gatewayHostname inp = Some ''''
         then \<exists>xs ys. filter (\<lambda>v. g_status v = GwActive \<and> g_current_tunnels v < g_max_tunnels v \<and> g_wg_public_key v \<noteq> None)
             (gateways s) = xs @ gw # ys \<and> (\<forall>v \<in> set xs. g_current_tunnels gw < g_current_tunnels v) \<and>
             (\<forall>v \<in> set ys. g_current_tunnels gw \<le> g_current_tunnels v)
         else \<exists>ys. filter (\<lambda>v. ci_gatewayHostname inp = Some (g_hostname v) \<and> g_status v = GwActive \<and>
             g_wg_public_key v \<noteq> None) (gateways s) = gw # ys) \<and>
        allocatePrivateIp (g_private_subnet gw) (map t_private_ip (filter (\<lambda>v. t_gateway_id v = g_id gw) (tunnels s))) = Inr ip \<and>
        \<not> (\<exists>v \<in> set (tunnels s). t_gateway_id v = g_id gw \<and> t_wg_public_key v = Some (kp_publicKey kp)) \<and>
        \<not> (\<exists>x \<in> set (txs s). x_idempotency_key x =
             Some (''buy-tunnel-'' @ g (length (tunnels s)) @ ''-'' @ show_int now)))) \<and>
   (\<forall>e s'. createTunnel g now kp inp s = (Inl e, s') \<longrightarrow>
      s' = s \<and> e \<noteq> UniqueViolation ''tunnels_gateway_id_private_ip_key'') \<and>
   (\<forall>price w. TUNNEL_NAME_RE (ci_name inp) \<and> ci_protocol inp \<in> {None, Some '''', Some ''wireguard''} \<and>
      speedTierPrice (ci_speedTier inp) s = Inr price \<and> tierAllowed ''wireguard'' (ci_speedTier inp) s \<and>
      wallet_of (ci_userId inp) s = Some w \<longrightarrow>
      (w_balance w < price \<longrightarrow> createTunnel g now kp inp s = (Inl (InsufficientCredit price (w_balance w)), s)) \<and>
      (price \<le> w_balance w \<and>
       \<not> (\<exists>v \<in> set (tunnels s). t_user_id v = ci_userId inp \<and> lower (t_name v) = lower (ci_name inp) \<and> t_deleted_at v = None) \<and>
       \<not> (\<exists>v \<in> set (gateways s). g_status v = GwActive \<and> g_wg_public_key v \<noteq> None) \<longrightarrow>
       createTunnel g now kp inp s = (Inl NoGatewayAvailable, s)))"
proof (intro conjI allI impI; (elim conjE)?)
  note ok = createTunnel_accepts [of g now kp inp s, unfolded pick_gateway_iff name_taken_def used_private_def key_used_alt]
  show "(\<exists>r s'. createTunnel g now kp inp s = (Inr r, s')) \<longleftrightarrow>
     TUNNEL_NAME_RE (ci_name inp) \<and> ci_protocol inp \<in> {None, Some '''', Some ''wireguard''} \<and>
     (\<exists>price w gw ip. speedTierPrice (ci_speedTier inp) s = Inr price \<and> tierAllowed ''wireguard'' (ci_speedTier inp) s \<and>
        wallet_of (ci_userId inp) s = Some w \<and> price \<le> w_balance w \<and>
        \<not> (\<exists>v \<in> set (tunnels s). t_user_id v = ci_userId inp \<and> lower (t_name v) = lower (ci_name inp) \<and> t_deleted_at v = None) \<and>
        (if ci_gatewayHostname inp = None \<or> ci_gatewayHostname inp = Some ''''
         then \<exists>xs ys. filter (\<lambda>v. g_status v = GwActive \<and> g_current_tunnels v < g_max_tunnels v \<and> g_wg_public_key v \<noteq> None)
             (gateways s) = xs @ gw # ys \<and> (\<forall>v \<in> set xs. g_current_tunnels gw < g_current_tunnels v) \<and>
             (\<forall>v \<in> set ys. g_current_tunnels gw \<le> g_current_tunnels v)
         else \<exists>ys. filter (\<lambda>v. ci_gatewayHostname inp = Some (g_hostname v) \<and> g_status v = GwActive \<and>
             g_wg_public_key v \<noteq> None) (gateways s) = gw # ys) \<and>
        allocatePrivateIp (g_private_subnet gw) (map t_private_ip (filter (\<lambda>v. t_gateway_id v = g_id gw) (tunnels s))) = Inr ip \<and>
        \<not> (\<exists>v \<in> set (tunnels s). t_gateway_id v = g_id gw \<and> t_wg_public_key v = Some (kp_publicKey kp)) \<and>
        \<not> (\<exists>x \<in> set (txs s). x_idempotency_key x =
             Some (''buy-tunnel-'' @ g (length (tunnels s)) @ ''-'' @ show_int now)))"
    by (rule ok)
next
  fix e s'
  assume "createTunnel g now kp inp s = (Inl e, s')"
  then show "s' = s" "e \<noteq> UniqueViolation ''tunnels_gateway_id_private_ip_key''" by (rule createTunnel_refused)+
next
  fix price w
  assume a: "TUNNEL_NAME_RE (ci_name inp)" "ci_protocol inp \<in> {None, Some '''', Some ''wireguard''}"
    "speedTierPrice (ci_speedTier inp) s = Inr price" "tierAllowed ''wireguard'' (ci_speedTier inp) s"
    "wallet_of (ci_userId inp) s = Some w" 
  note run = createTunnel_reaches_tx [OF a(1-4)]
  show "createTunnel g now kp inp s = (Inl (InsufficientCredit price (w_balance w)), s)" if "w_balance w < price"
    using a(5) that unfolding run by (simp add: createTunnel_tx_def check_buyer_def sql_begin_def)
  show "createTunnel g now kp inp s = (Inl NoGatewayAvailable, s)" if "price \<le> w_balance w"
       "\<not> (\<exists>v \<in> set (tunnels s). t_user_id v = ci_userId inp \<and> lower (t_name v) = lower (ci_name inp) \<and> t_deleted_at v = None)"
       "\<not> (\<exists>v \<in> set (gateways s). g_status v = GwActive \<and> g_wg_public_key v \<noteq> None)"
  proof -
    have "pick_gateway (\<lambda>gw. g_wg_public_key gw \<noteq> None) (ci_gatewayHostname inp) s = None"
    proof (rule ccontr)
      assume "pick_gateway (\<lambda>gw. g_wg_public_key gw \<noteq> None) (ci_gatewayHostname inp) s \<noteq> None"
      then obtain gw where "pick_gateway (\<lambda>gw. g_wg_public_key gw \<noteq> None) (ci_gatewayHostname inp) s = Some gw" by blast
      from pick_gateway_Some [OF this] that(3) show False by blast
    qed
    moreover have "check_buyer (ci_userId inp) (ci_name inp) price s = Inr w"
      using a(5) that(1,2) unfolding check_buyer_Inr name_taken_def by blast
    ultimately show ?thesis unfolding run createTunnel_tx_def sql_begin_def by simp
  qed
qed

theorem createTunnel_errors_witness:
  "\<not> (\<exists>r s'. createTunnel demo_gen T0 demo_keys (demo_input\<lparr>ci_name := ''no spaces''\<rparr>) demo_db = (Inr r, s')) \<and>
   createTunnel demo_gen T0 demo_keys demo_input (demo_db\<lparr>wallets := [demo_wallet\<lparr>w_balance := 500\<rparr>]\<rparr>) =
     (Inl (InsufficientCredit 10000 500), demo_db\<lparr>wallets := [demo_wallet\<lparr>w_balance := 500\<rparr>]\<rparr>)"
proof -
  let ?s = "demo_db\<lparr>wallets := [demo_wallet\<lparr>w_balance := 500\<rparr>]\<rparr>"
  have n: "\<not> TUNNEL_NAME_RE (ci_name (demo_input\<lparr>ci_name := ''no spaces''\<rparr>))" by code_simp
  have c: "TUNNEL_NAME_RE (ci_name demo_input)" "ci_protocol demo_input \<in> {None, Some '''', Some ''wireguard''}"
    "speedTierPrice (ci_speedTier demo_input) ?s = Inr 10000" "tierAllowed ''wireguard'' (ci_speedTier demo_input) ?s"
    "wallet_of (ci_userId demo_input) ?s = Some (demo_wallet\<lparr>w_balance := 500\<rparr>)" by code_simp+
  have b: "w_balance (demo_wallet\<lparr>w_balance := 500\<rparr>) = 500" by simp
  have "createTunnel demo_gen T0 demo_keys demo_input ?s = (Inl (InsufficientCredit 10000 500), ?s)"
    using createTunnel_errors [of demo_gen T0 demo_keys demo_input ?s, THEN conjunct2, THEN conjunct2, rule_format, of 10000
        "demo_wallet\<lparr>w_balance := 500\<rparr>", THEN conjunct1] c b by simp
  moreover have "\<not> (\<exists>r s'. createTunnel demo_gen T0 demo_keys (demo_input\<lparr>ci_name := ''no spaces''\<rparr>) demo_db = (Inr r, s'))"
    using createTunnel_errors [of demo_gen T0 demo_keys "demo_input\<lparr>ci_name := ''no spaces''\<rparr>" demo_db, THEN conjunct1] n
    by blast
  ultimately show ?thesis by blast
qed

text \<open>The state a deletion leaves.\<close>

lemma deleteTunnel_state:
  assumes "fst (deleteTunnel agent now tid u s) = Inr r"
  obtains t where "t \<in> set (tunnels s)" "t_id t = tid" "t_user_id t = u" "t_deleted_at t = None"
    "attached_rows tid s = []" "r = tid"
    "snd (deleteTunnel agent now tid u s) =
       s\<lparr>tunnels := upd_where (\<lambda>v. t_id v = tid) (\<lambda>v. v\<lparr>t_status := TunDeleted, t_deleted_at := Some now\<rparr>) (tunnels s),
         gateways := upd_where (\<lambda>gw. g_id gw = t_gateway_id t)
           (\<lambda>gw. gw\<lparr>g_current_tunnels := max (g_current_tunnels gw - 1) 0\<rparr>) (gateways s),
         audits := audits s @ [\<lparr>a_actor_type = ActUser, a_actor_id = Some u, a_action = ''tunnel.delete'',
           a_resource_type = Some ''tunnel'', a_resource_id = Some tid, a_metadata = [(''noRefund'', JBool True)],
           a_created_at = now\<rparr>],
         calls := calls s @ [DeletePeer (t_gateway_id t) (t_wg_public_key t)]\<rparr>"
proof -
  have "\<exists>x s1. deleteTunnel_tx now tid u s = Inr (x, s1)" and r: "r = tid"
    using assms by (auto simp: deleteTunnel_run split: sum.splits)
  then obtain x s1 where x: "deleteTunnel_tx now tid u s = Inr (x, s1)" by blast
  then obtain t where t: "find (\<lambda>t. t_id t = tid \<and> t_user_id t = u \<and> t_deleted_at t = None) (tunnels s) = Some t"
    and a: "attached_rows tid s = []" and key: "x = (t_gateway_id t, t_wg_public_key t)"
    and s1: "s1 = audit now ActUser (Some u) ''tunnel.delete'' (Some ''tunnel'') (Some tid) [(''noRefund'', JBool True)]
          (gateway_drop (t_gateway_id t) (mark_deleted now tid s))"
    unfolding deleteTunnel_tx_Inr by blast
  note tx = x [unfolded key]
  have "snd (deleteTunnel agent now tid u s) = send (DeletePeer (t_gateway_id t) (t_wg_public_key t)) s1"
    unfolding deleteTunnel_run tx by simp
  also have "\<dots> = s\<lparr>tunnels := upd_where (\<lambda>v. t_id v = tid) (\<lambda>v. v\<lparr>t_status := TunDeleted, t_deleted_at := Some now\<rparr>) (tunnels s),
         gateways := upd_where (\<lambda>gw. g_id gw = t_gateway_id t)
           (\<lambda>gw. gw\<lparr>g_current_tunnels := max (g_current_tunnels gw - 1) 0\<rparr>) (gateways s),
         audits := audits s @ [\<lparr>a_actor_type = ActUser, a_actor_id = Some u, a_action = ''tunnel.delete'',
           a_resource_type = Some ''tunnel'', a_resource_id = Some tid, a_metadata = [(''noRefund'', JBool True)],
           a_created_at = now\<rparr>],
         calls := calls s @ [DeletePeer (t_gateway_id t) (t_wg_public_key t)]\<rparr>"
    by (simp add: s1 mark_deleted_def stmt_defs)
  finally show thesis
    using that [OF _ _ _ _ a r] find_SomeD [OF t] by blast
qed

lemma deleteTunnel_accepts:
  "fst (deleteTunnel agent now tid u s) = Inr tid \<longleftrightarrow>
      (\<exists>t \<in> set (tunnels s). t_id t = tid \<and> t_user_id t = u \<and> t_deleted_at t = None) \<and>
      (\<forall>p \<in> set (ips s). i_tunnel_id p = Some tid \<longrightarrow> i_status p \<noteq> IpAllocated)"
proof -
  let ?row = "find (\<lambda>t. t_id t = tid \<and> t_user_id t = u \<and> t_deleted_at t = None) (tunnels s)"
  have ex: "(\<exists>t. ?row = Some t) \<longleftrightarrow> (\<exists>t \<in> set (tunnels s). t_id t = tid \<and> t_user_id t = u \<and> t_deleted_at t = None)"
    using find_None_iff_none [of "\<lambda>t. t_id t = tid \<and> t_user_id t = u \<and> t_deleted_at t = None" "tunnels s"] by auto
  have at: "attached_rows tid s = [] \<longleftrightarrow> (\<forall>p \<in> set (ips s). i_tunnel_id p = Some tid \<longrightarrow> i_status p \<noteq> IpAllocated)"
    by (auto simp: attached_rows_def filter_empty_conv)
  have run: "fst (deleteTunnel agent now tid u s) = Inr tid \<longleftrightarrow> (\<exists>r s1. deleteTunnel_tx now tid u s = Inr (r, s1))"
    by (auto simp: deleteTunnel_run split: sum.splits)
  show ?thesis unfolding run deleteTunnel_tx_Inr ex [symmetric] at [symmetric] by auto
qed

lemma deleteTunnel_fail: "fst (deleteTunnel agent now tid u s) = Inl e \<Longrightarrow> snd (deleteTunnel agent now tid u s) = s"
  by (auto simp: deleteTunnel_run split: sum.splits)

text \<open>
  C14. A customer can delete exactly their own live tunnel with no allocated address attached; the
  answer names it. The state is then the old one with that row closed, the counter of its gateway
  one lower (never below 0), one audit row, and the removal of the peer with the row's key
  requested from that gateway, whether or not the agent answers. No other tunnel or gateway
  changes, no address, and no money is returned. In every other case nothing changes.
\<close>

theorem deleteTunnel_correct:
  assumes ids: "ids_ok s"
  shows "(fst (deleteTunnel agent now tid u s) = Inr tid \<longleftrightarrow>
      (\<exists>t \<in> set (tunnels s). t_id t = tid \<and> t_user_id t = u \<and> t_deleted_at t = None) \<and>
      (\<forall>p \<in> set (ips s). i_tunnel_id p = Some tid \<longrightarrow> i_status p \<noteq> IpAllocated)) \<and>
    (case fst (deleteTunnel agent now tid u s) of
      Inr r \<Rightarrow> r = tid \<and> (\<exists>t \<in> set (tunnels s). t_id t = tid \<and> t_user_id t = u \<and>
        (\<forall>v \<in> set (tunnels s). t_id v = tid \<longrightarrow> v = t) \<and>
        snd (deleteTunnel agent now tid u s) =
          s\<lparr>tunnels := upd_where (\<lambda>v. t_id v = tid) (\<lambda>v. v\<lparr>t_status := TunDeleted, t_deleted_at := Some now\<rparr>) (tunnels s),
            gateways := upd_where (\<lambda>gw. g_id gw = t_gateway_id t)
              (\<lambda>gw. gw\<lparr>g_current_tunnels := max (g_current_tunnels gw - 1) 0\<rparr>) (gateways s),
            audits := audits s @ [\<lparr>a_actor_type = ActUser, a_actor_id = Some u, a_action = ''tunnel.delete'',
              a_resource_type = Some ''tunnel'', a_resource_id = Some tid, a_metadata = [(''noRefund'', JBool True)],
              a_created_at = now\<rparr>],
            calls := calls s @ [DeletePeer (t_gateway_id t) (t_wg_public_key t)]\<rparr>)
    | Inl e \<Rightarrow> snd (deleteTunnel agent now tid u s) = s)"
proof (intro conjI deleteTunnel_accepts)
  show "case fst (deleteTunnel agent now tid u s) of
      Inr r \<Rightarrow> r = tid \<and> (\<exists>t \<in> set (tunnels s). t_id t = tid \<and> t_user_id t = u \<and>
        (\<forall>v \<in> set (tunnels s). t_id v = tid \<longrightarrow> v = t) \<and>
        snd (deleteTunnel agent now tid u s) =
          s\<lparr>tunnels := upd_where (\<lambda>v. t_id v = tid) (\<lambda>v. v\<lparr>t_status := TunDeleted, t_deleted_at := Some now\<rparr>) (tunnels s),
            gateways := upd_where (\<lambda>gw. g_id gw = t_gateway_id t)
              (\<lambda>gw. gw\<lparr>g_current_tunnels := max (g_current_tunnels gw - 1) 0\<rparr>) (gateways s),
            audits := audits s @ [\<lparr>a_actor_type = ActUser, a_actor_id = Some u, a_action = ''tunnel.delete'',
              a_resource_type = Some ''tunnel'', a_resource_id = Some tid, a_metadata = [(''noRefund'', JBool True)],
              a_created_at = now\<rparr>],
            calls := calls s @ [DeletePeer (t_gateway_id t) (t_wg_public_key t)]\<rparr>)
    | Inl e \<Rightarrow> snd (deleteTunnel agent now tid u s) = s"
  proof (cases "fst (deleteTunnel agent now tid u s)")
    case (Inl e)
    with deleteTunnel_fail [OF Inl] show ?thesis by simp
  next
    case (Inr r)
    obtain t where t: "t \<in> set (tunnels s)" "t_id t = tid" "t_user_id t = u" "r = tid"
      and s': "snd (deleteTunnel agent now tid u s) =
       s\<lparr>tunnels := upd_where (\<lambda>v. t_id v = tid) (\<lambda>v. v\<lparr>t_status := TunDeleted, t_deleted_at := Some now\<rparr>) (tunnels s),
         gateways := upd_where (\<lambda>gw. g_id gw = t_gateway_id t)
           (\<lambda>gw. gw\<lparr>g_current_tunnels := max (g_current_tunnels gw - 1) 0\<rparr>) (gateways s),
         audits := audits s @ [\<lparr>a_actor_type = ActUser, a_actor_id = Some u, a_action = ''tunnel.delete'',
           a_resource_type = Some ''tunnel'', a_resource_id = Some tid, a_metadata = [(''noRefund'', JBool True)],
           a_created_at = now\<rparr>],
         calls := calls s @ [DeletePeer (t_gateway_id t) (t_wg_public_key t)]\<rparr>"
      by (rule deleteTunnel_state [OF Inr])
    have "\<forall>v \<in> set (tunnels s). t_id v = tid \<longrightarrow> v = t"
      using ids t(1,2) distinct_key_eq [of t_id "tunnels s" _ t] by (simp add: ids_ok_def)
    with t show ?thesis unfolding Inr sum.case s' by blast
  qed
qed

definition bare_db :: db where
  "bare_db = demo_db\<lparr>ips := []\<rparr>"

theorem deleteTunnel_correct_witness:
  "fst (deleteTunnel (\<lambda>_. None) T0 ''t1'' ''u1'' bare_db) = Inr ''t1'' \<and>
   (\<exists>t :: tunnel. gateways (snd (deleteTunnel (\<lambda>_. None) T0 ''t1'' ''u1'' bare_db)) = upd_where (\<lambda>gw. g_id gw = t_gateway_id t)
      (\<lambda>gw. gw\<lparr>g_current_tunnels := max (g_current_tunnels gw - 1) 0\<rparr>) (gateways bare_db)) \<and>
   snd (deleteTunnel (\<lambda>_. None) T0 ''t1'' ''u1'' demo_db) = demo_db"
proof -
  have i: "ids_ok bare_db" "ids_ok demo_db" by code_simp+
  note a = deleteTunnel_correct [OF i(1), of "\<lambda>_. None" T0 "''t1''" "''u1''"]
  have "\<exists>t \<in> set (tunnels bare_db). t_id t = ''t1'' \<and> t_user_id t = ''u1'' \<and> t_deleted_at t = None"
    "\<forall>p \<in> set (ips bare_db). i_tunnel_id p = Some ''t1'' \<longrightarrow> i_status p \<noteq> IpAllocated" by code_simp+
  with conjunct1 [OF a] have 1: "fst (deleteTunnel (\<lambda>_. None) T0 ''t1'' ''u1'' bare_db) = Inr ''t1''" by blast
  have 2: "\<exists>t :: tunnel. gateways (snd (deleteTunnel (\<lambda>_. None) T0 ''t1'' ''u1'' bare_db)) = upd_where (\<lambda>gw. g_id gw = t_gateway_id t)
      (\<lambda>gw. gw\<lparr>g_current_tunnels := max (g_current_tunnels gw - 1) 0\<rparr>) (gateways bare_db)"
  proof -
    from conjunct2 [OF a] obtain t :: tunnel where
      "snd (deleteTunnel (\<lambda>_. None) T0 ''t1'' ''u1'' bare_db) = bare_db\<lparr>
        tunnels := upd_where (\<lambda>v. t_id v = ''t1'') (\<lambda>v. v\<lparr>t_status := TunDeleted, t_deleted_at := Some T0\<rparr>) (tunnels bare_db),
        gateways := upd_where (\<lambda>gw. g_id gw = t_gateway_id t)
          (\<lambda>gw. gw\<lparr>g_current_tunnels := max (g_current_tunnels gw - 1) 0\<rparr>) (gateways bare_db),
        audits := audits bare_db @ [\<lparr>a_actor_type = ActUser, a_actor_id = Some ''u1'', a_action = ''tunnel.delete'',
          a_resource_type = Some ''tunnel'', a_resource_id = Some ''t1'', a_metadata = [(''noRefund'', JBool True)],
          a_created_at = T0\<rparr>],
        calls := calls bare_db @ [DeletePeer (t_gateway_id t) (t_wg_public_key t)]\<rparr>" unfolding 1 sum.case by blast
    then show ?thesis by (intro exI [of _ t]) simp
  qed
  have "isl (fst (deleteTunnel (\<lambda>_. None) T0 ''t1'' ''u1'' demo_db))" by code_simp
  then have "snd (deleteTunnel (\<lambda>_. None) T0 ''t1'' ''u1'' demo_db) = demo_db"
    using conjunct2 [OF deleteTunnel_correct [OF i(2), of "\<lambda>_. None" T0 "''t1''" "''u1''"]]
    by (auto simp: isl_def)
  with 1 2 show ?thesis by blast
qed

text \<open>
  Jobs are retried by the queue: once an activation has succeeded, running it again, with any
  answer of the agent, changes nothing and reports \<^verbatim>\<open>alreadyActive\<close>.
\<close>

theorem activateTunnel_retry:
  assumes "activateTunnel agent now tid s = (Inr b, s')"
  shows "activateTunnel agent2 now2 tid s' = (Inr True, s')"
proof -
  from assms obtain t gw where tg: "tunnel_with_gateway tid s = Some (t, gw)"
    by (auto simp: activateTunnel_def split: option.splits)
  show ?thesis
  proof (cases "t_status t = TunActive")
    case True
    with assms tg show ?thesis by (auto simp: activateTunnel_def)
  next
    case False
    with assms tg have s': "tunnels s' = upd_where (\<lambda>t. t_id t = tid) (\<lambda>t. t\<lparr>t_status := TunActive\<rparr>) (tunnels s)"
      "gateways s' = gateways s" by (auto simp: activateTunnel_def flow)
    have "tunnel_with_gateway tid s' = Some (t\<lparr>t_status := TunActive\<rparr>, gw)"
      using tg by (auto simp: tunnel_with_gateway_def s' find_upd_where split: option.splits dest: find_SomeD)
    then show ?thesis by (simp add: activateTunnel_def)
  qed
qed

definition pending_db :: db where
  "pending_db = demo_db\<lparr>tunnels := [demo_tunnel, new_wg_tunnel ''row-1'' demo_input ''gw1'' 10000 ''10.8.0.3'' demo_keys T0]\<rparr>"

theorem activateTunnel_retry_witness:
  "\<exists>s'. activateTunnel (\<lambda>_. None) T0 ''row-1'' pending_db = (Inr False, s') \<and>
     activateTunnel (\<lambda>_. Some (JsError ''down'')) T0 ''row-1'' s' = (Inr True, s')"
proof -
  have "fst (activateTunnel (\<lambda>_. None) T0 ''row-1'' pending_db) = Inr False" by code_simp
  note run = pair_fst [OF this]
  from run activateTunnel_retry [OF run] show ?thesis by blast
qed

text \<open>
  Activation looks only at \<^verbatim>\<open>status = 'active'\<close>: a job that runs after the customer deleted the
  tunnel (the deletion does not cancel it) creates the peer on the gateway and sets the deleted row
  back to active, with \<^verbatim>\<open>deleted_at\<close> still set, so that drift removal, which reads live rows only,
  is all that takes the peer away again.
\<close>

theorem activateTunnel_revives_deleted:
  assumes "tunnel_with_gateway tid s = Some (t, gw)" "t_status t = TunDeleted" "t_deleted_at t = Some d"
    and "\<And>c. agent c = None"
  shows "\<exists>s'. activateTunnel agent now tid s = (Inr False, s') \<and>
     find (\<lambda>t. t_id t = tid) (tunnels s') = Some (t\<lparr>t_status := TunActive\<rparr>) \<and>
     calls s' = calls s @ [CreatePeer (g_id gw) tid (t_wg_public_key t) (t_private_ip t) [] (tierRateKbit (t_speed_tier t))]"
proof -
  from assms(1) have f: "find (\<lambda>t. t_id t = tid) (tunnels s) = Some t"
    by (auto simp: tunnel_with_gateway_def split: option.splits)
  then have "t_id t = tid" by (rule find_SomeD(2))
  with f assms show ?thesis by (simp add: activateTunnel_def flow_defs find_upd_where)
qed

theorem activateTunnel_revives_deleted_witness:
  "\<exists>s' t. activateTunnel (\<lambda>_. None) T0 ''row-1'' (mark_deleted T0 ''row-1'' pending_db) = (Inr False, s') \<and>
     find (\<lambda>t. t_id t = ''row-1'') (tunnels s') = Some t \<and> t_status t = TunActive \<and> t_deleted_at t = Some T0"
proof -
  let ?s = "mark_deleted T0 ''row-1'' pending_db"
  have "map_option (\<lambda>(t, gw). (t_status t, t_deleted_at t)) (tunnel_with_gateway ''row-1'' ?s) = Some (TunDeleted, Some T0)"
    by code_simp
  then obtain t gw where "tunnel_with_gateway ''row-1'' ?s = Some (t, gw)" "t_status t = TunDeleted" "t_deleted_at t = Some T0"
    by auto
  from activateTunnel_revives_deleted [OF this] show ?thesis using \<open>t_deleted_at t = Some T0\<close> by fastforce
qed

end
