(* ===== verification/ChangeTier.thy ===== *)
theory ChangeTier
  imports Provision
begin

text \<open>
  \<^verbatim>\<open>packages/provisioning/src/change-tier.ts\<close>: switching a tunnel to another speed tier for the
  full price of the new tier, with the new shaping rate pushed to the gateway after the commit.
  A gateway row that exists has an agent endpoint.
\<close>

definition VALID_TIERS :: "string list" where
  "VALID_TIERS = [''tier_100mb'', ''tier_500mb'', ''tier_1gb'']"

record ChangeTierResult =
  ct_tunnelId :: uuid
  ct_oldTier :: string
  ct_newTier :: string
  ct_chargedSatang :: satang
  ct_balanceAfter :: satang
  ct_nextBillingAt :: ms

text \<open>What the transaction hands to the push: nothing when the charge was already there.\<close>

record tier_push =
  tp_gateway :: uuid
  tp_protocol :: string
  tp_pubKey :: "string option"
  tp_privateIp :: ip4
  tp_ips :: "cidr list"

definition tier_key :: "uuid \<Rightarrow> string \<Rightarrow> string \<Rightarrow> ms \<Rightarrow> string" where
  "tier_key tid old new now = ''tier-change-'' @ tid @ ''-'' @ old @ ''-'' @ new @ ''-'' @ show_int (now div 1000)"

definition set_tier :: "ms \<Rightarrow> string \<Rightarrow> satang \<Rightarrow> tunnel \<Rightarrow> tunnel" where
  "set_tier now tier price t = t\<lparr>t_speed_tier := tier, t_price_satang := Some price, t_next_billing_at := nextBillingAt now,
     t_last_billed_at := Some now, t_status := TunActive, t_suspended_at := None, t_delete_after := None\<rparr>"

definition changeTier_tx :: "uuid_gen \<Rightarrow> ms \<Rightarrow> uuid \<Rightarrow> uuid \<Rightarrow> string \<Rightarrow> satang \<Rightarrow> db \<Rightarrow>
    error + ((string \<times> satang \<times> tier_push option) \<times> db)" where
  "changeTier_tx g now userId tid newTier newPrice s =
     andThen (or_throw (NotFound ''tunnel'')
       (find (\<lambda>t. t_id t = tid \<and> t_user_id t = userId \<and> t_deleted_at t = None) (tunnels s))) (\<lambda>t.
     andThen (throw_if (t_speed_tier t = newTier) (ValidationError (''tunnel is already on '' @ newTier))) (\<lambda>_.
     andThen (throw_if (t_status t = TunProvisioning)
       (ValidationError ''tunnel is still provisioning, try again in a moment'')) (\<lambda>_.
     andThen (throw_if (\<not> tierAllowed (t_protocol t) newTier s)
       (ValidationError (newTier @ '' is not available for '' @ t_protocol t))) (\<lambda>_.
     andThen (or_throw (NotFound ''wallet'') (wallet_of userId s)) (\<lambda>w.
     andThen (throw_if (w_balance w < newPrice) (InsufficientCredit newPrice (w_balance w))) (\<lambda>_.
     case insert_tx_once \<lparr>x_id = g (length (txs s)), x_user_id = userId, x_wallet_id = w_id w,
         x_type = TxSubscriptionCharge, x_amount = - newPrice, x_balance_after = w_balance w - newPrice,
         x_description = ''Tier change: '' @ t_name t @ '' '' @ t_speed_tier t @ '' -> '' @ newTier,
         x_code_redemption_id = None, x_admin_user_id = None,
         x_idempotency_key = Some (tier_key tid (t_speed_tier t) newTier now)\<rparr> s of
       None \<Rightarrow> Inr ((t_speed_tier t, w_balance w, None), s)
     | Some s1 \<Rightarrow>
         let s2 = wallet_debit (w_id w) (w_balance w - newPrice) newPrice s1;
             s3 = set_tunnels (\<lambda>v. t_id v = tid) (set_tier now newTier newPrice) s2;
             s4 = audit now ActUser (Some userId) ''tunnel.tier_change'' (Some ''tunnel'') (Some tid)
               [(''fromTier'', JStr (t_speed_tier t)), (''toTier'', JStr newTier), (''priceSatang'', JNum newPrice)] s3
         in Inr ((t_speed_tier t, w_balance w - newPrice,
              map_option (\<lambda>gw. \<lparr>tp_gateway = g_id gw, tp_protocol = t_protocol t, tp_pubKey = t_wg_public_key t,
                tp_privateIp = t_private_ip t, tp_ips = tunnel_cidrs tid s3\<rparr>)
                (find (\<lambda>gw. g_id gw = t_gateway_id t) (gateways s3))), s4)))))))"

definition tier_call :: "uuid \<Rightarrow> string \<Rightarrow> tier_push \<Rightarrow> gw_call option" where
  "tier_call tid newTier p =
     (if tp_protocol p = ''gre''
      then Some (PatchGrePeer (tp_gateway p) (peerIdFromTunnelId tid) None None (Some (tierRateKbit newTier)))
      else case tp_pubKey p of
        Some (c # cs) \<Rightarrow> Some (UpdatePeerIps (tp_gateway p) (Some (c # cs)) (tp_privateIp p) (tp_ips p)
          (Some (tierRateKbit newTier)))
      | _ \<Rightarrow> None)"

text \<open>The push is best effort: an error is only logged.\<close>

definition push_tier :: "agent \<Rightarrow> uuid \<Rightarrow> string \<Rightarrow> tier_push option \<Rightarrow> unit op" where
  "push_tier agent tid newTier push s =
     (case push of
        None \<Rightarrow> (Inr (), s)
      | Some p \<Rightarrow> (case tier_call tid newTier p of
          None \<Rightarrow> (Inr (), s)
        | Some c \<Rightarrow> seq (catch_op (request agent c)) (\<lambda>_. done_with ()) s))"

definition changeTunnelTier :: "agent \<Rightarrow> uuid_gen \<Rightarrow> ms \<Rightarrow> uuid \<Rightarrow> uuid \<Rightarrow> string \<Rightarrow> ChangeTierResult op" where
  "changeTunnelTier agent g now userId tid newTier s =
     seq (attempt (throw_if (userId = [] \<or> tid = []) (ValidationError ''userId and tunnelId required''))) (\<lambda>_.
     seq (attempt (throw_if (newTier \<notin> set VALID_TIERS) (ValidationError (''invalid tier '' @ newTier)))) (\<lambda>_.
     seq (attempt (speedTierPrice newTier s)) (\<lambda>newPrice.
     seq (sql_begin (changeTier_tx g now userId tid newTier newPrice)) (\<lambda>(oldTier, newBalance, push).
     seq (push_tier agent tid newTier push) (\<lambda>_.
     done_with \<lparr>ct_tunnelId = tid, ct_oldTier = oldTier, ct_newTier = newTier, ct_chargedSatang = newPrice,
       ct_balanceAfter = newBalance, ct_nextBillingAt = nextBillingAt now\<rparr>))))) s"

section \<open>Correctness\<close>

text \<open>The state after a change that charged: one ledger row, the wallet, the tunnel row, nothing else.\<close>

definition tier_charged :: "ms \<Rightarrow> string \<Rightarrow> satang \<Rightarrow> tunnel \<Rightarrow> wallet \<Rightarrow> db \<Rightarrow> db \<Rightarrow> bool" where
  "tier_charged now tier price t w s s' \<longleftrightarrow>
     (\<exists>x a. s' = s\<lparr>wallets := upd_where (\<lambda>v. w_id v = w_id w) (\<lambda>v. v\<lparr>w_balance := w_balance w - price,
               w_lifetime_spent := w_lifetime_spent v + price, w_version := w_version v + 1\<rparr>) (wallets s),
             txs := txs s @ [x],
             tunnels := upd_where (\<lambda>v. t_id v = t_id t) (set_tier now tier price) (tunnels s),
             audits := audits s @ [a], calls := calls s'\<rparr> \<and>
        x_user_id x = t_user_id t \<and> x_wallet_id x = w_id w \<and> x_type x = TxSubscriptionCharge \<and> x_amount x = - price \<and>
        x_balance_after x = w_balance w - price \<and> \<not> key_used (x_idempotency_key x) s \<and>
        x_idempotency_key x = Some (tier_key (t_id t) (t_speed_tier t) tier now) \<and>
        a_action a = ''tunnel.tier_change'' \<and> a_actor_id a = Some (t_user_id t) \<and> a_resource_id a = Some (t_id t))"

lemma tier_chargedD:
  assumes "tier_charged now tier price t w s s'"
  shows "\<exists>x. \<not> key_used (x_idempotency_key x) s \<and> x_wallet_id x = w_id w \<and> x_amount x = - price \<and>
        x_balance_after x = w_balance w - price \<and> txs s' = txs s @ [x]"
    and "wallets s' = wallets (wallet_debit (w_id w) (w_balance w - price) price s)"
    and "tunnels s' = upd_where (\<lambda>v. t_id v = t_id t) (set_tier now tier price) (tunnels s)"
    and "ips s' = ips s" "blocks s' = blocks s" "gateways s' = gateways s" "pools s' = pools s"
    and "pricing_speed s' = pricing_speed s"
proof -
  from assms obtain x a where x: "\<not> key_used (x_idempotency_key x) s" "x_wallet_id x = w_id w" "x_amount x = - price"
      "x_balance_after x = w_balance w - price"
    and s': "s' = s\<lparr>wallets := upd_where (\<lambda>v. w_id v = w_id w) (\<lambda>v. v\<lparr>w_balance := w_balance w - price,
               w_lifetime_spent := w_lifetime_spent v + price, w_version := w_version v + 1\<rparr>) (wallets s),
             txs := txs s @ [x],
             tunnels := upd_where (\<lambda>v. t_id v = t_id t) (set_tier now tier price) (tunnels s),
             audits := audits s @ [a], calls := calls s'\<rparr>"
    unfolding tier_charged_def by blast
  have f: "wallets s' = wallets (wallet_debit (w_id w) (w_balance w - price) price s)" "txs s' = txs s @ [x]"
    "tunnels s' = upd_where (\<lambda>v. t_id v = t_id t) (set_tier now tier price) (tunnels s)"
    "ips s' = ips s" "blocks s' = blocks s" "gateways s' = gateways s" "pools s' = pools s" "pricing_speed s' = pricing_speed s"
    by (subst s', simp add: wallet_debit_def)+
  show "\<exists>x. \<not> key_used (x_idempotency_key x) s \<and> x_wallet_id x = w_id w \<and> x_amount x = - price \<and>
        x_balance_after x = w_balance w - price \<and> txs s' = txs s @ [x]" using x f(2) by blast
  show "wallets s' = wallets (wallet_debit (w_id w) (w_balance w - price) price s)" by (rule f)
  show "tunnels s' = upd_where (\<lambda>v. t_id v = t_id t) (set_tier now tier price) (tunnels s)" by (rule f)
  show "ips s' = ips s" "blocks s' = blocks s" "gateways s' = gateways s" "pools s' = pools s"
    "pricing_speed s' = pricing_speed s" by (rule f)+
qed

definition the_push :: "tunnel \<Rightarrow> db \<Rightarrow> tier_push option" where
  "the_push t s = map_option (\<lambda>gw. \<lparr>tp_gateway = g_id gw, tp_protocol = t_protocol t, tp_pubKey = t_wg_public_key t,
     tp_privateIp = t_private_ip t, tp_ips = tunnel_cidrs (t_id t) s\<rparr>) (find (\<lambda>gw. g_id gw = t_gateway_id t) (gateways s))"

lemma tier_charged_ledger:
  assumes "ledger_ok s" "wallet_of u s = Some w" "price \<le> w_balance w" "tier_charged now tier price t w s s'"
  shows "ledger_ok s'"
proof -
  have w: "w \<in> set (wallets s)" using wallet_of_Some [OF assms(2)] by simp
  from tier_chargedD(1,2) [OF assms(4)] show ?thesis
    using ledger_debit [OF assms(1) w assms(3)] by blast
qed

lemma changeTier_tx_Inr:
  assumes "changeTier_tx g now u tid tier price s = Inr ((old, bal, push), s')"
  obtains t w where
    "find (\<lambda>t. t_id t = tid \<and> t_user_id t = u \<and> t_deleted_at t = None) (tunnels s) = Some t"
    "t_speed_tier t \<noteq> tier" "t_status t \<noteq> TunProvisioning" "tierAllowed (t_protocol t) tier s"
    "wallet_of u s = Some w" "price \<le> w_balance w" "old = t_speed_tier t"
    "s' = s \<and> push = None \<and> bal = w_balance w \<and> key_used (Some (tier_key tid (t_speed_tier t) tier now)) s \<or>
     tier_charged now tier price t w s s' \<and> calls s' = calls s \<and> bal = w_balance w - price \<and> push = the_push t s"
proof -
  from assms obtain t w where
    1: "find (\<lambda>t. t_id t = tid \<and> t_user_id t = u \<and> t_deleted_at t = None) (tunnels s) = Some t"
    "t_speed_tier t \<noteq> tier" "t_status t \<noteq> TunProvisioning" "tierAllowed (t_protocol t) tier s"
    "wallet_of u s = Some w" "price \<le> w_balance w"
    by (auto simp: changeTier_tx_def flow)
  have tid: "t_id t = tid" "t_user_id t = u" using find_SomeD(2) [OF 1(1)] by simp_all
  let ?k = "Some (tier_key tid (t_speed_tier t) tier now)"
  show thesis
  proof (cases "key_used ?k s")
    case True
    with assms 1 have "s' = s" "push = None" "bal = w_balance w" "old = t_speed_tier t"
      by (auto simp: changeTier_tx_def insert_tx_once_def)
    then show thesis using that [OF 1] True by simp
  next
    case False
    let ?x = "\<lparr>x_id = g (length (txs s)), x_user_id = u, x_wallet_id = w_id w, x_type = TxSubscriptionCharge,
      x_amount = - price, x_balance_after = w_balance w - price,
      x_description = ''Tier change: '' @ t_name t @ '' '' @ t_speed_tier t @ '' -> '' @ tier,
      x_code_redemption_id = None, x_admin_user_id = None, x_idempotency_key = ?k\<rparr>"
    let ?a = "\<lparr>a_actor_type = ActUser, a_actor_id = Some u, a_action = ''tunnel.tier_change'',
      a_resource_type = Some ''tunnel'', a_resource_id = Some tid,
      a_metadata = [(''fromTier'', JStr (t_speed_tier t)), (''toTier'', JStr tier), (''priceSatang'', JNum price)],
      a_created_at = now\<rparr>"
    from False assms 1 have s': "s' = s\<lparr>wallets := upd_where (\<lambda>v. w_id v = w_id w) (\<lambda>v. v\<lparr>w_balance := w_balance w - price,
               w_lifetime_spent := w_lifetime_spent v + price, w_version := w_version v + 1\<rparr>) (wallets s),
             txs := txs s @ [?x],
             tunnels := upd_where (\<lambda>v. t_id v = tid) (set_tier now tier price) (tunnels s),
             audits := audits s @ [?a]\<rparr>"
      and r: "old = t_speed_tier t" "bal = w_balance w - price" "push = the_push t s"
      by (auto simp: changeTier_tx_def insert_tx_once_def Let_def tid the_push_def stmt_defs
        tunnel_cidrs_def tunnel_singles_def tunnel_block_cidrs_def)
    have "tier_charged now tier price t w s s'"
      unfolding tier_charged_def s' using False
      by (intro exI [of _ ?x] exI [of _ ?a]) (simp add: tid)
    then show thesis using that [OF 1 r(1)] r(2,3) by (simp add: s')
  qed
qed

lemma push_tier_run:
  "push_tier agent tid tier push s = (Inr (), s\<lparr>calls := calls s @
     (case push of None \<Rightarrow> [] | Some p \<Rightarrow> case tier_call tid tier p of None \<Rightarrow> [] | Some c \<Rightarrow> [c])\<rparr>)"
  by (simp add: push_tier_def flow_defs send_def split: option.splits)

lemma changeTunnelTier_Inr:
  assumes "changeTunnelTier agent g now u tid tier s = (Inr r, s')"
  obtains price push s1 where "tier \<in> set VALID_TIERS" "speedTierPrice tier s = Inr price"
    "changeTier_tx g now u tid tier price s = Inr ((ct_oldTier r, ct_balanceAfter r, push), s1)"
    "r = \<lparr>ct_tunnelId = tid, ct_oldTier = ct_oldTier r, ct_newTier = tier, ct_chargedSatang = price,
       ct_balanceAfter = ct_balanceAfter r, ct_nextBillingAt = nextBillingAt now\<rparr>"
    "s' = s1\<lparr>calls := calls s1 @ (case push of None \<Rightarrow> [] | Some p \<Rightarrow> case tier_call tid tier p of None \<Rightarrow> [] | Some c \<Rightarrow> [c])\<rparr>"
proof -
  from assms obtain price old bal push s1 where a: "tier \<in> set VALID_TIERS" "speedTierPrice tier s = Inr price"
    and t: "changeTier_tx g now u tid tier price s = Inr ((old, bal, push), s1)"
    and s': "s' = s1\<lparr>calls := calls s1 @ (case push of None \<Rightarrow> [] | Some p \<Rightarrow> case tier_call tid tier p of None \<Rightarrow> [] | Some c \<Rightarrow> [c])\<rparr>"
    and r: "r = \<lparr>ct_tunnelId = tid, ct_oldTier = old, ct_newTier = tier, ct_chargedSatang = price,
      ct_balanceAfter = bal, ct_nextBillingAt = nextBillingAt now\<rparr>"
    unfolding changeTunnelTier_def
    by (auto simp: flow push_tier_run)
  from t r have "changeTier_tx g now u tid tier price s = Inr ((ct_oldTier r, ct_balanceAfter r, push), s1)" by simp
  from that [OF a this _ s'] r show thesis by simp
qed
lemma changeTunnelTier_fail:
  "fst (changeTunnelTier agent g now u tid tier s) = Inl e \<Longrightarrow> snd (changeTunnelTier agent g now u tid tier s) = s"
  by (auto simp: changeTunnelTier_def seq_def attempt_def done_with_def push_tier_run sql_begin_def
    split: sum.splits prod.splits)

interpretation change_tier: money_op "\<lambda>(u, tid, tier). changeTunnelTier agent g now u tid tier" for agent g now
proof unfold_locales
  fix s and y :: "uuid \<times> uuid \<times> string"
  assume ok: "ledger_ok s"
  obtain u tid tier where y: "y = (u, tid, tier)" by (cases y) auto
  have "ledger_ok (snd (changeTunnelTier agent g now u tid tier s))"
  proof (cases rule: op_cases [of "changeTunnelTier agent g now u tid tier s"])
    case (Fail e)
    with ok changeTunnelTier_fail show ?thesis by metis
  next
    case (Ok r)
    let ?s' = "snd (changeTunnelTier agent g now u tid tier s)"
    from Ok obtain price push s1 where
      t: "changeTier_tx g now u tid tier price s = Inr ((ct_oldTier r, ct_balanceAfter r, push), s1)"
      and s': "wallets ?s' = wallets s1" "txs ?s' = txs s1"
      by (rule changeTunnelTier_Inr) (auto dest: arg_cong [where f = wallets] arg_cong [where f = txs])
    have "ledger_ok s1"
      using t by (rule changeTier_tx_Inr) (use ok tier_charged_ledger [OF ok] in blast)
    then show ?thesis using ledger_ok_cong [OF s'] by simp
  qed
  then show "ledger_ok (snd ((\<lambda>(u, tid, tier). changeTunnelTier agent g now u tid tier) y s))" by (simp add: y)
qed
lemma set_tier_id [simp]: "t_id (set_tier now tier price t) = t_id t" "t_user_id (set_tier now tier price t) = t_user_id t"
  "t_speed_tier (set_tier now tier price t) = tier" "t_deleted_at (set_tier now tier price t) = t_deleted_at t"
  by (simp_all add: set_tier_def)

interpretation change_tier_iso: keeps tenancy_ok "\<lambda>_ _. True" "\<lambda>(u, tid, tier). changeTunnelTier agent g now u tid tier"
  for agent g now
proof unfold_locales
  fix s and y :: "uuid \<times> uuid \<times> string"
  assume ok: "tenancy_ok s"
  obtain u tid tier where y: "y = (u, tid, tier)" by (cases y) auto
  have "tenancy_ok (snd (changeTunnelTier agent g now u tid tier s))"
  proof (cases rule: op_cases [of "changeTunnelTier agent g now u tid tier s"])
    case (Fail e)
    with ok changeTunnelTier_fail show ?thesis by metis
  next
    case (Ok r)
    let ?s' = "snd (changeTunnelTier agent g now u tid tier s)"
    from Ok obtain price push s1 where
      t: "changeTier_tx g now u tid tier price s = Inr ((ct_oldTier r, ct_balanceAfter r, push), s1)"
      and s': "tunnels ?s' = tunnels s1" "blocks ?s' = blocks s1" "ips ?s' = ips s1"
      by (rule changeTunnelTier_Inr)
        (auto dest: arg_cong [where f = tunnels] arg_cong [where f = blocks] arg_cong [where f = ips])
    have ch: "tenancy_ok s1" if "tier_charged now tier price t w s s1" for t w
      by (rule tenancy_cong [OF ok])
        (use tier_chargedD [OF that] in \<open>auto intro!: tun_owners_upd owners_same(2)\<close>)
    from t have "tenancy_ok s1" by (rule changeTier_tx_Inr) (use ok ch in blast)
    then show ?thesis using tenancy_congs [OF s'] by simp
  qed
  then show "tenancy_ok (snd ((\<lambda>(u, tid, tier). changeTunnelTier agent g now u tid tier) y s))" by (simp add: y)
qed

lemma tier_call_rate:
  assumes "tier \<in> set VALID_TIERS"
  shows "(tier, tierRateKbit tier) \<in> {(''tier_100mb'', 160000), (''tier_500mb'', 800000), (''tier_1gb'', 1600000)}"
proof -
  have "\<forall>tier \<in> set VALID_TIERS. (tier, tierRateKbit tier) \<in>
      {(''tier_100mb'', 160000), (''tier_500mb'', 800000), (''tier_1gb'', 1600000)}" by code_simp
  with assms show ?thesis by blast
qed

lemma tier_push_calls:
  "(case the_push t s of None \<Rightarrow> [] | Some p \<Rightarrow> case tier_call (t_id t) tier p of None \<Rightarrow> [] | Some c \<Rightarrow> [c]) =
     (case find (\<lambda>gw. g_id gw = t_gateway_id t) (gateways s) of
        None \<Rightarrow> []
      | Some gw \<Rightarrow>
          if t_protocol t = ''gre''
          then [PatchGrePeer (g_id gw) (take 8 (filter (\<lambda>c. c \<noteq> CHR ''-'') (t_id t))) None None (Some (tierRateKbit tier))]
          else if t_wg_public_key t = None \<or> t_wg_public_key t = Some '''' then []
          else [UpdatePeerIps (g_id gw) (t_wg_public_key t) (t_private_ip t) (tunnel_cidrs (t_id t) s) (Some (tierRateKbit tier))])"
  by (auto simp: the_push_def tier_call_def peerIdFromTunnelId_def split: option.splits list.splits)

text \<open>
  C13. A tier change charges once. When \<^verbatim>\<open>changeTunnelTier\<close> returns and wrote to the ledger, the
  tunnel is the caller's live tunnel on another tier and no longer provisioning, and the wallet
  could pay the full catalogue price of the new tier. The state is then the old one with that
  price moved from the wallet to one ledger row; that tunnel on the new tier at the price paid,
  billed now and next in 31 days, active with no suspension and no deadline left (also when it
  was suspended); one audit row; and the one request the gateway of the tunnel is sent, with the
  shaping rate of the new tier: the rate of the GRE peer, or the WireGuard peer's present routes
  and rate. Repeating the request, at any later time, is refused and changes nothing.
\<close>

theorem changeTunnelTier_correct:
  assumes run: "changeTunnelTier agent g now u tid tier s = (Inr r, s')" and paid: "txs s' \<noteq> txs s"
  shows "\<exists>t w price rate x a. t \<in> set (tunnels s) \<and> t_id t = tid \<and> t_user_id t = u \<and> t_deleted_at t = None \<and>
      t_speed_tier t \<noteq> tier \<and> t_status t \<noteq> TunProvisioning \<and> tierAllowed (t_protocol t) tier s \<and>
      speedTierPrice tier s = Inr price \<and>
      (tier, rate) \<in> {(''tier_100mb'', 160000), (''tier_500mb'', 800000), (''tier_1gb'', 1600000)} \<and>
      r = \<lparr>ct_tunnelId = tid, ct_oldTier = t_speed_tier t, ct_newTier = tier, ct_chargedSatang = price,
           ct_balanceAfter = w_balance w - price, ct_nextBillingAt = now + 31 * DAY_MS\<rparr> \<and>
      wallet_of u s = Some w \<and> price \<le> w_balance w \<and>
      s' = s\<lparr>wallets := upd_where (\<lambda>v. w_id v = w_id w) (\<lambda>v. v\<lparr>w_balance := w_balance w - price,
               w_lifetime_spent := w_lifetime_spent v + price, w_version := w_version v + 1\<rparr>) (wallets s),
             txs := txs s @ [x],
             tunnels := upd_where (\<lambda>v. t_id v = tid) (\<lambda>v. v\<lparr>t_speed_tier := tier, t_price_satang := Some price,
               t_next_billing_at := now + 31 * DAY_MS, t_last_billed_at := Some now, t_status := TunActive,
               t_suspended_at := None, t_delete_after := None\<rparr>) (tunnels s),
             audits := audits s @ [a],
             calls := calls s @ (case find (\<lambda>gw. g_id gw = t_gateway_id t) (gateways s) of
               None \<Rightarrow> []
             | Some gw \<Rightarrow>
                 if t_protocol t = ''gre''
                 then [PatchGrePeer (g_id gw) (take 8 (filter (\<lambda>c. c \<noteq> CHR ''-'') tid)) None None (Some rate)]
                 else if t_wg_public_key t = None \<or> t_wg_public_key t = Some '''' then []
                 else [UpdatePeerIps (g_id gw) (t_wg_public_key t) (t_private_ip t) (tunnel_cidrs tid s) (Some rate)])\<rparr> \<and>
      x_user_id x = u \<and> x_wallet_id x = w_id w \<and> x_type x = TxSubscriptionCharge \<and> x_amount x = - price \<and>
      x_balance_after x = w_balance w - price \<and> \<not> key_used (x_idempotency_key x) s \<and>
      a_action a = ''tunnel.tier_change'' \<and> a_actor_id a = Some u \<and> a_resource_id a = Some tid \<and>
      (\<exists>e. changeTunnelTier agent2 g2 later u tid tier s' = (Inl e, s'))"
  using run
proof (rule changeTunnelTier_Inr)
  fix price push s1
  assume v: "tier \<in> set VALID_TIERS" and price: "speedTierPrice tier s = Inr price"
    and tx: "changeTier_tx g now u tid tier price s = Inr ((ct_oldTier r, ct_balanceAfter r, push), s1)"
    and r: "r = \<lparr>ct_tunnelId = tid, ct_oldTier = ct_oldTier r, ct_newTier = tier, ct_chargedSatang = price,
       ct_balanceAfter = ct_balanceAfter r, ct_nextBillingAt = nextBillingAt now\<rparr>"
    and s': "s' = s1\<lparr>calls := calls s1 @ (case push of None \<Rightarrow> [] | Some p \<Rightarrow> case tier_call tid tier p of None \<Rightarrow> [] | Some c \<Rightarrow> [c])\<rparr>"
  show ?thesis
    using tx
  proof (rule changeTier_tx_Inr)
    fix t w
    assume t: "find (\<lambda>t. t_id t = tid \<and> t_user_id t = u \<and> t_deleted_at t = None) (tunnels s) = Some t"
      "t_speed_tier t \<noteq> tier" "t_status t \<noteq> TunProvisioning" "tierAllowed (t_protocol t) tier s"
      and w: "wallet_of u s = Some w" "price \<le> w_balance w" and old: "ct_oldTier r = t_speed_tier t"
      and c: "s1 = s \<and> push = None \<and> ct_balanceAfter r = w_balance w \<and> key_used (Some (tier_key tid (t_speed_tier t) tier now)) s \<or>
        tier_charged now tier price t w s s1 \<and> calls s1 = calls s \<and> ct_balanceAfter r = w_balance w - price \<and> push = the_push t s"
    have t': "t \<in> set (tunnels s)" "t_id t = tid" "t_user_id t = u" "t_deleted_at t = None" using find_SomeD [OF t(1)] by auto
    from c paid s' have ch: "tier_charged now tier price t w s s1" "calls s1 = calls s" "ct_balanceAfter r = w_balance w - price"
      "push = the_push t s" by auto
    have cycle: "nextBillingAt now = now + 31 * DAY_MS" by (simp add: nextBillingAt_def BILLING_CYCLE_DAYS_def)
    from ch(1) obtain x a where x: "x_user_id x = u \<and> x_wallet_id x = w_id w \<and> x_type x = TxSubscriptionCharge \<and> x_amount x = - price \<and>
      x_balance_after x = w_balance w - price \<and> \<not> key_used (x_idempotency_key x) s \<and>
      a_action a = ''tunnel.tier_change'' \<and> a_actor_id a = Some u \<and> a_resource_id a = Some tid"
      and s1: "s1 = s\<lparr>wallets := upd_where (\<lambda>v. w_id v = w_id w) (\<lambda>v. v\<lparr>w_balance := w_balance w - price,
               w_lifetime_spent := w_lifetime_spent v + price, w_version := w_version v + 1\<rparr>) (wallets s),
             txs := txs s @ [x],
             tunnels := upd_where (\<lambda>v. t_id v = tid) (set_tier now tier price) (tunnels s),
             audits := audits s @ [a], calls := calls s1\<rparr>"
      using ch(1) unfolding tier_charged_def t'(2,3) by blast
    have "find (\<lambda>t. t_id t = tid \<and> t_user_id t = u \<and> t_deleted_at t = None) (tunnels s') = Some (set_tier now tier price t)"
      "speedTierPrice tier s' = Inr price"
      using ch(1) t(1) t' price by (simp_all add: tier_chargedD [OF ch(1)] find_upd_where speedTierPrice_def s')
    then have again: "\<exists>e. changeTunnelTier agent2 g2 later u tid tier s' = (Inl e, s')"
      by (auto simp: changeTunnelTier_def flow_defs v sql_begin_def changeTier_tx_def throw_if_def)
    have res: "r = \<lparr>ct_tunnelId = tid, ct_oldTier = t_speed_tier t, ct_newTier = tier, ct_chargedSatang = price,
           ct_balanceAfter = w_balance w - price, ct_nextBillingAt = now + 31 * DAY_MS\<rparr>"
      by (subst r) (simp add: old ch(3) cycle)
    have st: "s' = s\<lparr>wallets := upd_where (\<lambda>v. w_id v = w_id w) (\<lambda>v. v\<lparr>w_balance := w_balance w - price,
               w_lifetime_spent := w_lifetime_spent v + price, w_version := w_version v + 1\<rparr>) (wallets s),
             txs := txs s @ [x],
             tunnels := upd_where (\<lambda>v. t_id v = tid) (\<lambda>v. v\<lparr>t_speed_tier := tier, t_price_satang := Some price,
               t_next_billing_at := now + 31 * DAY_MS, t_last_billed_at := Some now, t_status := TunActive,
               t_suspended_at := None, t_delete_after := None\<rparr>) (tunnels s),
             audits := audits s @ [a],
             calls := calls s @ (case find (\<lambda>gw. g_id gw = t_gateway_id t) (gateways s) of
               None \<Rightarrow> []
             | Some gw \<Rightarrow>
                 if t_protocol t = ''gre''
                 then [PatchGrePeer (g_id gw) (take 8 (filter (\<lambda>c. c \<noteq> CHR ''-'') tid)) None None (Some (tierRateKbit tier))]
                 else if t_wg_public_key t = None \<or> t_wg_public_key t = Some '''' then []
                 else [UpdatePeerIps (g_id gw) (t_wg_public_key t) (t_private_ip t) (tunnel_cidrs tid s) (Some (tierRateKbit tier))])\<rparr>"
      unfolding s' ch(2,4) t'(2) [symmetric] tier_push_calls
      by (subst s1) (simp add: set_tier_def [abs_def] cycle t'(2))
    show ?thesis
      by (intro exI [of _ t] exI [of _ w] exI [of _ price] exI [of _ "tierRateKbit tier"] exI [of _ x] exI [of _ a] conjI
            t' t(2-4) price tier_call_rate [OF v] res w st again) (use x in blast)+
  qed
qed

lemma demo_change:
  "fst (changeTunnelTier (\<lambda>_. None) demo_gen T0 ''u1'' ''t1'' ''tier_500mb'' demo_db) =
     Inr \<lparr>ct_tunnelId = ''t1'', ct_oldTier = ''tier_100mb'', ct_newTier = ''tier_500mb'', ct_chargedSatang = 20000,
       ct_balanceAfter = 80000, ct_nextBillingAt = T0 + 31 * DAY_MS\<rparr>"
  "length (txs (snd (changeTunnelTier (\<lambda>_. None) demo_gen T0 ''u1'' ''t1'' ''tier_500mb'' demo_db))) = 3"
  "length (txs demo_db) = 2"
  by code_simp+

theorem changeTunnelTier_correct_witness:
  "\<exists>s' x e. snd (changeTunnelTier (\<lambda>_. None) demo_gen T0 ''u1'' ''t1'' ''tier_500mb'' demo_db) = s' \<and>
     txs s' = txs demo_db @ [x] \<and> x_amount x = - 20000 \<and>
     changeTunnelTier (\<lambda>_. None) demo_gen (T0 + 1) ''u1'' ''t1'' ''tier_500mb'' s' = (Inl e, s')"
proof -
  let ?s = "snd (changeTunnelTier (\<lambda>_. None) demo_gen T0 ''u1'' ''t1'' ''tier_500mb'' demo_db)"
  note run = pair_fst [OF demo_change(1)]
  have paid: "txs ?s \<noteq> txs demo_db" using demo_change(2,3) by auto
  have p: "speedTierPrice ''tier_500mb'' demo_db = Inr 20000" by code_simp
  from changeTunnelTier_correct [OF run paid, of "\<lambda>_. None" demo_gen "T0 + 1"] obtain price x e ws ts as cs where
    "speedTierPrice ''tier_500mb'' demo_db = Inr price" "x_amount x = - price"
    "changeTunnelTier (\<lambda>_. None) demo_gen (T0 + 1) ''u1'' ''t1'' ''tier_500mb'' ?s = (Inl e, ?s)"
    and s': "?s = demo_db\<lparr>wallets := ws, txs := txs demo_db @ [x], tunnels := ts, audits := as, calls := cs\<rparr>"
    by - (elim exE conjE, rule that; assumption)
  moreover have "txs ?s = txs demo_db @ [x]" by (subst s', simp)
  ultimately show ?thesis using p by auto
qed

end
