(* ===== verification/AdminGrant.thy ===== *)
theory AdminGrant
  imports Provision
begin

text \<open>
  \<^verbatim>\<open>packages/provisioning/src/admin-grant.ts\<close>: an administrator gives a customer a specific
  address or block without charging the wallet. A price that is not an integer is \<open>None\<close>.
\<close>

definition validPrice :: "int option \<Rightarrow> error + satang" where
  "validPrice p = (case p of
       None \<Rightarrow> Inl (ValidationError ''priceSatang must be a non-negative integer'')
     | Some v \<Rightarrow> if v < 0 then Inl (ValidationError ''priceSatang must be a non-negative integer'') else Inr v)"

definition live_user :: "uuid \<Rightarrow> db \<Rightarrow> user option" where
  "live_user uid s = find (\<lambda>u. u_id u = uid \<and> u_deleted_at u = None) (users s)"

definition busy :: "ip_status \<Rightarrow> bool" where
  "busy st \<longleftrightarrow> st \<in> set [IpAllocated, IpSuspended, IpReserved, IpBlacklisted]"

text \<open>The casts \<^verbatim>\<open>::inet\<close> and \<^verbatim>\<open>::cidr\<close> of the queries reject what is not in canonical form.\<close>

definition adminGrantIp_tx :: "ms \<Rightarrow> uuid option \<Rightarrow> uuid \<Rightarrow> ip4 \<Rightarrow> satang \<Rightarrow> db \<Rightarrow> error + (ip4 \<times> db)" where
  "adminGrantIp_tx now adminId userId ip price s =
     andThen (or_throw (NotFound ''user'') (live_user userId s)) (\<lambda>_.
     andThen (or_throw (ValidationError (ip @ '' is not in any ip_pool''))
       (find (\<lambda>p. cidrContains (p_block p) (ip @ ''/32'')) (pools s))) (\<lambda>pool.
     andThen (throw_if (\<not> is_ip4 ip) (JsError (''invalid input syntax for type inet: '' @ ip))) (\<lambda>_.
     andThen (case find (\<lambda>p. i_ip_address p = ip) (ips s) of
         None \<Rightarrow> Inr ()
       | Some ex \<Rightarrow> throw_if (busy (i_status ex))
           (ValidationError (ip @ '' is not available (status='' @ ip_status_name (i_status ex) @ '')''))) (\<lambda>_.
     Inr (ip, audit now ActAdmin adminId ''ip.admin_grant'' (Some ''public_ip'') None
         [(''ip'', JStr ip), (''priceSatang'', JNum price), (''grantedTo'', JStr userId)]
       (pool_take (p_id pool) 1
         (upsert_ip (new_ip ip (p_id pool) userId None (Some price) (Some (now + 31 * DAY_MS)) now)
           (\<lambda>p. p\<lparr>i_user_id := Some userId, i_tunnel_id := None, i_block_id := None,
                  i_status := IpAllocated, i_price_satang := Some price,
                  i_next_billing_at := Some (now + 31 * DAY_MS), i_allocated_at := Some now,
                  i_released_at := None\<rparr>) s)))))))"

definition adminGrantIp :: "ms \<Rightarrow> uuid option \<Rightarrow> uuid \<Rightarrow> ip4 \<Rightarrow> int option \<Rightarrow> ip4 op" where
  "adminGrantIp now adminId userId ip priceSatang s =
     seq (attempt (throw_if (userId = [] \<or> ip = []) (ValidationError ''userId and ip required''))) (\<lambda>_.
     seq (attempt (validPrice priceSatang)) (\<lambda>price.
     sql_begin (adminGrantIp_tx now adminId userId ip price))) s"

text \<open>\<^verbatim>\<open>ip_address << cidr\<close>: strictly inside, so a single address is never inside its own /32.\<close>

definition strictly_inside :: "cidr \<Rightarrow> ip4 \<Rightarrow> bool" where
  "strictly_inside c ip = (let q = parseCidr c in 1 < size q \<and> net q \<le> ip4ToInt ip \<and> ip4ToInt ip < net q + size q)"

definition adminGrantBlock_tx :: "uuid_gen \<Rightarrow> ms \<Rightarrow> uuid option \<Rightarrow> uuid \<Rightarrow> cidr \<Rightarrow> satang \<Rightarrow> db \<Rightarrow>
    error + ((cidr \<times> uuid) \<times> db)" where
  "adminGrantBlock_tx g now adminId userId c price s =
     andThen (or_throw (NotFound ''user'') (live_user userId s)) (\<lambda>_.
     andThen (or_throw (ValidationError (c @ '' is not within any ip_pool''))
       (find (\<lambda>p. cidrContains (p_block p) c) (pools s))) (\<lambda>pool.
     andThen (throw_if (\<not> wf_cidr c) (JsError (''invalid input syntax for type cidr: '' @ c))) (\<lambda>_.
     let q = parseCidr c;
         taken = filter (\<lambda>p. i_pool_id p = p_id pool \<and> strictly_inside c (i_ip_address p) \<and> busy (i_status p)) (ips s) in
     andThen (throw_if (taken \<noteq> [])
       (ValidationError (c @ '' has '' @ show_nat (length taken) @ '' IP(s) already in use''))) (\<lambda>_.
     let blockId = g (length (blocks s));
         s1 = s\<lparr>blocks := blocks s @ [bought_block blockId userId (p_id pool) c (size q) price now]\<rparr>;
         s2 = fold (block_row now (p_id pool) userId blockId) (block_ips (net q) (size q)) s1
     in Inr ((c, blockId),
       audit now ActAdmin adminId ''ipblock.admin_grant'' (Some ''ip_block'') (Some blockId)
         [(''cidr'', JStr c), (''priceSatang'', JNum price), (''grantedTo'', JStr userId)]
         (pool_take (p_id pool) (size q) s2))))))"

definition adminGrantBlock :: "uuid_gen \<Rightarrow> ms \<Rightarrow> uuid option \<Rightarrow> uuid \<Rightarrow> cidr \<Rightarrow> int option \<Rightarrow> (cidr \<times> uuid) op" where
  "adminGrantBlock g now adminId userId c priceSatang s =
     seq (attempt (throw_if (userId = [] \<or> c = []) (ValidationError ''userId and cidr required''))) (\<lambda>_.
     seq (attempt (validPrice priceSatang)) (\<lambda>price.
     seq (attempt (throw_if (\<not> isAligned c) (ValidationError (c @ '' is not an aligned block'')))) (\<lambda>_.
     seq (attempt (throw_if (BLOCK_SIZE_TO_PREFIX (size (parseCidr c)) = None)
       (ValidationError (''unsupported block size /'' @ show_number (prefix (parseCidr c)))))) (\<lambda>_.
     sql_begin (adminGrantBlock_tx g now adminId userId c price))))) s"

section \<open>Contracts\<close>

lemma adminGrantIp_Inr:
  assumes "adminGrantIp now adminId u ip pr s = (Inr r, s')"
  obtains price pool where "validPrice pr = Inr price" "r = ip" "live_user u s \<noteq> None" "is_ip4 ip"
    "find (\<lambda>p. cidrContains (p_block p) (ip @ ''/32'')) (pools s) = Some pool"
    "\<And>ex. find (\<lambda>p. i_ip_address p = ip) (ips s) = Some ex \<Longrightarrow> \<not> busy (i_status ex)"
    "s' = audit now ActAdmin adminId ''ip.admin_grant'' (Some ''public_ip'') None
         [(''ip'', JStr ip), (''priceSatang'', JNum price), (''grantedTo'', JStr u)]
       (pool_take (p_id pool) 1
         (upsert_ip (new_ip ip (p_id pool) u None (Some price) (Some (now + 31 * DAY_MS)) now)
           (\<lambda>p. p\<lparr>i_user_id := Some u, i_tunnel_id := None, i_block_id := None,
                  i_status := IpAllocated, i_price_satang := Some price,
                  i_next_billing_at := Some (now + 31 * DAY_MS), i_allocated_at := Some now,
                  i_released_at := None\<rparr>) s))"
proof -
  from assms obtain price where p: "validPrice pr = Inr price" and tx: "adminGrantIp_tx now adminId u ip price s = Inr (r, s')"
    by (auto simp: adminGrantIp_def flow)
  from tx obtain pool where "live_user u s \<noteq> None" "is_ip4 ip" "r = ip"
    and pool: "find (\<lambda>p. cidrContains (p_block p) (ip @ ''/32'')) (pools s) = Some pool"
    by (auto simp: adminGrantIp_tx_def flow)
  moreover have "\<not> busy (i_status ex)" if "find (\<lambda>p. i_ip_address p = ip) (ips s) = Some ex" for ex
    using tx that by (auto simp: adminGrantIp_tx_def flow)
  ultimately show thesis using that [OF p] tx by (auto simp: adminGrantIp_tx_def flow)
qed

lemma adminGrantBlock_Inr:
  assumes "adminGrantBlock g now adminId u c pr s = (Inr (c', bid), s')"
  obtains price pool where "validPrice pr = Inr price" "c' = c" "bid = g (length (blocks s))" "live_user u s \<noteq> None"
    "isAligned c" "wf_cidr c" "find (\<lambda>p. cidrContains (p_block p) c) (pools s) = Some pool"
    "BLOCK_SIZE_TO_PREFIX (size (parseCidr c)) \<noteq> None"
    "filter (\<lambda>p. i_pool_id p = p_id pool \<and> strictly_inside c (i_ip_address p) \<and> busy (i_status p)) (ips s) = []"
    "s' = audit now ActAdmin adminId ''ipblock.admin_grant'' (Some ''ip_block'') (Some bid)
         [(''cidr'', JStr c), (''priceSatang'', JNum price), (''grantedTo'', JStr u)]
         (pool_take (p_id pool) (size (parseCidr c))
           (fold (block_row now (p_id pool) u bid) (block_ips (net (parseCidr c)) (size (parseCidr c)))
             (s\<lparr>blocks := blocks s @ [bought_block bid u (p_id pool) c (size (parseCidr c)) price now]\<rparr>)))"
proof -
  from assms obtain price where p: "validPrice pr = Inr price" "isAligned c" "BLOCK_SIZE_TO_PREFIX (size (parseCidr c)) \<noteq> None"
    and tx: "adminGrantBlock_tx g now adminId u c price s = Inr ((c', bid), s')"
    by (auto simp: adminGrantBlock_def flow)
  from tx obtain pool where "live_user u s \<noteq> None" "wf_cidr c" "c' = c" "bid = g (length (blocks s))"
    and pool: "find (\<lambda>p. cidrContains (p_block p) c) (pools s) = Some pool"
    by (auto simp: adminGrantBlock_tx_def Let_def flow)
  moreover from tx pool have "filter (\<lambda>p. i_pool_id p = p_id pool \<and> strictly_inside c (i_ip_address p) \<and> busy (i_status p)) (ips s) = []"
    by (auto simp: adminGrantBlock_tx_def Let_def flow)
  ultimately show thesis using that [OF p(1), of pool] p(2,3) tx by (auto simp: adminGrantBlock_tx_def Let_def flow)
qed

lemma adminGrantIp_fail: "fst (adminGrantIp now a u ip pr s) = Inl e \<Longrightarrow> snd (adminGrantIp now a u ip pr s) = s"
  by (auto simp: adminGrantIp_def flow_defs sql_begin_def split: sum.splits prod.splits)

lemma adminGrantBlock_fail: "fst (adminGrantBlock g now a u c pr s) = Inl e \<Longrightarrow> snd (adminGrantBlock g now a u c pr s) = s"
  by (auto simp: adminGrantBlock_def flow_defs sql_begin_def split: sum.splits prod.splits)

lemma adminGrantIp_frame:
  "wallets (snd (adminGrantIp now a u ip pr s)) = wallets s \<and> txs (snd (adminGrantIp now a u ip pr s)) = txs s"
  proof (cases rule: op_cases [of "adminGrantIp now a u ip pr s"])
    case (Fail e)
    then show ?thesis using adminGrantIp_fail by metis
  next
    case (Ok x)
    then show ?thesis by (rule adminGrantIp_Inr) simp
  qed

interpretation grant_ip: wallet_frame "\<lambda>(u, ip, pr). adminGrantIp now a u ip pr" for now a
  by unfold_locales (simp add: adminGrantIp_frame split: prod.splits)

lemma adminGrantBlock_frame:
  "wallets (snd (adminGrantBlock g now a u c pr s)) = wallets s \<and> txs (snd (adminGrantBlock g now a u c pr s)) = txs s"
  proof (cases rule: op_cases [of "adminGrantBlock g now a u c pr s"])
    case (Fail e)
    then show ?thesis using adminGrantBlock_fail by metis
  next
    case (Ok x)
    moreover obtain c' bid where "x = (c', bid)" by (cases x)
    ultimately have "adminGrantBlock g now a u c pr s = (Inr (c', bid), snd (adminGrantBlock g now a u c pr s))" by simp
    then show ?thesis by (rule adminGrantBlock_Inr) simp
  qed

interpretation grant_block: wallet_frame "\<lambda>(u, c, pr). adminGrantBlock g now a u c pr" for g now a
  by unfold_locales (simp add: adminGrantBlock_frame split: prod.splits)

lemma adminGrantIp_tenancy:
  assumes ok: "tenancy_ok s"
  shows "tenancy_ok (snd (adminGrantIp now a u ip pr s))"
proof (cases rule: op_cases [of "adminGrantIp now a u ip pr s"])
  case (Fail e)
  then show ?thesis using ok adminGrantIp_fail by metis
next
  case (Ok x)
  then show ?thesis
    by (rule adminGrantIp_Inr)
      (simp, rule tenancy_upsert [OF ok], simp_all add: row_ok_def new_ip_def)
qed

lemma adminGrantBlock_tenancy:
  assumes ok: "tenancy_ok s" and new: "fresh_block g s"
  shows "tenancy_ok (snd (adminGrantBlock g now a u c pr s))"
proof (cases rule: op_cases [of "adminGrantBlock g now a u c pr s"])
  case (Fail e)
  then show ?thesis using ok adminGrantBlock_fail by metis
next
  case (Ok x)
  moreover obtain c' bid where "x = (c', bid)" by (cases x)
  ultimately have "adminGrantBlock g now a u c pr s = (Inr (c', bid), snd (adminGrantBlock g now a u c pr s))" by simp
  then show ?thesis
  proof (rule adminGrantBlock_Inr)
    fix price and pool :: pool
    let ?b = "bought_block bid u (p_id pool) c (size (parseCidr c)) price now"
    assume bid: "bid = g (length (blocks s))"
      and s': "snd (adminGrantBlock g now a u c pr s) = audit now ActAdmin a ''ipblock.admin_grant'' (Some ''ip_block'') (Some bid)
         [(''cidr'', JStr c), (''priceSatang'', JNum price), (''grantedTo'', JStr u)]
         (pool_take (p_id pool) (size (parseCidr c))
           (fold (block_row now (p_id pool) u bid) (block_ips (net (parseCidr c)) (size (parseCidr c)))
             (s\<lparr>blocks := blocks s @ [?b]\<rparr>)))"
    have "b_id ?b \<notin> set (map b_id (blocks s))" using new by (simp add: bought_block_def bid fresh_block_def)
    note add = tenancy_add_block [OF ok this]
    have "b_id ?b = bid" "b_user_id ?b = u" by (simp_all add: bought_block_def)
    with tenancy_block_rows [OF add(1)] add(2) show ?thesis by (simp add: s')
  qed
qed

interpretation grant_ip_iso: keeps tenancy_ok "\<lambda>_ _. True" "\<lambda>(u, ip, pr). adminGrantIp now a u ip pr" for now a
  by unfold_locales (simp add: adminGrantIp_tenancy split: prod.splits)

interpretation grant_block_iso: keeps tenancy_ok "\<lambda>_. fresh_block g" "\<lambda>(u, c, pr). adminGrantBlock g now a u c pr" for g now a
  by unfold_locales (simp add: adminGrantBlock_tenancy split: prod.splits)
section \<open>Properties\<close>

lemma not_busy: "\<not> busy st \<longleftrightarrow> st = IpAvailable"
  by (cases st) (simp_all add: busy_def)

lemma block_size_big: "BLOCK_SIZE_TO_PREFIX n \<noteq> None \<Longrightarrow> 1 < n"
  by (auto simp: BLOCK_SIZE_TO_PREFIX_def split: if_splits)

text \<open>
  C33. A grant gives away only what nobody holds and costs the customer nothing: when
  \<^verbatim>\<open>adminGrantBlock\<close> returns, the customer exists, no address of the block had a status other than
  available, each of them now belongs to the customer as an unassigned member of the new block,
  every other address is as before, and wallets and ledger are untouched.
\<close>

theorem adminGrantBlock_correct:
  assumes grant: "adminGrantBlock g now adminId u c pr s = (Inr (c', bid), s')" and inv: "inventory_ok s"
  shows "\<exists>price pid. pr = Some price \<and> 0 \<le> price \<and> (\<exists>v \<in> set (users s). u_id v = u \<and> u_deleted_at v = None) \<and>
     (\<forall>p \<in> set (ips s). ip4ToInt (i_ip_address p) \<in> addrs c \<longrightarrow> i_status p = IpAvailable) \<and>
     blocks s' = blocks s @ [bought_block bid u pid c (int (card (addrs c))) price now] \<and>
     (\<forall>a \<in> addrs c. \<exists>row. find (\<lambda>p. i_ip_address p = intToIp4 a) (ips s') = Some row \<and> i_status row = IpAllocated \<and>
        i_user_id row = Some u \<and> i_tunnel_id row = None \<and> i_block_id row = Some bid) \<and>
     (\<forall>a. a \<notin> intToIp4 ` addrs c \<longrightarrow> find (\<lambda>p. i_ip_address p = a) (ips s') = find (\<lambda>p. i_ip_address p = a) (ips s)) \<and>
     wallets s' = wallets s \<and> txs s' = txs s"
  using grant
proof (rule adminGrantBlock_Inr)
  fix price and pool :: pool
  let ?q = "parseCidr c"
  let ?s1 = "s\<lparr>blocks := blocks s @ [bought_block bid u (p_id pool) c (size ?q) price now]\<rparr>"
  assume pr: "validPrice pr = Inr price" and user: "live_user u s \<noteq> None" and c: "wf_cidr c"
    and pool: "find (\<lambda>p. cidrContains (p_block p) c) (pools s) = Some pool" and size: "BLOCK_SIZE_TO_PREFIX (size ?q) \<noteq> None"
    and free: "filter (\<lambda>p. i_pool_id p = p_id pool \<and> strictly_inside c (i_ip_address p) \<and> busy (i_status p)) (ips s) = []"
    and s': "s' = audit now ActAdmin adminId ''ipblock.admin_grant'' (Some ''ip_block'') (Some bid)
         [(''cidr'', JStr c), (''priceSatang'', JNum price), (''grantedTo'', JStr u)]
         (pool_take (p_id pool) (size ?q) (fold (block_row now (p_id pool) u bid) (block_ips (net ?q) (size ?q)) ?s1))"
  have q: "pool \<in> set (pools s)" "cidrContains (p_block pool) c" using find_SomeD [OF pool] by auto
  have sub: "addrs c \<subseteq> addrs (p_block pool)" using q(2) cidrContains_addrs [OF c] by simp
  have avail: "i_status p = IpAvailable" if p: "p \<in> set (ips s)" "ip4ToInt (i_ip_address p) \<in> addrs c" for p
  proof -
    have "i_pool_id p = p_id pool" using inv q(1) p sub by (auto simp: inventory_ok_def pool_covers_iff)
    moreover have "strictly_inside c (i_ip_address p)"
      using p(2) block_size_big [OF size] by (simp add: strictly_inside_def addrs_def Let_def)
    ultimately show ?thesis using free p(1) by (auto simp: filter_empty_conv not_busy)
  qed
  have mem: "set (block_ips (net ?q) (size ?q)) = intToIp4 ` addrs c"
    by (simp add: set_block_ips addrs_def)
  have "size ?q = int (card (addrs c))" using block_size_big [OF size] by (simp add: addrs_def)
  moreover have "find (\<lambda>p. i_ip_address p = a) (ips s') = find (\<lambda>p. i_ip_address p = a) (ips s)" if "a \<notin> intToIp4 ` addrs c" for a
    using find_block_rows(1) [of a "block_ips (net ?q) (size ?q)" now "p_id pool" u bid ?s1] that by (simp add: s' mem)
  moreover have "\<exists>row. find (\<lambda>p. i_ip_address p = intToIp4 a) (ips s') = Some row \<and> i_status row = IpAllocated \<and>
      i_user_id row = Some u \<and> i_tunnel_id row = None \<and> i_block_id row = Some bid" if "a \<in> addrs c" for a
    using find_block_rows(2) [of "intToIp4 a" "block_ips (net ?q) (size ?q)" now "p_id pool" u bid ?s1] that by (simp add: s' mem)
  moreover have "\<exists>v \<in> set (users s). u_id v = u \<and> u_deleted_at v = None"
    using user by (auto simp: live_user_def dest: find_SomeD)
  moreover have "pr = Some price" "0 \<le> price" using pr by (auto simp: validPrice_def split: option.splits if_splits)
  ultimately show ?thesis using avail by (intro exI [of _ price] exI [of _ "p_id pool"]) (simp add: s')
qed

lemma demo_grant:
  "fst (adminGrantBlock demo_gen T0 (Some ''adm'') ''u2'' ''203.0.113.16/30'' (Some 0) demo_db) = Inr (''203.0.113.16/30'', ''row-1'')"
  by code_simp

theorem adminGrantBlock_correct_witness:
  "\<exists>row. find (\<lambda>p. i_ip_address p = intToIp4 3405803793)
       (ips (snd (adminGrantBlock demo_gen T0 (Some ''adm'') ''u2'' ''203.0.113.16/30'' (Some 0) demo_db))) = Some row \<and>
     i_user_id row = Some ''u2'' \<and> i_block_id row = Some ''row-1''"
proof -
  have "net (parseCidr ''203.0.113.16/30'') = 3405803792" "size (parseCidr ''203.0.113.16/30'') = 4" by code_simp+
  then have "3405803793 \<in> addrs ''203.0.113.16/30''" by (simp add: addrs_def)
  with adminGrantBlock_correct [OF pair_fst [OF demo_grant] demo_inventory_ok] show ?thesis by blast
qed

end
