(* ===== verification/Gre.thy ===== *)
theory Gre
  imports Provision
begin

text \<open>
  \<^verbatim>\<open>packages/provisioning/src/gre.ts\<close>: GRE tunnels. The resolver \<^verbatim>\<open>dns.resolve4\<close> is the parameter
  \<open>dns\<close>: the addresses of a name, or the message of the error it throws.
\<close>

type_synonym resolver = "string \<Rightarrow> string + ip4 list"

section \<open>Host names\<close>

definition label_ok :: "string \<Rightarrow> bool" where
  "label_ok l \<longleftrightarrow> 1 \<le> length l \<and> length l \<le> 63 \<and> is_alnum (hd l) \<and> is_alnum (last l) \<and>
     (\<forall>c \<in> set l. is_alnum c \<or> c = CHR ''-'')"

definition HOST_RE :: "string \<Rightarrow> bool" where
  "HOST_RE s \<longleftrightarrow> (\<forall>l \<in> set (split_on CHR ''.'' s). label_ok l)"

definition IPV4_RE :: "string \<Rightarrow> bool" where
  "IPV4_RE s \<longleftrightarrow> length (split_on CHR ''.'' s) = 4 \<and>
     (\<forall>p \<in> set (split_on CHR ''.'' s). 1 \<le> length p \<and> length p \<le> 3 \<and> (\<forall>c \<in> set p. digit_val c \<noteq> None))"

definition isPlausibleHost :: "string \<Rightarrow> bool" where
  "isPlausibleHost s \<longleftrightarrow> s \<noteq> [] \<and> length s \<le> 253 \<and> (HOST_RE s \<or> IPV4_RE s)"

definition isPublicIPv4 :: "ip4 \<Rightarrow> bool" where
  "isPublicIPv4 ip =
     (let oct = map js_Number (split_on CHR ''.'' ip) in
      if length oct \<noteq> 4 \<or> (\<exists>n \<in> set oct. case n of None \<Rightarrow> True | Some v \<Rightarrow> v < 0 \<or> v > 255) then False
      else
        let a = the (oct ! 0); b = the (oct ! 1) in
        if a = 0 then False
        else if a = 10 then False
        else if a = 127 then False
        else if a = 169 \<and> b = 254 then False
        else if a = 172 \<and> b \<ge> 16 \<and> b \<le> 31 then False
        else if a = 192 \<and> b = 168 then False
        else if a = 100 \<and> b \<ge> 64 \<and> b \<le> 127 then False
        else if a \<ge> 224 then False
        else True)"

definition resolveHost :: "resolver \<Rightarrow> string \<Rightarrow> error + ip4" where
  "resolveHost dns host =
     andThen (if IPV4_RE host then Inr host
       else case dns host of
         Inl m \<Rightarrow> Inl (ValidationError (''cannot resolve '' @ host @ '': '' @ m))
       | Inr [] \<Rightarrow> Inl (ValidationError (''cannot resolve '' @ host @ '': '' @ host @ '' has no A record''))
       | Inr (a # _) \<Rightarrow> Inr a) (\<lambda>resolved.
     andThen (throw_if (\<not> isPublicIPv4 resolved)
       (ValidationError (host @ '' resolves to '' @ resolved @ '', which is not a public routable address''))) (\<lambda>_.
     Inr resolved))"

section \<open>Point-to-point subnets\<close>

definition intToIp :: "int \<Rightarrow> ip4" where
  "intToIp n = join ''.'' (map show_int
     [js_and (js_ushr n 24) 255, js_and (js_ushr n 16) 255, js_and (js_ushr n 8) 255, js_and n 255])"

definition octet :: "int option list \<Rightarrow> nat \<Rightarrow> int" where
  "octet oct i = (if i < length oct then nan0 (oct ! i) else 0)"

definition quad_bits :: "int option list \<Rightarrow> int" where
  "quad_bits oct = js_or (js_or (js_or (js_shl (octet oct 0) 24) (js_shl (octet oct 1) 16)) (js_shl (octet oct 2) 8)) (octet oct 3)"

definition ipToInt :: "ip4 \<Rightarrow> int" where
  "ipToInt ip = js_ushr (quad_bits (map js_Number (split_on CHR ''.'' ip))) 0"

record p2p =
  pp_gwEnd :: ip4
  pp_custEnd :: ip4
  pp_cidr :: cidr

definition allocateNextP2p :: "cidr \<Rightarrow> ip4 list \<Rightarrow> error + p2p" where
  "allocateNextP2p subnet used =
     (let parts = split_on CHR ''/'' subnet;
          mask = (if 2 \<le> length parts then js_Number (parts ! 1) else None);
          baseInt = quad_bits (map js_Number (split_on CHR ''.'' (hd parts)));
          sz = js_shl 1 (case mask of None \<Rightarrow> 0 | Some m \<Rightarrow> 32 - m)
      in andThen (throw_if (case mask of None \<Rightarrow> False | Some m \<Rightarrow> m > 30)
           (ValidationError (''subnet /'' @ show_number mask @ '' too small for GRE /30''))) (\<lambda>_.
         case first_off (\<lambda>off. intToIp (baseInt + off + 1) \<notin> set used) 4 4 sz 0 of
           Some off \<Rightarrow> Inr \<lparr>pp_gwEnd = intToIp (baseInt + off + 1), pp_custEnd = intToIp (baseInt + off + 1 + 1),
             pp_cidr = intToIp (baseInt + off) @ ''/30''\<rparr>
         | None \<Rightarrow> Inl NoGatewayAvailable))"

section \<open>Provisioning\<close>

definition GRE_KEY_MIN :: int where
  "GRE_KEY_MIN = 1000"

record CreateGreTunnelInput =
  gi_userId :: uuid
  gi_speedTier :: string
  gi_name :: string
  gi_description :: "string option"
  gi_remoteEndpointHost :: string
  gi_gatewayHostname :: "string option"

record CreateGreTunnelResult =
  gr_tunnelId :: uuid
  gr_gatewayId :: uuid
  gr_gatewayHostname :: string
  gr_peerId :: string
  gr_p2p :: p2p
  gr_greKey :: int
  gr_remoteEndpointHost :: string
  gr_remoteEndpointIp :: ip4

definition next_gre_key :: "uuid \<Rightarrow> db \<Rightarrow> int" where
  "next_gre_key gid s = foldl max (GRE_KEY_MIN - 1)
     (List.map_filter t_gre_key (filter (\<lambda>t. t_gateway_id t = gid) (tunnels s))) + 1"

definition new_gre_tunnel :: "uuid \<Rightarrow> CreateGreTunnelInput \<Rightarrow> uuid \<Rightarrow> satang \<Rightarrow> p2p \<Rightarrow> int \<Rightarrow> ip4 \<Rightarrow> ms \<Rightarrow> tunnel" where
  "new_gre_tunnel tid inp gid price pp key ip now =
     \<lparr>t_id = tid, t_user_id = gi_userId inp, t_gateway_id = gid, t_name = gi_name inp,
      t_description = trim_description (gi_description inp), t_protocol = ''gre'',
      t_speed_tier = gi_speedTier inp, t_price_satang = Some price, t_private_ip = pp_gwEnd pp,
      t_wg_public_key = None, t_wg_private_key_encrypted = None,
      t_status = TunProvisioning, t_last_handshake_at = None, t_next_billing_at = now + 31 * DAY_MS,
      t_last_billed_at = None, t_suspended_at = None, t_delete_after = None, t_deleted_at = None,
      t_remote_endpoint_host = Some (gi_remoteEndpointHost inp), t_remote_endpoint_ip = Some ip,
      t_remote_endpoint_resolved_at = Some now, t_gre_key = Some key\<rparr>"

definition provisionGre_tx :: "uuid_gen \<Rightarrow> ms \<Rightarrow> CreateGreTunnelInput \<Rightarrow> satang \<Rightarrow> ip4 \<Rightarrow> db \<Rightarrow>
    error + (CreateGreTunnelResult \<times> db)" where
  "provisionGre_tx g now inp price initialIp s =
     andThen (check_buyer (gi_userId inp) (gi_name inp) price s) (\<lambda>w.
     andThen (or_throw NoGatewayAvailable
       (pick_gateway (\<lambda>gw. ''gre'' \<in> set (g_supported_protocols gw)) (gi_gatewayHostname inp) s)) (\<lambda>gw.
     andThen (allocateNextP2p (g_private_subnet gw) (used_private (g_id gw) s)) (\<lambda>pp.
     andThen (insert_tunnel (new_gre_tunnel (g (length (tunnels s))) inp (g_id gw) price pp (next_gre_key (g_id gw) s)
       initialIp now) s) (\<lambda>s1.
     andThen (pay g w (gi_userId inp) TxSubscriptionCharge price
       (''GRE tunnel '' @ gi_name inp @ '' ('' @ gi_speedTier inp @ '')'')
       (''buy-gre-tunnel-'' @ g (length (tunnels s)) @ ''-'' @ show_int now) s1) (\<lambda>s2.
     Inr (\<lparr>gr_tunnelId = g (length (tunnels s)), gr_gatewayId = g_id gw, gr_gatewayHostname = g_hostname gw,
           gr_peerId = peerIdFromTunnelId (g (length (tunnels s))), gr_p2p = pp,
           gr_greKey = next_gre_key (g_id gw) s, gr_remoteEndpointHost = gi_remoteEndpointHost inp,
           gr_remoteEndpointIp = initialIp\<rparr>,
        audit now ActSystem (Some (gi_userId inp)) ''tunnel.create'' (Some ''tunnel'') (Some (g (length (tunnels s))))
          [(''protocol'', JStr ''gre''), (''gateway'', JStr (g_hostname gw)), (''gatewayEndIp'', JStr (pp_gwEnd pp)),
           (''customerEndIp'', JStr (pp_custEnd pp)), (''greKey'', JNum (next_gre_key (g_id gw) s)),
           (''remoteEndpointHost'', JStr (gi_remoteEndpointHost inp)), (''remoteEndpointIp'', JStr initialIp),
           (''priceSatang'', JNum price)]
          (gateway_add (g_id gw) s2)))))))"

definition provisionGreTunnel :: "resolver \<Rightarrow> uuid_gen \<Rightarrow> ms \<Rightarrow> CreateGreTunnelInput \<Rightarrow> CreateGreTunnelResult op" where
  "provisionGreTunnel dns g now inp s =
     seq (attempt (throw_if (\<not> TUNNEL_NAME_RE (gi_name inp))
       (ValidationError ''name must be 1-100 chars: letters, digits, - or _ only''))) (\<lambda>_.
     seq (attempt (throw_if (\<not> isPlausibleHost (gi_remoteEndpointHost inp))
       (ValidationError ''remoteEndpointHost must be a valid domain or IPv4''))) (\<lambda>_.
     seq (attempt (tier_price ''gre'' (gi_speedTier inp) s)) (\<lambda>price.
     seq (attempt (resolveHost dns (gi_remoteEndpointHost inp))) (\<lambda>initialIp.
     sql_begin (provisionGre_tx g now inp price initialIp))))) s"

section \<open>Activation and deletion\<close>

text \<open>A GRE tunnel joined with its gateway, under a further condition of the query.\<close>

definition gre_row :: "(tunnel \<Rightarrow> bool) \<Rightarrow> uuid \<Rightarrow> db \<Rightarrow> (tunnel \<times> gateway) option" where
  "gre_row P tid s = (case find (\<lambda>t. t_id t = tid \<and> t_protocol t = ''gre'' \<and> P t) (tunnels s) of
       None \<Rightarrow> None
     | Some t \<Rightarrow> map_option (\<lambda>g. (t, g)) (find (\<lambda>g. g_id g = t_gateway_id t) (gateways s)))"

fun str_includes :: "string \<Rightarrow> string \<Rightarrow> bool" where
  "str_includes [] needle = (needle = [])"
| "str_includes (c # cs) needle = (take (length needle) (c # cs) = needle \<or> str_includes cs needle)"

definition gre_routes :: "tunnel \<Rightarrow> db \<Rightarrow> cidr list" where
  "gre_routes t s =
     (let gwEndInt = ipToInt (t_private_ip t);
          c = intToIp (gwEndInt - 1) @ ''/30'';
          singleIps = map (\<lambda>p. i_ip_address p @ ''/32'')
            (filter (\<lambda>p. \<not> str_includes c (i_ip_address p)) (attached_rows (t_id t) s))
      in filter (\<lambda>r. r \<noteq> t_private_ip t @ ''/30'' \<and> r \<noteq> intToIp (gwEndInt + 1) @ ''/32'')
           (singleIps @ tunnel_block_cidrs (t_id t) s))"

definition gre_create_call :: "tunnel \<Rightarrow> gateway \<Rightarrow> db \<Rightarrow> gw_call" where
  "gre_create_call t gw s = CreateGrePeer (g_id gw) (peerIdFromTunnelId (t_id t)) (t_remote_endpoint_ip t)
     (g_bgp_router_id gw) (t_private_ip t @ ''/30'') (intToIp (ipToInt (t_private_ip t) + 1)) (gre_routes t s)
     (tierRateKbit (t_speed_tier t))"

definition activateGreTunnel :: "agent \<Rightarrow> uuid \<Rightarrow> unit op" where
  "activateGreTunnel agent tid s =
     (case gre_row (\<lambda>_. True) tid s of
        None \<Rightarrow> (Inl (NotFound (''gre tunnel '' @ tid)), s)
      | Some (t, gw) \<Rightarrow>
          seq (request agent (gre_create_call t gw s)) (\<lambda>_.
          do_stmt (set_tunnels (\<lambda>v. t_id v = tid) (\<lambda>v. v\<lparr>t_status := TunActive\<rparr>))) s)"

definition deleteGreTunnel :: "agent \<Rightarrow> ms \<Rightarrow> uuid \<Rightarrow> uuid \<Rightarrow> unit op" where
  "deleteGreTunnel agent now tid userId s =
     (case gre_row (\<lambda>t. t_user_id t = userId \<and> t_deleted_at t = None) tid s of
        None \<Rightarrow> (Inl (NotFound (''gre tunnel '' @ tid)), s)
      | Some (t, gw) \<Rightarrow>
          seq (sql_begin (\<lambda>s. Inr ((), audit now ActUser (Some userId) ''tunnel.delete'' (Some ''tunnel'') (Some tid)
              [(''protocol'', JStr ''gre'')]
              (gateway_drop (t_gateway_id t) (mark_deleted now tid
                (set_ips (\<lambda>p. i_tunnel_id p = Some tid) (\<lambda>p. p\<lparr>i_tunnel_id := None\<rparr>) s)))))) (\<lambda>_.
          seq (catch_op (request agent (DeleteGrePeer (g_id gw) (peerIdFromTunnelId tid)))) (\<lambda>_.
          done_with ())) s)"

section \<open>Endpoint changes\<close>

definition set_endpoint_ip :: "uuid \<Rightarrow> ip4 \<Rightarrow> ms \<Rightarrow> db \<Rightarrow> db" where
  "set_endpoint_ip tid ip now = set_tunnels (\<lambda>v. t_id v = tid)
     (\<lambda>v. v\<lparr>t_remote_endpoint_ip := Some ip, t_remote_endpoint_resolved_at := Some now\<rparr>)"

definition touch_endpoint :: "uuid \<Rightarrow> ms \<Rightarrow> db \<Rightarrow> db" where
  "touch_endpoint tid now = set_tunnels (\<lambda>v. t_id v = tid) (\<lambda>v. v\<lparr>t_remote_endpoint_resolved_at := Some now\<rparr>)"

text \<open>The result is \<^verbatim>\<open>(oldHost, newHost, newIp)\<close>.\<close>

definition updateGreEndpoint :: "resolver \<Rightarrow> agent \<Rightarrow> ms \<Rightarrow> uuid \<Rightarrow> uuid \<Rightarrow> string \<Rightarrow>
    (string option \<times> string \<times> ip4) op" where
  "updateGreEndpoint dns agent now tid userId newHost s =
     seq (attempt (throw_if (\<not> isPlausibleHost newHost) (ValidationError ''endpoint must be a valid domain or IPv4''))) (\<lambda>_.
     seq (attempt (or_throw (NotFound (''gre tunnel '' @ tid))
       (gre_row (\<lambda>t. t_user_id t = userId \<and> t_deleted_at t = None) tid s))) (\<lambda>(t, gw).
     if t_remote_endpoint_host t = Some newHost
     then seq (do_stmt (touch_endpoint tid now)) (\<lambda>_.
          done_with (t_remote_endpoint_host t, newHost, case t_remote_endpoint_ip t of None \<Rightarrow> [] | Some ip \<Rightarrow> ip))
     else
       seq (attempt (resolveHost dns newHost)) (\<lambda>newIp.
       seq (if t_remote_endpoint_ip t \<noteq> Some newIp
            then request agent (PatchGrePeer (g_id gw) (peerIdFromTunnelId tid) (Some newIp) None None)
            else done_with ()) (\<lambda>_.
       seq (do_stmt (\<lambda>s. set_tunnels (\<lambda>v. t_id v = tid) (\<lambda>v. v\<lparr>t_remote_endpoint_host := Some newHost\<rparr>)
         (set_endpoint_ip tid newIp now s))) (\<lambda>_.
       seq (do_stmt (audit now ActUser (Some userId) ''gre.endpoint_changed'' (Some ''tunnel'') (Some tid)
         [(''oldHost'', json_opt (t_remote_endpoint_host t)), (''newHost'', JStr newHost),
          (''oldIp'', json_opt (t_remote_endpoint_ip t)), (''newIp'', JStr newIp)])) (\<lambda>_.
       done_with (t_remote_endpoint_host t, newHost, newIp))))))) s"

record ReresolveResult =
  rr_changed :: bool
  rr_oldIp :: "ip4 option"
  rr_newIp :: ip4

definition resolveGreEndpoint :: "resolver \<Rightarrow> agent \<Rightarrow> ms \<Rightarrow> uuid \<Rightarrow> ReresolveResult op" where
  "resolveGreEndpoint dns agent now tid s =
     seq (attempt (or_throw (NotFound (''gre tunnel '' @ tid)) (gre_row (\<lambda>t. t_deleted_at t = None) tid s))) (\<lambda>(t, gw).
     seq (attempt (case t_remote_endpoint_host t of
         Some (c # cs) \<Rightarrow> Inr (c # cs)
       | _ \<Rightarrow> Inl (ValidationError ''tunnel has no remote_endpoint_host''))) (\<lambda>host.
     seq (attempt (resolveHost dns host)) (\<lambda>newIp.
     if t_remote_endpoint_ip t = Some newIp
     then seq (do_stmt (touch_endpoint tid now)) (\<lambda>_.
          done_with \<lparr>rr_changed = False, rr_oldIp = t_remote_endpoint_ip t, rr_newIp = newIp\<rparr>)
     else
       seq (request agent (PatchGrePeer (g_id gw) (peerIdFromTunnelId tid) (Some newIp) None None)) (\<lambda>_.
       seq (do_stmt (set_endpoint_ip tid newIp now)) (\<lambda>_.
       seq (do_stmt (audit now ActSystem None ''gre.endpoint_reresolved'' (Some ''tunnel'') (Some tid)
         [(''oldIp'', json_opt (t_remote_endpoint_ip t)), (''newIp'', JStr newIp), (''host'', JStr host)])) (\<lambda>_.
       done_with \<lparr>rr_changed = True, rr_oldIp = t_remote_endpoint_ip t, rr_newIp = newIp\<rparr>)))))) s"

section \<open>The address filter\<close>

definition reserved_ranges :: "cidr list" where
  "reserved_ranges = [''0.0.0.0/8'', ''10.0.0.0/8'', ''127.0.0.0/8'', ''169.254.0.0/16'', ''172.16.0.0/12'',
     ''192.168.0.0/16'', ''100.64.0.0/10'', ''224.0.0.0/4'', ''240.0.0.0/4'']"

lemma reserved_sizes:
  "map (\<lambda>r. (net (parseCidr r), size (parseCidr r))) reserved_ranges =
     [(0, 16777216), (167772160, 16777216), (2130706432, 16777216), (2851995648, 65536), (2886729728, 1048576),
      (3232235520, 65536), (1681915904, 4194304), (3758096384, 268435456), (4026531840, 268435456)]"
  by code_simp

lemma outside_reserved:
  "(\<forall>r \<in> set reserved_ranges. x \<notin> addrs r) \<longleftrightarrow>
     (\<forall>(n, k) \<in> set (map (\<lambda>r. (net (parseCidr r), size (parseCidr r))) reserved_ranges). \<not> (n \<le> x \<and> x < n + k))"
  by (auto simp: addrs_def)

lemma octet_ranges:
  fixes A B y :: int
  assumes "0 \<le> A" "0 \<le> B" "B < 256" "0 \<le> y" "y < 65536"
  shows "k * 16777216 \<le> A * 16777216 + B * 65536 + y \<and> A * 16777216 + B * 65536 + y < k * 16777216 + 16777216 \<longleftrightarrow> A = k"
    and "0 \<le> m \<Longrightarrow> m + n \<le> 256 \<Longrightarrow>
      k * 16777216 + m * 65536 \<le> A * 16777216 + B * 65536 + y \<and>
      A * 16777216 + B * 65536 + y < k * 16777216 + m * 65536 + n * 65536 \<longleftrightarrow> A = k \<and> m \<le> B \<and> B < m + n"
    and "k * 16777216 \<le> A * 16777216 + B * 65536 + y \<longleftrightarrow> k \<le> A"
proof -
  show 1: "k * 16777216 \<le> A * 16777216 + B * 65536 + y \<and> A * 16777216 + B * 65536 + y < k * 16777216 + 16777216 \<longleftrightarrow> A = k" for k
  proof
    assume a: "k * 16777216 \<le> A * 16777216 + B * 65536 + y \<and> A * 16777216 + B * 65536 + y < k * 16777216 + 16777216"
    then have "k < A + 1" "A < k + 1" using assms by linarith+
    then show "A = k" by simp
  qed (use assms in linarith)
  show "k * 16777216 \<le> A * 16777216 + B * 65536 + y \<longleftrightarrow> k \<le> A"
  proof
    assume "k * 16777216 \<le> A * 16777216 + B * 65536 + y"
    then have "k < A + 1" using assms by linarith
    then show "k \<le> A" by simp
  qed (use assms in linarith)
  assume m: "0 \<le> m" "m + n \<le> 256"
  show "k * 16777216 + m * 65536 \<le> A * 16777216 + B * 65536 + y \<and>
      A * 16777216 + B * 65536 + y < k * 16777216 + m * 65536 + n * 65536 \<longleftrightarrow> A = k \<and> m \<le> B \<and> B < m + n"
  proof
    assume a: "k * 16777216 + m * 65536 \<le> A * 16777216 + B * 65536 + y \<and>
      A * 16777216 + B * 65536 + y < k * 16777216 + m * 65536 + n * 65536"
    then have A: "A = k" using 1 [of k] m by linarith
    with a have "m < B + 1" "B < m + n" using assms by linarith+
    with A show "A = k \<and> m \<le> B \<and> B < m + n" by simp
  qed (use assms in linarith)
qed

text \<open>
  C25. The guard against tunnels into internal networks: of the addresses that parse,
  \<^verbatim>\<open>isPublicIPv4\<close> accepts exactly those outside the ranges its comment lists.
\<close>

theorem isPublicIPv4_ranges:
  assumes "a < 256" "b < 256" "c < 256" "d < 256"
  shows "isPublicIPv4 (quad a b c d) \<longleftrightarrow> (\<forall>r \<in> set reserved_ranges. ip4ToInt (quad a b c d) \<notin> addrs r)"
proof -
  have "isPublicIPv4 (quad a b c d) \<longleftrightarrow> \<not> (a = 0 \<or> a = 10 \<or> a = 127 \<or> a = 169 \<and> b = 254 \<or>
      a = 172 \<and> 16 \<le> b \<and> b \<le> 31 \<or> a = 192 \<and> b = 168 \<or> a = 100 \<and> 64 \<le> b \<and> b \<le> 127 \<or> 224 \<le> a)"
    using assms by (simp add: isPublicIPv4_def split_quad Let_def)
  also have "\<dots> \<longleftrightarrow> (\<forall>r \<in> set reserved_ranges. ip4ToInt (quad a b c d) \<notin> addrs r)"
  proof -
    let ?y = "int c * 256 + int d" and ?A = "int a" and ?B = "int b"
    have y: "0 \<le> ?y" "?y < 65536" "0 \<le> ?A" "0 \<le> ?B" "?B < 256" using assms by auto
    have x: "ip4ToInt (quad a b c d) = ?A * 16777216 + ?B * 65536 + ?y" using assms by (simp add: ip4ToInt_quad)
    note r = octet_ranges [OF y(3,4,5,1,2)]
    have hi: "\<not> (3758096384 \<le> X \<and> X < 3758096384 + 268435456) \<and> \<not> (4026531840 \<le> X \<and> X < 4026531840 + 268435456) \<longleftrightarrow> \<not> 224 \<le> a"
      if "X = ?A * 16777216 + ?B * 65536 + ?y" for X
    proof -
      have "3758096384 \<le> X \<longleftrightarrow> 224 \<le> a" "\<not> 4294967296 \<le> X" using r(3) [of 224] r(3) [of 256] assms(1) that by auto
      then show ?thesis by linarith
    qed
    define X where "X = ip4ToInt (quad a b c d)"
    note X = X_def [unfolded x]
    have f: "(0 \<le> X \<and> X < 0 + 16777216) \<longleftrightarrow> a = 0" "(167772160 \<le> X \<and> X < 167772160 + 16777216) \<longleftrightarrow> a = 10"
      "(2130706432 \<le> X \<and> X < 2130706432 + 16777216) \<longleftrightarrow> a = 127"
      using r(1) [of 0] r(1) [of 10] r(1) [of 127] by (simp_all add: X)
    have f2: "(2851995648 \<le> X \<and> X < 2851995648 + 65536) \<longleftrightarrow> a = 169 \<and> b = 254"
      "(3232235520 \<le> X \<and> X < 3232235520 + 65536) \<longleftrightarrow> a = 192 \<and> b = 168"
      using r(2) [of 254 1 169] r(2) [of 168 1 192] by (simp_all add: X) linarith+
    have f3: "(2886729728 \<le> X \<and> X < 2886729728 + 1048576) \<longleftrightarrow> a = 172 \<and> 16 \<le> b \<and> b \<le> 31"
      "(1681915904 \<le> X \<and> X < 1681915904 + 4194304) \<longleftrightarrow> a = 100 \<and> 64 \<le> b \<and> b \<le> 127"
      using r(2) [of 16 16 172] r(2) [of 64 64 100] by (simp_all add: X) linarith+
    show ?thesis
      unfolding outside_reserved reserved_sizes X_def [symmetric]
      by (simp only: list.set ball_simps prod.case f f2 f3 simp_thms hi [OF X]) (simp only: de_Morgan_disj)
  qed
  finally show ?thesis .
qed

theorem isPublicIPv4_ranges_witness:
  "\<not> isPublicIPv4 ''169.254.169.254'' \<and> isPublicIPv4 ''198.51.100.7''"
proof -
  have q: "quad 169 254 169 254 = ''169.254.169.254''" "quad 198 51 100 7 = ''198.51.100.7''" by code_simp+
  have r: "''169.254.0.0/16'' \<in> set reserved_ranges" by (simp add: reserved_ranges_def)
  have "ip4ToInt ''169.254.169.254'' \<in> addrs ''169.254.0.0/16''"
  proof -
    have "net (parseCidr ''169.254.0.0/16'') = 2851995648" "size (parseCidr ''169.254.0.0/16'') = 65536"
      "ip4ToInt ''169.254.169.254'' = 2852039166" by code_simp+
    then show ?thesis by (simp add: addrs_def)
  qed
  with r isPublicIPv4_ranges [of 169 254 169 254] have "\<not> isPublicIPv4 ''169.254.169.254''" unfolding q by auto
  moreover have i: "ip4ToInt ''198.51.100.7'' = 3325256711" by code_simp
  have "isPublicIPv4 ''198.51.100.7''"
    using isPublicIPv4_ranges [of 198 51 100 7] unfolding q outside_reserved reserved_sizes i by simp
  ultimately show ?thesis ..
qed

section \<open>Addresses as integers\<close>

lemma or_below: 
  fixes k y :: int
  assumes "0 \<le> y" "y < 2 ^ n"
  shows "or (k * 2 ^ n) y = k * 2 ^ n + y"
proof -
  have y: "y = take_bit n y" using assms by (simp add: take_bit_int_eq_self)
  have "and (k * 2 ^ n) y = 0"
    unfolding push_bit_eq_mult [symmetric] by (subst y) (rule bit_eqI, auto simp: bit_simps)
  then show ?thesis by (simp add: disjunctive_add_eq_or)
qed

lemma to_int32_idem [simp]: "to_int32 (to_int32 x) = to_int32 x"
  by (simp add: to_int32_def)

lemma to_int32_range:
  assumes "0 \<le> x" "x < 4294967296"
  shows "to_int32 x = (if x < 2147483648 then x else x - 4294967296)"
proof (cases "x < 2147483648")
  case False
  have "(x + 2147483648) mod 4294967296 = (x - 2147483648 + 4294967296) mod 4294967296"
    by (simp add: add.commute)
  also have "\<dots> = x - 2147483648"
    unfolding mod_add_self2 using assms False by (intro mod_pos_pos_trivial) auto
  finally show ?thesis using False by (simp add: to_int32_def)
qed (use assms in simp)

lemma quad_bits_int:
  fixes a b c d :: int
  assumes "0 \<le> a" "a < 256" "0 \<le> b" "b < 256" "0 \<le> c" "c < 256" "0 \<le> d" "d < 256"
  shows "quad_bits [Some a, Some b, Some c, Some d] = to_int32 (a * 16777216 + b * 65536 + c * 256 + d)"
proof -
  define A where "A = (if a < 128 then a else a - 256)"
  have A: "- 128 \<le> A" "A < 128" using assms by (auto simp: A_def)
  have s: "js_shl a 24 = A * 16777216" "js_shl b 16 = b * 65536" "js_shl c 8 = c * 256"
    using assms to_int32_range [of "a * 16777216"] by (simp_all add: js_shl_def A_def)
  have 1: "js_or (A * 16777216) (b * 65536) = A * 16777216 + b * 65536"
    unfolding js_or_def using A assms or_below [of "b * 65536" 24 A] by simp
  have 2: "js_or (A * 16777216 + b * 65536) (c * 256) = A * 16777216 + b * 65536 + c * 256"
    unfolding js_or_def using A assms or_below [of "c * 256" 16 "A * 256 + b"] by (simp add: algebra_simps)
  have 3: "js_or (A * 16777216 + b * 65536 + c * 256) d = A * 16777216 + b * 65536 + c * 256 + d"
    unfolding js_or_def using A assms or_below [of d 8 "A * 65536 + b * 256 + c"] by (simp add: algebra_simps)
  have "quad_bits [Some a, Some b, Some c, Some d] = A * 16777216 + b * 65536 + c * 256 + d"
    unfolding quad_bits_def octet_def by (simp add: nan0_def s 1 2 3)
  moreover have "a < 128 \<longleftrightarrow> a * 16777216 + b * 65536 + c * 256 + d < 2147483648" using assms by auto
  ultimately show ?thesis
    using assms to_int32_range [of "a * 16777216 + b * 65536 + c * 256 + d"] by (simp add: A_def)
qed

lemma intToIp_eq: "intToIp = intToIp4"
  by (rule ext) (simp add: intToIp_def intToIp4_def)

lemma intToIp4_mod:
  assumes "x mod 4294967296 = y mod 4294967296"
  shows "intToIp4 x = intToIp4 y"
proof -
  have u: "to_uint32 x = to_uint32 y" unfolding to_uint32_def using assms by simp
  have "z mod 256 = z mod 4294967296 mod 256" for z :: int by (rule mod_mod_cancel [symmetric]) simp
  then have m: "x mod 256 = y mod 256" using assms by metis
  show ?thesis unfolding intToIp4_def js_ushr_def js_and_255 u m by (rule refl)
qed

lemma quad_bits_ip4:
  assumes "0 \<le> n" "n < 4294967296"
  shows "quad_bits (map js_Number (split_on CHR ''.'' (intToIp4 n))) = to_int32 n"
proof -
  define a b c d where abcd: "a = n div 16777216" "b = n div 65536 mod 256" "c = n div 256 mod 256" "d = n mod 256"
  have r: "0 \<le> a" "a < 256" "0 \<le> b" "b < 256" "0 \<le> c" "c < 256" "0 \<le> d" "d < 256"
    unfolding abcd using octet_bounds [of n] assms by simp_all
  have n: "a * 16777216 + b * 65536 + c * 256 + d = n"
    unfolding abcd by (rule quad_of_int) (use assms in simp_all)
  have "intToIp4 n = quad (nat a) (nat b) (nat c) (nat d)"
    unfolding abcd by (rule intToIp4_quad) (use assms in simp_all)
  then have "map js_Number (split_on CHR ''.'' (intToIp4 n)) = [Some a, Some b, Some c, Some d]"
    using r by (simp add: split_quad)
  then show ?thesis using quad_bits_int [OF r] by (simp only: n)
qed

text \<open>The bitwise parser agrees with the arithmetic one on printed addresses.\<close>

lemma ipToInt_intToIp4: "0 \<le> n \<Longrightarrow> n < 4294967296 \<Longrightarrow> ipToInt (intToIp4 n) = n"
  by (simp add: ipToInt_def quad_bits_ip4 js_ushr_def)

section \<open>Point-to-point subnets\<close>

definition p2p_at :: "int \<Rightarrow> p2p" where
  "p2p_at m = \<lparr>pp_gwEnd = intToIp4 (m + 1), pp_custEnd = intToIp4 (m + 2), pp_cidr = mk_cidr m 30\<rparr>"

lemma mk_cidr_30: "mk_cidr m 30 = intToIp4 m @ ''/30''"
proof -
  have "show_nat (nat 30) = ''30''" by code_simp
  then show ?thesis by (simp add: mk_cidr_def)
qed

lemma allocateNextP2p_run:
  assumes n: "good_net n p" and p: "p \<le> 30"
  shows "allocateNextP2p (mk_cidr n p) used =
    (case first_off (\<lambda>off. intToIp4 (n + off + 1) \<notin> set used) 4 4 (2 ^ nat (32 - p)) 0 of
       Some off \<Rightarrow> Inr (p2p_at (n + off)) | None \<Rightarrow> Inl NoGatewayAvailable)"
proof -
  have nb: "0 \<le> n" "n < 4294967296" "2 \<le> p" using n by (auto simp: good_net_def)
  have b: "intToIp4 (to_int32 n + k) = intToIp4 (n + k)" for k
  proof (rule intToIp4_mod)
    have "to_int32 n mod 4294967296 = n mod 4294967296" using to_int32_mod [of n] by simp
    then show "(to_int32 n + k) mod 4294967296 = (n + k) mod 4294967296" by (metis mod_add_left_eq)
  qed
  have sz: "js_shl 1 (32 - p) = 2 ^ nat (32 - p)" using size_pow [of p] nb p by simp
  have e: "intToIp4 (to_int32 n + off + 1) = intToIp4 (n + off + 1)" "intToIp4 (to_int32 n + off + 1 + 1) = intToIp4 (n + off + 2)"
    "intToIp4 (to_int32 n + off) = intToIp4 (n + off)" for off
    using b [of "off + 1"] b [of "off + 2"] b [of off] by (simp_all add: add.assoc)
  have pos: "0 \<le> p" using nb(3) by simp
  have parts: "split_on CHR ''/'' (mk_cidr n p) = [intToIp4 n, show_nat (nat p)]" by (rule split_mk_cidr)
  have m: "(if 2 \<le> length [intToIp4 n, show_nat (nat p)] then js_Number ([intToIp4 n, show_nat (nat p)] ! 1) else None) = Some p"
    using pos by simp
  have q: "quad_bits (map js_Number (split_on CHR ''.'' (hd [intToIp4 n, show_nat (nat p)]))) = to_int32 n"
    using quad_bits_ip4 [OF nb(1,2)] by simp
  have low: "(30 < p) = False" using p by simp
  have "allocateNextP2p (mk_cidr n p) used =
      (case first_off (\<lambda>off. intToIp4 (to_int32 n + off + 1) \<notin> set used) 4 4 (2 ^ nat (32 - p)) 0 of
        Some off \<Rightarrow> Inr \<lparr>pp_gwEnd = intToIp4 (to_int32 n + off + 1), pp_custEnd = intToIp4 (to_int32 n + off + 1 + 1),
          pp_cidr = intToIp4 (to_int32 n + off) @ ''/30''\<rparr>
      | None \<Rightarrow> Inl NoGatewayAvailable)"
    unfolding allocateNextP2p_def Let_def parts m q intToIp_eq option.case(2) sz low throw_if_simps andThen_simps by (rule refl)
  then show ?thesis by (simp only: e p2p_at_def mk_cidr_30)
qed
text \<open>The slots of a subnet: the aligned /30 networks inside it.\<close>

definition slot :: "int \<Rightarrow> int \<Rightarrow> int \<Rightarrow> bool" where
  "slot n p m \<longleftrightarrow> 4 dvd m \<and> n \<le> m \<and> m + 4 \<le> n + 2 ^ nat (32 - p)"

lemma good_net_4:
  assumes "good_net n p" "p \<le> 30"
  shows "4 dvd n" "0 \<le> n" "n + 2 ^ nat (32 - p) \<le> 4294967296"
proof -
  have e: "nat (32 - p) = 2 + nat (30 - p)" using assms(2) by simp
  have d: "(2::int) ^ nat (32 - p) dvd n" using assms(1) by (auto simp: good_net_def)
  moreover have "(4::int) dvd 2 ^ nat (32 - p)" unfolding e by (simp add: power_add)
  ultimately show "4 dvd n" by (rule dvd_trans [rotated])
  show "0 \<le> n" using assms(1) by (simp add: good_net_def)
  from d obtain k where k: "n = 2 ^ nat (32 - p) * k" by (rule dvdE)
  have f: "(2::int) ^ nat (32 - p) * 2 ^ nat p = 4294967296"
    using assms by (simp add: power_add [symmetric] nat_add_distrib [symmetric] good_net_def)
  have "2 ^ nat (32 - p) * k < 2 ^ nat (32 - p) * (2::int) ^ nat p" using assms(1) k f by (simp add: good_net_def)
  then have "k < 2 ^ nat p" by simp
  then have "2 ^ nat (32 - p) * (k + 1) \<le> 2 ^ nat (32 - p) * (2::int) ^ nat p" by (intro mult_left_mono) auto
  then show "n + 2 ^ nat (32 - p) \<le> 4294967296" unfolding k f by (simp add: algebra_simps)
qed

lemma slot_offset:
  assumes "good_net n p" "p \<le> 30"
  shows "slot n p m \<longleftrightarrow> (\<exists>k. m = n + int k * 4 \<and> int k * 4 + 4 \<le> 2 ^ nat (32 - p))"
proof
  assume s: "slot n p m"
  then have "4 dvd m - n" using good_net_4(1) [OF assms] by (simp add: slot_def)
  then obtain j where j: "m - n = 4 * j" by (rule dvdE)
  with s have "0 \<le> j" by (simp add: slot_def)
  with j s show "\<exists>k. m = n + int k * 4 \<and> int k * 4 + 4 \<le> 2 ^ nat (32 - p)"
    by (intro exI [of _ "nat j"]) (auto simp: slot_def)
next
  assume "\<exists>k. m = n + int k * 4 \<and> int k * 4 + 4 \<le> 2 ^ nat (32 - p)"
  then show "slot n p m" using good_net_4(1) [OF assms] by (auto simp: slot_def)
qed

lemma allocateNextP2p_facts:
  assumes net: "good_net n p" "p \<le> 30"
  shows "allocateNextP2p (mk_cidr n p) used = Inr pp \<Longrightarrow>
      \<exists>m. slot n p m \<and> pp = p2p_at m \<and> pp_gwEnd pp \<notin> set used \<and>
        (\<forall>m'. slot n p m' \<and> pp_gwEnd (p2p_at m') \<in> set used \<longrightarrow> {m ..< m + 4} \<inter> {m' ..< m' + 4} = {})"
    and "allocateNextP2p (mk_cidr n p) used = Inl NoGatewayAvailable \<longleftrightarrow>
      (\<forall>m. slot n p m \<longrightarrow> pp_gwEnd (p2p_at m) \<in> set used)"
proof -
  let ?free = "\<lambda>off. intToIp4 (n + off + 1) \<notin> set used" and ?sz = "2 ^ nat (32 - p) :: int"
  note run = allocateNextP2p_run [OF net] and slot = slot_offset [OF net]
  show "\<exists>m. slot n p m \<and> pp = p2p_at m \<and> pp_gwEnd pp \<notin> set used \<and>
      (\<forall>m'. slot n p m' \<and> pp_gwEnd (p2p_at m') \<in> set used \<longrightarrow> {m ..< m + 4} \<inter> {m' ..< m' + 4} = {})"
    if "allocateNextP2p (mk_cidr n p) used = Inr pp"
  proof -
    from that obtain off where f: "first_off ?free 4 4 ?sz 0 = Some off" and pp: "pp = p2p_at (n + off)"
      by (auto simp: run split: option.splits)
    from first_off_sound [OF _ f] have o: "?free off" "\<exists>k. off = int k * 4 \<and> off + 4 \<le> ?sz" by auto
    then have m: "slot n p (n + off)" unfolding slot by auto
    have "{n + off ..< n + off + 4} \<inter> {m' ..< m' + 4} = {}"
      if m': "slot n p m'" "pp_gwEnd (p2p_at m') \<in> set used" for m'
    proof -
      have "m' \<noteq> n + off" using m'(2) o(1) by (auto simp: p2p_at_def)
      moreover have "4 dvd n + off" "4 dvd m'" using m m' by (auto simp: slot_def)
      ultimately show ?thesis by (auto elim!: dvdE)
    qed
    with m o(1) show ?thesis by (intro exI [of _ "n + off"]) (auto simp: pp p2p_at_def)
  qed
  have "first_off ?free 4 4 ?sz 0 = None \<longleftrightarrow> (\<forall>k. int k * 4 + 4 \<le> ?sz \<longrightarrow> \<not> ?free (int k * 4))"
  proof
    assume "first_off ?free 4 4 ?sz 0 = None"
    then show "\<forall>k. int k * 4 + 4 \<le> ?sz \<longrightarrow> \<not> ?free (int k * 4)"
      using first_off_None [of 4 ?free 4 ?sz 0] by auto
  next
    assume a: "\<forall>k. int k * 4 + 4 \<le> ?sz \<longrightarrow> \<not> ?free (int k * 4)"
    show "first_off ?free 4 4 ?sz 0 = None"
    proof (cases "first_off ?free 4 4 ?sz 0")
      case (Some off)
      with first_off_sound [OF _ Some] a show ?thesis by auto
    qed
  qed
  then show "allocateNextP2p (mk_cidr n p) used = Inl NoGatewayAvailable \<longleftrightarrow>
      (\<forall>m. slot n p m \<longrightarrow> pp_gwEnd (p2p_at m) \<in> set used)"
    by (auto simp: run slot p2p_at_def split: option.splits)
qed

text \<open>
  Every GRE tunnel gets a point-to-point network of its own: in a gateway subnet of at most
  /30 the allocator returns an aligned /30 inside the subnet whose gateway end is not in use,
  with the customer end next to it, and that /30 is disjoint from the /30 of every end in use;
  it gives up exactly when the gateway end of every /30 of the subnet is in use.
\<close>

theorem allocateNextP2p_correct:
  assumes net: "good_net n p" "p \<le> 30"
  shows "(\<forall>pp. allocateNextP2p (mk_cidr n p) used = Inr pp \<longrightarrow>
      (\<exists>m. slot n p m \<and> pp = p2p_at m \<and> pp_gwEnd pp \<notin> set used \<and>
        (\<forall>m'. slot n p m' \<and> pp_gwEnd (p2p_at m') \<in> set used \<longrightarrow> {m ..< m + 4} \<inter> {m' ..< m' + 4} = {}))) \<and>
    (allocateNextP2p (mk_cidr n p) used = Inl NoGatewayAvailable \<longleftrightarrow>
      (\<forall>m. slot n p m \<longrightarrow> pp_gwEnd (p2p_at m) \<in> set used))"
  using allocateNextP2p_facts [OF net] by blast

interpretation gre_alloc: host_allocator "\<lambda>c used. map_sum id pp_gwEnd (allocateNextP2p c used)"
proof unfold_locales
  fix c used ip
  assume "map_sum id pp_gwEnd (allocateNextP2p c used) = Inr ip"
  then show "ip \<notin> set used"
    by (cases "allocateNextP2p c used")
      (auto simp: allocateNextP2p_def Let_def throw_if_def split: if_splits option.splits dest!: first_off_sound [rotated])
qed

lemma demo_net: "good_net 174325760 24" "''10.100.0.0/24'' = mk_cidr 174325760 24"
  by code_simp+

theorem allocateNextP2p_correct_witness:
  "\<exists>m pp. allocateNextP2p ''10.100.0.0/24'' [''10.100.0.1''] = Inr pp \<and> pp_gwEnd pp = ''10.100.0.5'' \<and>
     slot 174325760 24 m \<and> {m ..< m + 4} \<inter> {174325760 ..< 174325764} = {}"
proof -
  have r: "allocateNextP2p ''10.100.0.0/24'' [''10.100.0.1''] =
      Inr \<lparr>pp_gwEnd = ''10.100.0.5'', pp_custEnd = ''10.100.0.6'', pp_cidr = ''10.100.0.4/30''\<rparr>" by code_simp
  have u: "pp_gwEnd (p2p_at 174325760) \<in> set [''10.100.0.1'']" by code_simp
  have s: "slot 174325760 24 174325760" by code_simp
  from conjunct1 [OF allocateNextP2p_correct [OF demo_net(1), of "[''10.100.0.1'']"]] obtain m where
    "slot 174325760 24 m" "{m ..< m + 4} \<inter> {174325760 ..< 174325760 + 4} = {}"
    using r s u unfolding demo_net(2) by fastforce
  with r show ?thesis by auto
qed

section \<open>Contracts of the operations\<close>

lemma resolveHost_public: "resolveHost dns host = Inr ip \<Longrightarrow> isPublicIPv4 ip"
  by (auto simp: resolveHost_def flow)

lemma provisionGreTunnel_Inr:
  assumes "provisionGreTunnel dns g now inp s = (Inr r, s')"
  obtains price w gw ip where
    "TUNNEL_NAME_RE (gi_name inp)" "isPlausibleHost (gi_remoteEndpointHost inp)"
    "speedTierPrice (gi_speedTier inp) s = Inr price" "tierAllowed ''gre'' (gi_speedTier inp) s"
    "resolveHost dns (gi_remoteEndpointHost inp) = Inr ip" "\<not> name_taken (gi_userId inp) (gi_name inp) s"
    "pick_gateway (\<lambda>gw. ''gre'' \<in> set (g_supported_protocols gw)) (gi_gatewayHostname inp) s = Some gw"
    "allocateNextP2p (g_private_subnet gw) (used_private (g_id gw) s) = Inr (gr_p2p r)"
    "bought_tunnel g w (gi_userId inp) price
       (new_gre_tunnel (gr_tunnelId r) inp (g_id gw) price (gr_p2p r) (next_gre_key (g_id gw) s) ip now) s s'"
    "gr_gatewayId r = g_id gw" "gr_greKey r = next_gre_key (g_id gw) s" "gr_remoteEndpointIp r = ip"
proof -
  from assms obtain price ip where a: "TUNNEL_NAME_RE (gi_name inp)" "isPlausibleHost (gi_remoteEndpointHost inp)"
      "speedTierPrice (gi_speedTier inp) s = Inr price" "tierAllowed ''gre'' (gi_speedTier inp) s"
      "resolveHost dns (gi_remoteEndpointHost inp) = Inr ip"
    and t: "provisionGre_tx g now inp price ip s = Inr (r, s')"
    by (auto simp: provisionGreTunnel_def flow tier_price_Inr)
  from t obtain w gw pp s1 s2 where w: "wallet_of (gi_userId inp) s = Some w" "price \<le> w_balance w"
      "\<not> name_taken (gi_userId inp) (gi_name inp) s"
    and gw: "pick_gateway (\<lambda>gw. ''gre'' \<in> set (g_supported_protocols gw)) (gi_gatewayHostname inp) s = Some gw"
    and pp: "allocateNextP2p (g_private_subnet gw) (used_private (g_id gw) s) = Inr pp"
    and ins: "insert_tunnel (new_gre_tunnel (g (length (tunnels s))) inp (g_id gw) price pp (next_gre_key (g_id gw) s) ip now) s = Inr s1"
    and p: "pay g w (gi_userId inp) TxSubscriptionCharge price
       (''GRE tunnel '' @ gi_name inp @ '' ('' @ gi_speedTier inp @ '')'')
       (''buy-gre-tunnel-'' @ g (length (tunnels s)) @ ''-'' @ show_int now) s1 = Inr s2"
    and s': "s' = audit now ActSystem (Some (gi_userId inp)) ''tunnel.create'' (Some ''tunnel'') (Some (g (length (tunnels s))))
          [(''protocol'', JStr ''gre''), (''gateway'', JStr (g_hostname gw)), (''gatewayEndIp'', JStr (pp_gwEnd pp)),
           (''customerEndIp'', JStr (pp_custEnd pp)), (''greKey'', JNum (next_gre_key (g_id gw) s)),
           (''remoteEndpointHost'', JStr (gi_remoteEndpointHost inp)), (''remoteEndpointIp'', JStr ip),
           (''priceSatang'', JNum price)] (gateway_add (g_id gw) s2)"
    and r: "r = \<lparr>gr_tunnelId = g (length (tunnels s)), gr_gatewayId = g_id gw, gr_gatewayHostname = g_hostname gw,
           gr_peerId = peerIdFromTunnelId (g (length (tunnels s))), gr_p2p = pp,
           gr_greKey = next_gre_key (g_id gw) s, gr_remoteEndpointHost = gi_remoteEndpointHost inp,
           gr_remoteEndpointIp = ip\<rparr>"
    unfolding provisionGre_tx_def
    by (clarsimp simp only: flow check_buyer_Inr sum.inject prod.inject) blast
  have "bought_tunnel g w (gi_userId inp) price
      (new_gre_tunnel (g (length (tunnels s))) inp (g_id gw) price pp (next_gre_key (g_id gw) s) ip now) s s'"
    by (rule buy_tunnel_post [OF w(1,2) ins _ _ p]) (simp_all add: new_gre_tunnel_def s')
  with that [OF a w(3) gw, of w] pp r show thesis by simp
qed

lemma provisionGreTunnel_fail:
  "fst (provisionGreTunnel dns g now inp s) = Inl e \<Longrightarrow> snd (provisionGreTunnel dns g now inp s) = s"
  by (auto simp: provisionGreTunnel_def seq_def attempt_def sql_begin_def split: sum.splits prod.splits)

interpretation provision_gre: money_op "provisionGreTunnel dns g now" for dns g now
proof unfold_locales
  fix s inp
  assume ok: "ledger_ok s"
  show "ledger_ok (snd (provisionGreTunnel dns g now inp s))"
  proof (cases rule: op_cases [of "provisionGreTunnel dns g now inp s"])
    case (Fail e)
    with ok provisionGreTunnel_fail show ?thesis by metis
  next
    case (Ok x)
    then show ?thesis by (rule provisionGreTunnel_Inr) (rule bought_tunnel_ledger [OF ok])
  qed
qed

interpretation provision_gre_iso: keeps tenancy_ok "\<lambda>_. fresh_tunnel g" "provisionGreTunnel dns g now" for dns g now
proof unfold_locales
  fix s inp
  assume ok: "tenancy_ok s" "fresh_tunnel g s"
  show "tenancy_ok (snd (provisionGreTunnel dns g now inp s))"
  proof (cases rule: op_cases [of "provisionGreTunnel dns g now inp s"])
    case (Fail e)
    with ok provisionGreTunnel_fail show ?thesis by metis
  next
    case (Ok x)
    then show ?thesis by (rule provisionGreTunnel_Inr) (rule bought_tunnel_tenancy [OF ok(1) _ ok(2)])
  qed
qed

text \<open>
  What the other operations write: status, endpoint columns and calls. A predicate that these
  statements keep is kept by each operation.
\<close>

lemma activateGreTunnel_inv:
  assumes "\<And>s t gw. I s \<Longrightarrow> gre_row (\<lambda>_. True) tid s = Some (t, gw) \<Longrightarrow> I (send (gre_create_call t gw s) s)"
    and "\<And>s. I s \<Longrightarrow> I (set_tunnels (\<lambda>v. t_id v = tid) (\<lambda>v. v\<lparr>t_status := TunActive\<rparr>) s)" and "I s"
  shows "I (snd (activateGreTunnel agent tid s))"
  using assms by (auto simp: activateGreTunnel_def flow_defs split: option.splits)

lemma deleteGreTunnel_run:
  "deleteGreTunnel agent now tid u s =
     (case gre_row (\<lambda>t. t_user_id t = u \<and> t_deleted_at t = None) tid s of
        None \<Rightarrow> (Inl (NotFound (''gre tunnel '' @ tid)), s)
      | Some (t, gw) \<Rightarrow> (Inr (), send (DeleteGrePeer (g_id gw) (peerIdFromTunnelId tid))
          (audit now ActUser (Some u) ''tunnel.delete'' (Some ''tunnel'') (Some tid) [(''protocol'', JStr ''gre'')]
            (gateway_drop (t_gateway_id t) (mark_deleted now tid
              (set_ips (\<lambda>p. i_tunnel_id p = Some tid) (\<lambda>p. p\<lparr>i_tunnel_id := None\<rparr>) s))))))"
  by (auto simp: deleteGreTunnel_def flow_defs sql_begin_def split: option.splits)

lemma updateGreEndpoint_inv:
  assumes touch: "\<And>s. I s \<Longrightarrow> I (touch_endpoint tid now s)"
    and call: "\<And>s gid ip. I s \<Longrightarrow> isPublicIPv4 ip \<Longrightarrow> I (send (PatchGrePeer gid (peerIdFromTunnelId tid) (Some ip) None None) s)"
    and ip: "\<And>s ip. I s \<Longrightarrow> isPublicIPv4 ip \<Longrightarrow> I (set_endpoint_ip tid ip now s)"
    and host: "\<And>s h. I s \<Longrightarrow> I (set_tunnels (\<lambda>v. t_id v = tid) (\<lambda>v. v\<lparr>t_remote_endpoint_host := Some h\<rparr>) s)"
    and log: "\<And>s a i act md. I s \<Longrightarrow> I (audit now a i act (Some ''tunnel'') (Some tid) md s)" and I: "I s"
  shows "I (snd (updateGreEndpoint dns agent now tid u h s))"
  unfolding updateGreEndpoint_def
  using I touch call ip host log resolveHost_public [of dns h]
  by (auto simp: seq_def attempt_def done_with_def do_stmt_def request_def or_throw_def throw_if_def
    split: option.splits sum.splits prod.splits if_splits)

lemma resolveGreEndpoint_inv:
  assumes touch: "\<And>s. I s \<Longrightarrow> I (touch_endpoint tid now s)"
    and call: "\<And>s gid ip. I s \<Longrightarrow> isPublicIPv4 ip \<Longrightarrow> I (send (PatchGrePeer gid (peerIdFromTunnelId tid) (Some ip) None None) s)"
    and ip: "\<And>s ip. I s \<Longrightarrow> isPublicIPv4 ip \<Longrightarrow> I (set_endpoint_ip tid ip now s)"
    and log: "\<And>s a i act md. I s \<Longrightarrow> I (audit now a i act (Some ''tunnel'') (Some tid) md s)" and I: "I s"
  shows "I (snd (resolveGreEndpoint dns agent now tid s))"
  unfolding resolveGreEndpoint_def
  using I touch call ip log resolveHost_public [of dns]
  by (auto simp: seq_def attempt_def done_with_def do_stmt_def request_def or_throw_def
    split: option.splits sum.splits prod.splits list.splits if_splits)

lemmas endpoint_defs = touch_endpoint_def set_endpoint_ip_def

interpretation activate_gre: wallet_frame "activateGreTunnel agent" for agent
proof unfold_locales
  fix tid s
  show "wallets (snd (activateGreTunnel agent tid s)) = wallets s \<and> txs (snd (activateGreTunnel agent tid s)) = txs s"
    by (rule activateGreTunnel_inv [where I = "\<lambda>t. wallets t = wallets s \<and> txs t = txs s"]) simp_all
qed

interpretation delete_gre: wallet_frame "\<lambda>(tid, u). deleteGreTunnel agent now tid u" for agent now
  by unfold_locales (simp add: deleteGreTunnel_run split: prod.splits option.splits)

interpretation update_gre: wallet_frame "\<lambda>(tid, u, h). updateGreEndpoint dns agent now tid u h" for dns agent now
proof unfold_locales
  fix y s
  show "wallets (snd ((\<lambda>(tid, u, h). updateGreEndpoint dns agent now tid u h) y s)) = wallets s \<and>
      txs (snd ((\<lambda>(tid, u, h). updateGreEndpoint dns agent now tid u h) y s)) = txs s"
    by (cases y, simp only: prod.case)
      (rule updateGreEndpoint_inv [where I = "\<lambda>t. wallets t = wallets s \<and> txs t = txs s"], simp_all add: endpoint_defs)
qed

interpretation resolve_gre: wallet_frame "resolveGreEndpoint dns agent now" for dns agent now
proof unfold_locales
  fix tid s
  show "wallets (snd (resolveGreEndpoint dns agent now tid s)) = wallets s \<and>
      txs (snd (resolveGreEndpoint dns agent now tid s)) = txs s"
    by (rule resolveGreEndpoint_inv [where I = "\<lambda>t. wallets t = wallets s \<and> txs t = txs s"]) (simp_all add: endpoint_defs)
qed

interpretation activate_gre_iso: keeps tenancy_ok "\<lambda>_ _. True" "activateGreTunnel agent" for agent
  by unfold_locales (rule activateGreTunnel_inv [where I = tenancy_ok]; simp add: tenancy_set_tunnels)

interpretation delete_gre_iso: keeps tenancy_ok "\<lambda>_ _. True" "\<lambda>(tid, u). deleteGreTunnel agent now tid u" for agent now
  by unfold_locales
    (auto simp: deleteGreTunnel_run split: prod.splits option.splits intro!: tenancy_mark_deleted tenancy_detach)

interpretation update_gre_iso: keeps tenancy_ok "\<lambda>_ _. True" "\<lambda>(tid, u, h). updateGreEndpoint dns agent now tid u h"
  for dns agent now
  by unfold_locales
    (simp split: prod.splits, intro allI impI, rule updateGreEndpoint_inv [where I = tenancy_ok];
      simp add: endpoint_defs tenancy_set_tunnels)

interpretation resolve_gre_iso: keeps tenancy_ok "\<lambda>_ _. True" "resolveGreEndpoint dns agent now" for dns agent now
  by unfold_locales (rule resolveGreEndpoint_inv [where I = tenancy_ok]; simp add: endpoint_defs tenancy_set_tunnels)

section \<open>No tunnel into internal networks\<close>

definition remote_of :: "gw_call \<Rightarrow> ip4 option" where
  "remote_of c = (case c of CreateGrePeer _ _ r _ _ _ _ _ \<Rightarrow> r | PatchGrePeer _ _ r _ _ \<Rightarrow> r | _ \<Rightarrow> None)"

fun public_opt :: "ip4 option \<Rightarrow> bool" where
  "public_opt None = True"
| "public_opt (Some ip) = isPublicIPv4 ip"

definition endpoints_ok :: "db \<Rightarrow> bool" where
  "endpoints_ok s \<longleftrightarrow> (\<forall>t \<in> set (tunnels s). public_opt (t_remote_endpoint_ip t)) \<and>
     (\<forall>c \<in> set (calls s). public_opt (remote_of c))"

lemma endpoints_cong: "tunnels s' = tunnels s \<Longrightarrow> calls s' = calls s \<Longrightarrow> endpoints_ok s' = endpoints_ok s"
  by (simp add: endpoints_ok_def)

lemma endpoints_stmt [simp]:
  "endpoints_ok (audit now a i act rt ri md s) = endpoints_ok s" "endpoints_ok (set_ips P f s) = endpoints_ok s"
  "endpoints_ok (gateway_drop gid s) = endpoints_ok s"
  by (rule endpoints_cong; simp)+

lemma endpoints_send: "endpoints_ok s \<Longrightarrow> public_opt (remote_of c) \<Longrightarrow> endpoints_ok (send c s)"
  by (auto simp: endpoints_ok_def)

lemma endpoints_set_tunnels:
  "endpoints_ok s \<Longrightarrow> (\<And>t. public_opt (t_remote_endpoint_ip t) \<Longrightarrow> public_opt (t_remote_endpoint_ip (f t))) \<Longrightarrow>
     endpoints_ok (set_tunnels P f s)"
  by (auto simp: endpoints_ok_def in_set_upd_where)

text \<open>
  C26. The guard holds at every entry point: whatever the resolver answers and whatever the agents
  do, creating, activating, editing, re-resolving and deleting GRE tunnels keep every stored
  endpoint, and every remote address ever sent to a gateway, outside the internal ranges.
\<close>

theorem gre_endpoints_public:
  assumes ok: "endpoints_ok s"
  shows "endpoints_ok (snd (provisionGreTunnel dns g now inp s)) \<and> endpoints_ok (snd (activateGreTunnel agent tid s)) \<and>
    endpoints_ok (snd (updateGreEndpoint dns agent now tid u h s)) \<and>
    endpoints_ok (snd (resolveGreEndpoint dns agent now tid s)) \<and> endpoints_ok (snd (deleteGreTunnel agent now tid u s))"
proof (intro conjI)
  show "endpoints_ok (snd (provisionGreTunnel dns g now inp s))"
  proof (cases rule: op_cases [of "provisionGreTunnel dns g now inp s"])
    case (Fail e)
    with ok provisionGreTunnel_fail show ?thesis by metis
  next
    case (Ok x)
    then show ?thesis
      by (rule provisionGreTunnel_Inr)
        (use ok in \<open>auto simp: endpoints_ok_def bought_tunnel_def new_gre_tunnel_def dest: resolveHost_public\<close>)
  qed
  have create: "public_opt (remote_of (gre_create_call t gw s'))"
    if "endpoints_ok s'" "gre_row P tid s' = Some (t, gw)" for s' t gw P
    using that by (fastforce simp: endpoints_ok_def gre_row_def gre_create_call_def remote_of_def split: option.splits dest: find_SomeD)
  show "endpoints_ok (snd (activateGreTunnel agent tid s))"
    by (rule activateGreTunnel_inv [where I = endpoints_ok]) (auto intro!: endpoints_send endpoints_set_tunnels ok dest: create)
  show "endpoints_ok (snd (updateGreEndpoint dns agent now tid u h s))"
    by (rule updateGreEndpoint_inv [where I = endpoints_ok])
      (auto simp: endpoint_defs remote_of_def ok intro!: endpoints_send endpoints_set_tunnels)
  show "endpoints_ok (snd (resolveGreEndpoint dns agent now tid s))"
    by (rule resolveGreEndpoint_inv [where I = endpoints_ok])
      (auto simp: endpoint_defs remote_of_def ok intro!: endpoints_send endpoints_set_tunnels)
  show "endpoints_ok (snd (deleteGreTunnel agent now tid u s))"
    using ok by (auto simp: deleteGreTunnel_run mark_deleted_def remote_of_def split: option.splits
      intro!: endpoints_send endpoints_set_tunnels)
qed

definition gre_db :: db where
  "gre_db = demo_db\<lparr>tunnels := [demo_tunnel\<lparr>t_protocol := ''gre'', t_private_ip := ''10.8.0.1'', t_wg_public_key := None,
     t_remote_endpoint_host := Some ''home.example.org'', t_remote_endpoint_ip := Some ''198.51.100.9'', t_gre_key := Some 1000\<rparr>]\<rparr>"

theorem gre_endpoints_public_witness:
  "endpoints_ok (snd (resolveGreEndpoint (\<lambda>_. Inr [''127.0.0.1'']) (\<lambda>_. None) T0 ''t1'' gre_db)) \<and>
   endpoints_ok (snd (activateGreTunnel (\<lambda>_. None) ''t1'' gre_db))"
proof -
  have "endpoints_ok gre_db" by code_simp
  from gre_endpoints_public [OF this] show ?thesis by blast
qed

end
