(* ===== verification/Drift.thy ===== *)
theory Drift
  imports Provision Demo
begin

text \<open>
  \<^verbatim>\<open>packages/provisioning/src/drift.ts\<close>: making the peers of a gateway what the database says. The
  WireGuard part of an agent is a record of the requests the reconciler sends, over any state
  of the gateway; \<open>peer_agent\<close> states what they do, and the agent's two backends
  (\<^verbatim>\<open>gateway-agent/internal/wg/memory.go\<close> and \<^verbatim>\<open>kernel.go\<close>, behind
  \<^verbatim>\<open>internal/server/handlers_peers.go\<close>) are the instances. A missing \<^verbatim>\<open>wg_public_key\<close> is sent as JSON
  null, which the agent decodes as the empty key. The TypeScript \<^verbatim>\<open>parseCidr\<close> before the blackhole request
  throws for no text (\<^verbatim>\<open>Number\<close> of a bad part is NaN), so it has no branch here.
\<close>

record peer =
  pe_peerId :: string
  pe_publicKey :: string
  pe_privateIp :: ip4
  pe_publicIps :: "cidr list"

record 'k wg_agent =
  ag_list :: "'k \<Rightarrow> error + peer list"
  ag_create :: "peer \<Rightarrow> int \<Rightarrow> 'k \<Rightarrow> error option \<times> 'k"
  ag_update :: "string \<Rightarrow> ip4 \<Rightarrow> cidr list \<Rightarrow> int \<Rightarrow> 'k \<Rightarrow> error option \<times> 'k"
  ag_delete :: "string \<Rightarrow> 'k \<Rightarrow> error option \<times> 'k"
  ag_blackhole :: "cidr \<Rightarrow> 'k \<Rightarrow> error option \<times> 'k"

record DriftReport =
  rp_gatewayId :: uuid
  rp_gatewayHostname :: string
  rp_pushed :: "uuid list"
  rp_deletedOrphans :: "string list"
  rp_alreadyOk :: nat
  rp_errors :: "(uuid option \<times> string option \<times> error) list"

record DbTunnel =
  dt_id :: uuid
  dt_key :: string
  dt_private_ip :: ip4
  dt_speed_tier :: string
  dt_public_ips :: "cidr list"

text \<open>The CIDRs a tunnel should have, with \<^verbatim>\<open>UNION\<close>, which removes duplicates.\<close>

definition drift_cidrs :: "uuid \<Rightarrow> db \<Rightarrow> cidr list" where
  "drift_cidrs tid s = sort (remdups (tunnel_singles tid s @ tunnel_block_cidrs tid s))"

definition db_tunnels :: "uuid \<Rightarrow> db \<Rightarrow> DbTunnel list" where
  "db_tunnels gid s = map (\<lambda>t. \<lparr>dt_id = t_id t, dt_key = (case t_wg_public_key t of None \<Rightarrow> [] | Some k \<Rightarrow> k),
       dt_private_ip = t_private_ip t, dt_speed_tier = t_speed_tier t, dt_public_ips = drift_cidrs (t_id t) s\<rparr>)
     (filter (\<lambda>t. t_gateway_id t = gid \<and> t_deleted_at t = None \<and> t_status t = TunActive \<and> t_protocol t = ''wireguard'')
       (tunnels s))"

definition want :: "DbTunnel \<Rightarrow> cidr list" where
  "want t = sort (filter (\<lambda>x. x \<noteq> []) (dt_public_ips t))"

text \<open>The state of one run: the database, the gateway, the report so far.\<close>

record 'k drift =
  dr_db :: db
  dr_kernel :: 'k
  dr_report :: DriftReport

definition add_error :: "uuid option \<Rightarrow> string option \<Rightarrow> error \<Rightarrow> DriftReport \<Rightarrow> DriftReport" where
  "add_error tid pk e r = r\<lparr>rp_errors := rp_errors r @ [(tid, pk, e)]\<rparr>"

text \<open>A push that succeeded: reported and audited; one that failed: reported as an error.\<close>

definition pushed :: "ms \<Rightarrow> uuid \<Rightarrow> string \<Rightarrow> (string \<times> json) list \<Rightarrow> error option \<times> 'k \<Rightarrow> 'k drift \<Rightarrow> 'k drift" where
  "pushed now tid action metadata res st =
     (case res of
        (None, k) \<Rightarrow> st\<lparr>dr_kernel := k,
          dr_report := (dr_report st)\<lparr>rp_pushed := rp_pushed (dr_report st) @ [tid]\<rparr>,
          dr_db := audit now ActSystem None action (Some ''tunnel'') (Some tid) metadata (dr_db st)\<rparr>
      | (Some e, k) \<Rightarrow> st\<lparr>dr_kernel := k, dr_report := add_error (Some tid) None e (dr_report st)\<rparr>)"

definition reconcile_tunnel :: "'k wg_agent \<Rightarrow> ms \<Rightarrow> string \<Rightarrow> (string \<Rightarrow> peer option) \<Rightarrow> DbTunnel \<Rightarrow> 'k drift \<Rightarrow> 'k drift" where
  "reconcile_tunnel A now hostname kernelByPk t st =
     (case kernelByPk (dt_key t) of
        None \<Rightarrow> pushed now (dt_id t) ''tunnel.drift_repush''
          [(''gateway'', JStr hostname), (''reason'', JStr ''missing'')]
          (ag_create A \<lparr>pe_peerId = dt_id t, pe_publicKey = dt_key t, pe_privateIp = dt_private_ip t, pe_publicIps = want t\<rparr>
            (tierRateKbit (dt_speed_tier t)) (dr_kernel st)) st
      | Some kp \<Rightarrow>
          let have_ips = sort (pe_publicIps kp); privateOk = pe_privateIp kp = dt_private_ip t in
          if privateOk \<and> have_ips = want t
          then st\<lparr>dr_report := (dr_report st)\<lparr>rp_alreadyOk := rp_alreadyOk (dr_report st) + 1\<rparr>\<rparr>
          else pushed now (dt_id t) ''tunnel.drift_reip''
            [(''gateway'', JStr hostname),
             (''reason'', JStr (if privateOk then ''stale public_ips'' else ''stale private_ip'')),
             (''kernelHad'', JArr (map JStr have_ips)), (''dbWants'', JArr (map JStr (want t)))]
            (ag_update A (dt_key t) (dt_private_ip t) (want t) (tierRateKbit (dt_speed_tier t)) (dr_kernel st)) st)"

definition remove_orphan :: "'k wg_agent \<Rightarrow> ms \<Rightarrow> string \<Rightarrow> string list \<Rightarrow> string \<Rightarrow> 'k drift \<Rightarrow> 'k drift" where
  "remove_orphan A now hostname dbKeys pk st =
     (if pk \<in> set dbKeys then st
      else case ag_delete A pk (dr_kernel st) of
        (None, k) \<Rightarrow> st\<lparr>dr_kernel := k,
          dr_report := (dr_report st)\<lparr>rp_deletedOrphans := rp_deletedOrphans (dr_report st) @ [pk]\<rparr>,
          dr_db := audit now ActSystem None ''gateway.drift_orphan_removed'' (Some ''gateway'') None
            [(''gateway'', JStr hostname), (''publicKey'', JStr pk)] (dr_db st)\<rparr>
      | (Some e, k) \<Rightarrow> st\<lparr>dr_kernel := k, dr_report := add_error None (Some pk) e (dr_report st)\<rparr>)"

definition ensure_blackhole :: "'k wg_agent \<Rightarrow> cidr \<Rightarrow> 'k drift \<Rightarrow> 'k drift" where
  "ensure_blackhole A c st =
     (case ag_blackhole A c (dr_kernel st) of
        (None, k) \<Rightarrow> st\<lparr>dr_kernel := k\<rparr>
      | (Some e, k) \<Rightarrow> st\<lparr>dr_kernel := k, dr_report := add_error None None e (dr_report st)\<rparr>)"

text \<open>\<^verbatim>\<open>new Map(peers.map(...))\<close>: a later entry wins, the keys keep their first position.\<close>

definition by_key :: "peer list \<Rightarrow> string \<Rightarrow> peer option" where
  "by_key ps pk = find (\<lambda>p. pe_publicKey p = pk) (rev ps)"

definition drift_start :: "gateway \<Rightarrow> db \<Rightarrow> 'k \<Rightarrow> 'k drift" where
  "drift_start gw s k = \<lparr>dr_db = s, dr_kernel = k, dr_report =
     \<lparr>rp_gatewayId = g_id gw, rp_gatewayHostname = g_hostname gw, rp_pushed = [], rp_deletedOrphans = [],
      rp_alreadyOk = 0, rp_errors = []\<rparr>\<rparr>"

definition reconcileGateway :: "'k wg_agent \<Rightarrow> ms \<Rightarrow> uuid \<Rightarrow> db \<Rightarrow> 'k \<Rightarrow> error + 'k drift" where
  "reconcileGateway A now gid s k =
     andThen (or_throw (JsError (''gateway '' @ gid @ '' not active or not found''))
       (find (\<lambda>g. g_id g = gid \<and> g_status g = GwActive) (gateways s))) (\<lambda>gw.
     andThen (ag_list A k) (\<lambda>peers.
     Inr (fold (ensure_blackhole A) (if g_bgp_enabled gw then [] else map p_block (pools s))
         (fold (remove_orphan A now (g_hostname gw) (map dt_key (db_tunnels gid s))) (uniq (map pe_publicKey peers))
           (fold (reconcile_tunnel A now (g_hostname gw) (by_key peers)) (db_tunnels gid s) (drift_start gw s k))))))"

text \<open>Each gateway has its own state; the error of one is its report.\<close>

fun reconcile_each :: "'k wg_agent \<Rightarrow> ms \<Rightarrow> uuid list \<Rightarrow> db \<Rightarrow> (uuid \<Rightarrow> 'k) \<Rightarrow> DriftReport list \<times> db \<times> (uuid \<Rightarrow> 'k)" where
  "reconcile_each A now [] s ks = ([], s, ks)"
| "reconcile_each A now (gid # gids) s ks =
     (case reconcileGateway A now gid s (ks gid) of
        Inl e \<Rightarrow> (case reconcile_each A now gids s ks of (rs, s', ks') \<Rightarrow>
          (\<lparr>rp_gatewayId = gid, rp_gatewayHostname = ''?'', rp_pushed = [], rp_deletedOrphans = [], rp_alreadyOk = 0,
            rp_errors = [(None, None, e)]\<rparr> # rs, s', ks'))
      | Inr st \<Rightarrow> (case reconcile_each A now gids (dr_db st) (ks(gid := dr_kernel st)) of (rs, s', ks') \<Rightarrow>
          (dr_report st # rs, s', ks')))"

definition reconcileAllGateways :: "'k wg_agent \<Rightarrow> ms \<Rightarrow> db \<Rightarrow> (uuid \<Rightarrow> 'k) \<Rightarrow> DriftReport list \<times> db \<times> (uuid \<Rightarrow> 'k)" where
  "reconcileAllGateways A now s ks =
     reconcile_each A now (map g_id (filter (\<lambda>g. g_status g = GwActive) (gateways s))) s ks"

section \<open>The in-memory backend of the agent\<close>

definition mem_ListPeers :: "peer list \<Rightarrow> error + peer list" where
  "mem_ListPeers m = Inr m"

definition mem_CreatePeer :: "peer \<Rightarrow> int \<Rightarrow> peer list \<Rightarrow> error option \<times> peer list" where
  "mem_CreatePeer p rate m =
     (if pe_peerId p = [] \<or> pe_publicKey p = [] \<or> pe_privateIp p = []
      then (Some (JsError ''peerId, publicKey and privateIp are required''), m)
      else case find (\<lambda>q. pe_publicKey q = pe_publicKey p) m of
        Some q \<Rightarrow> if pe_privateIp q \<noteq> pe_privateIp p then (Some (JsError ''peer exists with different config''), m) else (None, m)
      | None \<Rightarrow> (None, m @ [p]))"

definition mem_UpdatePeer :: "string \<Rightarrow> ip4 \<Rightarrow> cidr list \<Rightarrow> int \<Rightarrow> peer list \<Rightarrow> error option \<times> peer list" where
  "mem_UpdatePeer pk ip newIps rate m =
     (case find (\<lambda>q. pe_publicKey q = pk) m of
        None \<Rightarrow> (Some (JsError ''peer not found''), m)
      | Some _ \<Rightarrow> (None, upd_where (\<lambda>q. pe_publicKey q = pk) (\<lambda>q. q\<lparr>pe_publicIps := newIps\<rparr>) m))"

definition mem_DeletePeer :: "string \<Rightarrow> peer list \<Rightarrow> error option \<times> peer list" where
  "mem_DeletePeer pk m = (None, filter (\<lambda>q. pe_publicKey q \<noteq> pk) m)"

definition mem_SetBlackhole :: "cidr \<Rightarrow> peer list \<Rightarrow> error option \<times> peer list" where
  "mem_SetBlackhole c m = (if c = [] then (Some (JsError ''cidr required''), m) else (None, m))"

definition MemoryManager :: "peer list wg_agent" where
  "MemoryManager = \<lparr>ag_list = mem_ListPeers, ag_create = mem_CreatePeer, ag_update = mem_UpdatePeer,
     ag_delete = mem_DeletePeer, ag_blackhole = mem_SetBlackhole\<rparr>"

section \<open>The kernel backend of the agent\<close>

text \<open>
  \<^verbatim>\<open>gateway-agent/internal/wg/kernel.go\<close> behind \<^verbatim>\<open>internal/server/handlers_peers.go\<close>, the backend
  of the gateways in production. \<open>kn_device\<close> lists the public keys the WireGuard device holds;
  \<open>kn_meta\<close> is the map \<^verbatim>\<open>meta\<close>, which a restart of the agent empties while the device keeps its peers,
  and which is what \<^verbatim>\<open>ListPeers\<close> reports of a peer. The calls to \<^verbatim>\<open>wgctrl\<close>, \<^verbatim>\<open>netlink\<close> and \<^verbatim>\<open>tc\<close>
  succeed, and the allowed addresses they put on the device are not kept apart from \<^verbatim>\<open>meta\<close>. Which texts
  the libraries accept is a parameter: \<open>wl_key\<close> are the texts \<^verbatim>\<open>wgtypes.ParseKey\<close> reads and prints back
  unchanged, \<open>wl_cidr\<close> those \<^verbatim>\<open>parseCIDR\<close> reads. Creation times, preshared keys (never sent by the
  reconciler) and the states of suspended peers are left out.
\<close>

record wg_lib =
  wl_key :: "string \<Rightarrow> bool"
  wl_cidr :: "string \<Rightarrow> bool"

record peer_meta =
  mt_peerID :: string
  mt_privateIP :: ip4
  mt_publicIPs :: "cidr list"
  mt_classid :: int
  mt_speedKbit :: int

record kernel_mgr =
  kn_device :: "string list"
  kn_meta :: "string \<Rightarrow> peer_meta option"
  kn_nextClass :: int
  kn_routes :: "cidr list"
  kn_blackholes :: "cidr list"

definition kern_mapPeer :: "kernel_mgr \<Rightarrow> string \<Rightarrow> peer" where
  "kern_mapPeer k pk = (case kn_meta k pk of
       None \<Rightarrow> \<lparr>pe_peerId = '''', pe_publicKey = pk, pe_privateIp = '''', pe_publicIps = []\<rparr>
     | Some m \<Rightarrow> \<lparr>pe_peerId = mt_peerID m, pe_publicKey = pk, pe_privateIp = mt_privateIP m, pe_publicIps = mt_publicIPs m\<rparr>)"

definition kern_ListPeers :: "kernel_mgr \<Rightarrow> error + peer list" where
  "kern_ListPeers k = Inr (map (kern_mapPeer k) (kn_device k))"

definition kern_allowed :: "wg_lib \<Rightarrow> ip4 \<Rightarrow> cidr list \<Rightarrow> bool" where
  "kern_allowed L ip cs \<longleftrightarrow> wl_cidr L ip \<and> (\<forall>c \<in> set cs. wl_cidr L c)"

definition kern_route :: "bool \<Rightarrow> cidr list \<Rightarrow> cidr list \<Rightarrow> cidr list" where
  "kern_route add cs rs = (if add then rs @ remdups (filter (\<lambda>c. c \<notin> set rs) cs) else filter (\<lambda>c. c \<notin> set cs) rs)"

definition kern_configure :: "string \<Rightarrow> string list \<Rightarrow> string list" where
  "kern_configure pk d = (if pk \<in> set d then d else d @ [pk])"

text \<open>\<^verbatim>\<open>allocClass\<close>: the class a peer has, or the next one; the counter is 16 bits wide.\<close>

definition kern_allocClass :: "int \<Rightarrow> int \<Rightarrow> int \<times> int" where
  "kern_allocClass classid nextc = (if classid \<noteq> 0 then (classid, nextc)
     else let c = (if nextc < 2 then 2 else nextc) in (c, (c + 1) mod 65536))"

definition kern_CreatePeer :: "wg_lib \<Rightarrow> peer \<Rightarrow> int \<Rightarrow> kernel_mgr \<Rightarrow> error option \<times> kernel_mgr" where
  "kern_CreatePeer L p rate k =
     (if pe_peerId p = [] \<or> pe_publicKey p = [] \<or> pe_privateIp p = []
      then (Some (JsError ''peerId, publicKey and privateIp are required''), k)
      else if \<not> wl_key L (pe_publicKey p) then (Some (JsError ''invalid publicKey''), k)
      else if (case kn_meta k (pe_publicKey p) of None \<Rightarrow> False | Some m \<Rightarrow> mt_privateIP m \<noteq> pe_privateIp p)
      then (Some (JsError ''peer exists with different config''), k)
      else if \<not> kern_allowed L (pe_privateIp p) (pe_publicIps p) then (Some (JsError ''invalid IP''), k)
      else let (c, n) = (if 0 < rate then kern_allocClass 0 (kn_nextClass k) else (0, kn_nextClass k)) in
        (None, k\<lparr>kn_device := kern_configure (pe_publicKey p) (kn_device k),
           kn_routes := kern_route True (pe_publicIps p) (kn_routes k),
           kn_meta := (kn_meta k)(pe_publicKey p \<mapsto> \<lparr>mt_peerID = pe_peerId p, mt_privateIP = pe_privateIp p,
             mt_publicIPs = pe_publicIps p, mt_classid = c, mt_speedKbit = rate\<rparr>),
           kn_nextClass := n\<rparr>))"

definition kern_UpdatePeer :: "wg_lib \<Rightarrow> string \<Rightarrow> ip4 \<Rightarrow> cidr list \<Rightarrow> int \<Rightarrow> kernel_mgr \<Rightarrow> error option \<times> kernel_mgr" where
  "kern_UpdatePeer L pk ip cs rate k =
     (if \<not> wl_key L pk then (Some (JsError ''invalid publicKey''), k)
      else let m = (case kn_meta k pk of Some m \<Rightarrow> m
             | None \<Rightarrow> \<lparr>mt_peerID = '''', mt_privateIP = '''', mt_publicIPs = [], mt_classid = 0, mt_speedKbit = 0\<rparr>);
           k1 = k\<lparr>kn_meta := (kn_meta k)(pk \<mapsto> m)\<rparr> in
        if \<not> kern_allowed L ip cs then (Some (JsError ''invalid IP''), k1)
        else let speed = (if 0 < rate then rate else mt_speedKbit m);
             (c, n) = (if 0 < speed then kern_allocClass (mt_classid m) (kn_nextClass k) else (mt_classid m, kn_nextClass k)) in
          (None, k1\<lparr>kn_device := kern_configure pk (kn_device k),
             kn_routes := kern_route True cs (kern_route False (filter (\<lambda>c. c \<notin> set cs) (mt_publicIPs m)) (kn_routes k)),
             kn_meta := (kn_meta k)(pk \<mapsto> m\<lparr>mt_privateIP := ip, mt_publicIPs := cs, mt_speedKbit := speed, mt_classid := c\<rparr>),
             kn_nextClass := n\<rparr>))"

definition kern_DeletePeer :: "wg_lib \<Rightarrow> string \<Rightarrow> kernel_mgr \<Rightarrow> error option \<times> kernel_mgr" where
  "kern_DeletePeer L pk k =
     (if \<not> wl_key L pk then (None, k)
      else (None, k\<lparr>kn_device := filter (\<lambda>q. q \<noteq> pk) (kn_device k),
        kn_routes := (case kn_meta k pk of None \<Rightarrow> kn_routes k | Some m \<Rightarrow> kern_route False (mt_publicIPs m) (kn_routes k)),
        kn_meta := (kn_meta k)(pk := None)\<rparr>))"

definition kern_SetBlackhole :: "wg_lib \<Rightarrow> cidr \<Rightarrow> kernel_mgr \<Rightarrow> error option \<times> kernel_mgr" where
  "kern_SetBlackhole L c k =
     (if c = [] then (Some (JsError ''cidr required''), k)
      else if \<not> wl_cidr L c then (Some (JsError (''invalid cidr '' @ c)), k)
      else (None, k\<lparr>kn_blackholes := kern_route True [c] (kn_blackholes k)\<rparr>))"

definition KernelManager :: "wg_lib \<Rightarrow> kernel_mgr wg_agent" where
  "KernelManager L = \<lparr>ag_list = kern_ListPeers, ag_create = kern_CreatePeer L, ag_update = kern_UpdatePeer L,
     ag_delete = kern_DeletePeer L, ag_blackhole = kern_SetBlackhole L\<rparr>"

section \<open>What the reconciler relies on\<close>

lemma tierRateKbit_pos: "0 < tierRateKbit tier"
proof -
  have "0 < (case TIER_RATE_KBIT tier of Some v \<Rightarrow> v | None \<Rightarrow> 100000)"
    by (auto simp: TIER_RATE_KBIT_def split: option.splits if_splits)
  then show ?thesis by (simp add: tierRateKbit_def Let_def)
qed

lemma sort_want: "sort (want t) = want t"
  by (simp add: want_def sorted_sort_id)

text \<open>
  The contract of an agent. \<open>accepts\<close> says which key, private address and routes it takes; \<open>view\<close>
  what it reports of a peer and \<open>rate\<close> at which rate it shapes it. Every agent applies the routes it
  is sent; one that applies the private address and the rate of an update as well has \<open>full\<close>.
\<close>

locale peer_agent =
  fixes A :: "'k wg_agent" and inv :: "'k \<Rightarrow> bool" and view :: "'k \<Rightarrow> string \<Rightarrow> peer option"
    and rate :: "'k \<Rightarrow> string \<Rightarrow> int" and accepts :: "string \<Rightarrow> ip4 \<Rightarrow> cidr list \<Rightarrow> bool" and full :: bool
  assumes list: "inv k \<Longrightarrow> \<exists>ps. ag_list A k = Inr ps \<and> distinct (map pe_publicKey ps) \<and> (\<forall>pk. view k pk = by_key ps pk)"
    and create: "inv k \<Longrightarrow> pe_peerId p \<noteq> [] \<Longrightarrow> accepts (pe_publicKey p) (pe_privateIp p) (pe_publicIps p) \<Longrightarrow>
      view k (pe_publicKey p) = None \<Longrightarrow> 0 < r \<Longrightarrow>
      \<exists>k'. ag_create A p r k = (None, k') \<and> inv k' \<and> view k' = (view k)(pe_publicKey p := Some p) \<and>
        (full \<longrightarrow> rate k' = (rate k)(pe_publicKey p := r))"
    and update: "inv k \<Longrightarrow> view k pk = Some p \<Longrightarrow> accepts pk ip cs \<Longrightarrow> 0 < r \<Longrightarrow>
      \<exists>k' q. ag_update A pk ip cs r k = (None, k') \<and> inv k' \<and> view k' = (view k)(pk := Some q) \<and> pe_publicIps q = cs \<and>
        (full \<longrightarrow> pe_privateIp q = ip \<and> rate k' = (rate k)(pk := r))"
    and delete: "inv k \<Longrightarrow> \<exists>k'. ag_delete A pk k = (None, k') \<and> inv k' \<and> view k' = (view k)(pk := None) \<and>
        (\<forall>q. q \<noteq> pk \<longrightarrow> rate k' q = rate k q)"
    and blackhole: "inv k \<Longrightarrow> inv (snd (ag_blackhole A c k)) \<and> view (snd (ag_blackhole A c k)) = view k \<and>
        rate (snd (ag_blackhole A c k)) = rate k"
begin

definition good_row :: "DbTunnel \<Rightarrow> bool" where
  "good_row t \<longleftrightarrow> dt_id t \<noteq> [] \<and> accepts (dt_key t) (dt_private_ip t) (want t)"

text \<open>A peer that is as the database wants it, as far as the reconciler compares.\<close>

definition up_to_date :: "(string \<Rightarrow> peer option) \<Rightarrow> DbTunnel \<Rightarrow> bool" where
  "up_to_date v t \<longleftrightarrow> (\<exists>p. v (dt_key t) = Some p \<and> pe_privateIp p = dt_private_ip t \<and> sort (pe_publicIps p) = want t)"

definition in_sync :: "(string \<Rightarrow> peer option) \<Rightarrow> DbTunnel \<Rightarrow> bool" where
  "in_sync v t \<longleftrightarrow> (\<exists>p. v (dt_key t) = Some p \<and> sort (pe_publicIps p) = want t \<and> (full \<longrightarrow> pe_privateIp p = dt_private_ip t))"

definition rate_after :: "(string \<Rightarrow> peer option) \<Rightarrow> (string \<Rightarrow> int) \<Rightarrow> DbTunnel \<Rightarrow> int" where
  "rate_after v r t = (if up_to_date v t then r (dt_key t) else tierRateKbit (dt_speed_tier t))"

lemma tunnel_step:
  assumes k: "inv (dr_kernel st)" and km: "km (dt_key t) = view (dr_kernel st) (dt_key t)" and t: "good_row t"
  obtains st' q where "reconcile_tunnel A now h km t st = st'" "inv (dr_kernel st')"
    "view (dr_kernel st') = (view (dr_kernel st))(dt_key t := Some q)"
    "in_sync (view (dr_kernel st')) t" "rp_errors (dr_report st') = rp_errors (dr_report st)"
    "full \<Longrightarrow> rate (dr_kernel st') = (rate (dr_kernel st))(dt_key t := rate_after (view (dr_kernel st)) (rate (dr_kernel st)) t)"
proof (cases "km (dt_key t)")
  case None
  let ?p = "\<lparr>pe_peerId = dt_id t, pe_publicKey = dt_key t, pe_privateIp = dt_private_ip t, pe_publicIps = want t\<rparr>"
  obtain k' where "ag_create A ?p (tierRateKbit (dt_speed_tier t)) (dr_kernel st) = (None, k')" "inv k'"
    "view k' = (view (dr_kernel st))(dt_key t := Some ?p)"
    "full \<Longrightarrow> rate k' = (rate (dr_kernel st))(dt_key t := tierRateKbit (dt_speed_tier t))"
    using create [OF k, of ?p "tierRateKbit (dt_speed_tier t)"] None km t by (auto simp: good_row_def tierRateKbit_pos)
  with None km that [of _ ?p] show thesis
    by (simp add: reconcile_tunnel_def pushed_def sort_want in_sync_def rate_after_def up_to_date_def)
next
  case (Some p)
  show thesis
  proof (cases "pe_privateIp p = dt_private_ip t \<and> sort (pe_publicIps p) = want t")
    case True
    with Some km have "up_to_date (view (dr_kernel st)) t" by (auto simp: up_to_date_def)
    with True Some km k that [of _ p] show thesis
      by (simp add: reconcile_tunnel_def fun_upd_idem in_sync_def rate_after_def)
  next
    case False
    with Some km have n: "\<not> up_to_date (view (dr_kernel st)) t" by (auto simp: up_to_date_def)
    obtain k' q where "ag_update A (dt_key t) (dt_private_ip t) (want t) (tierRateKbit (dt_speed_tier t)) (dr_kernel st) = (None, k')"
      "inv k'" "view k' = (view (dr_kernel st))(dt_key t := Some q)" "pe_publicIps q = want t"
      "full \<longrightarrow> pe_privateIp q = dt_private_ip t \<and> rate k' = (rate (dr_kernel st))(dt_key t := tierRateKbit (dt_speed_tier t))"
      using update [OF k, of "dt_key t" p "dt_private_ip t" "want t" "tierRateKbit (dt_speed_tier t)"] Some km t
      by (auto simp: good_row_def tierRateKbit_pos)
    with Some False n that [of _ q] show thesis
      by (auto simp: reconcile_tunnel_def pushed_def sort_want Let_def in_sync_def rate_after_def)
  qed
qed

lemma tunnel_loop:
  "inv (dr_kernel st) \<Longrightarrow> distinct (map dt_key ts) \<Longrightarrow> (\<And>t. t \<in> set ts \<Longrightarrow> good_row t \<and> km (dt_key t) = view (dr_kernel st) (dt_key t)) \<Longrightarrow>
     inv (dr_kernel (fold (reconcile_tunnel A now h km) ts st)) \<and>
     (\<forall>t \<in> set ts. in_sync (view (dr_kernel (fold (reconcile_tunnel A now h km) ts st))) t) \<and>
     (full \<longrightarrow> (\<forall>t \<in> set ts. rate (dr_kernel (fold (reconcile_tunnel A now h km) ts st)) (dt_key t) =
        rate_after (view (dr_kernel st)) (rate (dr_kernel st)) t)) \<and>
     (\<forall>pk. pk \<notin> set (map dt_key ts) \<longrightarrow> view (dr_kernel (fold (reconcile_tunnel A now h km) ts st)) pk = view (dr_kernel st) pk \<and>
        (full \<longrightarrow> rate (dr_kernel (fold (reconcile_tunnel A now h km) ts st)) pk = rate (dr_kernel st) pk)) \<and>
     rp_errors (dr_report (fold (reconcile_tunnel A now h km) ts st)) = rp_errors (dr_report st)"
proof (induction ts arbitrary: st)
  case (Cons t ts)
  have t: "good_row t" "km (dt_key t) = view (dr_kernel st) (dt_key t)" using Cons.prems(3) [of t] by auto
  from tunnel_step [where km = km and t = t, OF Cons.prems(1) t(2,1)] obtain st' q where s: "reconcile_tunnel A now h km t st = st'" "inv (dr_kernel st')"
    "view (dr_kernel st') = (view (dr_kernel st))(dt_key t := Some q)" "in_sync (view (dr_kernel st')) t"
    "rp_errors (dr_report st') = rp_errors (dr_report st)"
    "full \<Longrightarrow> rate (dr_kernel st') = (rate (dr_kernel st))(dt_key t := rate_after (view (dr_kernel st)) (rate (dr_kernel st)) t)" by metis
  have other: "dt_key u \<noteq> dt_key t" if "u \<in> set ts" for u using that Cons.prems(2) by (auto simp: image_iff)
  have "good_row u \<and> km (dt_key u) = view (dr_kernel st') (dt_key u)" if "u \<in> set ts" for u
    using other [OF that] Cons.prems(3) [of u] that by (simp add: s(3))
  note IH = Cons.IH [OF s(2) _ this]
  let ?st = "fold (reconcile_tunnel A now h km) ts st'"
  have d: "distinct (map dt_key ts)" "dt_key t \<notin> set (map dt_key ts)" using Cons.prems(2) by auto
  have "in_sync (view (dr_kernel ?st)) t" using IH d s(4) by (simp add: in_sync_def)
  moreover have "rate (dr_kernel ?st) (dt_key t) = rate_after (view (dr_kernel st)) (rate (dr_kernel st)) t" if full
    using IH d s(6) that by simp
  moreover have "rate_after (view (dr_kernel st')) (rate (dr_kernel st')) u = rate_after (view (dr_kernel st)) (rate (dr_kernel st)) u"
    if "u \<in> set ts" full for u
  proof -
    have "up_to_date (view (dr_kernel st')) u = up_to_date (view (dr_kernel st)) u" "rate (dr_kernel st') (dt_key u) = rate (dr_kernel st) (dt_key u)"
      using other [OF that(1)] s(6) [OF that(2)] by (simp_all add: up_to_date_def s(3))
    then show ?thesis by (simp add: rate_after_def)
  qed
  moreover have "inv (dr_kernel ?st)" "\<forall>u \<in> set ts. in_sync (view (dr_kernel ?st)) u"
    "\<And>u. full \<Longrightarrow> u \<in> set ts \<Longrightarrow> rate (dr_kernel ?st) (dt_key u) = rate_after (view (dr_kernel st')) (rate (dr_kernel st')) u"
    "\<And>pk. pk \<notin> set (map dt_key ts) \<Longrightarrow> view (dr_kernel ?st) pk = view (dr_kernel st') pk"
    "\<And>pk. full \<Longrightarrow> pk \<notin> set (map dt_key ts) \<Longrightarrow> rate (dr_kernel ?st) pk = rate (dr_kernel st') pk"
    "rp_errors (dr_report ?st) = rp_errors (dr_report st')"
    using IH d by blast+
  moreover have "view (dr_kernel st') pk = view (dr_kernel st) pk" "full \<Longrightarrow> rate (dr_kernel st') pk = rate (dr_kernel st) pk"
    if "pk \<noteq> dt_key t" for pk using that s(6) by (simp_all add: s(3))
  ultimately show ?case by (simp add: s(1,5))
qed simp

lemma orphan_loop:
  "inv (dr_kernel st) \<Longrightarrow>
     inv (dr_kernel (fold (remove_orphan A now h keep) pks st)) \<and>
     view (dr_kernel (fold (remove_orphan A now h keep) pks st)) =
       (\<lambda>pk. if pk \<in> set pks - set keep then None else view (dr_kernel st) pk) \<and>
     (\<forall>pk \<in> set keep. rate (dr_kernel (fold (remove_orphan A now h keep) pks st)) pk = rate (dr_kernel st) pk) \<and>
     rp_errors (dr_report (fold (remove_orphan A now h keep) pks st)) = rp_errors (dr_report st)"
proof (induction pks arbitrary: st)
  case (Cons pk pks)
  show ?case
  proof (cases "pk \<in> set keep")
    case True
    then show ?thesis using Cons.IH [OF Cons.prems] by (auto simp: remove_orphan_def fun_eq_iff)
  next
    case False
    obtain k' where k': "ag_delete A pk (dr_kernel st) = (None, k')" "inv k'" "view k' = (view (dr_kernel st))(pk := None)"
      "\<forall>q. q \<noteq> pk \<longrightarrow> rate k' q = rate (dr_kernel st) q"
      using delete [OF Cons.prems] by blast
    let ?st = "remove_orphan A now h keep pk st"
    have st: "dr_kernel ?st = k'" "rp_errors (dr_report ?st) = rp_errors (dr_report st)"
      using False k'(1) by (simp_all add: remove_orphan_def)
    have r: "rate k' q = rate (dr_kernel st) q" if "q \<in> set keep" for q
      by (rule k'(4) [rule_format]) (use that False in auto)
    note I = Cons.IH [of ?st, unfolded st, OF k'(2)]
    note IH = conjunct1 [OF I] conjunct1 [OF conjunct2 [OF I]] conjunct1 [OF conjunct2 [OF conjunct2 [OF I]]]
      conjunct2 [OF conjunct2 [OF conjunct2 [OF I]]]
    have "view (dr_kernel (fold (remove_orphan A now h keep) pks ?st)) =
        (\<lambda>q. if q \<in> set (pk # pks) - set keep then None else view (dr_kernel st) q)"
      unfolding IH(2) k'(3) using False by (auto simp: fun_eq_iff)
    moreover have "\<forall>q \<in> set keep. rate (dr_kernel (fold (remove_orphan A now h keep) pks ?st)) q = rate (dr_kernel st) q"
      using IH(3) r by metis
    ultimately show ?thesis unfolding fold_simps(2) using IH(1,4) by blast
  qed
qed simp

lemma blackhole_loop:
  "inv (dr_kernel st) \<Longrightarrow> inv (dr_kernel (fold (ensure_blackhole A) cs st)) \<and>
     view (dr_kernel (fold (ensure_blackhole A) cs st)) = view (dr_kernel st) \<and>
     rate (dr_kernel (fold (ensure_blackhole A) cs st)) = rate (dr_kernel st)"
proof (induction cs arbitrary: st)
  case (Cons c cs)
  have "dr_kernel (ensure_blackhole A c st) = snd (ag_blackhole A c (dr_kernel st))"
    by (simp add: ensure_blackhole_def split: prod.splits option.splits)
  then show ?case using Cons.IH [of "ensure_blackhole A c st"] blackhole [OF Cons.prems, of c] by simp
qed simp

lemma by_key_None: "by_key ps pk = None \<longleftrightarrow> pk \<notin> set (map pe_publicKey ps)"
  by (auto simp: by_key_def find_None_iff_none)

text \<open>One run brings the gateway to the database, whatever it held before.\<close>

lemma reconcile_converges:
  assumes gw: "find (\<lambda>g. g_id g = gid \<and> g_status g = GwActive) (gateways s) = Some gw" and k: "inv k"
    and rows: "\<And>t. t \<in> set (db_tunnels gid s) \<Longrightarrow> good_row t" "distinct (map dt_key (db_tunnels gid s))"
  shows "\<exists>st. reconcileGateway A now gid s k = Inr st \<and> inv (dr_kernel st) \<and>
    dom (view (dr_kernel st)) = set (map dt_key (db_tunnels gid s)) \<and>
    (\<forall>t \<in> set (db_tunnels gid s). in_sync (view (dr_kernel st)) t) \<and>
    (full \<longrightarrow> (\<forall>t \<in> set (db_tunnels gid s). rate (dr_kernel st) (dt_key t) = rate_after (view k) (rate k) t))"
proof -
  let ?ts = "db_tunnels gid s" and ?h = "g_hostname gw"
  obtain ps where ps: "ag_list A k = Inr ps" "\<And>pk. view k pk = by_key ps pk" using list [OF k] by blast
  define st1 where "st1 = fold (reconcile_tunnel A now ?h (by_key ps)) ?ts (drift_start gw s k)"
  have d: "dr_kernel (drift_start gw s k) = k" "view k = by_key ps"
    using ps(2) by (simp_all add: drift_start_def fun_eq_iff)
  then have 1: "inv (dr_kernel st1)" "\<And>t. t \<in> set ?ts \<Longrightarrow> in_sync (view (dr_kernel st1)) t"
    "\<And>pk. pk \<notin> set (map dt_key ?ts) \<Longrightarrow> view (dr_kernel st1) pk = by_key ps pk"
    "\<And>t. full \<Longrightarrow> t \<in> set ?ts \<Longrightarrow> rate (dr_kernel st1) (dt_key t) = rate_after (view k) (rate k) t"
    using tunnel_loop [of "drift_start gw s k" ?ts "by_key ps" now ?h] k rows unfolding st1_def by auto
  define st2 where "st2 = fold (remove_orphan A now ?h (map dt_key ?ts)) (uniq (map pe_publicKey ps)) st1"
  have 2: "inv (dr_kernel st2)" "view (dr_kernel st2) =
      (\<lambda>pk. if pk \<in> set (map pe_publicKey ps) - set (map dt_key ?ts) then None else view (dr_kernel st1) pk)"
    "\<forall>pk \<in> set (map dt_key ?ts). rate (dr_kernel st2) pk = rate (dr_kernel st1) pk"
    using orphan_loop [OF 1(1), of now ?h "map dt_key ?ts" "uniq (map pe_publicKey ps)"] unfolding st2_def by auto
  define st3 where "st3 = fold (ensure_blackhole A) (if g_bgp_enabled gw then [] else map p_block (pools s)) st2"
  have 3: "inv (dr_kernel st3)" "view (dr_kernel st3) = view (dr_kernel st2)" "rate (dr_kernel st3) = rate (dr_kernel st2)"
    using blackhole_loop [OF 2(1)] unfolding st3_def by auto
  have run: "reconcileGateway A now gid s k = Inr st3"
    by (simp add: reconcileGateway_def gw ps st1_def st2_def st3_def)
  have sync: "in_sync (view (dr_kernel st3)) t" if "t \<in> set ?ts" for t
    using 1(2) [OF that] that unfolding 3(2) 2(2) in_sync_def by auto
  have rates: "rate (dr_kernel st3) (dt_key t) = rate_after (view k) (rate k) t" if "full" "t \<in> set ?ts" for t
    using 1(4) [OF that] 2(3) that(2) by (simp add: 3(3))
  have "view (dr_kernel st3) pk = None" if "pk \<notin> set (map dt_key ?ts)" for pk
    using 1(3) [OF that] that by_key_None [of ps pk] unfolding 3(2) 2(2) by auto
  then have "dom (view (dr_kernel st3)) = set (map dt_key ?ts)"
    using sync by (force simp: in_sync_def)
  with run 3(1) sync rates show ?thesis by blast
qed

end

section \<open>The backends satisfy the contract\<close>

lemma find_rev_unique:
  "distinct (map f xs) \<Longrightarrow> find (\<lambda>x. f x = k) (rev xs) = find (\<lambda>x. f x = k) xs"
proof (cases "find (\<lambda>x. f x = k) xs")
  case None
  then have "find (\<lambda>x. f x = k) (rev xs) = None" by (simp add: find_None_iff_none)
  with None show ?thesis by simp
next
  case (Some x)
  assume d: "distinct (map f xs)"
  obtain y where y: "find (\<lambda>x. f x = k) (rev xs) = Some y"
    using find_SomeD [OF Some] find_None_iff_none [of "\<lambda>x. f x = k" "rev xs"] by (cases "find (\<lambda>x. f x = k) (rev xs)") auto
  have "y = x" using find_SomeD [OF Some] find_SomeD [OF y] d by (auto intro: distinct_key_eq)
  with y Some show ?thesis by simp
qed

interpretation memory: peer_agent MemoryManager "\<lambda>m. distinct (map pe_publicKey m)"
  "\<lambda>m pk. find (\<lambda>p. pe_publicKey p = pk) m" "\<lambda>_ _. 0" "\<lambda>pk ip cs. pk \<noteq> [] \<and> ip \<noteq> []" False
proof unfold_locales
  fix k :: "peer list" and p :: peer and r pk ip cs c
  assume d: "distinct (map pe_publicKey k)"
  show "\<exists>ps. ag_list MemoryManager k = Inr ps \<and> distinct (map pe_publicKey ps) \<and>
      (\<forall>pk. find (\<lambda>p. pe_publicKey p = pk) k = by_key ps pk)"
    using d by (simp add: MemoryManager_def mem_ListPeers_def by_key_def find_rev_unique)
  show "\<exists>k'. ag_create MemoryManager p r k = (None, k') \<and> distinct (map pe_publicKey k') \<and>
      (\<lambda>pk. find (\<lambda>p. pe_publicKey p = pk) k') = (\<lambda>pk. find (\<lambda>p. pe_publicKey p = pk) k)(pe_publicKey p := Some p) \<and>
      (False \<longrightarrow> (\<lambda>_. 0) = (\<lambda>_. 0)(pe_publicKey p := r))"
    if "pe_peerId p \<noteq> []" "pe_publicKey p \<noteq> [] \<and> pe_privateIp p \<noteq> []" "find (\<lambda>q. pe_publicKey q = pe_publicKey p) k = None"
  proof (intro exI conjI)
    show "ag_create MemoryManager p r k = (None, k @ [p])" using that by (simp add: MemoryManager_def mem_CreatePeer_def)
    show "distinct (map pe_publicKey (k @ [p]))" using that(3) d by (auto simp: find_None_iff_none)
    show "(\<lambda>x. find (\<lambda>p. pe_publicKey p = x) (k @ [p])) = (\<lambda>pk. find (\<lambda>p. pe_publicKey p = pk) k)(pe_publicKey p := Some p)"
    proof
      fix x
      show "find (\<lambda>p. pe_publicKey p = x) (k @ [p]) = ((\<lambda>pk. find (\<lambda>p. pe_publicKey p = pk) k)(pe_publicKey p := Some p)) x"
        using that(3) by (cases "x = pe_publicKey p") (simp_all add: find_append_case split: option.split)
    qed
  qed simp
  show "\<exists>k' q. ag_update MemoryManager pk ip cs r k = (None, k') \<and> distinct (map pe_publicKey k') \<and>
      (\<lambda>pk. find (\<lambda>p. pe_publicKey p = pk) k') = (\<lambda>pk. find (\<lambda>p. pe_publicKey p = pk) k)(pk := Some q) \<and> pe_publicIps q = cs \<and>
      (False \<longrightarrow> pe_privateIp q = ip \<and> (\<lambda>_. 0) = (\<lambda>_. 0)(pk := r))"
    if "find (\<lambda>p. pe_publicKey p = pk) k = Some p"
  proof (intro exI conjI)
    let ?k = "upd_where (\<lambda>q. pe_publicKey q = pk) (\<lambda>q. q\<lparr>pe_publicIps := cs\<rparr>) k"
    show "ag_update MemoryManager pk ip cs r k = (None, ?k)" using that by (simp add: MemoryManager_def mem_UpdatePeer_def)
    show "distinct (map pe_publicKey ?k)" using d by (simp add: map_upd_where_same)
    show "(\<lambda>x. find (\<lambda>p. pe_publicKey p = x) ?k) = (\<lambda>pk. find (\<lambda>p. pe_publicKey p = pk) k)(pk := Some (p\<lparr>pe_publicIps := cs\<rparr>))"
    proof
      fix x
      show "find (\<lambda>p. pe_publicKey p = x) ?k = ((\<lambda>pk. find (\<lambda>p. pe_publicKey p = pk) k)(pk := Some (p\<lparr>pe_publicIps := cs\<rparr>))) x"
        using that find_SomeD(2) [OF that] find_upd_other [of pe_publicKey "\<lambda>q. q\<lparr>pe_publicIps := cs\<rparr>" pk x k]
        by (cases "x = pk") (simp_all add: find_upd_where)
    qed
  qed simp_all
  show "\<exists>k'. ag_delete MemoryManager pk k = (None, k') \<and> distinct (map pe_publicKey k') \<and>
      (\<lambda>pk. find (\<lambda>p. pe_publicKey p = pk) k') = (\<lambda>pk. find (\<lambda>p. pe_publicKey p = pk) k)(pk := None) \<and>
      (\<forall>q. q \<noteq> pk \<longrightarrow> (0::int) = 0)"
  proof (intro exI conjI)
    show "ag_delete MemoryManager pk k = (None, filter (\<lambda>q. pe_publicKey q \<noteq> pk) k)"
      by (simp add: MemoryManager_def mem_DeletePeer_def)
    show "distinct (map pe_publicKey (filter (\<lambda>q. pe_publicKey q \<noteq> pk) k))" using d by (rule distinct_map_filter)
    have "find (\<lambda>p. pe_publicKey p = x) (filter (\<lambda>q. pe_publicKey q \<noteq> pk) k) = (if x = pk then None else find (\<lambda>p. pe_publicKey p = x) k)" for x
      by (induction k) auto
    then show "(\<lambda>x. find (\<lambda>p. pe_publicKey p = x) (filter (\<lambda>q. pe_publicKey q \<noteq> pk) k)) = (\<lambda>pk. find (\<lambda>p. pe_publicKey p = pk) k)(pk := None)"
      by (simp add: fun_eq_iff)
  qed simp
  show "distinct (map pe_publicKey (snd (ag_blackhole MemoryManager c k))) \<and>
      (\<lambda>pk. find (\<lambda>p. pe_publicKey p = pk) (snd (ag_blackhole MemoryManager c k))) = (\<lambda>pk. find (\<lambda>p. pe_publicKey p = pk) k) \<and>
      (\<lambda>_. 0::int) = (\<lambda>_. 0)"
    using d by (simp add: MemoryManager_def mem_SetBlackhole_def)
qed

text \<open>
  What the kernel backend keeps: the device holds each key once, all of them keys \<^verbatim>\<open>ParseKey\<close> accepts,
  and there is no entry of \<^verbatim>\<open>meta\<close> without a peer on the device (the converse fails after a restart).
\<close>

definition kernel_ok :: "wg_lib \<Rightarrow> kernel_mgr \<Rightarrow> bool" where
  "kernel_ok L k \<longleftrightarrow> distinct (kn_device k) \<and> (\<forall>pk \<in> set (kn_device k). wl_key L pk) \<and> dom (kn_meta k) \<subseteq> set (kn_device k)"

definition kernel_view :: "kernel_mgr \<Rightarrow> string \<Rightarrow> peer option" where
  "kernel_view k pk = (if pk \<in> set (kn_device k) then Some (kern_mapPeer k pk) else None)"

definition kernel_rate :: "kernel_mgr \<Rightarrow> string \<Rightarrow> int" where
  "kernel_rate k pk = (case kn_meta k pk of None \<Rightarrow> 0 | Some m \<Rightarrow> mt_speedKbit m)"

definition kernel_accepts :: "wg_lib \<Rightarrow> string \<Rightarrow> ip4 \<Rightarrow> cidr list \<Rightarrow> bool" where
  "kernel_accepts L pk ip cs \<longleftrightarrow> pk \<noteq> '''' \<and> wl_key L pk \<and> ip \<noteq> '''' \<and> kern_allowed L ip cs"

lemma pe_publicKey_mapPeer [simp]: "pe_publicKey (kern_mapPeer k pk) = pk"
  by (simp add: kern_mapPeer_def split: option.split)

lemma kernel_view_by_key:
  assumes "distinct (kn_device k)"
  shows "kernel_view k pk = by_key (map (kern_mapPeer k) (kn_device k)) pk"
proof -
  have d: "distinct (map pe_publicKey (map (kern_mapPeer k) (kn_device k)))" using assms by (simp add: comp_def)
  have "find (\<lambda>p. pe_publicKey p = pk) (map (kern_mapPeer k) ks) = (if pk \<in> set ks then Some (kern_mapPeer k pk) else None)" for ks
    by (induction ks) auto
  then show ?thesis unfolding by_key_def find_rev_unique [OF d] kernel_view_def by simp
qed

lemma kern_configure_set: "set (kern_configure pk d) = insert pk (set d)" "distinct d \<Longrightarrow> distinct (kern_configure pk d)"
  by (auto simp: kern_configure_def)

lemma kern_create_law:
  assumes ok: "kernel_ok L k" and p: "pe_peerId p \<noteq> []" "kernel_accepts L (pe_publicKey p) (pe_privateIp p) (pe_publicIps p)"
    and new: "kernel_view k (pe_publicKey p) = None" and r: "0 < r"
  shows "\<exists>k'. kern_CreatePeer L p r k = (None, k') \<and> kernel_ok L k' \<and> kernel_view k' = (kernel_view k)(pe_publicKey p := Some p) \<and>
     kernel_rate k' = (kernel_rate k)(pe_publicKey p := r)"
proof -
  have n: "pe_publicKey p \<notin> set (kn_device k)" using new by (simp add: kernel_view_def split: if_splits)
  then have m: "kn_meta k (pe_publicKey p) = None" using ok by (auto simp: kernel_ok_def dom_def)
  obtain c nx where a: "kern_allocClass 0 (kn_nextClass k) = (c, nx)" by fastforce
  let ?k = "k\<lparr>kn_device := kern_configure (pe_publicKey p) (kn_device k),
           kn_routes := kern_route True (pe_publicIps p) (kn_routes k),
           kn_meta := (kn_meta k)(pe_publicKey p \<mapsto> \<lparr>mt_peerID = pe_peerId p, mt_privateIP = pe_privateIp p,
             mt_publicIPs = pe_publicIps p, mt_classid = c, mt_speedKbit = r\<rparr>),
           kn_nextClass := nx\<rparr>"
  have "kern_CreatePeer L p r k = (None, ?k)"
    using p r m a by (simp add: kern_CreatePeer_def kernel_accepts_def)
  moreover have "kernel_ok L ?k"
    using ok p(2) by (auto simp: kernel_ok_def kern_configure_set kernel_accepts_def)
  moreover have "kernel_view ?k = (kernel_view k)(pe_publicKey p := Some p)"
    by (auto simp: kernel_view_def kern_configure_set kern_mapPeer_def fun_eq_iff)
  moreover have "kernel_rate ?k = (kernel_rate k)(pe_publicKey p := r)"
    by (auto simp: kernel_rate_def fun_eq_iff)
  ultimately show ?thesis by blast
qed

lemma kern_update_law:
  assumes ok: "kernel_ok L k" and v: "kernel_view k pk = Some p" and acc: "kernel_accepts L pk ip cs" and r: "0 < r"
  shows "\<exists>k' q. kern_UpdatePeer L pk ip cs r k = (None, k') \<and> kernel_ok L k' \<and> kernel_view k' = (kernel_view k)(pk := Some q) \<and>
     pe_publicIps q = cs \<and> pe_privateIp q = ip \<and> kernel_rate k' = (kernel_rate k)(pk := r)"
proof -
  define m where "m = (case kn_meta k pk of Some m \<Rightarrow> m
    | None \<Rightarrow> \<lparr>mt_peerID = '''', mt_privateIP = '''', mt_publicIPs = [], mt_classid = 0, mt_speedKbit = 0\<rparr>)"
  obtain c nx where a: "kern_allocClass (mt_classid m) (kn_nextClass k) = (c, nx)" by fastforce
  let ?m = "m\<lparr>mt_privateIP := ip, mt_publicIPs := cs, mt_speedKbit := r, mt_classid := c\<rparr>"
  let ?k = "k\<lparr>kn_meta := (kn_meta k)(pk \<mapsto> m)\<rparr>\<lparr>kn_device := kern_configure pk (kn_device k),
             kn_routes := kern_route True cs (kern_route False (filter (\<lambda>c. c \<notin> set cs) (mt_publicIPs m)) (kn_routes k)),
             kn_meta := (kn_meta k)(pk \<mapsto> ?m), kn_nextClass := nx\<rparr>"
  have "kern_UpdatePeer L pk ip cs r k = (None, ?k)"
    using acc r a unfolding kern_UpdatePeer_def m_def [symmetric] by (simp add: kernel_accepts_def Let_def)
  moreover have "kernel_ok L ?k" using ok acc by (auto simp: kernel_ok_def kern_configure_set kernel_accepts_def)
  moreover have "kernel_view ?k = (kernel_view k)(pk := Some (kern_mapPeer ?k pk))"
    by (auto simp: kernel_view_def kern_configure_set kern_mapPeer_def fun_eq_iff)
  moreover have "kernel_rate ?k = (kernel_rate k)(pk := r)" by (auto simp: kernel_rate_def fun_eq_iff)
  moreover have "pe_publicIps (kern_mapPeer ?k pk) = cs" "pe_privateIp (kern_mapPeer ?k pk) = ip" by (simp_all add: kern_mapPeer_def)
  ultimately show ?thesis by blast
qed

lemma kern_delete_law:
  assumes ok: "kernel_ok L k"
  shows "\<exists>k'. kern_DeletePeer L pk k = (None, k') \<and> kernel_ok L k' \<and> kernel_view k' = (kernel_view k)(pk := None) \<and>
     (\<forall>q. q \<noteq> pk \<longrightarrow> kernel_rate k' q = kernel_rate k q)"
proof (cases "wl_key L pk")
  case True
  let ?k = "snd (kern_DeletePeer L pk k)"
  have e: "kern_DeletePeer L pk k = (None, ?k)" using True by (simp add: kern_DeletePeer_def)
  have "kernel_ok L ?k" using ok True by (auto simp: kernel_ok_def kern_DeletePeer_def)
  moreover have "kernel_view ?k = (kernel_view k)(pk := None)"
    using True by (auto simp: kernel_view_def kern_DeletePeer_def kern_mapPeer_def fun_eq_iff)
  moreover have "\<forall>q. q \<noteq> pk \<longrightarrow> kernel_rate ?k q = kernel_rate k q" using True by (simp add: kernel_rate_def kern_DeletePeer_def)
  ultimately show ?thesis using e by blast
next
  case False
  then have "pk \<notin> set (kn_device k)" using ok by (auto simp: kernel_ok_def)
  then have "kernel_view k = (kernel_view k)(pk := None)" by (simp add: kernel_view_def fun_eq_iff)
  with ok False show ?thesis by (simp add: kern_DeletePeer_def)
qed

interpretation kernel: peer_agent "KernelManager L" "kernel_ok L" kernel_view kernel_rate "kernel_accepts L" True for L
proof unfold_locales
  fix k :: kernel_mgr and p :: peer and r pk ip cs c
  assume ok: "kernel_ok L k"
  show "\<exists>ps. ag_list (KernelManager L) k = Inr ps \<and> distinct (map pe_publicKey ps) \<and> (\<forall>pk. kernel_view k pk = by_key ps pk)"
    using ok kernel_view_by_key [of k] by (simp add: KernelManager_def kern_ListPeers_def kernel_ok_def comp_def)
  show "\<exists>k'. ag_create (KernelManager L) p r k = (None, k') \<and> kernel_ok L k' \<and>
      kernel_view k' = (kernel_view k)(pe_publicKey p := Some p) \<and> (True \<longrightarrow> kernel_rate k' = (kernel_rate k)(pe_publicKey p := r))"
    if "pe_peerId p \<noteq> []" "kernel_accepts L (pe_publicKey p) (pe_privateIp p) (pe_publicIps p)" "kernel_view k (pe_publicKey p) = None" "0 < r"
    using kern_create_law [OF ok that] by (simp add: KernelManager_def)
  show "\<exists>k' q. ag_update (KernelManager L) pk ip cs r k = (None, k') \<and> kernel_ok L k' \<and>
      kernel_view k' = (kernel_view k)(pk := Some q) \<and> pe_publicIps q = cs \<and>
      (True \<longrightarrow> pe_privateIp q = ip \<and> kernel_rate k' = (kernel_rate k)(pk := r))"
    if "kernel_view k pk = Some p" "kernel_accepts L pk ip cs" "0 < r"
    using kern_update_law [OF ok that] by (simp add: KernelManager_def)
  show "\<exists>k'. ag_delete (KernelManager L) pk k = (None, k') \<and> kernel_ok L k' \<and> kernel_view k' = (kernel_view k)(pk := None) \<and>
      (\<forall>q. q \<noteq> pk \<longrightarrow> kernel_rate k' q = kernel_rate k q)"
    using kern_delete_law [OF ok] by (simp add: KernelManager_def)
  show "kernel_ok L (snd (ag_blackhole (KernelManager L) c k)) \<and> kernel_view (snd (ag_blackhole (KernelManager L) c k)) = kernel_view k \<and>
      kernel_rate (snd (ag_blackhole (KernelManager L) c k)) = kernel_rate k"
    using ok by (auto simp: KernelManager_def kern_SetBlackhole_def kernel_ok_def kernel_view_def kernel_rate_def kern_mapPeer_def fun_eq_iff)
qed

section \<open>Convergence on a production gateway\<close>

text \<open>
  What the database wants of a gateway, written over the rows: the active WireGuard tunnels, what
  each of them routes (its single addresses and the blocks its addresses belong to) and the rate it
  has bought, in kbit/s with the 60 percent headroom.
\<close>

definition wg_rows :: "uuid \<Rightarrow> db \<Rightarrow> tunnel list" where
  "wg_rows gid s = filter (\<lambda>t. t_gateway_id t = gid \<and> t_deleted_at t = None \<and> t_status t = TunActive \<and>
     t_protocol t = ''wireguard'') (tunnels s)"

definition routed :: "uuid \<Rightarrow> db \<Rightarrow> cidr set" where
  "routed tid s =
     {i_ip_address i @ ''/32'' | i. i \<in> set (ips s) \<and> i_tunnel_id i = Some tid \<and> i_status i = IpAllocated \<and> i_block_id i = None} \<union>
     {b_block b | i b. i \<in> set (ips s) \<and> b \<in> set (blocks s) \<and> i_tunnel_id i = Some tid \<and> i_status i = IpAllocated \<and>
        i_block_id i = Some (b_id b)} - {''''}"

definition bought_kbit :: "string \<Rightarrow> int" where
  "bought_kbit tier = (if tier = ''tier_1gb'' then 1600000 else if tier = ''tier_500mb'' then 800000 else 160000)"

text \<open>A peer whose addresses need no repair; its rate is not part of the comparison.\<close>

definition holds_addresses :: "kernel_mgr \<Rightarrow> string \<Rightarrow> ip4 \<Rightarrow> cidr set \<Rightarrow> bool" where
  "holds_addresses k pk ip cs \<longleftrightarrow> pk \<in> set (kn_device k) \<and>
     (case kn_meta k pk of None \<Rightarrow> False
      | Some m \<Rightarrow> mt_privateIP m = ip \<and> distinct (mt_publicIPs m) \<and> set (mt_publicIPs m) = cs)"

lemma bought_kbit_rate: "tierRateKbit tier = bought_kbit tier"
  by (simp add: tierRateKbit_def TIER_RATE_KBIT_def bought_kbit_def)

lemma distinct_sort_eq:
  assumes "distinct ys"
  shows "sort xs = sort ys \<longleftrightarrow> distinct xs \<and> set xs = set ys"
proof
  assume e: "sort xs = sort ys"
  show "distinct xs \<and> set xs = set ys"
    using assms arg_cong [OF e, of distinct] arg_cong [OF e, of set] by simp
next
  assume "distinct xs \<and> set xs = set ys"
  with assms show "sort xs = sort ys" by (intro sorted_distinct_set_unique) simp_all
qed

definition drift_row :: "db \<Rightarrow> tunnel \<Rightarrow> DbTunnel" where
  "drift_row s t = \<lparr>dt_id = t_id t, dt_key = (case t_wg_public_key t of None \<Rightarrow> [] | Some k \<Rightarrow> k),
       dt_private_ip = t_private_ip t, dt_speed_tier = t_speed_tier t, dt_public_ips = drift_cidrs (t_id t) s\<rparr>"

lemma db_tunnels_rows: "db_tunnels gid s = map (drift_row s) (wg_rows gid s)"
  by (simp add: db_tunnels_def wg_rows_def drift_row_def)

lemma want_routed: "set (want (drift_row s t)) = routed (t_id t) s" "distinct (want (drift_row s t))"
  by (auto simp: want_def drift_row_def drift_cidrs_def tunnel_singles_def tunnel_block_cidrs_def routed_def)

lemma sorted_want_iff: "sort xs = want (drift_row s t) \<longleftrightarrow> distinct xs \<and> set xs = routed (t_id t) s"
  using distinct_sort_eq [OF want_routed(2) [of s t], of xs] by (simp add: sort_want want_routed(1))

lemma distinct_keys:
  assumes d: "distinct (map t_wg_public_key ts)" and some: "\<forall>t \<in> set ts. t_wg_public_key t \<noteq> None"
  shows "distinct (map dt_key (map (drift_row s) ts))"
proof -
  have "inj_on (dt_key \<circ> drift_row s) (set ts)"
  proof (rule inj_onI)
    fix t u assume t: "t \<in> set ts" and u: "u \<in> set ts" and e: "(dt_key \<circ> drift_row s) t = (dt_key \<circ> drift_row s) u"
    obtain a b where "t_wg_public_key t = Some a" "t_wg_public_key u = Some b" using some t u by blast
    with e have "t_wg_public_key t = t_wg_public_key u" by (simp add: drift_row_def)
    then show "t = u" using d t u by (auto simp: distinct_map dest: inj_onD)
  qed
  then show ?thesis using d by (simp add: distinct_map)
qed

lemma kernel_view_holds:
  assumes "t_wg_public_key t = Some pk" "t_private_ip t \<noteq> ''''"
  shows "kernel.up_to_date (kernel_view k) (drift_row s t) \<longleftrightarrow> holds_addresses k pk (t_private_ip t) (routed (t_id t) s)"
    and "kernel.in_sync (kernel_view k) (drift_row s t) \<longleftrightarrow> holds_addresses k pk (t_private_ip t) (routed (t_id t) s)"
proof -
  have d: "dt_key (drift_row s t) = pk" "dt_private_ip (drift_row s t) = t_private_ip t" using assms(1) by (simp_all add: drift_row_def)
  show "kernel.up_to_date (kernel_view k) (drift_row s t) \<longleftrightarrow> holds_addresses k pk (t_private_ip t) (routed (t_id t) s)"
    using assms(2) by (auto simp: kernel.up_to_date_def d kernel_view_def kern_mapPeer_def holds_addresses_def sorted_want_iff split: option.splits)
  show "kernel.in_sync (kernel_view k) (drift_row s t) \<longleftrightarrow> holds_addresses k pk (t_private_ip t) (routed (t_id t) s)"
    using assms(2) by (auto simp: kernel.in_sync_def d kernel_view_def kern_mapPeer_def holds_addresses_def sorted_want_iff split: option.splits)
qed

lemma kernel_view_dom: "dom (kernel_view k) = set (kn_device k)"
  by (auto simp: kernel_view_def dom_def)

text \<open>
  C16. Drift repair converges on a production gateway. Take an active gateway whose WireGuard rows have
  distinct keys and addresses the agent accepts, and any state of the kernel backend (peers lost, orphans,
  stale private addresses or routes, a restarted agent that knows no addresses). After one run of
  \<^verbatim>\<open>reconcileGateway\<close> the device holds exactly the keys of the active tunnels, each once, and the agent
  keeps of each peer the tunnel's private address and exactly its single addresses and blocks. A peer that had to
  be created or corrected also has the rate the customer bought. A peer whose addresses were right keeps
  the rate it had, whatever tier the database says: the reconciler does not compare rates.
\<close>

theorem reconcileGateway_converges:
  assumes gw: "find (\<lambda>g. g_id g = gid \<and> g_status g = GwActive) (gateways s) = Some gw"
    and k: "kernel_ok L k"
    and keys: "distinct (map t_wg_public_key (wg_rows gid s))"
    and rows: "\<forall>t \<in> set (wg_rows gid s). t_id t \<noteq> '''' \<and> t_private_ip t \<noteq> '''' \<and> wl_cidr L (t_private_ip t) \<and>
      (\<exists>pk. t_wg_public_key t = Some pk \<and> pk \<noteq> '''' \<and> wl_key L pk) \<and> (\<forall>c \<in> routed (t_id t) s. wl_cidr L c)"
  shows "\<exists>st. reconcileGateway (KernelManager L) now gid s k = Inr st \<and>
    distinct (kn_device (dr_kernel st)) \<and>
    set (kn_device (dr_kernel st)) = {pk. \<exists>t \<in> set (wg_rows gid s). t_wg_public_key t = Some pk} \<and>
    (\<forall>t \<in> set (wg_rows gid s). \<exists>pk m. t_wg_public_key t = Some pk \<and> kn_meta (dr_kernel st) pk = Some m \<and>
       mt_privateIP m = t_private_ip t \<and> distinct (mt_publicIPs m) \<and> set (mt_publicIPs m) = routed (t_id t) s \<and>
       mt_speedKbit m = (if holds_addresses k pk (t_private_ip t) (routed (t_id t) s)
         then mt_speedKbit (the (kn_meta k pk)) else bought_kbit (t_speed_tier t)))"
proof -
  let ?R = "wg_rows gid s"
  have key: "\<exists>pk. t_wg_public_key t = Some pk \<and> dt_key (drift_row s t) = pk" if "t \<in> set ?R" for t
    using rows that by (auto simp: drift_row_def)
  have good: "kernel.good_row L (drift_row s t)" if "t \<in> set ?R" for t
    using rows that by (auto simp: kernel.good_row_def kernel_accepts_def kern_allowed_def want_routed) (auto simp: drift_row_def)
  have "distinct (map dt_key (db_tunnels gid s))"
    unfolding db_tunnels_rows by (rule distinct_keys [OF keys]) (use rows in auto)
  then obtain st where st: "reconcileGateway (KernelManager L) now gid s k = Inr st" "kernel_ok L (dr_kernel st)"
    "dom (kernel_view (dr_kernel st)) = set (map dt_key (db_tunnels gid s))"
    "\<And>t. t \<in> set ?R \<Longrightarrow> kernel.in_sync (kernel_view (dr_kernel st)) (drift_row s t)"
    "\<And>t. t \<in> set ?R \<Longrightarrow> kernel_rate (dr_kernel st) (dt_key (drift_row s t)) = kernel.rate_after (kernel_view k) (kernel_rate k) (drift_row s t)"
    using kernel.reconcile_converges [OF gw k, of now] good unfolding db_tunnels_rows by (metis (no_types, lifting) image_iff list.set_map)
  have "set (kn_device (dr_kernel st)) = {pk. \<exists>t \<in> set ?R. t_wg_public_key t = Some pk}"
    using st(3) key unfolding kernel_view_dom db_tunnels_rows by force
  moreover have "\<exists>pk m. t_wg_public_key t = Some pk \<and> kn_meta (dr_kernel st) pk = Some m \<and>
       mt_privateIP m = t_private_ip t \<and> distinct (mt_publicIPs m) \<and> set (mt_publicIPs m) = routed (t_id t) s \<and>
       mt_speedKbit m = (if holds_addresses k pk (t_private_ip t) (routed (t_id t) s)
         then mt_speedKbit (the (kn_meta k pk)) else bought_kbit (t_speed_tier t))" if t: "t \<in> set ?R" for t
  proof -
    obtain pk where pk: "t_wg_public_key t = Some pk" "dt_key (drift_row s t) = pk" using key [OF t] by blast
    have ip: "t_private_ip t \<noteq> ''''" using rows t by blast
    obtain m where m: "kn_meta (dr_kernel st) pk = Some m" "mt_privateIP m = t_private_ip t" "distinct (mt_publicIPs m)"
      "set (mt_publicIPs m) = routed (t_id t) s"
      using st(4) [OF t] unfolding kernel_view_holds(2) [OF pk(1) ip] holds_addresses_def by (auto split: option.splits)
    have "mt_speedKbit m = kernel_rate (dr_kernel st) pk" using m(1) by (simp add: kernel_rate_def)
    also have "\<dots> = (if holds_addresses k pk (t_private_ip t) (routed (t_id t) s) then kernel_rate k pk else bought_kbit (t_speed_tier t))"
      using st(5) [OF t] unfolding pk(2) kernel.rate_after_def kernel_view_holds(1) [OF pk(1) ip] bought_kbit_rate by (simp add: pk(2) drift_row_def [of s t])
    also have "holds_addresses k pk (t_private_ip t) (routed (t_id t) s) \<Longrightarrow> kernel_rate k pk = mt_speedKbit (the (kn_meta k pk))"
      by (auto simp: holds_addresses_def kernel_rate_def split: option.splits)
    ultimately show ?thesis using pk(1) m by (auto split: if_splits)
  qed
  ultimately show ?thesis using st(1,2) by (auto simp: kernel_ok_def)
qed

text \<open>
  The demonstration: an orphan, and the peer of the active tunnel with a stale private address, no
  routes and the rate of another tier.
\<close>

definition stale_kernel :: kernel_mgr where
  "stale_kernel = \<lparr>kn_device = [''orphan'', ''pk1''],
     kn_meta = [''pk1'' \<mapsto> \<lparr>mt_peerID = ''t1'', mt_privateIP = ''10.8.0.9'', mt_publicIPs = [], mt_classid = 2, mt_speedKbit = 1600000\<rparr>],
     kn_nextClass = 3, kn_routes = [], kn_blackholes = []\<rparr>"

definition any_wg :: wg_lib where
  "any_wg = \<lparr>wl_key = (\<lambda>x. x \<noteq> ''''), wl_cidr = (\<lambda>x. x \<noteq> '''')\<rparr>"

lemma demo_drift_rows:
  "map_option g_id (find (\<lambda>g. g_id g = ''gw1'' \<and> g_status g = GwActive) (gateways demo_db)) = Some ''gw1''"
  "wg_rows ''gw1'' demo_db = [demo_tunnel]"
  "(t_id demo_tunnel, t_wg_public_key demo_tunnel, t_private_ip demo_tunnel, t_speed_tier demo_tunnel) =
     (''t1'', Some ''pk1'', ''10.8.0.2'', ''tier_100mb'')"
  "want (drift_row demo_db demo_tunnel) = [''203.0.113.1/32'', ''203.0.113.8/30'']"
proof -
  show "map_option g_id (find (\<lambda>g. g_id g = ''gw1'' \<and> g_status g = GwActive) (gateways demo_db)) = Some ''gw1''"
    by code_simp
  show "wg_rows ''gw1'' demo_db = [demo_tunnel]" by (simp add: wg_rows_def demo_db_def demo_tunnel_def)
  show "(t_id demo_tunnel, t_wg_public_key demo_tunnel, t_private_ip demo_tunnel, t_speed_tier demo_tunnel) =
     (''t1'', Some ''pk1'', ''10.8.0.2'', ''tier_100mb'')" by (simp add: demo_tunnel_def)
  show "want (drift_row demo_db demo_tunnel) = [''203.0.113.1/32'', ''203.0.113.8/30'']" by code_simp
qed

lemma stale_kernel_ok: "kernel_ok any_wg stale_kernel"
  by (auto simp: kernel_ok_def stale_kernel_def any_wg_def)

theorem reconcileGateway_converges_witness:
  "\<exists>st m. reconcileGateway (KernelManager any_wg) T0 ''gw1'' demo_db stale_kernel = Inr st \<and>
     set (kn_device (dr_kernel st)) = {''pk1''} \<and> kn_meta (dr_kernel st) ''pk1'' = Some m \<and> mt_privateIP m = ''10.8.0.2'' \<and>
     set (mt_publicIPs m) = {''203.0.113.1/32'', ''203.0.113.8/30''} \<and> mt_speedKbit m = 160000"
proof -
  obtain gw where gw: "find (\<lambda>g. g_id g = ''gw1'' \<and> g_status g = GwActive) (gateways demo_db) = Some gw"
    using demo_drift_rows(1) by auto
  have t: "t_id demo_tunnel = ''t1''" "t_wg_public_key demo_tunnel = Some ''pk1''" "t_private_ip demo_tunnel = ''10.8.0.2''"
    "t_speed_tier demo_tunnel = ''tier_100mb''" using demo_drift_rows(3) by simp_all
  have r: "routed ''t1'' demo_db = {''203.0.113.1/32'', ''203.0.113.8/30''}"
    using want_routed(1) [of demo_db demo_tunnel] by (simp add: demo_drift_rows(4) t)
  have stale: "\<not> holds_addresses stale_kernel ''pk1'' ''10.8.0.2'' R" for R by (simp add: holds_addresses_def stale_kernel_def)
  have rows: "\<forall>t \<in> set (wg_rows ''gw1'' demo_db). t_id t \<noteq> '''' \<and> t_private_ip t \<noteq> '''' \<and> wl_cidr any_wg (t_private_ip t) \<and>
      (\<exists>pk. t_wg_public_key t = Some pk \<and> pk \<noteq> '''' \<and> wl_key any_wg pk) \<and> (\<forall>c \<in> routed (t_id t) demo_db. wl_cidr any_wg c)"
    by (simp add: demo_drift_rows(2) t r any_wg_def)
  have "distinct (map t_wg_public_key (wg_rows ''gw1'' demo_db))" by (simp add: demo_drift_rows(2))
  from reconcileGateway_converges [OF gw stale_kernel_ok this rows, of T0] obtain st where
    st: "reconcileGateway (KernelManager any_wg) T0 ''gw1'' demo_db stale_kernel = Inr st"
    "set (kn_device (dr_kernel st)) = {pk. \<exists>t \<in> {demo_tunnel}. t_wg_public_key t = Some pk}"
    and row: "\<forall>t \<in> {demo_tunnel}. \<exists>pk m. t_wg_public_key t = Some pk \<and> kn_meta (dr_kernel st) pk = Some m \<and>
       mt_privateIP m = t_private_ip t \<and> distinct (mt_publicIPs m) \<and> set (mt_publicIPs m) = routed (t_id t) demo_db \<and>
       mt_speedKbit m = (if holds_addresses stale_kernel pk (t_private_ip t) (routed (t_id t) demo_db)
         then mt_speedKbit (the (kn_meta stale_kernel pk)) else bought_kbit (t_speed_tier t))"
    unfolding demo_drift_rows(2) list.set by (elim exE conjE) (rule that; assumption)
  from row [unfolded ball_simps(7) t r] obtain m where "kn_meta (dr_kernel st) ''pk1'' = Some m" "mt_privateIP m = ''10.8.0.2''"
     "set (mt_publicIPs m) = {''203.0.113.1/32'', ''203.0.113.8/30''}" "mt_speedKbit m = 160000"
    using stale by (auto simp: bought_kbit_def simp del: insert_iff)
  moreover have "{pk. \<exists>t \<in> {demo_tunnel}. t_wg_public_key t = Some pk} = {''pk1''}" by (simp add: t)
  ultimately show ?thesis using st by metis
qed

section \<open>The database side\<close>

text \<open>A run writes audit rows only.\<close>

lemma reconcile_tunnel_db:
  "dr_db (reconcile_tunnel A now h km t st) = dr_db st \<or>
     (\<exists>act md. dr_db (reconcile_tunnel A now h km t st) = audit now ActSystem None act (Some ''tunnel'') (Some (dt_id t)) md (dr_db st))"
  by (auto simp: reconcile_tunnel_def pushed_def Let_def split: option.splits prod.splits)

lemma reconcileGateway_db:
  assumes log: "\<And>s act rt ri md. I s \<Longrightarrow> I (audit now ActSystem None act rt ri md s)" and I: "I s"
    and run: "reconcileGateway A now gid s k = Inr st"
  shows "I (dr_db st)"
proof -
  have t: "I (dr_db st) \<Longrightarrow> I (dr_db (reconcile_tunnel A now h km t st))" for h km t st
    using reconcile_tunnel_db [of A now h km t st] log by auto
  have o: "I (dr_db st) \<Longrightarrow> I (dr_db (remove_orphan A now h keep pk st))" for h keep pk st
    using log by (auto simp: remove_orphan_def split: option.splits prod.splits)
  have b: "dr_db (ensure_blackhole A c st) = dr_db st" for c st
    by (simp add: ensure_blackhole_def split: option.splits prod.splits)
  from run obtain gw peers where st: "st = fold (ensure_blackhole A) (if g_bgp_enabled gw then [] else map p_block (pools s))
      (fold (remove_orphan A now (g_hostname gw) (map dt_key (db_tunnels gid s))) (uniq (map pe_publicKey peers))
        (fold (reconcile_tunnel A now (g_hostname gw) (by_key peers)) (db_tunnels gid s) (drift_start gw s k)))"
    by (auto simp: reconcileGateway_def flow)
  have "I (dr_db (drift_start gw s k))" using I by (simp add: drift_start_def)
  then have "I (dr_db (fold (reconcile_tunnel A now (g_hostname gw) (by_key peers)) (db_tunnels gid s) (drift_start gw s k)))"
    by (rule fold_invariant [where P = "\<lambda>st. I (dr_db st)" and Q = "\<lambda>_. True", rotated]) (auto intro: t)
  then have "I (dr_db (fold (remove_orphan A now (g_hostname gw) (map dt_key (db_tunnels gid s))) (uniq (map pe_publicKey peers))
        (fold (reconcile_tunnel A now (g_hostname gw) (by_key peers)) (db_tunnels gid s) (drift_start gw s k))))"
    by (rule fold_invariant [where P = "\<lambda>st. I (dr_db st)" and Q = "\<lambda>_. True", rotated]) (auto intro: o)
  then show ?thesis
    unfolding st by (rule fold_invariant [where P = "\<lambda>st. I (dr_db st)" and Q = "\<lambda>_. True", rotated]) (auto simp: b)
qed

end
