(* ===== verification/GreDrift.thy ===== *)
theory GreDrift
  imports Gre Drift "HOL-Library.Product_Lexorder"
begin

text \<open>
  The background work on GRE tunnels: \<^verbatim>\<open>gre-drift.ts\<close> (repair of the agent's interfaces),
  \<^verbatim>\<open>gre-monitor.ts\<close> (health check and DNS re-resolution) and \<^verbatim>\<open>frr-sync.ts\<close> (the prefix list of the
  BGP gateways). What an agent lists or answers to a ping is a parameter.
\<close>

section \<open>Repair of GRE interfaces\<close>

record gre_peer =
  gp_peerId :: string
  gp_remoteIp :: ip4
  gp_publicIps :: "cidr list"

record GreDriftReport =
  gd_gatewayId :: uuid
  gd_gatewayHostname :: string
  gd_reactivated :: "uuid list"
  gd_patched :: "uuid list"
  gd_deletedOrphans :: "string list"
  gd_alreadyOk :: nat
  gd_errors :: "(uuid option \<times> string option \<times> error) list"

definition gre_rows :: "uuid \<Rightarrow> db \<Rightarrow> tunnel list" where
  "gre_rows gid s = filter (\<lambda>t. t_gateway_id t = gid \<and> t_protocol t = ''gre'' \<and> t_deleted_at t = None \<and>
     t_status t = TunActive) (tunnels s)"

definition gre_error :: "uuid option \<Rightarrow> string option \<Rightarrow> error \<Rightarrow> GreDriftReport \<Rightarrow> GreDriftReport" where
  "gre_error tid pid e r = r\<lparr>gd_errors := gd_errors r @ [(tid, pid, e)]\<rparr>"

definition gre_patch :: "uuid \<Rightarrow> tunnel \<Rightarrow> cidr list \<Rightarrow> gre_peer \<Rightarrow> gw_call option" where
  "gre_patch gid t publicIps k =
     (let wantIps = sort publicIps; haveIps = sort (gp_publicIps k);
          ipsChanged = (wantIps \<noteq> haveIps); remoteChanged = (Some (gp_remoteIp k) \<noteq> t_remote_endpoint_ip t)
      in if \<not> ipsChanged \<and> \<not> remoteChanged then None
         else Some (PatchGrePeer gid (peerIdFromTunnelId (t_id t)) (if remoteChanged then t_remote_endpoint_ip t else None)
           (if ipsChanged then Some wantIps else None) None))"

definition reconcile_gre_tunnel :: "agent \<Rightarrow> uuid \<Rightarrow> (string \<Rightarrow> gre_peer option) \<Rightarrow> tunnel \<times> cidr list \<Rightarrow>
    GreDriftReport \<times> db \<Rightarrow> GreDriftReport \<times> db" where
  "reconcile_gre_tunnel agent gid kernelByPeer = (\<lambda>(t, publicIps) (r, s).
     (case kernelByPeer (peerIdFromTunnelId (t_id t)) of
        None \<Rightarrow> (case activateGreTunnel agent (t_id t) s of
            (Inr _, s1) \<Rightarrow> (r\<lparr>gd_reactivated := gd_reactivated r @ [t_id t]\<rparr>, s1)
          | (Inl e, s1) \<Rightarrow> (gre_error (Some (t_id t)) None e r, s1))
      | Some k \<Rightarrow> (case gre_patch gid t publicIps k of
            None \<Rightarrow> (r\<lparr>gd_alreadyOk := gd_alreadyOk r + 1\<rparr>, s)
          | Some c \<Rightarrow> (case request agent c s of
              (Inr _, s1) \<Rightarrow> (r\<lparr>gd_patched := gd_patched r @ [t_id t]\<rparr>, s1)
            | (Inl e, s1) \<Rightarrow> (gre_error (Some (t_id t)) None e r, s1)))))"

definition remove_gre_orphan :: "agent \<Rightarrow> uuid \<Rightarrow> string list \<Rightarrow> string \<Rightarrow> GreDriftReport \<times> db \<Rightarrow> GreDriftReport \<times> db" where
  "remove_gre_orphan agent gid dbPeerIds pid = (\<lambda>(r, s).
     if pid \<in> set dbPeerIds then (r, s)
     else case request agent (DeleteGrePeer gid pid) s of
       (Inr _, s1) \<Rightarrow> (r\<lparr>gd_deletedOrphans := gd_deletedOrphans r @ [pid]\<rparr>, s1)
     | (Inl e, s1) \<Rightarrow> (gre_error None (Some pid) e r, s1))"

definition by_peer :: "gre_peer list \<Rightarrow> string \<Rightarrow> gre_peer option" where
  "by_peer ps pid = find (\<lambda>p. gp_peerId p = pid) (rev ps)"

definition reconcileGreOnGateway :: "(uuid \<Rightarrow> error + gre_peer list) \<Rightarrow> agent \<Rightarrow> uuid \<Rightarrow> GreDriftReport op" where
  "reconcileGreOnGateway listGrePeers agent gid s =
     (case find (\<lambda>g. g_id g = gid \<and> g_status g = GwActive) (gateways s) of
        None \<Rightarrow> (Inl (JsError (''gateway '' @ gid @ '' not active'')), s)
      | Some gw \<Rightarrow>
          let report = \<lparr>gd_gatewayId = g_id gw, gd_gatewayHostname = g_hostname gw, gd_reactivated = [], gd_patched = [],
                gd_deletedOrphans = [], gd_alreadyOk = 0, gd_errors = []\<rparr> in
          if ''gre'' \<notin> set (g_supported_protocols gw) then (Inr report, s)
          else (case listGrePeers gid of
              Inl e \<Rightarrow> (Inr (gre_error None None e report), s)
            | Inr peers \<Rightarrow>
                let rows = map (\<lambda>t. (t, drift_cidrs (t_id t) s)) (gre_rows gid s) in
                (case fold (remove_gre_orphan agent gid (map (\<lambda>(t, _). peerIdFromTunnelId (t_id t)) rows)) (map gp_peerId peers)
                  (fold (reconcile_gre_tunnel agent gid (by_peer peers)) rows (report, s)) of
                   (r, s1) \<Rightarrow> (Inr r, s1))))"

text \<open>\<^verbatim>\<open>reconcileGreAllGateways\<close>: a gateway that throws becomes a report with its error.\<close>

definition reconcileGreAllGateways :: "(uuid \<Rightarrow> error + gre_peer list) \<Rightarrow> agent \<Rightarrow> db \<Rightarrow> GreDriftReport list \<times> db" where
  "reconcileGreAllGateways listGrePeers agent s =
     (case for_try (reconcileGreOnGateway listGrePeers agent)
        (map g_id (filter (\<lambda>g. g_status g = GwActive \<and> ''gre'' \<in> set (g_supported_protocols g)) (gateways s))) s of
        (rs, s1) \<Rightarrow> (map (\<lambda>(gid, r). case r of
            Inr rep \<Rightarrow> rep
          | Inl e \<Rightarrow> \<lparr>gd_gatewayId = gid, gd_gatewayHostname = ''?'', gd_reactivated = [], gd_patched = [],
              gd_deletedOrphans = [], gd_alreadyOk = 0, gd_errors = [(None, None, e)]\<rparr>) rs, s1))"

section \<open>Health check\<close>

definition FAIL_THRESHOLD :: nat where
  "FAIL_THRESHOLD = 3"

record GreMonitorResult =
  gm_checked :: nat
  gm_reachable :: nat
  gm_unreachable :: nat
  gm_reresolves :: nat
  gm_ipChanges :: nat
  gm_errors :: "(uuid \<times> error) list"

record monitor =
  mo_fails :: "uuid \<Rightarrow> nat option"
  mo_res :: GreMonitorResult
  mo_db :: db

definition monitor_rows :: "db \<Rightarrow> tunnel list" where
  "monitor_rows s = filter (\<lambda>t. t_protocol t = ''gre'' \<and> t_deleted_at t = None \<and> t_status t = TunActive \<and>
     (\<exists>g \<in> set (gateways s). g_id g = t_gateway_id t \<and> g_status g = GwActive)) (tunnels s)"

text \<open>\<^verbatim>\<open>pingPeer(custEnd, 3)\<close> returns the packets received or throws.\<close>

definition check_tunnel :: "(uuid \<Rightarrow> ip4 \<Rightarrow> error + nat) \<Rightarrow> resolver \<Rightarrow> agent \<Rightarrow> ms \<Rightarrow> tunnel \<Rightarrow> monitor \<Rightarrow> monitor" where
  "check_tunnel ping dns agent now t m =
     (let tid = t_id t;
          pong = ping (t_gateway_id t) (intToIp (ipToInt (t_private_ip t) + 1));
          res0 = (mo_res m)\<lparr>gm_checked := gm_checked (mo_res m) + 1\<rparr>;
          res1 = (case pong of Inl e \<Rightarrow> res0\<lparr>gm_errors := gm_errors res0 @ [(tid, e)]\<rparr> | Inr _ \<Rightarrow> res0);
          reachable = (case pong of Inl _ \<Rightarrow> False | Inr received \<Rightarrow> received > 0)
      in if reachable
         then m\<lparr>mo_res := res1\<lparr>gm_reachable := gm_reachable res1 + 1\<rparr>, mo_fails := (mo_fails m)(tid := None),
                mo_db := set_tunnels (\<lambda>v. t_id v = tid) (\<lambda>v. v\<lparr>t_last_handshake_at := Some now\<rparr>) (mo_db m)\<rparr>
         else
           let res2 = res1\<lparr>gm_unreachable := gm_unreachable res1 + 1\<rparr>;
               fails = (case mo_fails m tid of None \<Rightarrow> 0 | Some n \<Rightarrow> n) + 1
           in if fails < FAIL_THRESHOLD then m\<lparr>mo_res := res2, mo_fails := (mo_fails m)(tid := Some fails)\<rparr>
              else
                let res3 = res2\<lparr>gm_reresolves := gm_reresolves res2 + 1\<rparr> in
                (case resolveGreEndpoint dns agent now tid (mo_db m) of
                   (Inr rr, s1) \<Rightarrow> m\<lparr>mo_fails := (mo_fails m)(tid := Some 0), mo_db := s1,
                     mo_res := (if rr_changed rr then res3\<lparr>gm_ipChanges := gm_ipChanges res3 + 1\<rparr> else res3)\<rparr>
                 | (Inl e, s1) \<Rightarrow> m\<lparr>mo_fails := (mo_fails m)(tid := Some 0), mo_db := s1,
                     mo_res := res3\<lparr>gm_errors := gm_errors res3 @ [(tid, e)]\<rparr>\<rparr>))"

definition monitorGreTunnels :: "(uuid \<Rightarrow> ip4 \<Rightarrow> error + nat) \<Rightarrow> resolver \<Rightarrow> agent \<Rightarrow> ms \<Rightarrow> (uuid \<Rightarrow> nat option) \<Rightarrow> db \<Rightarrow> monitor" where
  "monitorGreTunnels ping dns agent now fails s =
     (let rows = monitor_rows s;
          res = \<lparr>gm_checked = 0, gm_reachable = 0, gm_unreachable = 0, gm_reresolves = 0, gm_ipChanges = 0, gm_errors = []\<rparr>
      in if rows = [] then \<lparr>mo_fails = fails, mo_res = res, mo_db = s\<rparr>
         else fold (check_tunnel ping dns agent now) rows
           \<lparr>mo_fails = (\<lambda>tid. if tid \<in> set (map t_id rows) then fails tid else None), mo_res = res, mo_db = s\<rparr>)"

record RefreshResult =
  rf_refreshed :: nat
  rf_changed :: nat
  rf_errors :: "(uuid \<times> error) list"

definition stale_endpoint :: "ms \<Rightarrow> int \<Rightarrow> tunnel \<Rightarrow> bool" where
  "stale_endpoint now maxAgeMinutes t \<longleftrightarrow> t_protocol t = ''gre'' \<and> t_deleted_at t = None \<and> t_status t = TunActive \<and>
     (case t_remote_endpoint_resolved_at t of None \<Rightarrow> True | Some at \<Rightarrow> at < now - maxAgeMinutes * 60000)"

definition refreshStaleGreEndpoints :: "resolver \<Rightarrow> agent \<Rightarrow> ms \<Rightarrow> int \<Rightarrow> db \<Rightarrow> RefreshResult \<times> db" where
  "refreshStaleGreEndpoints dns agent now maxAgeMinutes s =
     (case for_try (resolveGreEndpoint dns agent now)
        (map t_id (take 200 (filter (stale_endpoint now maxAgeMinutes) (tunnels s)))) s of
        (rs, s1) \<Rightarrow> (\<lparr>rf_refreshed = length rs,
          rf_changed = length (filter (\<lambda>(_, r). case r of Inl _ \<Rightarrow> False | Inr rr \<Rightarrow> rr_changed rr) rs),
          rf_errors = List.map_filter (\<lambda>(tid, r). case r of Inl e \<Rightarrow> Some (tid, e) | Inr _ \<Rightarrow> None) rs\<rparr>, s1))"

section \<open>Prefix lists\<close>

record FrrSyncResult =
  fs_pushed :: nat
  fs_failures :: "(string \<times> error) list"
  fs_entries :: "(cidr \<times> int) list"

definition prefix_of :: "cidr \<Rightarrow> int" where
  "prefix_of c = nan0 (js_Number (case split_on CHR ''/'' c of _ # p # _ \<Rightarrow> p | _ \<Rightarrow> ''32''))"

definition pool_entries :: "db \<Rightarrow> (cidr \<times> int) list" where
  "pool_entries s = map (\<lambda>c. (c, prefix_of c)) (sort_key (\<lambda>c. (ip4ToInt (hd (split_on CHR ''/'' c)), prefix_of c)) (map p_block (pools s)))"

definition syncPoolPrefixListsAllGateways :: "agent \<Rightarrow> db \<Rightarrow> FrrSyncResult \<times> db" where
  "syncPoolPrefixListsAllGateways agent s =
     (case for_try (\<lambda>gw. request agent (SyncFrrPrefixList (g_id gw) (pool_entries s)))
        (filter (\<lambda>g. g_status g = GwActive \<and> g_bgp_enabled g) (gateways s)) s of
        (rs, s1) \<Rightarrow> (\<lparr>fs_pushed = length (filter (\<lambda>(_, r). \<not> isl r) rs),
          fs_failures = List.map_filter (\<lambda>(gw, r). case r of Inl e \<Rightarrow> Some (g_hostname gw, e) | Inr _ \<Rightarrow> None) rs,
          fs_entries = pool_entries s\<rparr>, s1))"

section \<open>The health check counts to three\<close>

definition answers :: "(uuid \<Rightarrow> ip4 \<Rightarrow> error + nat) \<Rightarrow> tunnel \<Rightarrow> bool" where
  "answers ping t \<longleftrightarrow> (case ping (t_gateway_id t) (intToIp (ipToInt (t_private_ip t) + 1)) of Inl _ \<Rightarrow> False | Inr n \<Rightarrow> n > 0)"

definition count_of :: "(uuid \<Rightarrow> nat option) \<Rightarrow> uuid \<Rightarrow> nat" where
  "count_of fails tid = (case fails tid of None \<Rightarrow> 0 | Some n \<Rightarrow> n)"

definition next_count :: "(uuid \<Rightarrow> ip4 \<Rightarrow> error + nat) \<Rightarrow> (uuid \<Rightarrow> nat option) \<Rightarrow> tunnel \<Rightarrow> nat option" where
  "next_count ping fails t = (if answers ping t then None else Some ((count_of fails (t_id t) + 1) mod 3))"

lemma check_tunnel_step:
  assumes "count_of (mo_fails m) (t_id t) < 3"
  shows "mo_fails (check_tunnel ping dns agent now t m) = (mo_fails m)(t_id t := next_count ping (mo_fails m) t)"
    and "gm_checked (mo_res (check_tunnel ping dns agent now t m)) = gm_checked (mo_res m) + 1"
    and "gm_reachable (mo_res (check_tunnel ping dns agent now t m)) = gm_reachable (mo_res m) + (if answers ping t then 1 else 0)"
    and "gm_unreachable (mo_res (check_tunnel ping dns agent now t m)) = gm_unreachable (mo_res m) + (if answers ping t then 0 else 1)"
    and "gm_reresolves (mo_res (check_tunnel ping dns agent now t m)) =
      gm_reresolves (mo_res m) + (if \<not> answers ping t \<and> count_of (mo_fails m) (t_id t) = 2 then 1 else 0)"
proof -
  let ?n = "case mo_fails m (t_id t) of None \<Rightarrow> 0 | Some n \<Rightarrow> n"
  have c: "?n = 0 \<or> ?n = 1 \<or> ?n = 2" using assms by (auto simp: count_of_def)
  note defs = check_tunnel_def next_count_def answers_def count_of_def FAIL_THRESHOLD_def Let_def
  show "mo_fails (check_tunnel ping dns agent now t m) = (mo_fails m)(t_id t := next_count ping (mo_fails m) t)"
    using c by (elim disjE) (simp_all add: defs split: sum.split prod.split)
  show "gm_checked (mo_res (check_tunnel ping dns agent now t m)) = gm_checked (mo_res m) + 1"
    by (simp add: defs split: sum.split prod.split)
  show "gm_reachable (mo_res (check_tunnel ping dns agent now t m)) = gm_reachable (mo_res m) + (if answers ping t then 1 else 0)"
    by (simp add: defs split: sum.split prod.split)
  show "gm_unreachable (mo_res (check_tunnel ping dns agent now t m)) = gm_unreachable (mo_res m) + (if answers ping t then 0 else 1)"
    by (simp add: defs split: sum.split prod.split)
  show "gm_reresolves (mo_res (check_tunnel ping dns agent now t m)) =
      gm_reresolves (mo_res m) + (if \<not> answers ping t \<and> count_of (mo_fails m) (t_id t) = 2 then 1 else 0)"
    using c by (elim disjE) (simp_all add: defs split: sum.split prod.split)
qed

lemma check_loop:
  assumes "distinct (map t_id rows)" "\<And>t. t \<in> set rows \<Longrightarrow> count_of (mo_fails m) (t_id t) < 3"
  shows "(\<forall>t \<in> set rows. mo_fails (fold (check_tunnel ping dns agent now) rows m) (t_id t) = next_count ping (mo_fails m) t) \<and>
    (\<forall>tid. tid \<notin> set (map t_id rows) \<longrightarrow> mo_fails (fold (check_tunnel ping dns agent now) rows m) tid = mo_fails m tid) \<and>
    gm_checked (mo_res (fold (check_tunnel ping dns agent now) rows m)) = gm_checked (mo_res m) + length rows \<and>
    gm_reachable (mo_res (fold (check_tunnel ping dns agent now) rows m)) = gm_reachable (mo_res m) + length (filter (answers ping) rows) \<and>
    gm_unreachable (mo_res (fold (check_tunnel ping dns agent now) rows m)) =
      gm_unreachable (mo_res m) + length (filter (\<lambda>t. \<not> answers ping t) rows) \<and>
    gm_reresolves (mo_res (fold (check_tunnel ping dns agent now) rows m)) =
      gm_reresolves (mo_res m) + length (filter (\<lambda>t. \<not> answers ping t \<and> count_of (mo_fails m) (t_id t) = 2) rows)"
  using assms
proof (induction rows arbitrary: m)
  case (Cons t rows)
  let ?m = "check_tunnel ping dns agent now t m"
  note step = check_tunnel_step [OF Cons.prems(2) [of t], of ping dns agent now, simplified]
  have other: "mo_fails ?m (t_id u) = mo_fails m (t_id u)" if "u \<in> set rows" for u
    using that Cons.prems(1) by (auto simp: step(1) image_iff)
  then have same: "count_of (mo_fails ?m) (t_id u) = count_of (mo_fails m) (t_id u)"
    "next_count ping (mo_fails ?m) u = next_count ping (mo_fails m) u" if "u \<in> set rows" for u
    using that by (simp_all add: count_of_def next_count_def)
  have IH: "distinct (map t_id rows)" "\<And>u. u \<in> set rows \<Longrightarrow> count_of (mo_fails ?m) (t_id u) < 3"
    using Cons.prems same by auto
  have f: "filter (\<lambda>u. \<not> answers ping u \<and> count_of (mo_fails ?m) (t_id u) = 2) rows =
      filter (\<lambda>u. \<not> answers ping u \<and> count_of (mo_fails m) (t_id u) = 2) rows"
    using same(1) by (intro filter_cong) auto
  note loop = Cons.IH [OF IH, unfolded f]
  let ?fin = "fold (check_tunnel ping dns agent now) rows ?m"
  have 1: "mo_fails ?fin (t_id u) = next_count ping (mo_fails m) u" if "u \<in> set rows" for u
    using loop same(2) [OF that] that by simp
  have 2: "mo_fails ?fin tid = mo_fails ?m tid" if "tid \<notin> set (map t_id rows)" for tid using loop that by blast
  have 3: "mo_fails ?fin (t_id t) = next_count ping (mo_fails m) t" using 2 [of "t_id t"] Cons.prems(1) by (simp add: step(1))
  have "gm_checked (mo_res ?fin) = gm_checked (mo_res m) + length (t # rows)"
    "gm_reachable (mo_res ?fin) = gm_reachable (mo_res m) + length (filter (answers ping) (t # rows))"
    "gm_unreachable (mo_res ?fin) = gm_unreachable (mo_res m) + length (filter (\<lambda>t. \<not> answers ping t) (t # rows))"
    "gm_reresolves (mo_res ?fin) =
      gm_reresolves (mo_res m) + length (filter (\<lambda>t. \<not> answers ping t \<and> count_of (mo_fails m) (t_id t) = 2) (t # rows))"
    using loop step(2-5) by simp_all
  then show ?case using 1 2 3 by (simp add: step(1))
qed simp

text \<open>
  C38. The health check acts on the third failure in a row. After a run every monitored tunnel that
  answered has no counter, every other one has its counter advanced modulo three, tunnels no
  longer monitored are forgotten; DNS is asked again exactly for the tunnels whose counter stood at
  two; every monitored tunnel is checked once. Counters therefore never reach the threshold.
\<close>

theorem monitorGreTunnels_counts:
  assumes ids: "distinct (map t_id (tunnels s))" and rows: "monitor_rows s \<noteq> []"
    and bound: "\<forall>tid. count_of fails tid < 3"
    and run: "m = monitorGreTunnels ping dns agent now fails s"
  shows "(\<forall>t \<in> set (monitor_rows s). mo_fails m (t_id t) = next_count ping fails t) \<and>
    (\<forall>tid. tid \<notin> set (map t_id (monitor_rows s)) \<longrightarrow> mo_fails m tid = None) \<and>
    gm_reresolves (mo_res m) = length (filter (\<lambda>t. \<not> answers ping t \<and> count_of fails (t_id t) = 2) (monitor_rows s)) \<and>
    gm_checked (mo_res m) = length (monitor_rows s) \<and>
    gm_reachable (mo_res m) + gm_unreachable (mo_res m) = gm_checked (mo_res m) \<and>
    (\<forall>tid. count_of (mo_fails m) tid < 3)"
proof -
  let ?rows = "monitor_rows s"
  let ?f = "\<lambda>tid. if tid \<in> set (map t_id ?rows) then fails tid else None"
  let ?m0 = "\<lparr>mo_fails = ?f, mo_res = \<lparr>gm_checked = 0, gm_reachable = 0, gm_unreachable = 0, gm_reresolves = 0,
    gm_ipChanges = 0, gm_errors = []\<rparr>, mo_db = s\<rparr>"
  have m: "m = fold (check_tunnel ping dns agent now) ?rows ?m0"
    using rows by (simp add: run monitorGreTunnels_def Let_def)
  have d: "distinct (map t_id ?rows)" using ids by (simp add: monitor_rows_def distinct_map_filter)
  have same: "count_of ?f (t_id t) = count_of fails (t_id t)" "next_count ping ?f t = next_count ping fails t" if "t \<in> set ?rows" for t
    using that by (simp_all add: count_of_def next_count_def)
  have lt: "count_of (mo_fails ?m0) (t_id t) < 3" if "t \<in> set ?rows" for t using same(1) [OF that] bound by simp
  note loop = check_loop [OF d lt, of ping dns agent now, folded m]
  have f: "filter (\<lambda>t. \<not> answers ping t \<and> count_of ?f (t_id t) = 2) ?rows =
      filter (\<lambda>t. \<not> answers ping t \<and> count_of fails (t_id t) = 2) ?rows"
    using same(1) by (intro filter_cong) auto
  have 1: "mo_fails m (t_id t) = next_count ping fails t" if "t \<in> set ?rows" for t
    using loop same(2) [OF that] that by simp
  have 2: "mo_fails m tid = None" if "tid \<notin> set (map t_id ?rows)" for tid using loop that by simp
  have "count_of (mo_fails m) tid < 3" for tid
  proof (cases "tid \<in> set (map t_id ?rows)")
    case True
    then obtain t where "t \<in> set ?rows" "tid = t_id t" by auto
    then show ?thesis using 1 by (simp add: count_of_def next_count_def)
  qed (use 2 in \<open>simp add: count_of_def\<close>)
  moreover have "length (filter (answers ping) ?rows) + length (filter (\<lambda>t. \<not> answers ping t) ?rows) = length ?rows"
    by (rule sum_length_filter_compl)
  ultimately show ?thesis using loop 1 2 f by simp
qed

theorem monitorGreTunnels_counts_witness:
  "gm_reresolves (mo_res (monitorGreTunnels (\<lambda>_ _. Inr 0) (\<lambda>_. Inr [''198.51.100.10'']) (\<lambda>_. None) T0
     (\<lambda>tid. if tid = ''t1'' then Some 2 else None) gre_db)) = 1"
proof -
  have a: "distinct (map t_id (tunnels gre_db))" "monitor_rows gre_db \<noteq> []" by code_simp+
  have b: "\<forall>tid. count_of (\<lambda>tid. if tid = ''t1'' then Some 2 else None) tid < 3" by (simp add: count_of_def)
  have "length (filter (\<lambda>t. \<not> answers (\<lambda>_ _. Inr 0) t \<and> count_of (\<lambda>tid. if tid = ''t1'' then Some 2 else None) (t_id t) = 2)
      (monitor_rows gre_db)) = 1" by code_simp
  with monitorGreTunnels_counts [OF a b refl, of "\<lambda>_ _. Inr 0" "\<lambda>_. Inr [''198.51.100.10'']" "\<lambda>_. None" T0]
  show ?thesis by simp
qed

end
