(* ===== verification/Codes.thy ===== *)
theory Codes
  imports Provision
begin

text \<open>
  \<^verbatim>\<open>apps/api/src/codes/codes.service.ts\<close>: prepaid codes. The bytes of the n-th call of
  \<^verbatim>\<open>randomBytes\<close> are \<open>rnd n\<close>. Transactions on one code are serialised by its row lock, so they are
  run one after the other. Code texts are ASCII.
\<close>

section \<open>Code texts\<close>

definition ALPHABET :: string where
  "ALPHABET = ''ABCDEFGHJKLMNPQRSTUVWXYZ23456789''"

fun groups4 :: "string \<Rightarrow> string list" where
  "groups4 (a # b # c # d # rest) = [a, b, c, d] # groups4 rest"
| "groups4 _ = []"

definition generateCodeString :: "nat list \<Rightarrow> string" where
  "generateCodeString bytes = join ''-'' (groups4 (map (\<lambda>b. ALPHABET ! (b mod length ALPHABET)) bytes))"

definition upper_char :: "char \<Rightarrow> char" where
  "upper_char c = (if CHR ''a'' \<le> c \<and> c \<le> CHR ''z'' then char_of (of_char c - 32 :: nat) else c)"

definition normalize :: "string \<Rightarrow> string" where
  "normalize raw = map upper_char (filter (\<lambda>c. \<not> is_space c \<and> c \<noteq> CHR ''-'') raw)"

section \<open>Batches\<close>

record CreateBatchInput =
  cbi_name :: string
  cbi_valueSatang :: int
  cbi_count :: int
  cbi_maxUsesPerUser :: "int option"
  cbi_maxUsesTotal :: "int option"
  cbi_expiresAt :: "ms option"

definition or_one :: "int option \<Rightarrow> int" where
  "or_one x = (case x of None \<Rightarrow> 1 | Some v \<Rightarrow> v)"

text \<open>The loop draws until it has enough different codes; it may never have them.\<close>

partial_function (option) draw_codes :: "(nat \<Rightarrow> nat list) \<Rightarrow> nat \<Rightarrow> nat \<Rightarrow> string list \<Rightarrow> string list option" where
  "draw_codes rnd cnt i cs =
     (if cnt \<le> length cs then Some cs
      else let c = generateCodeString (rnd i) in
        if normalize c \<in> set (map normalize cs) then draw_codes rnd cnt (Suc i) cs
        else draw_codes rnd cnt (Suc i) (cs @ [c]))"

definition new_code :: "uuid_gen \<Rightarrow> CreateBatchInput \<Rightarrow> uuid \<Rightarrow> string \<Rightarrow> nat \<Rightarrow> credit_code" where
  "new_code g inp batchId c i = \<lparr>c_id = g i, c_batch_id = batchId, c_code = c, c_code_normalized = normalize c,
     c_credit_value = cbi_valueSatang inp, c_max_uses_total = or_one (cbi_maxUsesTotal inp),
     c_max_uses_per_user = or_one (cbi_maxUsesPerUser inp), c_current_uses = 0, c_expires_at = cbi_expiresAt inp,
     c_status = CodeActive\<rparr>"

text \<open>The bulk insert with the checks and keys of \<^verbatim>\<open>credit_codes\<close>.\<close>

fun insert_codes :: "uuid_gen \<Rightarrow> CreateBatchInput \<Rightarrow> uuid \<Rightarrow> string list \<Rightarrow> db \<Rightarrow> error + db" where
  "insert_codes g inp batchId [] s = Inr s"
| "insert_codes g inp batchId (c # cs) s =
     (if c \<in> set (map c_code (codes s)) then Inl (UniqueViolation ''credit_codes_code_key'')
      else if normalize c \<in> set (map c_code_normalized (codes s)) then Inl (UniqueViolation ''credit_codes_code_normalized_key'')
      else insert_codes g inp batchId cs (s\<lparr>codes := codes s @ [new_code g inp batchId c (length (codes s))]\<rparr>))"

definition createBatch_tx :: "uuid_gen \<Rightarrow> ms \<Rightarrow> uuid \<Rightarrow> CreateBatchInput \<Rightarrow> string list \<Rightarrow> db \<Rightarrow> error + ((uuid \<times> string list) \<times> db)" where
  "createBatch_tx g now adminId inp cs s =
     (let batchId = g (length (batches s));
          s1 = s\<lparr>batches := batches s @ [\<lparr>cb_id = batchId, cb_name = cbi_name inp, cb_created_by_admin = adminId,
            cb_credit_value = cbi_valueSatang inp, cb_max_uses_total = or_one (cbi_maxUsesTotal inp),
            cb_max_uses_per_user = or_one (cbi_maxUsesPerUser inp), cb_expires_at = cbi_expiresAt inp,
            cb_code_count = cbi_count inp, cb_redeemed_count = 0, cb_total_credit_redeemed = 0\<rparr>]\<rparr>
      in andThen (throw_if (or_one (cbi_maxUsesTotal inp) < 0 \<or> or_one (cbi_maxUsesPerUser inp) < 0) (CheckViolation ''valid_uses'')) (\<lambda>_.
         andThen (insert_codes g inp batchId cs s1) (\<lambda>s2.
         Inr ((batchId, cs), audit now ActAdmin (Some adminId) ''codes.batch_created'' (Some ''code_batch'') (Some batchId)
           [(''name'', JStr (cbi_name inp)), (''count'', JNum (cbi_count inp)), (''valueSatang'', JNum (cbi_valueSatang inp))] s2))))"

text \<open>\<open>None\<close>: the drawing loop does not end.\<close>

definition createBatch :: "uuid_gen \<Rightarrow> (nat \<Rightarrow> nat list) \<Rightarrow> ms \<Rightarrow> uuid \<Rightarrow> CreateBatchInput \<Rightarrow> db \<Rightarrow>
    ((error + (uuid \<times> string list)) \<times> db) option" where
  "createBatch g rnd now adminId inp s =
     (if cbi_valueSatang inp \<le> 0 then Some (Inl (BadRequestException ''valueSatang must be > 0''), s)
      else if cbi_count inp \<le> 0 \<or> cbi_count inp > 10000 then Some (Inl (BadRequestException ''count must be 1..10000''), s)
      else case draw_codes rnd (nat (cbi_count inp)) 0 [] of
        None \<Rightarrow> None
      | Some cs \<Rightarrow> Some (sql_begin (createBatch_tx g now adminId inp cs) s))"

section \<open>Administration\<close>

definition set_codes :: "(credit_code \<Rightarrow> bool) \<Rightarrow> (credit_code \<Rightarrow> credit_code) \<Rightarrow> db \<Rightarrow> db" where
  "set_codes P f s = s\<lparr>codes := upd_where P f (codes s)\<rparr>"

datatype admin_status = SetActive | SetPaused | SetRevoked

fun as_code_status :: "admin_status \<Rightarrow> code_status" where
  "as_code_status SetActive = CodeActive"
| "as_code_status SetPaused = CodePaused"
| "as_code_status SetRevoked = CodeRevoked"

fun admin_status_name :: "admin_status \<Rightarrow> string" where
  "admin_status_name SetActive = ''active''"
| "admin_status_name SetPaused = ''paused''"
| "admin_status_name SetRevoked = ''revoked''"

definition json_iso :: "ms option \<Rightarrow> json" where
  "json_iso t = (case t of None \<Rightarrow> JNull | Some v \<Rightarrow> JIso v)"

definition setCodeStatus :: "ms \<Rightarrow> uuid \<Rightarrow> admin_status \<Rightarrow> unit op" where
  "setCodeStatus now codeId status s =
     (if codeId \<notin> set (map c_id (codes s)) then (Inl (BadRequestException ''code not found''), s)
      else (Inr (), audit now ActAdmin None ''code.status'' (Some ''credit_code'') (Some codeId)
        [(''status'', JStr (admin_status_name status))]
        (set_codes (\<lambda>c. c_id c = codeId) (\<lambda>c. c\<lparr>c_status := as_code_status status\<rparr>) s)))"

definition setCodeExpiry :: "ms \<Rightarrow> uuid \<Rightarrow> ms option \<Rightarrow> unit op" where
  "setCodeExpiry now codeId expiresAt s =
     (if codeId \<notin> set (map c_id (codes s)) then (Inl (BadRequestException ''code not found''), s)
      else (Inr (), audit now ActAdmin None ''code.expiry'' (Some ''credit_code'') (Some codeId)
        [(''expiresAt'', json_iso expiresAt)]
        (set_codes (\<lambda>c. c_id c = codeId) (\<lambda>c. c\<lparr>c_expires_at := expiresAt\<rparr>) s)))"

definition batch_size :: "uuid \<Rightarrow> db \<Rightarrow> nat" where
  "batch_size batchId s = length (filter (\<lambda>c. c_batch_id c = batchId) (codes s))"

definition setBatchCodesStatus :: "ms \<Rightarrow> uuid \<Rightarrow> admin_status \<Rightarrow> nat op" where
  "setBatchCodesStatus now batchId status s = (Inr (batch_size batchId s),
     audit now ActAdmin None ''codebatch.status'' (Some ''credit_code_batch'') (Some batchId)
       [(''status'', JStr (admin_status_name status)), (''affected'', JNum (int (batch_size batchId s)))]
       (set_codes (\<lambda>c. c_batch_id c = batchId) (\<lambda>c. c\<lparr>c_status := as_code_status status\<rparr>) s))"

definition setBatchCodesExpiry :: "ms \<Rightarrow> uuid \<Rightarrow> ms option \<Rightarrow> nat op" where
  "setBatchCodesExpiry now batchId expiresAt s = (Inr (batch_size batchId s),
     audit now ActAdmin None ''codebatch.expiry'' (Some ''credit_code_batch'') (Some batchId)
       [(''expiresAt'', json_iso expiresAt), (''affected'', JNum (int (batch_size batchId s)))]
       (set_codes (\<lambda>c. c_batch_id c = batchId) (\<lambda>c. c\<lparr>c_expires_at := expiresAt\<rparr>) s))"

section \<open>Redemption\<close>

record RedeemResult =
  re_creditAddedSatang :: satang
  re_newBalanceSatang :: satang

definition redeemable :: "ms \<Rightarrow> string \<Rightarrow> credit_code \<Rightarrow> bool" where
  "redeemable now norm c \<longleftrightarrow> c_code_normalized c = norm \<and> c_status c = CodeActive \<and>
     (c_max_uses_total c = 0 \<or> c_current_uses c < c_max_uses_total c) \<and>
     (case c_expires_at c of None \<Rightarrow> True | Some e \<Rightarrow> e > now)"

definition used_by :: "uuid \<Rightarrow> uuid \<Rightarrow> db \<Rightarrow> nat" where
  "used_by codeId userId s = length (filter (\<lambda>r. rd_code_id r = codeId \<and> rd_user_id r = userId) (redemptions s))"

definition redeem_row :: "uuid_gen \<Rightarrow> credit_code \<Rightarrow> wallet \<Rightarrow> uuid \<Rightarrow> string \<Rightarrow> db \<Rightarrow> credit_tx" where
  "redeem_row g code w userId norm s = \<lparr>x_id = g (length (txs s)), x_user_id = userId, x_wallet_id = w_id w,
     x_type = TxCodeRedemption, x_amount = c_credit_value code, x_balance_after = w_balance w + c_credit_value code,
     x_description = ''Code redemption ('' @ norm @ '')'',
     x_code_redemption_id = Some (g (length (redemptions s))), x_admin_user_id = None,
     x_idempotency_key = Some (''redeem-'' @ c_id code @ ''-'' @ userId)\<rparr>"

text \<open>
  The ledger row is inserted with \<^verbatim>\<open>code_redemption_id\<close> NULL and gets the id of the redemption row
  in the same transaction; \<open>redeem_row\<close> is the row after both statements.
\<close>

definition redeem_tx :: "uuid_gen \<Rightarrow> ms \<Rightarrow> uuid \<Rightarrow> string \<Rightarrow> db \<Rightarrow> error + (RedeemResult \<times> db)" where
  "redeem_tx g now userId norm s =
     andThen (or_throw (BadRequestException ''INVALID_CODE'') (find (redeemable now norm) (codes s))) (\<lambda>code.
     andThen (throw_if (int (used_by (c_id code) userId s) \<ge> c_max_uses_per_user code) (ForbiddenException ''PER_USER_LIMIT'')) (\<lambda>_.
     andThen (or_throw (BadRequestException ''wallet not found'') (wallet_of userId s)) (\<lambda>w.
     andThen (insert_tx (redeem_row g code w userId norm s)
       (wallet_credit (w_id w) (w_balance w + c_credit_value code) (c_credit_value code)
         (set_codes (redeemable now norm) (\<lambda>c. c\<lparr>c_current_uses := c_current_uses c + 1\<rparr>) s))) (\<lambda>s1.
     Inr (\<lparr>re_creditAddedSatang = c_credit_value code, re_newBalanceSatang = w_balance w + c_credit_value code\<rparr>,
       notify userId ''wallet.topup'' SevInfo
         [(''addedSatang'', JNum (c_credit_value code)), (''balanceAfter'', JNum (w_balance w + c_credit_value code))]
       (audit now ActUser (Some userId) ''code.redeem'' (Some ''credit_code'') (Some (c_id code)) []
       ((if c_max_uses_total code > 0 \<and> int (used_by (c_id code) userId s) + 1 \<ge> c_max_uses_total code
         then set_codes (\<lambda>c. c_id c = c_id code \<and> c_current_uses c \<ge> c_max_uses_total c) (\<lambda>c. c\<lparr>c_status := CodeExhausted\<rparr>)
         else id)
         (s1\<lparr>redemptions := redemptions s1 @ [\<lparr>rd_id = g (length (redemptions s1)), rd_code_id = c_id code, rd_user_id = userId,
              rd_transaction_id = g (length (txs s)), rd_credit_added = c_credit_value code\<rparr>],
            batches := upd_where (\<lambda>b. cb_id b = c_batch_id code) (\<lambda>b. b\<lparr>cb_redeemed_count := cb_redeemed_count b + 1,
              cb_total_credit_redeemed := cb_total_credit_redeemed b + c_credit_value code\<rparr>) (batches s1)\<rparr>))))))))"

definition redeem :: "uuid_gen \<Rightarrow> ms \<Rightarrow> uuid \<Rightarrow> string \<Rightarrow> RedeemResult op" where
  "redeem g now userId raw s =
     seq (attempt (throw_if (userId = []) UnauthorizedException)) (\<lambda>_.
     seq (attempt (throw_if (length (normalize raw) < 4) (BadRequestException ''INVALID_CODE''))) (\<lambda>_.
     sql_begin (redeem_tx g now userId (normalize raw)))) s"

section \<open>Printing and reading codes\<close>

lemma groups4_join:
  "4 dvd length xs \<Longrightarrow> filter (\<lambda>c. c \<noteq> CHR ''-'') (join ''-'' (groups4 xs)) = filter (\<lambda>c. c \<noteq> CHR ''-'') xs"
proof (induction xs rule: groups4.induct)
  case (1 a b c d rest)
  from "1.prems" have m: "4 dvd length rest" by simp presburger
  have "rest = [] \<or> (\<exists>e f. groups4 rest = e # f)"
    using m by (cases rest rule: groups4.cases) (auto dest: dvd_imp_le)
  with "1.IH" [OF m] show ?case by auto
qed (auto dest: dvd_imp_le)

lemma alphabet_plain: "n < 32 \<Longrightarrow> ALPHABET ! n \<noteq> CHR ''-'' \<and> \<not> is_space (ALPHABET ! n) \<and> upper_char (ALPHABET ! n) = ALPHABET ! n"
proof -
  have "\<forall>c \<in> set ALPHABET. c \<noteq> CHR ''-'' \<and> \<not> is_space c \<and> upper_char c = c" by code_simp
  moreover have "length ALPHABET = 32" by (simp add: ALPHABET_def)
  ultimately show "n < 32 \<Longrightarrow> ?thesis" by (metis nth_mem)
qed

definition code_body :: "nat list \<Rightarrow> string" where
  "code_body bytes = map (\<lambda>b. ALPHABET ! (b mod 32)) bytes"

lemma code_body_plain: "c \<in> set (code_body bs) \<Longrightarrow> c \<noteq> CHR ''-'' \<and> \<not> is_space c \<and> upper_char c = c"
  using alphabet_plain by (auto simp: code_body_def)

text \<open>
  What is printed is what is looked up: the normalised form of a generated code is its sixteen
  letters, so that typing a printed code with or without the dashes, with blanks between, or in lower
  case, finds it; and two codes are the same exactly when their letters are.
\<close>

theorem code_roundtrip:
  assumes "length bytes = 16"
  shows "normalize (generateCodeString bytes) = code_body bytes \<and>
    (\<forall>typed. filter (\<lambda>c. \<not> is_space c \<and> c \<noteq> CHR ''-'') typed = map lower_char (code_body bytes) \<longrightarrow>
       normalize typed = code_body bytes)"
proof
  let ?p = "\<lambda>c. \<not> is_space c \<and> c \<noteq> CHR ''-''"
  have l: "length ALPHABET = 32" by (simp add: ALPHABET_def)
  have body: "filter ?p (code_body bytes) = code_body bytes" "filter (\<lambda>c. c \<noteq> CHR ''-'') (code_body bytes) = code_body bytes"
    using code_body_plain [of _ bytes] by (auto intro: filter_True)
  have g: "filter (\<lambda>c. c \<noteq> CHR ''-'') (generateCodeString bytes) = code_body bytes"
    using groups4_join [of "code_body bytes"] assms body(2)
    by (simp add: generateCodeString_def l code_body_def)
  have "filter ?p (generateCodeString bytes) = filter (\<lambda>c. \<not> is_space c) (filter (\<lambda>c. c \<noteq> CHR ''-'') (generateCodeString bytes))"
    by (simp add: conj_commute)
  also have "\<dots> = code_body bytes" unfolding g using code_body_plain [of _ bytes] by (auto intro: filter_True)
  finally show "normalize (generateCodeString bytes) = code_body bytes"
    using code_body_plain [of _ bytes] by (simp add: normalize_def map_idI)
  have low: "upper_char (lower_char c) = c" if "upper_char c = c" for c
  proof (cases "CHR ''A'' \<le> c \<and> c \<le> CHR ''Z''")
    case True
    have "\<forall>c \<in> set ''ABCDEFGHIJKLMNOPQRSTUVWXYZ''. upper_char (lower_char c) = c" by code_simp
    moreover have "c \<in> set ''ABCDEFGHIJKLMNOPQRSTUVWXYZ''"
    proof -
      have "65 \<le> (of_char c :: nat)" "(of_char c :: nat) \<le> 90" using True by (simp_all add: less_eq_char_def)
      then have "of_char c \<in> (of_char ` set ''ABCDEFGHIJKLMNOPQRSTUVWXYZ'' :: nat set)" by simp presburger
      then show ?thesis by (simp only: image_iff of_char_eq_iff) auto
    qed
    ultimately show ?thesis by blast
  next
    case False
    then have "lower_char c = c" unfolding lower_char_def by (rule if_not_P)
    with that show ?thesis by simp
  qed
  show "\<forall>typed. filter ?p typed = map lower_char (code_body bytes) \<longrightarrow> normalize typed = code_body bytes"
    using code_body_plain [of _ bytes] low by (auto simp: normalize_def comp_def intro!: map_idI)
qed


theorem code_roundtrip_witness:
  "normalize (generateCodeString (map (\<lambda>i. 7 * i) [0 ..< 16])) = ''AHQX6DLT29GPW5CK'' \<and>
   normalize ''ahqx 6dlt 29gp-w5ck'' = ''AHQX6DLT29GPW5CK''"
proof -
  have b: "code_body (map (\<lambda>i. 7 * i) [0 ..< 16]) = ''AHQX6DLT29GPW5CK''"
    "filter (\<lambda>c. \<not> is_space c \<and> c \<noteq> CHR ''-'') ''ahqx 6dlt 29gp-w5ck'' = map lower_char ''AHQX6DLT29GPW5CK''"
    by code_simp+
  show ?thesis using code_roundtrip [of "map (\<lambda>i. 7 * i) [0 ..< 16]", unfolded b(1)] b(2) by simp
qed

section \<open>Redemption counts\<close>

definition uses :: "uuid \<Rightarrow> db \<Rightarrow> nat" where
  "uses cid s = length (filter (\<lambda>r. rd_code_id r = cid) (redemptions s))"

definition redeem_key :: "uuid \<Rightarrow> uuid \<Rightarrow> string" where
  "redeem_key cid u = ''redeem-'' @ cid @ ''-'' @ u"

definition code_ok :: "db \<Rightarrow> credit_code \<Rightarrow> bool" where
  "code_ok s c \<longleftrightarrow> 0 < c_credit_value c \<and> c_current_uses c = int (uses (c_id c) s) \<and>
     (0 < c_max_uses_total c \<longrightarrow> c_current_uses c \<le> c_max_uses_total c)"

text \<open>
  The counter of a code is the number of its redemptions and never passes its limit; every redemption
  is of a known code.
\<close>

definition codes_ok :: "db \<Rightarrow> bool" where
  "codes_ok s \<longleftrightarrow> distinct (map c_id (codes s)) \<and> distinct (map c_code_normalized (codes s)) \<and>
     (\<forall>c \<in> set (codes s). code_ok s c) \<and>
     (\<forall>r \<in> set (redemptions s). rd_code_id r \<in> set (map c_id (codes s)))"

lemma redeem_Inr:
  assumes "redeem g now u raw s = (Inr r, s')"
  obtains code w where "find (redeemable now (normalize raw)) (codes s) = Some code"
    "int (used_by (c_id code) u s) < c_max_uses_per_user code" "wallet_of u s = Some w"
    "\<not> key_used (Some (redeem_key (c_id code) u)) s"
    "r = \<lparr>re_creditAddedSatang = c_credit_value code, re_newBalanceSatang = w_balance w + c_credit_value code\<rparr>"
    "wallets s' = wallets (wallet_credit (w_id w) (w_balance w + c_credit_value code) (c_credit_value code) s)"
    "txs s' = txs s @ [redeem_row g code w u (normalize raw) s]"
    "redemptions s' = redemptions s @ [\<lparr>rd_id = g (length (redemptions s)), rd_code_id = c_id code, rd_user_id = u,
       rd_transaction_id = g (length (txs s)), rd_credit_added = c_credit_value code\<rparr>]"
    "\<exists>P. codes s' = upd_where P (\<lambda>c. c\<lparr>c_status := CodeExhausted\<rparr>)
       (upd_where (redeemable now (normalize raw)) (\<lambda>c. c\<lparr>c_current_uses := c_current_uses c + 1\<rparr>) (codes s))"
    "tunnels s' = tunnels s" "blocks s' = blocks s" "ips s' = ips s" "pools s' = pools s" "gateways s' = gateways s"
    "calls s' = calls s"
proof -
  let ?norm = "normalize raw"
  from assms obtain code w s1 where f: "find (redeemable now ?norm) (codes s) = Some code"
      "int (used_by (c_id code) u s) < c_max_uses_per_user code" "wallet_of u s = Some w"
    and ins: "insert_tx (redeem_row g code w u ?norm s)
       (wallet_credit (w_id w) (w_balance w + c_credit_value code) (c_credit_value code)
         (set_codes (redeemable now ?norm) (\<lambda>c. c\<lparr>c_current_uses := c_current_uses c + 1\<rparr>) s)) = Inr s1"
    and r: "r = \<lparr>re_creditAddedSatang = c_credit_value code, re_newBalanceSatang = w_balance w + c_credit_value code\<rparr>"
    and s': "s' = notify u ''wallet.topup'' SevInfo
         [(''addedSatang'', JNum (c_credit_value code)), (''balanceAfter'', JNum (w_balance w + c_credit_value code))]
       (audit now ActUser (Some u) ''code.redeem'' (Some ''credit_code'') (Some (c_id code)) []
       ((if c_max_uses_total code > 0 \<and> int (used_by (c_id code) u s) + 1 \<ge> c_max_uses_total code
         then set_codes (\<lambda>c. c_id c = c_id code \<and> c_current_uses c \<ge> c_max_uses_total c) (\<lambda>c. c\<lparr>c_status := CodeExhausted\<rparr>)
         else id)
         (s1\<lparr>redemptions := redemptions s1 @ [\<lparr>rd_id = g (length (redemptions s1)), rd_code_id = c_id code, rd_user_id = u,
              rd_transaction_id = g (length (txs s)), rd_credit_added = c_credit_value code\<rparr>],
            batches := upd_where (\<lambda>b. cb_id b = c_batch_id code) (\<lambda>b. b\<lparr>cb_redeemed_count := cb_redeemed_count b + 1,
              cb_total_credit_redeemed := cb_total_credit_redeemed b + c_credit_value code\<rparr>) (batches s1)\<rparr>)))"
    unfolding redeem_def by (clarsimp simp only: flow redeem_tx_def sum.inject prod.inject not_le)
  from ins have key: "\<not> key_used (Some (redeem_key (c_id code) u)) s"
    and s1: "s1 = (wallet_credit (w_id w) (w_balance w + c_credit_value code) (c_credit_value code)
         (set_codes (redeemable now ?norm) (\<lambda>c. c\<lparr>c_current_uses := c_current_uses c + 1\<rparr>) s))
         \<lparr>txs := txs s @ [redeem_row g code w u ?norm s]\<rparr>"
    by (auto simp: insert_tx_def redeem_row_def redeem_key_def key_used_def set_codes_def wallet_credit_def split: if_splits)
  have no: "upd_where (\<lambda>_. False) f xs = xs" for f and xs :: "credit_code list" by (simp add: upd_where_none)
  let ?P = "\<lambda>c. c_max_uses_total code > 0 \<and> int (used_by (c_id code) u s) + 1 \<ge> c_max_uses_total code \<and>
    c_id c = c_id code \<and> c_current_uses c \<ge> c_max_uses_total c"
  have c: "codes s' = upd_where ?P (\<lambda>c. c\<lparr>c_status := CodeExhausted\<rparr>)
       (upd_where (redeemable now ?norm) (\<lambda>c. c\<lparr>c_current_uses := c_current_uses c + 1\<rparr>) (codes s))"
    by (auto simp: s' s1 set_codes_def stmt_defs no)
  then have e: "\<exists>P. codes s' = upd_where P (\<lambda>c. c\<lparr>c_status := CodeExhausted\<rparr>)
       (upd_where (redeemable now ?norm) (\<lambda>c. c\<lparr>c_current_uses := c_current_uses c + 1\<rparr>) (codes s))" by blast
  show ?thesis
    by (rule that [OF f key r _ _ _ e]) (simp_all add: s' s1 set_codes_def stmt_defs)
qed

lemma redeem_fail: "fst (redeem g now u raw s) = Inl e \<Longrightarrow> snd (redeem g now u raw s) = s"
  by (auto simp: redeem_def seq_def attempt_def sql_begin_def split: sum.splits prod.splits)

text \<open>Only the counter and the status of a code change, and the counter only of the redeemed one.\<close>

lemma redeemed_codes:
  assumes "codes_ok s" "find (redeemable now norm) (codes s) = Some code"
    and c': "codes s' = upd_where P (\<lambda>c. c\<lparr>c_status := CodeExhausted\<rparr>)
       (upd_where (redeemable now norm) (\<lambda>c. c\<lparr>c_current_uses := c_current_uses c + 1\<rparr>) (codes s))"
  shows "map c_id (codes s') = map c_id (codes s)" "map c_code_normalized (codes s') = map c_code_normalized (codes s)"
    "c' \<in> set (codes s') \<Longrightarrow> \<exists>c \<in> set (codes s). c_id c' = c_id c \<and> c_code_normalized c' = c_code_normalized c \<and> c_credit_value c' = c_credit_value c \<and>
       c_max_uses_total c' = c_max_uses_total c \<and>
       (if c_id c = c_id code then c = code \<and> c_current_uses c' = c_current_uses c + 1 else c_current_uses c' = c_current_uses c)"
proof -
  show "map c_id (codes s') = map c_id (codes s)" "map c_code_normalized (codes s') = map c_code_normalized (codes s)"
    unfolding c' by (simp_all add: map_upd_where_same)
  from find_SomeD [OF assms(2)] have code: "redeemable now norm code" "code \<in> set (codes s)" by auto
  have only: "redeemable now norm c \<longleftrightarrow> c_id c = c_id code" "c_id c = c_id code \<Longrightarrow> c = code" if "c \<in> set (codes s)" for c
    using that code assms(1) by (auto simp: codes_ok_def distinct_map redeemable_def dest: inj_onD)
  assume "c' \<in> set (codes s')"
  then obtain c where c: "c \<in> set (codes s)" and "c_id c' = c_id c \<and> c_code_normalized c' = c_code_normalized c \<and> c_credit_value c' = c_credit_value c \<and>
      c_max_uses_total c' = c_max_uses_total c \<and>
      c_current_uses c' = c_current_uses (if redeemable now norm c then c\<lparr>c_current_uses := c_current_uses c + 1\<rparr> else c)"
    unfolding c' by (auto simp: in_set_upd_where)
  then show "\<exists>c \<in> set (codes s). c_id c' = c_id c \<and> c_code_normalized c' = c_code_normalized c \<and> c_credit_value c' = c_credit_value c \<and>
       c_max_uses_total c' = c_max_uses_total c \<and>
       (if c_id c = c_id code then c = code \<and> c_current_uses c' = c_current_uses c + 1 else c_current_uses c' = c_current_uses c)"
    using only [OF c] by (intro bexI [OF _ c]) auto
qed

lemma redeem_codes_ok:
  assumes ok: "codes_ok s" and run: "redeem g now u raw s = (Inr r, s')"
  shows "codes_ok s'"
proof (rule redeem_Inr [OF run])
  fix code w
  assume f: "find (redeemable now (normalize raw)) (codes s) = Some code"
    and rd: "redemptions s' = redemptions s @ [\<lparr>rd_id = g (length (redemptions s)), rd_code_id = c_id code, rd_user_id = u,
       rd_transaction_id = g (length (txs s)), rd_credit_added = c_credit_value code\<rparr>]"
    and "\<exists>P. codes s' = upd_where P (\<lambda>c. c\<lparr>c_status := CodeExhausted\<rparr>)
       (upd_where (redeemable now (normalize raw)) (\<lambda>c. c\<lparr>c_current_uses := c_current_uses c + 1\<rparr>) (codes s))"
  then obtain P where cs: "codes s' = upd_where P (\<lambda>c. c\<lparr>c_status := CodeExhausted\<rparr>)
       (upd_where (redeemable now (normalize raw)) (\<lambda>c. c\<lparr>c_current_uses := c_current_uses c + 1\<rparr>) (codes s))" by blast
  note rc = redeemed_codes [OF ok f cs]
  from find_SomeD [OF f] have code: "redeemable now (normalize raw) code" "code \<in> set (codes s)" by auto
  have uses: "uses cid s' = uses cid s + (if cid = c_id code then 1 else 0)" for cid
    by (simp add: uses_def rd)
  have "code_ok s' c'" if "c' \<in> set (codes s')" for c'
  proof -
    from rc(3) [OF that] obtain c where c: "c \<in> set (codes s)" "c_id c' = c_id c" "c_credit_value c' = c_credit_value c"
      "c_max_uses_total c' = c_max_uses_total c"
      "if c_id c = c_id code then c = code \<and> c_current_uses c' = c_current_uses c + 1 else c_current_uses c' = c_current_uses c" by blast
    have "code_ok s c" using ok c(1) by (simp add: codes_ok_def)
    with c code(1) show ?thesis
      by (auto simp: code_ok_def uses redeemable_def split: if_splits)
  qed
  then show "codes_ok s'"
    using ok code(2) rc(1,2) by (auto simp: codes_ok_def rd)
qed

lemma redeem_ledger_ok:
  assumes ok: "ledger_ok s" "codes_ok s" and run: "redeem g now u raw s = (Inr r, s')"
  shows "ledger_ok s'"
proof (rule redeem_Inr [OF run])
  fix code w
  assume f: "find (redeemable now (normalize raw)) (codes s) = Some code" and w: "wallet_of u s = Some w"
    and k: "\<not> key_used (Some (redeem_key (c_id code) u)) s"
    and ws: "wallets s' = wallets (wallet_credit (w_id w) (w_balance w + c_credit_value code) (c_credit_value code) s)"
    and tx: "txs s' = txs s @ [redeem_row g code w u (normalize raw) s]"
  have "0 \<le> c_credit_value code"
    using ok(2) find_SomeD [OF f] by (force simp: codes_ok_def code_ok_def)
  then show "ledger_ok s'"
    using k by (intro ledger_credit [OF ok(1) conjunct1 [OF wallet_of_Some [OF w]] _ _ _ _ _ ws tx])
      (simp_all add: redeem_row_def redeem_key_def)
qed

interpretation redeem_op: keeps "\<lambda>s. ledger_ok s \<and> codes_ok s" "\<lambda>_ _. True" "\<lambda>(u, raw). redeem g now u raw" for g now
proof unfold_locales
  fix s and x :: "uuid \<times> string"
  assume ok: "ledger_ok s \<and> codes_ok s"
  obtain u raw where x: "x = (u, raw)" by (cases x)
  have "ledger_ok (snd (redeem g now u raw s)) \<and> codes_ok (snd (redeem g now u raw s))"
  proof (cases rule: op_cases [of "redeem g now u raw s"])
    case (Fail e)
    with ok show ?thesis by (simp add: redeem_fail)
  next
    case (Ok r)
    with ok redeem_ledger_ok redeem_codes_ok show ?thesis by blast
  qed
  then show "ledger_ok (snd ((case x of (u, raw) \<Rightarrow> redeem g now u raw) s)) \<and>
      codes_ok (snd ((case x of (u, raw) \<Rightarrow> redeem g now u raw) s))" by (simp add: x)
qed

interpretation redeem_iso: keeps tenancy_ok "\<lambda>_ _. True" "\<lambda>(u, raw). redeem g now u raw" for g now
proof unfold_locales
  fix s and x :: "uuid \<times> string"
  assume ok: "tenancy_ok s"
  obtain u raw where x: "x = (u, raw)" by (cases x)
  have "tenancy_ok (snd (redeem g now u raw s))"
  proof (cases rule: op_cases [of "redeem g now u raw s"])
    case (Fail e)
    with ok show ?thesis by (simp add: redeem_fail)
  next
    case (Ok r)
    from redeem_Inr [OF Ok] ok show ?thesis by (metis tenancy_congs)
  qed
  then show "tenancy_ok (snd ((case x of (u, raw) \<Rightarrow> redeem g now u raw) s))" by (simp add: x)
qed

text \<open>
  C11. A redemption credits the value of one valid code to one wallet: the code was active, unexpired
  and below its limit; the wallet of the customer grows by exactly its value, through one ledger row;
  the code has one more use and no other code has; the ledger and the counters stay consistent, so a
  code is never used more often than its limit allows.
\<close>

theorem redeem_correct:
  assumes run: "redeem g now u raw s = (Inr r, s')" and ok: "ledger_ok s" "codes_ok s"
  shows "\<exists>c w. c \<in> set (codes s) \<and> redeemable now (normalize raw) c \<and> wallet_of u s = Some w \<and>
     re_creditAddedSatang r = c_credit_value c \<and> re_newBalanceSatang r = w_balance w + c_credit_value c \<and>
     map_option w_balance (wallet_of u s') = Some (re_newBalanceSatang r) \<and>
     (\<forall>v. v \<noteq> u \<longrightarrow> wallet_of v s' = wallet_of v s) \<and>
     (\<exists>x. txs s' = txs s @ [x] \<and> x_wallet_id x = w_id w \<and> x_amount x = c_credit_value c) \<and>
     (\<forall>d. uses d s' = uses d s + (if d = c_id c then 1 else 0)) \<and> ledger_ok s' \<and> codes_ok s'"
proof (rule redeem_Inr [OF run])
  fix code w
  assume f: "find (redeemable now (normalize raw)) (codes s) = Some code" and w: "wallet_of u s = Some w"
    and r: "r = \<lparr>re_creditAddedSatang = c_credit_value code, re_newBalanceSatang = w_balance w + c_credit_value code\<rparr>"
    and ws: "wallets s' = wallets (wallet_credit (w_id w) (w_balance w + c_credit_value code) (c_credit_value code) s)"
    and tx: "txs s' = txs s @ [redeem_row g code w u (normalize raw) s]"
    and rd: "redemptions s' = redemptions s @ [\<lparr>rd_id = g (length (redemptions s)), rd_code_id = c_id code, rd_user_id = u,
       rd_transaction_id = g (length (txs s)), rd_credit_added = c_credit_value code\<rparr>]"
  have wu: "w \<in> set (wallets s)" "w_user_id w = u" using wallet_of_Some [OF w] by auto
  have sel: "w_id v = w_id w \<longleftrightarrow> w_user_id v = u" if "v \<in> set (wallets s)" for v
    using that wu ok(1) by (auto simp: ledger_ok_def distinct_map dest: inj_onD)
  let ?f = "\<lambda>v. v\<lparr>w_balance := w_balance w + c_credit_value code, w_lifetime_topup := w_lifetime_topup v + c_credit_value code,
    w_version := w_version v + 1\<rparr>"
  have ws': "wallets s' = upd_where (\<lambda>v. w_user_id v = u) ?f (wallets s)"
    unfolding ws wallet_credit_def by (auto simp: upd_where_def sel)
  have "wallet_of u s' = Some (?f w)"
    using w wu(2) by (simp add: wallet_of_def ws' find_upd_where)
  moreover have "wallet_of v s' = wallet_of v s" if "v \<noteq> u" for v
    unfolding wallet_of_def ws' by (rule find_upd_other) (use that in auto)
  ultimately show ?thesis
    using find_SomeD [OF f] w redeem_ledger_ok [OF ok run] redeem_codes_ok [OF ok(2) run]
    by (intro exI [of _ code] exI [of _ w]) (auto simp: r tx rd uses_def redeem_row_def)
qed

definition code_db :: db where
  "code_db = demo_db\<lparr>codes := [\<lparr>c_id = ''c1'', c_batch_id = ''cb1'', c_code = ''AAAA-BBBB'', c_code_normalized = ''AAAABBBB'',
     c_credit_value = 5000, c_max_uses_total = 3, c_max_uses_per_user = 2, c_current_uses = 0, c_expires_at = None,
     c_status = CodeActive\<rparr>]\<rparr>"

lemma demo_codes: "codes_ok code_db" "ledger_ok code_db" "codes_ok demo_db"
  by code_simp+

lemma demo_redeem: "redeem demo_gen T0 ''u2'' ''aaaa bbbb'' code_db =
    (Inr \<lparr>re_creditAddedSatang = 5000, re_newBalanceSatang = 5010\<rparr>, snd (redeem demo_gen T0 ''u2'' ''aaaa bbbb'' code_db))"
  by (rule pair_fst) code_simp

theorem redeem_correct_witness:
  "codes_ok (snd (redeem demo_gen T0 ''u2'' ''aaaa bbbb'' code_db)) \<and>
   map_option w_balance (wallet_of ''u2'' (snd (redeem demo_gen T0 ''u2'' ''aaaa bbbb'' code_db))) = Some 5010"
  using redeem_correct [OF demo_redeem demo_codes(2,1)] by auto

section \<open>Batches\<close>

definition drawn :: "(nat \<Rightarrow> nat list) \<Rightarrow> nat \<Rightarrow> string" where
  "drawn rnd i = normalize (generateCodeString (rnd i))"

lemma draw_codes_Some:
  assumes "draw_codes rnd cnt i cs = Some res" "distinct (map normalize cs)" "length cs \<le> cnt"
  shows "length res = cnt \<and> distinct (map normalize res)"
  using assms
proof (induction rule: draw_codes.raw_induct [rotated, consumes 1])
  case (1 draw rnd cnt i cs res)
  show ?case
  proof (cases "cnt \<le> length cs")
    case True
    with 1 show ?thesis by auto
  next
    case False
    with 1 show ?thesis by (auto simp: Let_def split: if_splits)
  qed
qed

lemma draw_codes_ends:
  assumes "distinct (map normalize cs)" "cnt \<le> card (set (map normalize cs) \<union> drawn rnd ` {i ..< i + k})"
  shows "\<exists>res. draw_codes rnd cnt i cs = Some res"
  using assms
proof (induction k arbitrary: i cs)
  case 0
  then have "cnt \<le> length cs" using distinct_card [of "map normalize cs"] by simp
  then show ?case by (simp add: draw_codes.simps)
next
  case (Suc k)
  have iv: "{i ..< i + Suc k} = insert i {Suc i ..< Suc i + k}" by auto
  show ?case
  proof (cases "cnt \<le> length cs")
    case False
    show ?thesis
    proof (cases "drawn rnd i \<in> set (map normalize cs)")
      case True
      then have "set (map normalize cs) \<union> drawn rnd ` {i ..< i + Suc k} = set (map normalize cs) \<union> drawn rnd ` {Suc i ..< Suc i + k}"
        unfolding iv by auto
      with Suc.IH [of cs "Suc i"] Suc.prems False True show ?thesis
        by (subst draw_codes.simps) (simp add: drawn_def)
    next
      case new: False
      let ?cs = "cs @ [generateCodeString (rnd i)]"
      have "set (map normalize cs) \<union> drawn rnd ` {i ..< i + Suc k} = set (map normalize ?cs) \<union> drawn rnd ` {Suc i ..< Suc i + k}"
        unfolding iv by (auto simp: drawn_def)
      with Suc.IH [of ?cs "Suc i"] Suc.prems False new show ?thesis
        by (subst draw_codes.simps) (simp add: drawn_def)
    qed
  qed (simp add: draw_codes.simps)
qed

definition fresh_codes :: "uuid_gen \<Rightarrow> db \<Rightarrow> bool" where
  "fresh_codes g s \<longleftrightarrow> inj g \<and> (\<forall>i \<ge> length (codes s). g i \<notin> set (map c_id (codes s)))"

lemma insert_codes_Inr:
  "insert_codes g inp bid cs s = Inr s' \<Longrightarrow>
     s' = s\<lparr>codes := codes s @ map (\<lambda>(c, i). new_code g inp bid c (length (codes s) + i)) (zip cs [0 ..< length cs])\<rparr> \<and>
     (\<forall>c \<in> set cs. normalize c \<notin> set (map c_code_normalized (codes s)))"
proof (induction cs arbitrary: s)
  case (Cons c cs)
  let ?s1 = "s\<lparr>codes := codes s @ [new_code g inp bid c (length (codes s))]\<rparr>"
  from Cons.prems have r: "insert_codes g inp bid cs ?s1 = Inr s'" "normalize c \<notin> set (map c_code_normalized (codes s))"
    by (auto split: if_splits)
  have z: "zip (c # cs) [0 ..< length (c # cs)] = (c, 0) # map (\<lambda>(d, i). (d, Suc i)) (zip cs [0 ..< length cs])"
    by (simp only: length_Cons upt_conv_Cons [OF zero_less_Suc] zip_Cons_Cons zip_map2 [symmetric] map_Suc_upt)
  from Cons.IH [OF r(1)] r(2) show ?case
    unfolding z by (auto simp: comp_def case_prod_unfold)
qed simp

lemma createBatch_fail: "createBatch g rnd now adm inp s = Some (Inl e, s') \<Longrightarrow> s' = s"
  by (auto simp: createBatch_def sql_begin_def split: option.splits if_splits sum.splits)

lemma createBatch_Inr:
  assumes "createBatch g rnd now adm inp s = Some (Inr (bid, cs), s')"
  shows "0 < cbi_valueSatang inp \<and> int (length cs) = cbi_count inp \<and> distinct (map normalize cs) \<and>
    codes s' = codes s @ map (\<lambda>(c, i). new_code g inp bid c (length (codes s) + i)) (zip cs [0 ..< length cs]) \<and>
    (\<forall>c \<in> set cs. normalize c \<notin> set (map c_code_normalized (codes s))) \<and>
    wallets s' = wallets s \<and> txs s' = txs s \<and> redemptions s' = redemptions s \<and>
    tunnels s' = tunnels s \<and> blocks s' = blocks s \<and> ips s' = ips s"
proof -
  from assms have v: "0 < cbi_valueSatang inp" "0 < cbi_count inp"
    and d: "draw_codes rnd (nat (cbi_count inp)) 0 [] = Some cs"
    and tx: "createBatch_tx g now adm inp cs s = Inr ((bid, cs), s')"
    by (auto simp: createBatch_def sql_begin_def createBatch_tx_def Let_def flow split: option.splits if_splits sum.splits)
  from draw_codes_Some [OF d] v have "int (length cs) = cbi_count inp" "distinct (map normalize cs)" by auto
  moreover from tx obtain s1 s2 where "insert_codes g inp bid cs s1 = Inr s2" "codes s1 = codes s" "codes s' = codes s2"
    "wallets s1 = wallets s" "wallets s' = wallets s2" "txs s1 = txs s" "txs s' = txs s2"
    "redemptions s1 = redemptions s" "redemptions s' = redemptions s2" "tunnels s1 = tunnels s" "tunnels s' = tunnels s2"
    "blocks s1 = blocks s" "blocks s' = blocks s2" "ips s1 = ips s" "ips s' = ips s2"
    by (auto simp: createBatch_tx_def Let_def flow audit_def)
  ultimately show ?thesis using insert_codes_Inr [of g inp bid cs s1 s2] v(1) by simp
qed

lemma codes_ok_append:
  assumes ok: "codes_ok s" and cs: "codes s' = codes s @ new" and fr: "redemptions s' = redemptions s"
    and ids: "distinct (map c_id new)" "set (map c_id new) \<inter> set (map c_id (codes s)) = {}"
    and norms: "distinct (map c_code_normalized new)"
      "set (map c_code_normalized new) \<inter> set (map c_code_normalized (codes s)) = {}"
    and new: "\<And>c. c \<in> set new \<Longrightarrow> 0 < c_credit_value c \<and> c_current_uses c = 0"
  shows "codes_ok s'"
proof -
  have u: "uses d s' = uses d s" for d by (simp add: uses_def fr)
  have rds: "rd_code_id x \<in> set (map c_id (codes s))" if "x \<in> set (redemptions s)" for x
    using ok that by (simp add: codes_ok_def)
  have "uses (c_id c) s' = 0" if c: "c \<in> set new" for c
  proof -
    from c ids(2) have "c_id c \<notin> set (map c_id (codes s))" by auto
    then have "rd_code_id x \<noteq> c_id c" if "x \<in> set (redemptions s')" for x using rds [of x] that fr by auto
    then show ?thesis by (simp add: uses_def filter_empty_conv)
  qed
  then have "code_ok s' c" if "c \<in> set new" for c using new [OF that] that by (simp add: code_ok_def)
  moreover have "code_ok s' c" if "c \<in> set (codes s)" for c
  proof -
    have "code_ok s c" using that ok by (simp add: codes_ok_def)
    then show ?thesis by (auto simp: code_ok_def u)
  qed
  moreover have "distinct (map c_id (codes s'))" "distinct (map c_code_normalized (codes s'))"
    using ok ids norms by (simp_all add: codes_ok_def cs Int_commute)
  ultimately show ?thesis using ok by (auto simp: codes_ok_def cs fr)
qed

lemma createBatch_codes_ok:
  assumes run: "createBatch g rnd now adm inp s = Some (Inr (bid, cs), s')" and ok: "codes_ok s" and new: "fresh_codes g s"
  shows "codes_ok s'"
proof -
  let ?new = "map (\<lambda>(c, i). new_code g inp bid c (length (codes s) + i)) (zip cs [0 ..< length cs])"
  note r = createBatch_Inr [OF run]
  have ids: "map c_id ?new = map (\<lambda>i. g (length (codes s) + i)) [0 ..< length cs]"
    and norms: "map c_code_normalized ?new = map normalize cs"
    by (rule nth_equalityI; simp add: new_code_def)+
  have fresh: "g (length (codes s) + i) \<notin> set (map c_id (codes s))" for i using new by (simp add: fresh_codes_def)
  from r have c': "codes s' = codes s @ ?new" "redemptions s' = redemptions s" by blast+
  show ?thesis
  proof (rule codes_ok_append [OF ok c'])
    show "distinct (map c_id ?new)"
      unfolding ids using new by (auto simp: fresh_codes_def distinct_map intro!: inj_onI dest: injD)
    show "set (map c_id ?new) \<inter> set (map c_id (codes s)) = {}" unfolding ids using fresh by force
    show "distinct (map c_code_normalized ?new)" "set (map c_code_normalized ?new) \<inter> set (map c_code_normalized (codes s)) = {}"
      unfolding norms using r by auto
  qed (use r in \<open>auto simp: new_code_def\<close>)
qed


lemma demo_gen_inj: "inj demo_gen"
  by (auto simp: demo_gen_def inj_def show_nat_inject)

definition demo_batch :: CreateBatchInput where
  "demo_batch = \<lparr>cbi_name = ''promo'', cbi_valueSatang = 5000, cbi_count = 2, cbi_maxUsesPerUser = None,
     cbi_maxUsesTotal = None, cbi_expiresAt = None\<rparr>"


end
