(* ===== verification/Admin.thy ===== *)
theory Admin
  imports BillingTick ChangeTier AdminGrant GreDrift
begin

text \<open>
  \<^verbatim>\<open>apps/api/src/admin/admin.controller.ts\<close>: what an administrator changes. Credit and prices,
  the pools of public addresses and their sale plans, and the pushes to the gateways that follow. A
  JavaScript number that has to be an integer is an \<open>int option\<close>, \<open>None\<close> when it is not one. The
  descriptive columns of a pool (AS number, provider, notes) are left out. \<^verbatim>\<open>::cidr\<close> accepts the
  canonical spelling of a network without host bits and raises otherwise. The queries before a
  transaction and the transaction are one step: administrators do not race each other.
\<close>

section \<open>Credit\<close>

definition adminId :: "string \<Rightarrow> db \<Rightarrow> uuid option" where
  "adminId email s = map_option au_id (find (\<lambda>a. lower (au_email a) = lower email \<and> au_active a) (admins s))"

definition wallet_adjust :: "uuid \<Rightarrow> satang \<Rightarrow> int \<Rightarrow> db \<Rightarrow> db" where
  "wallet_adjust wid newBalance amount s = s\<lparr>wallets := upd_where (\<lambda>w. w_id w = wid)
     (\<lambda>w. w\<lparr>w_balance := newBalance, w_lifetime_topup := w_lifetime_topup w + max amount 0,
            w_lifetime_spent := w_lifetime_spent w + max (- amount) 0, w_version := w_version w + 1\<rparr>) (wallets s)\<rparr>"

definition adjust_row :: "uuid_gen \<Rightarrow> uuid \<Rightarrow> wallet \<Rightarrow> int \<Rightarrow> string \<Rightarrow> uuid \<Rightarrow> db \<Rightarrow> credit_tx" where
  "adjust_row g admin w amount reason userId s = \<lparr>x_id = g (length (txs s)), x_user_id = userId, x_wallet_id = w_id w,
     x_type = TxAdminAdjustment, x_amount = amount, x_balance_after = w_balance w + amount,
     x_description = reason, x_code_redemption_id = None, x_admin_user_id = Some admin, x_idempotency_key = None\<rparr>"

definition adjustCredit_tx :: "uuid_gen \<Rightarrow> ms \<Rightarrow> string \<Rightarrow> uuid \<Rightarrow> int \<Rightarrow> string \<Rightarrow> db \<Rightarrow> error + (satang \<times> db)" where
  "adjustCredit_tx g now email userId amount reason s =
     andThen (or_throw (BadRequestException ''admin not found'') (adminId email s)) (\<lambda>admin.
     andThen (or_throw (BadRequestException ''wallet not found'') (wallet_of userId s)) (\<lambda>w.
     andThen (throw_if (w_balance w + amount < 0) (BadRequestException ''would make balance negative'')) (\<lambda>_.
     andThen (insert_tx (adjust_row g admin w amount reason userId s)
       (wallet_adjust (w_id w) (w_balance w + amount) amount s)) (\<lambda>s1.
     Inr (w_balance w + amount, audit now ActAdmin (Some admin) ''wallet.adjust'' (Some ''user'') (Some userId)
       [(''amountSatang'', JNum amount), (''reason'', JStr reason)] s1)))))"

definition adjustCredit :: "uuid_gen \<Rightarrow> ms \<Rightarrow> string \<Rightarrow> uuid \<Rightarrow> int \<Rightarrow> string \<Rightarrow> satang op" where
  "adjustCredit g now email userId amount reason s =
     seq (attempt (throw_if (amount = 0 \<or> reason = []) (BadRequestException ''amountSatang (non-zero) and reason required''))) (\<lambda>_.
     sql_begin (adjustCredit_tx g now email userId amount reason)) s"

section \<open>Prices of sold items\<close>

definition is_hex :: "char \<Rightarrow> bool" where
  "is_hex c \<longleftrightarrow> digit_val c \<noteq> None \<or> lower_char c \<in> set ''abcdef''"

text \<open>
  The text form of the type \<^verbatim>\<open>uuid\<close>: eight groups of four hexadecimal digits, a hyphen allowed after
  each group but the last, all in braces or not.
\<close>

fun uuid_groups :: "nat \<Rightarrow> string \<Rightarrow> bool" where
  "uuid_groups 0 s \<longleftrightarrow> s = []"
| "uuid_groups (Suc n) s \<longleftrightarrow> 4 \<le> length s \<and> (\<forall>c \<in> set (take 4 s). is_hex c) \<and>
     (let rest = drop 4 s in uuid_groups n (if n > 0 \<and> rest \<noteq> [] \<and> hd rest = CHR ''-'' then tl rest else rest))"

definition uuid_text :: "string \<Rightarrow> bool" where
  "uuid_text s \<longleftrightarrow> uuid_groups 8 (if 2 \<le> length s \<and> hd s = CHR ''{'' \<and> last s = CHR ''}'' then butlast (tl s) else s)"

datatype price_kind = KindTunnel | KindIp | KindBlock

fun price_kind_name :: "price_kind \<Rightarrow> string" where
  "price_kind_name KindTunnel = ''tunnel''"
| "price_kind_name KindIp = ''ip''"
| "price_kind_name KindBlock = ''block''"

definition json_num :: "int option \<Rightarrow> json" where
  "json_num x = (case x of None \<Rightarrow> JNull | Some n \<Rightarrow> JNum n)"

definition uuid_cast :: "string \<Rightarrow> error + unit" where
  "uuid_cast s = throw_if (\<not> uuid_text s) (JsError (''invalid input syntax for type uuid: '' @ s))"

text \<open>The price the item had, its owner, and the state with the new price.\<close>

definition priced_item :: "price_kind \<Rightarrow> string \<Rightarrow> satang \<Rightarrow> db \<Rightarrow> error + ((satang option \<times> uuid option) \<times> db)" where
  "priced_item kind ref price s =
     (case kind of
        KindTunnel \<Rightarrow>
          andThen (uuid_cast ref) (\<lambda>_.
          andThen (or_throw (BadRequestException ''tunnel not found'')
            (find (\<lambda>t. t_id t = ref \<and> t_deleted_at t = None) (tunnels s))) (\<lambda>t.
          Inr ((t_price_satang t, Some (t_user_id t)),
            set_tunnels (\<lambda>v. t_id v = ref) (\<lambda>v. v\<lparr>t_price_satang := Some price\<rparr>) s)))
      | KindIp \<Rightarrow>
          andThen (throw_if (\<not> is_ip4 ref) (JsError (''invalid input syntax for type inet: '' @ ref))) (\<lambda>_.
          andThen (or_throw (BadRequestException ''ip not found'') (find (\<lambda>p. i_ip_address p = ref) (ips s))) (\<lambda>p.
          andThen (throw_if (i_block_id p \<noteq> None)
            (BadRequestException ''IP belongs to a block - edit the block price instead'')) (\<lambda>_.
          Inr ((i_price_satang p, i_user_id p),
            set_ips (\<lambda>v. i_ip_address v = ref) (\<lambda>v. v\<lparr>i_price_satang := Some price\<rparr>) s))))
      | KindBlock \<Rightarrow>
          andThen (uuid_cast ref) (\<lambda>_.
          andThen (or_throw (BadRequestException ''block not found'') (find (\<lambda>b. b_id b = ref) (blocks s))) (\<lambda>b.
          Inr ((Some (b_price_satang b), Some (b_user_id b)),
            set_blocks (\<lambda>v. b_id v = ref) (\<lambda>v. v\<lparr>b_price_satang := price\<rparr>) s))))"

text \<open>The audit row stores \<^verbatim>\<open>ref\<close> in the column \<^verbatim>\<open>resource_id\<close>, of type \<^verbatim>\<open>uuid\<close>.\<close>

definition overridePrice_tx :: "ms \<Rightarrow> string \<Rightarrow> price_kind \<Rightarrow> string \<Rightarrow> satang \<Rightarrow> db \<Rightarrow> error + (unit \<times> db)" where
  "overridePrice_tx now email kind ref price s =
     andThen (priced_item kind ref price s) (\<lambda>((before, userId), s1).
     andThen (uuid_cast ref) (\<lambda>_.
     Inr ((), audit now ActAdmin (adminId email s) ''pricing.item_override'' (Some (price_kind_name kind)) (Some ref)
       [(''userId'', json_opt userId), (''from'', json_num before), (''to'', JNum price)] s1)))"

definition overridePrice :: "ms \<Rightarrow> string \<Rightarrow> price_kind \<Rightarrow> string \<Rightarrow> int option \<Rightarrow> unit op" where
  "overridePrice now email kind ref priceSatang s =
     seq (attempt (case priceSatang of
         None \<Rightarrow> Inl (BadRequestException ''priceSatang must be a non-negative integer'')
       | Some p \<Rightarrow> if p < 0 then Inl (BadRequestException ''priceSatang must be a non-negative integer'') else Inr p)) (\<lambda>price.
     sql_begin (overridePrice_tx now email kind ref price)) s"

section \<open>Catalogue prices with an audit of the differences\<close>

definition speed_changes :: "db \<Rightarrow> db \<Rightarrow> json list" where
  "speed_changes before after = List.map_filter (\<lambda>a.
     case find (\<lambda>x. ps_tier x = ps_tier a) (pricing_speed before) of
       None \<Rightarrow> None
     | Some b \<Rightarrow> if ps_price b = ps_price a then None
         else Some (JObj [(''tier'', JStr (ps_tier a)), (''from'', JNum (ps_price b)), (''to'', JNum (ps_price a))]))
     (sort_key ps_sort_order (pricing_speed after))"

definition ip_changes :: "db \<Rightarrow> db \<Rightarrow> json list" where
  "ip_changes before after = List.map_filter (\<lambda>a.
     case find (\<lambda>x. pi_block_size x = pi_block_size a) (pricing_ip before) of
       None \<Rightarrow> None
     | Some b \<Rightarrow> if pi_price b = pi_price a then None
         else Some (JObj [(''blockSize'', JNum (pi_block_size a)), (''from'', JNum (pi_price b)), (''to'', JNum (pi_price a))]))
     (sort_key pi_block_size (pricing_ip after))"

definition allow_changes :: "db \<Rightarrow> db \<Rightarrow> json list" where
  "allow_changes before after = List.map_filter (\<lambda>a.
     case find (\<lambda>x. pa_protocol x = pa_protocol a \<and> pa_tier x = pa_tier a) (pricing_allow before) of
       None \<Rightarrow> None
     | Some b \<Rightarrow> if pa_enabled b = pa_enabled a then None
         else Some (JObj [(''protocol'', JStr (pa_protocol a)), (''tier'', JStr (pa_tier a)),
           (''from'', JBool (pa_enabled b)), (''to'', JBool (pa_enabled a))]))
     (pricing_allow after)"

definition admin_savePricing :: "ms \<Rightarrow> string \<Rightarrow> SavePricingInput \<Rightarrow> unit op" where
  "admin_savePricing now email inp s =
     (case savePricing inp s of
        (Inl e, s1) \<Rightarrow> (Inl (BadRequestException (case e of JsError m \<Rightarrow> m | _ \<Rightarrow> [])), s1)
      | (Inr _, s1) \<Rightarrow>
          let sp = speed_changes s s1; ip = ip_changes s s1; al = allow_changes s s1
          in (Inr (), if sp \<noteq> [] \<or> ip \<noteq> [] \<or> al \<noteq> []
                then audit now ActAdmin (adminId email s1) ''pricing.update'' (Some ''pricing'') None
                  [(''speed'', JArr sp), (''ip'', JArr ip), (''allow'', JArr al)] s1
                else s1))"

section \<open>Pools\<close>

definition VALID_BLOCK_SIZES :: "int list" where
  "VALID_BLOCK_SIZES = [2, 4, 8, 16, 32, 64, 128, 256]"

text \<open>The pushes are best effort: a failing gateway is logged and the loop goes on.\<close>

definition pushBlackholeAllGateways :: "agent \<Rightarrow> cidr \<Rightarrow> bool \<Rightarrow> unit op" where
  "pushBlackholeAllGateways agent c add s =
     (Inr (), snd (for_try (\<lambda>gw. request agent (SetBlackhole (g_id gw) c add))
       (filter (\<lambda>g. g_status g = GwActive \<and> \<not> g_bgp_enabled g) (gateways s)) s))"

definition CIDR_RE :: "string \<Rightarrow> bool" where
  "CIDR_RE c \<longleftrightarrow> (case split_on CHR ''/'' c of
       [q, m] \<Rightarrow> IPV4_RE q \<and> 1 \<le> length m \<and> length m \<le> 2 \<and> (\<forall>d \<in> set m. digit_val d \<noteq> None)
     | _ \<Rightarrow> False)"

definition cidr_cast :: "cidr \<Rightarrow> error + unit" where
  "cidr_cast c = throw_if (let q = parseCidr c in
       case prefix q of
         None \<Rightarrow> True
       | Some p \<Rightarrow> \<not> (0 \<le> p \<and> p \<le> 32 \<and> net q mod 2 ^ nat (32 - p) = 0 \<and> c = mk_cidr (net q) p))
     (JsError (''invalid input syntax for type cidr: '' @ c))"

definition parse_mode :: "string \<Rightarrow> sale_mode option" where
  "parse_mode m = (if m = ''single'' then Some SaleSingle else if m = ''block'' then Some SaleBlock else None)"

definition sale_mode_name :: "sale_mode \<Rightarrow> string" where
  "sale_mode_name m = (case m of SaleSingle \<Rightarrow> ''single'' | SaleBlock \<Rightarrow> ''block'')"

text \<open>\<open>Some None\<close> would be a block plan without a size; a single plan has none.\<close>

definition plan_size :: "sale_mode \<Rightarrow> int option \<Rightarrow> int option" where
  "plan_size m n = (if m = SaleBlock then Some (case n of None \<Rightarrow> 0 | Some k \<Rightarrow> k) else None)"

definition size_missing :: "int option \<Rightarrow> bool" where
  "size_missing bs \<longleftrightarrow> (case bs of None \<Rightarrow> False | Some k \<Rightarrow> k \<notin> set VALID_BLOCK_SIZES)"

definition size_above :: "int \<Rightarrow> int option \<Rightarrow> bool" where
  "size_above n bs \<longleftrightarrow> (case bs of None \<Rightarrow> False | Some k \<Rightarrow> n < k)"

definition admin_any :: "string \<Rightarrow> db \<Rightarrow> uuid option" where
  "admin_any email s = map_option au_id (find (\<lambda>a. lower (au_email a) = lower email) (admins s))"

record AddPoolResult =
  apr_id :: uuid
  apr_block :: cidr
  apr_size :: int
  apr_planId :: uuid
  apr_frrSync :: FrrSyncResult

definition addPool_tx :: "uuid_gen \<Rightarrow> cidr \<Rightarrow> sale_mode \<Rightarrow> int option \<Rightarrow> db \<Rightarrow> error + ((uuid \<times> uuid) \<times> db)" where
  "addPool_tx g block mode bs s =
     andThen (cidr_cast block) (\<lambda>_.
     let poolId = g (length (pools s)); planId = g (length (plans s)) in
     Inr ((poolId, planId),
       s\<lparr>pools := pools s @ [\<lparr>p_id = poolId, p_block = block, p_available_count = size (parseCidr block), p_allocated_count = 0\<rparr>],
         plans := plans s @ [\<lparr>pl_id = planId, pl_pool_id = poolId, pl_cidr = block, pl_sale_mode = mode, pl_block_size = bs\<rparr>]\<rparr>))"

definition addPool_checks :: "cidr \<Rightarrow> string \<Rightarrow> int option \<Rightarrow> db \<Rightarrow> error + sale_mode" where
  "addPool_checks block saleMode blockSize s =
     andThen (throw_if (\<not> CIDR_RE block) (BadRequestException ''block (e.g. 203.169.2.0/24) required'')) (\<lambda>_.
     andThen (throw_if (\<not> isAligned block) (BadRequestException (block @ '' is not aligned (host bits are not zero)''))) (\<lambda>_.
     andThen (throw_if (case prefix (parseCidr block) of None \<Rightarrow> False | Some p \<Rightarrow> p < 16 \<or> p > 32)
       (BadRequestException ''prefix must be /16 .. /32'')) (\<lambda>_.
     andThen (or_throw (BadRequestException ''defaultSaleMode must be single or block'') (parse_mode saleMode)) (\<lambda>mode.
     andThen (throw_if (size_missing (plan_size mode blockSize)) (BadRequestException ''defaultBlockSize required'')) (\<lambda>_.
     andThen (throw_if (size_above (size (parseCidr block)) (plan_size mode blockSize))
       (BadRequestException (''pool '' @ block @ '' smaller than chosen block size''))) (\<lambda>_.
     andThen (throw_if (\<exists>e \<in> set (pools s). cidrsOverlap (p_block e) block)
       (BadRequestException (block @ '' overlaps existing pool''))) (\<lambda>_.
     Inr mode)))))))"

text \<open>After a change of the pools: the blackhole route of the pool, then the prefix lists.\<close>

definition push_pool :: "agent \<Rightarrow> cidr \<Rightarrow> bool \<Rightarrow> FrrSyncResult op" where
  "push_pool agent block add =
     seq (pushBlackholeAllGateways agent block add) (\<lambda>_ s.
     case syncPoolPrefixListsAllGateways agent s of (r, s1) \<Rightarrow> (Inr r, s1))"

definition addPool :: "agent \<Rightarrow> uuid_gen \<Rightarrow> ms \<Rightarrow> string \<Rightarrow> cidr \<Rightarrow> string \<Rightarrow> int option \<Rightarrow> AddPoolResult op" where
  "addPool agent g now email block saleMode blockSize s =
     seq (attempt (addPool_checks block saleMode blockSize s)) (\<lambda>mode.
     seq (sql_begin (addPool_tx g block mode (plan_size mode blockSize))) (\<lambda>(poolId, planId).
     seq (do_stmt (audit now ActAdmin (admin_any email s) ''pool.add'' (Some ''ip_pool'') (Some poolId)
       [(''block'', JStr block), (''defaultSaleMode'', JStr saleMode), (''defaultBlockSize'', json_num (plan_size mode blockSize))])) (\<lambda>_.
     seq (push_pool agent block True) (\<lambda>sync.
     done_with \<lparr>apr_id = poolId, apr_block = block, apr_size = size (parseCidr block), apr_planId = planId, apr_frrSync = sync\<rparr>)))) s"

record DeletePreflight =
  dp_canDelete :: bool
  dp_allocatedIps :: nat
  dp_activeBlocks :: nat
  dp_salePlansWillCascade :: nat

definition pool_allocated :: "uuid \<Rightarrow> db \<Rightarrow> nat" where
  "pool_allocated pid s = length (filter (\<lambda>p. i_pool_id p = pid \<and> i_status p = IpAllocated) (ips s))"

definition pool_active_blocks :: "uuid \<Rightarrow> db \<Rightarrow> nat" where
  "pool_active_blocks pid s = length (filter (\<lambda>b. b_pool_id b = pid \<and> b_status b = BlkActive) (blocks s))"

definition deletePoolPreflight :: "uuid \<Rightarrow> db \<Rightarrow> error + DeletePreflight" where
  "deletePoolPreflight pid s =
     andThen (or_throw (BadRequestException ''pool not found'') (find (\<lambda>p. p_id p = pid) (pools s))) (\<lambda>_.
     Inr \<lparr>dp_canDelete = \<not> (pool_allocated pid s > 0 \<or> pool_active_blocks pid s > 0),
       dp_allocatedIps = pool_allocated pid s, dp_activeBlocks = pool_active_blocks pid s,
       dp_salePlansWillCascade = length (filter (\<lambda>p. pl_pool_id p = pid) (plans s))\<rparr>)"

record DeletePoolResult =
  dr_cascadedPlans :: nat
  dr_removedIpRows :: nat
  dr_removedBlockRows :: nat

text \<open>Sale plans cascade; a row of another pool that still names a deleted block violates its foreign key.\<close>

definition deletePool_tx :: "uuid \<Rightarrow> db \<Rightarrow> error + (DeletePoolResult \<times> db)" where
  "deletePool_tx pid s =
     (let kept = filter (\<lambda>p. i_pool_id p \<noteq> pid) (ips s);
          gone = filter (\<lambda>b. b_pool_id b = pid) (blocks s)
      in andThen (throw_if (\<exists>p \<in> set kept. \<exists>b \<in> set gone. i_block_id p = Some (b_id b))
           (JsError ''update or delete on table ip_blocks violates foreign key constraint'')) (\<lambda>_.
         Inr (\<lparr>dr_cascadedPlans = length (filter (\<lambda>p. pl_pool_id p = pid) (plans s)),
               dr_removedIpRows = length (filter (\<lambda>p. i_pool_id p = pid) (ips s)),
               dr_removedBlockRows = length gone\<rparr>,
           s\<lparr>ips := kept, blocks := filter (\<lambda>b. b_pool_id b \<noteq> pid) (blocks s),
             plans := filter (\<lambda>p. pl_pool_id p \<noteq> pid) (plans s), pools := filter (\<lambda>p. p_id p \<noteq> pid) (pools s)\<rparr>)))"

definition deletePool :: "agent \<Rightarrow> ms \<Rightarrow> string \<Rightarrow> uuid \<Rightarrow> DeletePoolResult op" where
  "deletePool agent now email pid s =
     seq (attempt (or_throw (BadRequestException ''pool not found'') (find (\<lambda>p. p_id p = pid) (pools s)))) (\<lambda>pool.
     seq (attempt (throw_if (pool_allocated pid s > 0) (BadRequestException (''cannot delete pool '' @ p_block pool)))) (\<lambda>_.
     seq (attempt (throw_if (pool_active_blocks pid s > 0) (BadRequestException (''cannot delete pool '' @ p_block pool)))) (\<lambda>_.
     seq (sql_begin (deletePool_tx pid)) (\<lambda>result.
     seq (do_stmt (audit now ActAdmin (admin_any email s) ''pool.delete'' (Some ''ip_pool'') (Some pid)
       [(''block'', JStr (p_block pool)), (''cascadedPlans'', JNum (int (dr_cascadedPlans result))),
        (''removedIpRows'', JNum (int (dr_removedIpRows result))), (''removedBlockRows'', JNum (int (dr_removedBlockRows result)))])) (\<lambda>_.
     seq (push_pool agent (p_block pool) False) (\<lambda>_.
     done_with result)))))) s"

section \<open>Sale plans\<close>

definition addSalePlan_checks :: "uuid \<Rightarrow> cidr \<Rightarrow> string \<Rightarrow> int option \<Rightarrow> db \<Rightarrow> error + sale_mode" where
  "addSalePlan_checks pid c saleMode blockSize s =
     andThen (throw_if (c = [] \<or> saleMode = []) (BadRequestException ''cidr and saleMode required'')) (\<lambda>_.
     andThen (or_throw (BadRequestException ''saleMode must be single or block'') (parse_mode saleMode)) (\<lambda>mode.
     andThen (throw_if (size_missing (plan_size mode blockSize)) (BadRequestException ''blockSize required'')) (\<lambda>_.
     andThen (throw_if (\<not> CIDR_RE c) (BadRequestException ''invalid cidr format'')) (\<lambda>_.
     andThen (throw_if (\<not> isAligned c) (BadRequestException (c @ '' is not an aligned CIDR (host bits are not zero)''))) (\<lambda>_.
     andThen (or_throw (BadRequestException ''pool not found'') (find (\<lambda>p. p_id p = pid) (pools s))) (\<lambda>pool.
     andThen (throw_if (\<not> cidrContains (p_block pool) c) (BadRequestException (c @ '' is not within pool '' @ p_block pool))) (\<lambda>_.
     andThen (throw_if (size_above (size (parseCidr c)) (plan_size mode blockSize))
       (BadRequestException (''plan range '' @ c @ '' smaller than block size''))) (\<lambda>_.
     andThen (throw_if (\<exists>e \<in> set (plans s). pl_pool_id e = pid \<and> cidrsOverlap (pl_cidr e) c)
       (BadRequestException (c @ '' overlaps existing plan''))) (\<lambda>_.
     andThen (cidr_cast c) (\<lambda>_.
     Inr mode))))))))))"

definition addSalePlan :: "uuid_gen \<Rightarrow> ms \<Rightarrow> string \<Rightarrow> uuid \<Rightarrow> cidr \<Rightarrow> string \<Rightarrow> int option \<Rightarrow> uuid op" where
  "addSalePlan g now email pid c saleMode blockSize s =
     seq (attempt (addSalePlan_checks pid c saleMode blockSize s)) (\<lambda>mode.
     seq (do_stmt (\<lambda>s. s\<lparr>plans := plans s @ [\<lparr>pl_id = g (length (plans s)), pl_pool_id = pid, pl_cidr = c,
       pl_sale_mode = mode, pl_block_size = plan_size mode blockSize\<rparr>]\<rparr>)) (\<lambda>_.
     seq (do_stmt (audit now ActAdmin (admin_any email s) ''sale_plan.add'' (Some ''ip_pool'') (Some pid)
       [(''cidr'', JStr c), (''saleMode'', JStr saleMode), (''blockSize'', json_num (plan_size mode blockSize))])) (\<lambda>_.
     done_with (g (length (plans s)))))) s"

definition plan_used :: "uuid \<Rightarrow> cidr \<Rightarrow> db \<Rightarrow> nat" where
  "plan_used pid c s = length (filter (\<lambda>p. i_pool_id p = pid \<and> strictly_inside c (i_ip_address p) \<and> i_status p = IpAllocated) (ips s))"

definition deleteSalePlan :: "ms \<Rightarrow> string \<Rightarrow> uuid \<Rightarrow> uuid \<Rightarrow> unit op" where
  "deleteSalePlan now email pid planId s =
     seq (attempt (or_throw (BadRequestException ''plan not found in this pool'')
       (find (\<lambda>p. pl_id p = planId \<and> pl_pool_id p = pid) (plans s)))) (\<lambda>plan.
     seq (attempt (throw_if (plan_used pid (pl_cidr plan) s > 0) (BadRequestException (''cannot delete plan '' @ pl_cidr plan)))) (\<lambda>_.
     seq (do_stmt (\<lambda>s. s\<lparr>plans := filter (\<lambda>p. pl_id p \<noteq> planId) (plans s)\<rparr>)) (\<lambda>_.
     do_stmt (audit now ActAdmin (admin_any email s) ''sale_plan.delete'' (Some ''ip_pool'') (Some pid)
       [(''cidr'', JStr (pl_cidr plan))])))) s"

section \<open>Sale mode of single addresses\<close>

definition sale_row :: "ip4 \<Rightarrow> uuid \<Rightarrow> string \<Rightarrow> public_ip" where
  "sale_row ip pid mode = \<lparr>i_ip_address = ip, i_pool_id = pid, i_user_id = None, i_tunnel_id = None, i_block_id = None,
     i_status = IpAvailable, i_price_satang = None, i_next_billing_at = None, i_last_billed_at = None,
     i_suspended_at = None, i_delete_after = None, i_allocated_at = None, i_released_at = None, i_sale_mode = mode\<rparr>"

definition set_mode :: "string \<Rightarrow> ip4 \<Rightarrow> uuid \<Rightarrow> db \<Rightarrow> db" where
  "set_mode mode ip pid s =
     (if find (\<lambda>p. i_ip_address p = ip) (ips s) = None then s\<lparr>ips := ips s @ [sale_row ip pid mode]\<rparr>
      else set_ips (\<lambda>p. i_ip_address p = ip \<and> i_status p = IpAvailable) (\<lambda>p. p\<lparr>i_sale_mode := mode\<rparr>) s)"

fun sale_mode_loop :: "string \<Rightarrow> ip4 list \<Rightarrow> nat \<Rightarrow> nat op" where
  "sale_mode_loop mode [] touched s = (Inr touched, s)"
| "sale_mode_loop mode (ip # rest) touched s =
     (if \<not> is_ip4 ip then (Inl (JsError (''invalid input syntax for type inet: '' @ ip)), s)
      else case find (pool_covers ip) (pools s) of
        None \<Rightarrow> sale_mode_loop mode rest touched s
      | Some pool \<Rightarrow> sale_mode_loop mode rest (Suc touched) (set_mode mode ip (p_id pool) s))"

definition setSaleMode :: "ip4 list \<Rightarrow> string \<Rightarrow> nat op" where
  "setSaleMode ipList mode s =
     seq (attempt (throw_if (mode \<notin> {''single'', ''block_only'', ''reserved''}) (BadRequestException ''ips[] and mode required''))) (\<lambda>_.
     sale_mode_loop mode ipList 0) s"

section \<open>The view of a pool\<close>

record ip_view =
  iv_ip :: ip4
  iv_status :: ip_status
  iv_sale_mode :: string
  iv_block_id :: "uuid option"
  iv_plan_mode :: "sale_mode option"
  iv_plan_block_size :: "int option"

definition plan_for :: "plan_row list \<Rightarrow> int \<Rightarrow> plan_row option" where
  "plan_for ps n = find (\<lambda>p. net (parseCidr (pl_cidr p)) \<le> n \<and> n < net (parseCidr (pl_cidr p)) + size (parseCidr (pl_cidr p))) ps"

definition view_row :: "public_ip list \<Rightarrow> plan_row list \<Rightarrow> int \<Rightarrow> ip_view" where
  "view_row rows ps n =
     (let ip = intToIp4 n; plan = plan_for ps n;
          row = (case find (\<lambda>p. i_ip_address p = ip) (rev rows) of
            Some p \<Rightarrow> (i_status p, i_sale_mode p, i_block_id p) | None \<Rightarrow> (IpAvailable, ''single'', None))
      in \<lparr>iv_ip = ip, iv_status = fst row, iv_sale_mode = fst (snd row), iv_block_id = snd (snd row),
          iv_plan_mode = map_option pl_sale_mode plan, iv_plan_block_size = Option.bind plan pl_block_size\<rparr>)"

definition allIps :: "uuid \<Rightarrow> db \<Rightarrow> error + (ip_view list \<times> bool \<times> int)" where
  "allIps pid s =
     andThen (or_throw (BadRequestException ''pool not found'') (find (\<lambda>p. p_id p = pid) (pools s))) (\<lambda>pool.
     let q = parseCidr (p_block pool);
         rows = filter (\<lambda>p. i_pool_id p = pid) (ips s);
         ps = filter (\<lambda>p. pl_pool_id p = pid) (plans s)
     in Inr (map (\<lambda>off. view_row rows ps (net q + int off)) [0 ..< nat (min (size q) 4096)], size q > 4096, size q))"

section \<open>Credit and prices\<close>

lemma adjustCredit_Inr:
  assumes "adjustCredit g now email u amount reason s = (Inr b, s')"
  obtains admin w where "amount \<noteq> 0" "reason \<noteq> []" "adminId email s = Some admin" "wallet_of u s = Some w"
    "b = w_balance w + amount" "0 \<le> w_balance w + amount"
    "wallets s' = wallets (wallet_adjust (w_id w) (w_balance w + amount) amount s)"
    "txs s' = txs s @ [adjust_row g admin w amount reason u s]"
    "\<exists>ws xs as. s' = s\<lparr>wallets := ws, txs := xs, audits := as\<rparr>"
proof -
  from assms obtain admin w s1 where 1: "amount \<noteq> 0" "reason \<noteq> []" "adminId email s = Some admin" "wallet_of u s = Some w"
    "b = w_balance w + amount" "0 \<le> w_balance w + amount"
    and ins: "insert_tx (adjust_row g admin w amount reason u s) (wallet_adjust (w_id w) (w_balance w + amount) amount s) = Inr s1"
    and s': "s' = audit now ActAdmin (Some admin) ''wallet.adjust'' (Some ''user'') (Some u)
       [(''amountSatang'', JNum amount), (''reason'', JStr reason)] s1"
    unfolding adjustCredit_def adjustCredit_tx_def
    by (clarsimp simp only: flow prod.inject sum.inject not_less de_Morgan_disj) auto
  have s1: "s1 = (wallet_adjust (w_id w) (w_balance w + amount) amount s)\<lparr>txs := txs s @ [adjust_row g admin w amount reason u s]\<rparr>"
    using ins by (auto simp: insert_tx_def adjust_row_def key_used_def wallet_adjust_def)
  show thesis
    by (rule that [OF 1]) (auto simp: s' s1 audit_def wallet_adjust_def)
qed

lemma adjustCredit_fail: "fst (adjustCredit g now email u amount reason s) = Inl e \<Longrightarrow> snd (adjustCredit g now email u amount reason s) = s"
  by (auto simp: adjustCredit_def seq_def attempt_def throw_if_def sql_begin_def split: sum.splits prod.splits)

lemma adjustCredit_ledger_ok:
  assumes ok: "ledger_ok s"
  shows "ledger_ok (snd (adjustCredit g now email u amount reason s))"
proof (cases rule: op_cases [of "adjustCredit g now email u amount reason s"])
  case (Fail e)
  with ok adjustCredit_fail [of g now email u amount reason s e] show ?thesis by simp
next
  case (Ok b)
  then show ?thesis
  proof (rule adjustCredit_Inr)
    fix admin w
    let ?s' = "snd (adjustCredit g now email u amount reason s)"
    assume w: "wallet_of u s = Some w" and b: "0 \<le> w_balance w + amount"
      and ws: "wallets ?s' = wallets (wallet_adjust (w_id w) (w_balance w + amount) amount s)"
      and tx: "txs ?s' = txs s @ [adjust_row g admin w amount reason u s]"
    show "ledger_ok ?s'"
      by (rule ledger_post [OF ok, of w, where s' = ?s', OF _ _ _ _ _ ws [unfolded wallet_adjust_def, simplified] tx])
        (use wallet_of_Some [OF w] b in \<open>auto simp: adjust_row_def key_used_def\<close>)
  qed
qed

interpretation adjust_op: money_op "\<lambda>(g, now, email, u, amount, reason). adjustCredit g now email u amount reason"
  by unfold_locales (auto simp: adjustCredit_ledger_ok)

definition can_adjust :: "string \<Rightarrow> uuid \<Rightarrow> int \<Rightarrow> string \<Rightarrow> db \<Rightarrow> bool" where
  "can_adjust email u amount reason s \<longleftrightarrow> amount \<noteq> 0 \<and> reason \<noteq> [] \<and> adminId email s \<noteq> None \<and>
     (case wallet_of u s of None \<Rightarrow> False | Some w \<Rightarrow> 0 \<le> w_balance w + amount)"

lemma adjustCredit_iff: "isl (fst (adjustCredit g now email u amount reason s)) \<longleftrightarrow> \<not> can_adjust email u amount reason s"
  by (auto simp: adjustCredit_def adjustCredit_tx_def flow_defs sql_begin_def insert_tx_def key_used_def adjust_row_def
      can_adjust_def throw_if_def or_throw_def andThen_def split: option.splits)

text \<open>
  C17. A credit adjustment needs an active administrator, a wallet, an amount that is not zero, a reason
  and a balance that stays non-negative. Exactly then it succeeds: the balance changes by the amount,
  one ledger row records it with the administrator, and the wallet of every other customer is as it
  was. Otherwise nothing changes.
\<close>

theorem adjustCredit_correct:
  assumes ok: "ledger_ok s" and run: "adjustCredit g now email u amount reason s = (r, s')"
  shows "case r of Inl e \<Rightarrow> \<not> can_adjust email u amount reason s \<and> s' = s
     | Inr b \<Rightarrow> can_adjust email u amount reason s \<and> ledger_ok s' \<and>
         map_option w_balance (wallet_of u s') = Some b \<and> map_option w_balance (wallet_of u s) = Some (b - amount) \<and>
         (\<forall>v. v \<noteq> u \<longrightarrow> wallet_of v s' = wallet_of v s) \<and>
         (\<exists>x. txs s' = txs s @ [x] \<and> x_amount x = amount \<and> x_admin_user_id x = adminId email s)"
proof (cases r)
  case (Inl e)
  with run adjustCredit_iff [of g now email u amount reason s] adjustCredit_fail [of g now email u amount reason s e]
  show ?thesis by simp
next
  case (Inr b)
  have c: "can_adjust email u amount reason s" and l: "ledger_ok s'"
    using adjustCredit_iff [of g now email u amount reason s] adjustCredit_ledger_ok [OF ok, of g now email u amount reason]
    by (auto simp: run Inr)
  from run [unfolded Inr] show ?thesis
  proof (rule adjustCredit_Inr)
    fix admin w
    assume a: "adminId email s = Some admin" and w: "wallet_of u s = Some w" and b: "b = w_balance w + amount"
      and ws: "wallets s' = wallets (wallet_adjust (w_id w) (w_balance w + amount) amount s)"
      and tx: "txs s' = txs s @ [adjust_row g admin w amount reason u s]"
    have wu: "w \<in> set (wallets s)" "w_user_id w = u" using wallet_of_Some [OF w] by auto
    have sel: "w_id v = w_id w \<longleftrightarrow> w_user_id v = u" if "v \<in> set (wallets s)" for v
      using that wu ok by (auto simp: ledger_ok_def distinct_map dest: inj_onD)
    let ?f = "\<lambda>v. v\<lparr>w_balance := w_balance w + amount, w_lifetime_topup := w_lifetime_topup v + max amount 0,
      w_lifetime_spent := w_lifetime_spent v + max (- amount) 0, w_version := w_version v + 1\<rparr>"
    have ws': "wallets s' = upd_where (\<lambda>v. w_user_id v = u) ?f (wallets s)"
      unfolding ws wallet_adjust_def by (auto simp: upd_where_def sel)
    have "map_option w_balance (wallet_of u s') = Some b"
      using w wu(2) b by (simp add: wallet_of_def ws' find_upd_where)
    moreover have "wallet_of v s' = wallet_of v s" if "v \<noteq> u" for v
      using that by (cases "find (\<lambda>w. w_user_id w = v) (wallets s)") (auto simp: wallet_of_def ws' find_upd_where dest: find_SomeD)
    ultimately show ?thesis using Inr c l w a b tx by (simp add: adjust_row_def)
  qed
qed

theorem adjustCredit_correct_witness:
  "\<exists>s'. adjustCredit demo_gen T0 ''Root@example.org'' ''u1'' (- 30000) ''refund'' demo_db = (Inr 70000, s') \<and> ledger_ok s' \<and>
     map_option w_balance (wallet_of ''u1'' s') = Some 70000"
proof -
  have f: "fst (adjustCredit demo_gen T0 ''Root@example.org'' ''u1'' (- 30000) ''refund'' demo_db) = Inr 70000" by code_simp
  from adjustCredit_correct [OF demo_ledger_ok pair_fst [OF f]] pair_fst [OF f] show ?thesis by auto
qed

lemma overridePrice_fail:
  "fst (overridePrice now email kind ref p s) = Inl e \<Longrightarrow> snd (overridePrice now email kind ref p s) = s"
  by (auto simp: overridePrice_def seq_def attempt_def sql_begin_def split: sum.splits prod.splits option.splits if_splits)

lemma overridePrice_Inr:
  assumes "overridePrice now email kind ref price s = (Inr x, s')"
  obtains p before u s1 where "price = Some p" "0 \<le> p" "uuid_text ref" "priced_item kind ref p s = Inr ((before, u), s1)"
    "s' = audit now ActAdmin (adminId email s) ''pricing.item_override'' (Some (price_kind_name kind)) (Some ref)
       [(''userId'', json_opt u), (''from'', json_num before), (''to'', JNum p)] s1"
  using assms unfolding overridePrice_def overridePrice_tx_def uuid_cast_def
  by (clarsimp simp only: flow split_paired_Ex prod.case) (auto split: option.splits if_splits)

text \<open>The text of an address is never the text of a \<^verbatim>\<open>uuid\<close>.\<close>

lemma is_hex_dot: "\<not> is_hex CHR ''.''"
  by code_simp

lemma uuid_groups_chars: "uuid_groups n s \<Longrightarrow> c \<in> set s \<Longrightarrow> is_hex c \<or> c = CHR ''-''"
proof (induction n s rule: uuid_groups.induct)
  case (2 n s)
  let ?rest = "drop 4 s"
  let ?r = "if n > 0 \<and> ?rest \<noteq> [] \<and> hd ?rest = CHR ''-'' then tl ?rest else ?rest"
  have g: "\<forall>c \<in> set (take 4 s). is_hex c" "uuid_groups n ?r" using "2.prems"(1) by (auto simp: Let_def)
  have "set s = set (take 4 s) \<union> set ?rest" by (metis append_take_drop_id set_append)
  moreover have "set ?rest \<subseteq> insert (CHR ''-'') (set ?r)" by (cases ?rest) auto
  ultimately have "c \<in> set (take 4 s) \<or> c = CHR ''-'' \<or> c \<in> set ?r" using "2.prems"(2) by blast
  then show ?case using g "2.IH" [OF refl] by blast
qed simp

lemma uuid_text_no_dot: "uuid_text s \<Longrightarrow> CHR ''.'' \<notin> set s"
proof
  assume u: "uuid_text s" and d: "CHR ''.'' \<in> set s"
  have "\<not> uuid_groups 8 t" if "CHR ''.'' \<in> set t" for t
    using uuid_groups_chars [OF _ that, of 8] is_hex_dot by auto
  moreover have "CHR ''.'' \<in> set (butlast (tl s))" if "hd s = CHR ''{''" "last s = CHR ''}''" "2 \<le> length s"
  proof -
    from that obtain m where "s = CHR ''{'' # m @ [CHR ''}'']"
      by (cases s; cases "tl s" rule: rev_cases) auto
    with d show ?thesis by simp
  qed
  ultimately show False using u d by (auto simp: uuid_text_def split: if_splits)
qed

lemma is_ip4_dot: "is_ip4 ip \<Longrightarrow> CHR ''.'' \<in> set ip"
proof -
  assume "is_ip4 ip"
  moreover have "CHR ''.'' \<in> set (intToIp4 n)" for n by (simp add: intToIp4_def)
  ultimately show ?thesis by (metis is_ip4_def)
qed

text \<open>
  The price of a single address cannot be overridden: the audit row of the override stores the
  address in a column of type \<^verbatim>\<open>uuid\<close>, which the database refuses, so the transaction with the new
  price is rolled back, whatever the address and the price.
\<close>

theorem overridePrice_ip_never:
  "\<exists>e. overridePrice now email KindIp ref price s = (Inl e, s)"
proof (cases rule: op_cases [of "overridePrice now email KindIp ref price s"])
  case (Fail e)
  then show ?thesis using overridePrice_fail [of now email KindIp ref price s e] pair_fst [OF Fail] by auto
next
  case (Ok x)
  then show ?thesis
  proof (rule overridePrice_Inr)
    fix p before u s1
    assume "uuid_text ref" "priced_item KindIp ref p s = Inr ((before, u), s1)"
    then have False using uuid_text_no_dot is_ip4_dot by (auto simp: priced_item_def flow)
    then show ?thesis ..
  qed
qed

lemma overridePrice_tunnel:
  assumes "overridePrice now email KindTunnel k (Some p) s = (Inr x, s')"
  shows "0 \<le> p" "\<exists>it. tunnel_item k s' = Some it \<and> bi_price it = p" "j \<noteq> k \<Longrightarrow> tunnel_item j s' = tunnel_item j s"
    "wallets s' = wallets s" "txs s' = txs s"
proof -
  from assms obtain t where p: "0 \<le> p" and t: "live_tunnel k s = Some t" and
    ts: "tunnels s' = upd_where (\<lambda>v. t_id v = k) (\<lambda>v. v\<lparr>t_price_satang := Some p\<rparr>) (tunnels s)"
    and f: "wallets s' = wallets s" "txs s' = txs s" "pricing_speed s' = pricing_speed s"
    by (elim overridePrice_Inr) (auto simp: priced_item_def flow live_tunnel_def)
  note l = live_tunnel_upd [OF ts, simplified]
  show "0 \<le> p" "wallets s' = wallets s" "txs s' = txs s" by fact+
  show "\<exists>it. tunnel_item k s' = Some it \<and> bi_price it = p"
    using t live_tunnel_Some [OF t] by (simp add: tunnel_item_def l tunnel_price_def)
  have "tunnel_price v s' = tunnel_price v s" for v by (rule tunnel_price_cong) (simp_all add: f(3))
  then show "tunnel_item j s' = tunnel_item j s" if "j \<noteq> k"
    using that by (auto simp: tunnel_item_def l dest: live_tunnel_Some split: option.splits)
qed

text \<open>
  The price an administrator sets is the price of the next charge: after an override of a tunnel
  price no other tunnel and no wallet has changed, and the next charge of the tunnel, whenever it runs,
  either takes exactly that price under the key of the cycle, or suspends the tunnel because the balance
  is lower than that price, or finds the cycle charged already.
\<close>

theorem overridePrice_next_charge:
  assumes run: "overridePrice now email KindTunnel k (Some p) s = (Inr x, s1)"
    and w: "\<And>it. tunnel_item k s1 = Some it \<Longrightarrow> wallet_of (bi_owner it) s = Some w"
  shows "wallets s1 = wallets s \<and> txs s1 = txs s \<and> (\<forall>j. j \<noteq> k \<longrightarrow> tunnel_item j s1 = tunnel_item j s) \<and>
     (\<exists>it out s2. tunnel_item k s1 = Some it \<and> chargeOneTunnel g later k s1 = (Inr out, s2) \<and>
       posted out w p (chargeIdempotencyKey KTunnel k (bi_due it)) s1 s2 \<and>
       (out = Suspended \<longleftrightarrow> w_balance w < p) \<and>
       (out = Charged \<longleftrightarrow> p \<le> w_balance w \<and> \<not> key_used (Some (chargeIdempotencyKey KTunnel k (bi_due it))) s))"
proof -
  note o = overridePrice_tunnel [OF run]
  from o(2) obtain it where it: "tunnel_item k s1 = Some it" "bi_price it = p" by blast
  have w1: "wallet_of (bi_owner it) s1 = Some w" using w [OF it(1)] o(4) by (simp add: wallet_of_def)
  obtain out it' where b: "bill later (w_balance w) (key_used (Some (chargeIdempotencyKey KTunnel k (bi_due it))) s1) it = (out, it')"
    by (cases "bill later (w_balance w) (key_used (Some (chargeIdempotencyKey KTunnel k (bi_due it))) s1) it")
  from tun.refines [OF it(1) w1 b, of g] obtain s2 where c: "chargeOneTunnel g later k s1 = (Inr out, s2)"
    "posted out w p (chargeIdempotencyKey KTunnel k (bi_due it)) s1 s2" by (auto simp: it(2))
  have "(out = Suspended \<longleftrightarrow> w_balance w < p) \<and>
       (out = Charged \<longleftrightarrow> p \<le> w_balance w \<and> \<not> key_used (Some (chargeIdempotencyKey KTunnel k (bi_due it))) s)"
    using b o(5) by (auto simp: bill_def it(2) key_used_def split: if_splits)
  with o(3,4,5) it c show ?thesis by blast
qed

abbreviation demo_uuid :: uuid where
  "demo_uuid \<equiv> ''7f9c24e8-3b12-4fef-91e0-5e3a0c1d2b4a''"

definition uuid_db :: db where
  "uuid_db = demo_db\<lparr>tunnels := [demo_tunnel\<lparr>t_id := demo_uuid\<rparr>]\<rparr>"

theorem overridePrice_next_charge_witness:
  "\<exists>out s2. chargeOneTunnel demo_gen T0 demo_uuid
      (snd (overridePrice T0 ''root@example.org'' KindTunnel demo_uuid (Some 7500) uuid_db)) = (Inr out, s2) \<and> out = Charged \<and>
    length (txs s2) = 3"
proof -
  let ?s1 = "snd (overridePrice T0 ''root@example.org'' KindTunnel demo_uuid (Some 7500) uuid_db)"
  have f: "fst (overridePrice T0 ''root@example.org'' KindTunnel demo_uuid (Some 7500) uuid_db) = Inr ()" by code_simp
  have it: "map_option (\<lambda>it. (bi_owner it, bi_due it)) (tunnel_item demo_uuid ?s1) = Some (''u1'', T0)" by code_simp
  have w: "wallet_of ''u1'' uuid_db = Some demo_wallet" "w_balance demo_wallet = 100000" "length (txs uuid_db) = 2"
    "\<not> key_used (Some (chargeIdempotencyKey KTunnel demo_uuid T0)) uuid_db" by code_simp+
  show ?thesis
    using overridePrice_next_charge [OF pair_fst [OF f], of demo_wallet demo_gen T0] it w
    by (auto dest!: posted_length)
qed

section \<open>The inventory of pools and sale plans\<close>

text \<open>
  Pools are well-formed networks that share no address; every sale plan lies in its pool, the plans of
  a pool share no address; every address row lies in its pool. This implies the inventory condition of
  the purchases.
\<close>

definition plans_fit :: "db \<Rightarrow> bool" where
  "plans_fit s \<longleftrightarrow> distinct (map pl_id (plans s)) \<and>
     (\<forall>c \<in> set (plans s). wf_cidr (pl_cidr c) \<and>
       (\<exists>q \<in> set (pools s). p_id q = pl_pool_id c \<and> addrs (pl_cidr c) \<subseteq> addrs (p_block q))) \<and>
     (\<forall>c \<in> set (plans s). \<forall>d \<in> set (plans s).
       pl_pool_id c = pl_pool_id d \<and> cidrsOverlap (pl_cidr c) (pl_cidr d) \<longrightarrow> c = d)"

definition pools_apart :: "db \<Rightarrow> bool" where
  "pools_apart s \<longleftrightarrow> distinct (map p_id (pools s)) \<and> (\<forall>q \<in> set (pools s). wf_cidr (p_block q)) \<and>
     (\<forall>q \<in> set (pools s). \<forall>r \<in> set (pools s). cidrsOverlap (p_block q) (p_block r) \<longrightarrow> p_id q = p_id r)"

definition rows_fit :: "db \<Rightarrow> bool" where
  "rows_fit s \<longleftrightarrow> (\<forall>p \<in> set (ips s). is_ip4 (i_ip_address p) \<and>
     (\<exists>q \<in> set (pools s). p_id q = i_pool_id p \<and> pool_covers (i_ip_address p) q))"

definition pools_ok :: "db \<Rightarrow> bool" where
  "pools_ok s \<longleftrightarrow> pools_apart s \<and> plans_fit s \<and> rows_fit s"

lemmas pools_defs = pools_ok_def pools_apart_def plans_fit_def rows_fit_def

lemma pools_ok_cong: "pools s' = pools s \<Longrightarrow> plans s' = plans s \<Longrightarrow> ips s' = ips s \<Longrightarrow> pools_ok s' = pools_ok s"
  by (simp add: pools_defs)

lemma pools_ok_stmt [simp]: "pools_ok (audit now a i act rt ri md s) = pools_ok s" "pools_ok (send c s) = pools_ok s"
   "pools_ok (s\<lparr>calls := cs\<rparr>) = pools_ok s"
  by (rule pools_ok_cong; simp)+

lemma pool_covers_unique:
  assumes "pools_apart s" "q \<in> set (pools s)" "r \<in> set (pools s)" "pool_covers ip q" "pool_covers ip r"
  shows "q = r"
proof -
  have "cidrsOverlap (p_block q) (p_block r)"
    using assms by (subst cidrsOverlap_addrs) (auto simp: pools_apart_def pool_covers_iff)
  with assms have "p_id q = p_id r" by (auto simp: pools_apart_def)
  with assms show ?thesis by (auto simp: pools_apart_def intro: distinct_key_eq)
qed

lemma pools_ok_inventory:
  assumes ok: "pools_ok s"
  shows "inventory_ok s"
proof -
  have "wf_plans (p_block q) (pool_plans (p_id q) s) \<and>
       (\<forall>c \<in> set (pool_plans (p_id q) s). addrs (sp_cidr c) \<subseteq> addrs (p_block q)) \<and>
       (\<forall>p \<in> set (ips s). pool_covers (i_ip_address p) q \<longrightarrow> i_pool_id p = p_id q)" if q: "q \<in> set (pools s)" for q
  proof (intro conjI)
    show "wf_plans (p_block q) (pool_plans (p_id q) s)"
      using ok q by (fastforce simp: pools_defs wf_plans_def pool_plans_def)
    have "r = q" if "r \<in> set (pools s)" "p_id r = p_id q" for r
      using ok q that by (auto simp: pools_defs intro: distinct_key_eq)
    then show "\<forall>c \<in> set (pool_plans (p_id q) s). addrs (sp_cidr c) \<subseteq> addrs (p_block q)"
      using ok by (fastforce simp: pools_defs pool_plans_def)
    show "\<forall>p \<in> set (ips s). pool_covers (i_ip_address p) q \<longrightarrow> i_pool_id p = p_id q"
      using ok q pool_covers_unique [of s q] by (fastforce simp: pools_ok_def rows_fit_def)
  qed
  then show ?thesis using ok by (auto simp: inventory_ok_def pools_ok_def rows_fit_def)
qed

text \<open>What the checks of the two forms leave: a well-formed network, unless its length is 0 or 1.\<close>

lemma ip4ToInt_range: "0 \<le> ip4ToInt ip" "ip4ToInt ip < 4294967296"
  by (simp_all add: ip4ToInt_def to_uint32_def)

lemma cidr_cast_wf:
  assumes "cidr_cast c = Inr u" "prefix (parseCidr c) \<noteq> Some 0" "prefix (parseCidr c) \<noteq> Some 1"
  shows "wf_cidr c"
proof -
  obtain p where p: "prefix (parseCidr c) = Some p" "0 \<le> p" "p \<le> 32" "net (parseCidr c) mod 2 ^ nat (32 - p) = 0"
    "c = mk_cidr (net (parseCidr c)) p"
    using assms(1) by (auto simp: cidr_cast_def flow Let_def split: option.splits)
  moreover have "0 \<le> net (parseCidr c)" "net (parseCidr c) < 2 ^ 32"
    by (simp_all add: parseCidr_def Let_def ip4ToInt_range)
  ultimately show ?thesis using assms(2,3) by (auto simp: wf_cidr_def Let_def good_net_def)
qed

lemma send_loop_calls: "\<exists>cs. snd (for_try (\<lambda>x. request agent (f x)) xs s) = s\<lparr>calls := cs\<rparr>"
proof (induction xs arbitrary: s)
  case Nil
  show ?case by (auto intro: exI [of _ "calls s"])
next
  case (Cons x xs)
  have "snd (request agent (f x) s) = s\<lparr>calls := calls s @ [f x]\<rparr>" by (simp add: request_def send_def split: option.splits)
  with Cons [of "snd (request agent (f x) s)"] show ?case by (auto simp: case_prod_beta)
qed

lemma push_loops_calls:
  "\<exists>cs. pushBlackholeAllGateways agent c add s = (Inr (), s\<lparr>calls := cs\<rparr>)"
  "\<exists>cs. snd (syncPoolPrefixListsAllGateways agent s) = s\<lparr>calls := cs\<rparr>"
  using send_loop_calls [of agent "\<lambda>gw. SetBlackhole (g_id gw) c add" "filter (\<lambda>g. g_status g = GwActive \<and> \<not> g_bgp_enabled g) (gateways s)" s]
    send_loop_calls [of agent "\<lambda>gw. SyncFrrPrefixList (g_id gw) (pool_entries s)" "filter (\<lambda>g. g_status g = GwActive \<and> g_bgp_enabled g) (gateways s)" s]
  by (auto simp: pushBlackholeAllGateways_def syncPoolPrefixListsAllGateways_def case_prod_beta)

lemma push_pool_calls: obtains r cs where "push_pool agent c add s = (Inr r, s\<lparr>calls := cs\<rparr>)"
proof -
  obtain cs1 where 1: "pushBlackholeAllGateways agent c add s = (Inr (), s\<lparr>calls := cs1\<rparr>)" using push_loops_calls(1) by blast
  obtain r s2 where 2: "syncPoolPrefixListsAllGateways agent (s\<lparr>calls := cs1\<rparr>) = (r, s2)"
    by (cases "syncPoolPrefixListsAllGateways agent (s\<lparr>calls := cs1\<rparr>)")
  with push_loops_calls(2) [of agent "s\<lparr>calls := cs1\<rparr>"] obtain cs2 where "s2 = s\<lparr>calls := cs2\<rparr>" by auto
  with 1 2 that [of r cs2] show thesis by (simp add: push_pool_def seq_def)
qed

lemma addPool_checks_Inr:
  "addPool_checks block saleMode blockSize s = Inr mode \<longleftrightarrow> CIDR_RE block \<and> isAligned block \<and>
     (\<forall>p. prefix (parseCidr block) = Some p \<longrightarrow> 16 \<le> p \<and> p \<le> 32) \<and> parse_mode saleMode = Some mode \<and>
     \<not> size_missing (plan_size mode blockSize) \<and> \<not> size_above (size (parseCidr block)) (plan_size mode blockSize) \<and>
     (\<forall>e \<in> set (pools s). \<not> cidrsOverlap (p_block e) block)"
  by (auto simp: addPool_checks_def flow split: option.splits)

definition pool_added :: "uuid_gen \<Rightarrow> cidr \<Rightarrow> sale_mode \<Rightarrow> int option \<Rightarrow> db \<Rightarrow> db" where
  "pool_added g block mode bs s =
     s\<lparr>pools := pools s @ [\<lparr>p_id = g (length (pools s)), p_block = block, p_available_count = size (parseCidr block), p_allocated_count = 0\<rparr>],
       plans := plans s @ [\<lparr>pl_id = g (length (plans s)), pl_pool_id = g (length (pools s)), pl_cidr = block, pl_sale_mode = mode,
         pl_block_size = bs\<rparr>]\<rparr>"

lemma addPool_cases:
  obtains (Refused) e where "addPool agent g now email block saleMode blockSize s = (Inl e, s)"
      "\<not> (\<exists>mode. addPool_checks block saleMode blockSize s = Inr mode \<and> cidr_cast block = Inr ())"
  | (Added) mode r as cs where "addPool_checks block saleMode blockSize s = Inr mode" "cidr_cast block = Inr ()"
      "addPool agent g now email block saleMode blockSize s =
        (Inr r, (pool_added g block mode (plan_size mode blockSize) s)\<lparr>audits := as, calls := cs\<rparr>)"
      "apr_id r = g (length (pools s))" "apr_planId r = g (length (plans s))" "apr_size r = size (parseCidr block)"
proof (cases "addPool_checks block saleMode blockSize s")
  case (Inl e)
  then have "addPool agent g now email block saleMode blockSize s = (Inl e, s)" by (simp add: addPool_def seq_def attempt_def)
  with Inl Refused show thesis by simp
next
  case (Inr mode)
  note chk = this
  show thesis
  proof (cases "cidr_cast block")
    case (Inl e)
    then have "addPool agent g now email block saleMode blockSize s = (Inl e, s)"
      by (simp add: addPool_def seq_def attempt_def chk sql_begin_def addPool_tx_def)
    with Inl Refused show thesis by simp
  next
    case (Inr u)
    let ?t = "audit now ActAdmin (admin_any email s) ''pool.add'' (Some ''ip_pool'') (Some (g (length (pools s))))
       [(''block'', JStr block), (''defaultSaleMode'', JStr saleMode), (''defaultBlockSize'', json_num (plan_size mode blockSize))]
       (pool_added g block mode (plan_size mode blockSize) s)"
    obtain sync cs where p: "push_pool agent block True ?t = (Inr sync, ?t\<lparr>calls := cs\<rparr>)" by (rule push_pool_calls)
    have "addPool agent g now email block saleMode blockSize s = (Inr \<lparr>apr_id = g (length (pools s)), apr_block = block,
        apr_size = size (parseCidr block), apr_planId = g (length (plans s)), apr_frrSync = sync\<rparr>, ?t\<lparr>calls := cs\<rparr>)"
      using p by (simp add: addPool_def seq_def attempt_def chk sql_begin_def addPool_tx_def Inr do_stmt_def Let_def
          pool_added_def done_with_def)
    moreover have "?t\<lparr>calls := cs\<rparr> = (pool_added g block mode (plan_size mode blockSize) s)\<lparr>audits := audits ?t, calls := cs\<rparr>"
      by (simp add: audit_def)
    ultimately show thesis using Added [where as = "audits ?t" and cs = cs] chk Inr by simp
  qed
qed

definition fresh_pool :: "uuid_gen \<Rightarrow> db \<Rightarrow> bool" where
  "fresh_pool g s \<longleftrightarrow> g (length (pools s)) \<notin> set (map p_id (pools s)) \<and> g (length (plans s)) \<notin> set (map pl_id (plans s))"

lemma cidrsOverlap_sym: "cidrsOverlap a b = cidrsOverlap b a"
  by (auto simp: cidrsOverlap_def Let_def)

lemma plans_fit_add:
  assumes fit: "plans_fit s" and wf: "wf_cidr (pl_cidr c)" and new: "pl_id c \<notin> set (map pl_id (plans s))"
    and q: "q \<in> set (pools s')" "p_id q = pl_pool_id c" "addrs (pl_cidr c) \<subseteq> addrs (p_block q)"
    and s': "plans s' = plans s @ [c]" "set (pools s) \<subseteq> set (pools s')"
    and apart: "\<And>d. d \<in> set (plans s) \<Longrightarrow> pl_pool_id d = pl_pool_id c \<Longrightarrow> \<not> cidrsOverlap (pl_cidr d) (pl_cidr c)"
  shows "plans_fit s'"
  unfolding plans_fit_def
proof (intro conjI ballI impI)
  show "distinct (map pl_id (plans s'))" using fit new by (simp add: s' plans_fit_def)
  fix d assume d: "d \<in> set (plans s')"
  then show "wf_cidr (pl_cidr d)" using fit wf by (auto simp: s' plans_fit_def)
  show "\<exists>q \<in> set (pools s'). p_id q = pl_pool_id d \<and> addrs (pl_cidr d) \<subseteq> addrs (p_block q)"
  proof (cases "d = c")
    case False
    with d fit have "\<exists>q \<in> set (pools s). p_id q = pl_pool_id d \<and> addrs (pl_cidr d) \<subseteq> addrs (p_block q)"
      by (simp add: s' plans_fit_def)
    with s'(2) show ?thesis by blast
  qed (use q in blast)
next
  fix d e
  assume de: "d \<in> set (plans s')" "e \<in> set (plans s')" and o: "pl_pool_id d = pl_pool_id e \<and> cidrsOverlap (pl_cidr d) (pl_cidr e)"
  consider "d = c" "e = c" | "d = c" "e \<in> set (plans s)" | "d \<in> set (plans s)" "e = c" | "d \<in> set (plans s)" "e \<in> set (plans s)"
    using de by (auto simp: s')
  then show "d = e"
  proof cases
    case 2 then show ?thesis using apart [of e] o cidrsOverlap_sym [of "pl_cidr c"] by simp
  next
    case 3 then show ?thesis using apart [of d] o by simp
  next
    case 4 with fit o show ?thesis unfolding plans_fit_def by blast
  qed simp
qed

lemma addPool_pools_ok:
  assumes ok: "pools_ok s" and fresh: "fresh_pool g s"
  shows "pools_ok (snd (addPool agent g now email block saleMode blockSize s))"
proof (cases rule: addPool_cases [of agent g now email block saleMode blockSize s])
  case (Refused e)
  with ok show ?thesis by simp
next
  case (Added mode r as cs)
  let ?t = "pool_added g block mode (plan_size mode blockSize) s"
  have wf: "wf_cidr block" by (rule cidr_cast_wf [OF Added(2)]) (use Added(1) in \<open>auto simp: addPool_checks_Inr\<close>)
  have new: "pl_pool_id c \<noteq> g (length (pools s))" if "c \<in> set (plans s)" for c
  proof -
    from ok that obtain q where "q \<in> set (pools s)" "p_id q = pl_pool_id c" unfolding pools_ok_def plans_fit_def by blast
    with fresh show ?thesis by (metis fresh_pool_def image_eqI list.set_map)
  qed
  have apart: "\<not> cidrsOverlap (p_block e) block" "\<not> cidrsOverlap block (p_block e)" if "e \<in> set (pools s)" for e
    using Added(1) that cidrsOverlap_sym [of block "p_block e"] by (auto simp: addPool_checks_Inr)
  have "pools_apart ?t"
    using ok fresh wf apart by (auto simp: pools_ok_def pools_apart_def pool_added_def fresh_pool_def)
  moreover have "plans_fit ?t"
    by (rule plans_fit_add [where s = s and q = "\<lparr>p_id = g (length (pools s)), p_block = block, p_available_count = size (parseCidr block), p_allocated_count = 0\<rparr>"])
      (use ok fresh wf new in \<open>auto simp: pools_ok_def pool_added_def fresh_pool_def\<close>)
  moreover have "rows_fit ?t" using ok by (auto simp: pools_ok_def rows_fit_def pool_added_def)
  ultimately have "pools_ok ?t" by (simp add: pools_ok_def)
  then show ?thesis using Added(3) pools_ok_cong [of "?t\<lparr>audits := as, calls := cs\<rparr>" ?t] by simp
qed

lemma addSalePlan_checks_Inr:
  "addSalePlan_checks pid c saleMode blockSize s = Inr mode \<longleftrightarrow> c \<noteq> [] \<and> saleMode \<noteq> [] \<and> parse_mode saleMode = Some mode \<and>
     \<not> size_missing (plan_size mode blockSize) \<and> CIDR_RE c \<and> isAligned c \<and>
     (\<exists>pool. find (\<lambda>p. p_id p = pid) (pools s) = Some pool \<and> cidrContains (p_block pool) c) \<and>
     \<not> size_above (size (parseCidr c)) (plan_size mode blockSize) \<and>
     (\<forall>e \<in> set (plans s). pl_pool_id e = pid \<longrightarrow> \<not> cidrsOverlap (pl_cidr e) c) \<and> cidr_cast c = Inr ()"
  by (auto simp: addSalePlan_checks_def flow)

lemma addSalePlan_cases:
  obtains (Refused) e where "addSalePlan g now email pid c saleMode blockSize s = (Inl e, s)" "addSalePlan_checks pid c saleMode blockSize s = Inl e"
  | (Added) mode as where "addSalePlan_checks pid c saleMode blockSize s = Inr mode"
    "addSalePlan g now email pid c saleMode blockSize s = (Inr (g (length (plans s))),
      s\<lparr>plans := plans s @ [\<lparr>pl_id = g (length (plans s)), pl_pool_id = pid, pl_cidr = c, pl_sale_mode = mode,
       pl_block_size = plan_size mode blockSize\<rparr>], audits := as\<rparr>)"
proof (cases "addSalePlan_checks pid c saleMode blockSize s")
  case (Inl e)
  with Refused show thesis by (simp add: addSalePlan_def seq_def attempt_def)
next
  case (Inr mode)
  with Added show thesis by (simp add: addSalePlan_def flow_defs audit_def)
qed

lemma addSalePlan_pools_ok:
  assumes ok: "pools_ok s" and fresh: "fresh_pool g s"
    and p: "prefix (parseCidr c) \<noteq> Some 0" "prefix (parseCidr c) \<noteq> Some 1"
  shows "pools_ok (snd (addSalePlan g now email pid c saleMode blockSize s))"
proof (cases rule: addSalePlan_cases [of g now email pid c saleMode blockSize s])
  case (Refused e)
  with ok show ?thesis by simp
next
  case (Added mode as)
  let ?c = "\<lparr>pl_id = g (length (plans s)), pl_pool_id = pid, pl_cidr = c, pl_sale_mode = mode, pl_block_size = plan_size mode blockSize\<rparr>"
  let ?t = "s\<lparr>plans := plans s @ [?c], audits := as\<rparr>"
  from Added(1) obtain pool where f: "find (\<lambda>p. p_id p = pid) (pools s) = Some pool" "cidrContains (p_block pool) c"
    and apart: "\<forall>e \<in> set (plans s). pl_pool_id e = pid \<longrightarrow> \<not> cidrsOverlap (pl_cidr e) c" and cast: "cidr_cast c = Inr ()"
    by (auto simp: addSalePlan_checks_Inr)
  have wf: "wf_cidr c" by (rule cidr_cast_wf [OF cast p])
  have pool: "pool \<in> set (pools s)" "p_id pool = pid" "addrs c \<subseteq> addrs (p_block pool)"
    using find_SomeD [OF f(1)] f(2) cidrContains_addrs [OF wf] by auto
  have "plans_fit ?t"
    by (rule plans_fit_add [where s = s and c = ?c and q = pool]) (use ok fresh wf pool apart in \<open>auto simp: pools_ok_def fresh_pool_def\<close>)
  moreover have "pools_apart ?t" "rows_fit ?t" using ok by (auto simp: pools_defs)
  ultimately show ?thesis by (simp add: pools_ok_def Added(2))
qed

lemma pools_fewer:
  assumes ok: "pools_ok s" and ps: "pools s' = filter (\<lambda>q. p_id q \<noteq> pid) (pools s)"
    and cs: "plans s' = filter (\<lambda>c. pl_pool_id c \<noteq> pid) (plans s)" and rs: "ips s' = filter (\<lambda>p. i_pool_id p \<noteq> pid) (ips s)"
  shows "pools_ok s'"
proof -
  have "pools_apart s'" using ok by (auto simp: pools_ok_def pools_apart_def ps distinct_map_filter)
  moreover have "plans_fit s'"
    unfolding plans_fit_def
  proof (intro conjI)
    show "distinct (map pl_id (plans s'))" using ok by (simp add: pools_ok_def plans_fit_def cs distinct_map_filter)
    show "\<forall>c \<in> set (plans s'). wf_cidr (pl_cidr c) \<and>
       (\<exists>q \<in> set (pools s'). p_id q = pl_pool_id c \<and> addrs (pl_cidr c) \<subseteq> addrs (p_block q))"
    proof
      fix c assume "c \<in> set (plans s')"
      then have c: "c \<in> set (plans s)" "pl_pool_id c \<noteq> pid" by (auto simp: cs)
      with ok obtain q where "q \<in> set (pools s)" "p_id q = pl_pool_id c" "addrs (pl_cidr c) \<subseteq> addrs (p_block q)" "wf_cidr (pl_cidr c)"
        unfolding pools_ok_def plans_fit_def by blast
      with c(2) show "wf_cidr (pl_cidr c) \<and> (\<exists>q \<in> set (pools s'). p_id q = pl_pool_id c \<and> addrs (pl_cidr c) \<subseteq> addrs (p_block q))"
        by (auto simp: ps)
    qed
    show "\<forall>c \<in> set (plans s'). \<forall>d \<in> set (plans s').
       pl_pool_id c = pl_pool_id d \<and> cidrsOverlap (pl_cidr c) (pl_cidr d) \<longrightarrow> c = d"
      using ok by (auto simp: pools_ok_def plans_fit_def cs)
  qed
  moreover have "rows_fit s'"
    unfolding rows_fit_def
  proof
    fix p assume "p \<in> set (ips s')"
    then have p: "p \<in> set (ips s)" "i_pool_id p \<noteq> pid" by (auto simp: rs)
    with ok obtain q where "q \<in> set (pools s)" "p_id q = i_pool_id p" "pool_covers (i_ip_address p) q" "is_ip4 (i_ip_address p)"
      unfolding pools_ok_def rows_fit_def by blast
    with p(2) show "is_ip4 (i_ip_address p) \<and> (\<exists>q \<in> set (pools s'). p_id q = i_pool_id p \<and> pool_covers (i_ip_address p) q)"
      by (auto simp: ps)
  qed
  ultimately show ?thesis by (simp add: pools_ok_def)
qed

definition pool_removed :: "uuid \<Rightarrow> db \<Rightarrow> db" where
  "pool_removed pid s = s\<lparr>ips := filter (\<lambda>p. i_pool_id p \<noteq> pid) (ips s), blocks := filter (\<lambda>b. b_pool_id b \<noteq> pid) (blocks s),
     plans := filter (\<lambda>p. pl_pool_id p \<noteq> pid) (plans s), pools := filter (\<lambda>p. p_id p \<noteq> pid) (pools s)\<rparr>"

definition pool_referenced :: "uuid \<Rightarrow> db \<Rightarrow> bool" where
  "pool_referenced pid s \<longleftrightarrow> (\<exists>p \<in> set (ips s). i_pool_id p \<noteq> pid \<and> (\<exists>b \<in> set (blocks s). b_pool_id b = pid \<and> i_block_id p = Some (b_id b)))"

lemma deletePool_tx_eq:
  "deletePool_tx pid s = (if pool_referenced pid s
     then Inl (JsError ''update or delete on table ip_blocks violates foreign key constraint'')
     else Inr (\<lparr>dr_cascadedPlans = length (filter (\<lambda>p. pl_pool_id p = pid) (plans s)),
               dr_removedIpRows = length (filter (\<lambda>p. i_pool_id p = pid) (ips s)),
               dr_removedBlockRows = length (filter (\<lambda>b. b_pool_id b = pid) (blocks s))\<rparr>, pool_removed pid s))"
  by (auto simp: deletePool_tx_def pool_removed_def pool_referenced_def Let_def throw_if_def)

definition pool_busy :: "uuid \<Rightarrow> db \<Rightarrow> bool" where
  "pool_busy pid s \<longleftrightarrow> pool_allocated pid s > 0 \<or> pool_active_blocks pid s > 0"

lemma deletePool_cases:
  obtains (Refused) e where "deletePool agent now email pid s = (Inl e, s)"
      "find (\<lambda>p. p_id p = pid) (pools s) = None \<or> pool_busy pid s \<or> pool_referenced pid s"
  | (Deleted) r as cs where "deletePool agent now email pid s = (Inr r, (pool_removed pid s)\<lparr>audits := as, calls := cs\<rparr>)"
      "find (\<lambda>p. p_id p = pid) (pools s) \<noteq> None" "\<not> pool_busy pid s" "\<not> pool_referenced pid s"
      "dr_cascadedPlans r = length (filter (\<lambda>p. pl_pool_id p = pid) (plans s))"
      "dr_removedIpRows r = length (filter (\<lambda>p. i_pool_id p = pid) (ips s))"
proof (cases "find (\<lambda>p. p_id p = pid) (pools s) = None \<or> pool_busy pid s \<or> pool_referenced pid s")
  case True
  then have "\<exists>e. deletePool agent now email pid s = (Inl e, s)"
    by (auto simp: deletePool_def seq_def attempt_def throw_if_def or_throw_def sql_begin_def deletePool_tx_eq pool_busy_def split: option.splits)
  with True Refused show thesis by blast
next
  case False
  then obtain pool where pool: "find (\<lambda>p. p_id p = pid) (pools s) = Some pool" by auto
  let ?r = "\<lparr>dr_cascadedPlans = length (filter (\<lambda>p. pl_pool_id p = pid) (plans s)),
               dr_removedIpRows = length (filter (\<lambda>p. i_pool_id p = pid) (ips s)),
               dr_removedBlockRows = length (filter (\<lambda>b. b_pool_id b = pid) (blocks s))\<rparr>"
  let ?t = "audit now ActAdmin (admin_any email s) ''pool.delete'' (Some ''ip_pool'') (Some pid)
       [(''block'', JStr (p_block pool)), (''cascadedPlans'', JNum (int (dr_cascadedPlans ?r))),
        (''removedIpRows'', JNum (int (dr_removedIpRows ?r))), (''removedBlockRows'', JNum (int (dr_removedBlockRows ?r)))] (pool_removed pid s)"
  obtain sync cs where p: "push_pool agent (p_block pool) False ?t = (Inr sync, ?t\<lparr>calls := cs\<rparr>)" by (rule push_pool_calls)
  have "deletePool agent now email pid s = (Inr ?r, ?t\<lparr>calls := cs\<rparr>)"
    using False p by (simp add: deletePool_def seq_def attempt_def pool sql_begin_def deletePool_tx_eq pool_busy_def do_stmt_def done_with_def)
  moreover have "?t\<lparr>calls := cs\<rparr> = (pool_removed pid s)\<lparr>audits := audits ?t, calls := cs\<rparr>" by (simp add: audit_def)
  ultimately show thesis using Deleted [where r = ?r and as = "audits ?t" and cs = cs] False by simp
qed

lemma deletePool_pools_ok: "pools_ok s \<Longrightarrow> pools_ok (snd (deletePool agent now email pid s))"
  by (cases rule: deletePool_cases [of agent now email pid s])
    (auto intro: pools_fewer [where pid = pid] simp: pool_removed_def)

text \<open>
  C34. The preflight decides the deletion: a pool is deleted exactly when the preflight finds it and says
  it can be, as long as the members of its blocks lie in it. A deletion removes the pool with all its
  plans, blocks and addresses and nothing of any other pool, and reports as many plans as the preflight
  announced; a refused one changes nothing.
\<close>

theorem deletePool_preflight:
  assumes "\<And>p b. p \<in> set (ips s) \<Longrightarrow> b \<in> set (blocks s) \<Longrightarrow> i_block_id p = Some (b_id b) \<Longrightarrow> i_pool_id p = b_pool_id b"
  shows "case deletePoolPreflight pid s of
      Inl e \<Rightarrow> (\<exists>e. deletePool agent now email pid s = (Inl e, s))
    | Inr f \<Rightarrow> (if dp_canDelete f
        then \<exists>r s'. deletePool agent now email pid s = (Inr r, s') \<and> dr_cascadedPlans r = dp_salePlansWillCascade f \<and>
          pools s' = filter (\<lambda>q. p_id q \<noteq> pid) (pools s) \<and> plans s' = filter (\<lambda>c. pl_pool_id c \<noteq> pid) (plans s) \<and>
          ips s' = filter (\<lambda>p. i_pool_id p \<noteq> pid) (ips s) \<and> blocks s' = filter (\<lambda>b. b_pool_id b \<noteq> pid) (blocks s) \<and>
          wallets s' = wallets s \<and> tunnels s' = tunnels s
        else \<exists>e. deletePool agent now email pid s = (Inl e, s))"
proof -
  have "\<not> pool_referenced pid s" using assms by (auto simp: pool_referenced_def)
  then show ?thesis
    by (cases rule: deletePool_cases [of agent now email pid s])
      (auto simp: deletePoolPreflight_def or_throw_def pool_busy_def pool_removed_def split: option.splits)
qed

theorem deletePool_preflight_witness:
  "\<exists>r s'. deletePool (\<lambda>_. None) T0 ''root@example.org'' ''p1'' (demo_db\<lparr>ips := [], blocks := []\<rparr>) = (Inr r, s') \<and>
     dr_cascadedPlans r = 0 \<and> pools s' = []"
proof -
  have f: "deletePoolPreflight ''p1'' (demo_db\<lparr>ips := [], blocks := []\<rparr>) = Inr \<lparr>dp_canDelete = True, dp_allocatedIps = 0,
    dp_activeBlocks = 0, dp_salePlansWillCascade = 0\<rparr>" by code_simp
  have p: "filter (\<lambda>q. p_id q \<noteq> ''p1'') (pools (demo_db\<lparr>ips := [], blocks := []\<rparr>)) = []" by code_simp
  show ?thesis
    using deletePool_preflight [of "demo_db\<lparr>ips := [], blocks := []\<rparr>" "\<lambda>_. None" T0 "''root@example.org''" "''p1''"] f p by auto
qed

text \<open>
  Only allocated addresses and active blocks protect a pool. An address that is suspended in its
  grace period, and that its owner may still redeem, is purged with the pool: afterwards no row of the
  address is left.
\<close>

theorem deletePool_purges_suspended:
  assumes "find (\<lambda>q. p_id q = pid) (pools s) = Some q" "\<not> pool_busy pid s" "\<not> pool_referenced pid s"
    and "p \<in> set (ips s)" "i_pool_id p = pid" "i_status p = IpSuspended" "i_user_id p = Some u"
    and "distinct (map i_ip_address (ips s))"
  shows "\<exists>r s'. deletePool agent now email pid s = (Inr r, s') \<and> i_ip_address p \<notin> set (map i_ip_address (ips s')) \<and> 0 < dr_removedIpRows r"
proof (cases rule: deletePool_cases [of agent now email pid s])
  case (Refused e)
  with assms(1-3) show ?thesis by auto
next
  case (Deleted r as cs)
  have no: "i_ip_address x \<noteq> i_ip_address p" if "x \<in> set (ips s)" "i_pool_id x \<noteq> pid" for x
    using that assms(4,5,8) distinct_key_eq [of i_ip_address "ips s" x p] by auto
  have "i_ip_address p \<notin> set (map i_ip_address (ips (pool_removed pid s)))"
    using no by (auto simp: pool_removed_def) metis
  moreover have "0 < dr_removedIpRows r" using Deleted(6) assms(4,5) by (auto simp: filter_empty_conv length_greater_0_conv)
  ultimately show ?thesis using Deleted(1) by simp
qed

theorem deletePool_purges_suspended_witness:
  "\<exists>r s'. deletePool (\<lambda>_. None) T0 ''root@example.org'' ''p1''
      (demo_db\<lparr>blocks := [], ips := [demo_ip ''203.0.113.1'' (Some ''u1'') None None IpSuspended (Some T0)]\<rparr>) = (Inr r, s') \<and>
    ''203.0.113.1'' \<notin> set (map i_ip_address (ips s')) \<and> 0 < dr_removedIpRows r"
proof -
  let ?p = "demo_ip ''203.0.113.1'' (Some ''u1'') None None IpSuspended (Some T0)"
  let ?s = "demo_db\<lparr>blocks := [], ips := [?p]\<rparr>"
  obtain q where q: "find (\<lambda>q. p_id q = ''p1'') (pools ?s) = Some q"
    using that by (simp add: demo_db_def)
  have "\<not> pool_busy ''p1'' ?s" by code_simp
  moreover have "\<not> pool_referenced ''p1'' ?s" by (simp add: pool_referenced_def)
  ultimately show ?thesis
    using deletePool_purges_suspended [OF q, of ?p "''u1''"] by (simp add: demo_ip_def)
qed

lemma deleteSalePlan_cases:
  obtains (Refused) e where "deleteSalePlan now email pid planId s = (Inl e, s)"
  | (Deleted) plan as where "find (\<lambda>p. pl_id p = planId \<and> pl_pool_id p = pid) (plans s) = Some plan" "plan_used pid (pl_cidr plan) s = 0"
      "deleteSalePlan now email pid planId s = (Inr (), s\<lparr>plans := filter (\<lambda>p. pl_id p \<noteq> planId) (plans s), audits := as\<rparr>)"
proof (cases "find (\<lambda>p. pl_id p = planId \<and> pl_pool_id p = pid) (plans s)")
  case None
  with Refused show thesis by (simp add: deleteSalePlan_def flow_defs)
next
  case (Some plan)
  show thesis
  proof (cases "plan_used pid (pl_cidr plan) s > 0")
    case True
    with Some Refused show thesis by (simp add: deleteSalePlan_def flow_defs)
  next
    case False
    with Some Deleted show thesis by (simp add: deleteSalePlan_def flow_defs audit_def)
  qed
qed

lemma deleteSalePlan_pools_ok: "pools_ok s \<Longrightarrow> pools_ok (snd (deleteSalePlan now email pid planId s))"
proof (cases rule: deleteSalePlan_cases [of now email pid planId s])
  case (Deleted plan as)
  assume ok: "pools_ok s"
  let ?t = "s\<lparr>plans := filter (\<lambda>p. pl_id p \<noteq> planId) (plans s), audits := as\<rparr>"
  have "pools_apart ?t" "rows_fit ?t" using ok by (auto simp: pools_defs)
  moreover have "plans_fit ?t" using ok by (auto simp: pools_ok_def plans_fit_def distinct_map_filter)
  ultimately show ?thesis by (simp add: Deleted pools_ok_def)
qed simp

lemma set_mode_pools_ok:
  assumes ok: "pools_ok s" and ip: "is_ip4 ip" and q: "find (pool_covers ip) (pools s) = Some q"
  shows "pools_ok (set_mode mode ip (p_id q) s)"
proof -
  let ?t = "set_mode mode ip (p_id q) s"
  have p: "pools ?t = pools s" "plans ?t = plans s" by (simp_all add: set_mode_def set_ips_def)
  have "rows_fit ?t"
    unfolding rows_fit_def p(1)
  proof
    fix p assume "p \<in> set (ips ?t)"
    then consider "p = sale_row ip (p_id q) mode" | r where "r \<in> set (ips s)" "i_ip_address p = i_ip_address r" "i_pool_id p = i_pool_id r"
      by (auto simp: set_mode_def in_set_upd_where split: if_splits)
    then show "is_ip4 (i_ip_address p) \<and> (\<exists>q \<in> set (pools s). p_id q = i_pool_id p \<and> pool_covers (i_ip_address p) q)"
    proof cases
      case 1
      with find_SomeD [OF q] ip show ?thesis by (auto simp: sale_row_def)
    next
      case 2
      with ok show ?thesis by (simp add: pools_ok_def rows_fit_def)
    qed
  qed
  with ok show ?thesis by (simp add: pools_ok_def pools_apart_def plans_fit_def p)
qed

lemma sale_mode_loop_pools_ok: "pools_ok s \<Longrightarrow> pools_ok (snd (sale_mode_loop mode xs n s))"
  by (induction mode xs n s rule: sale_mode_loop.induct) (auto simp: set_mode_pools_ok split: option.splits)

lemma setSaleMode_pools_ok: "pools_ok s \<Longrightarrow> pools_ok (snd (setSaleMode xs mode s))"
  by (simp add: setSaleMode_def seq_def attempt_def throw_if_def sale_mode_loop_pools_ok)

text \<open>
  A sale plan of length 1 closes a pool: \<^verbatim>\<open>128.0.0.0/1\<close> passes every check in a pool that starts at
  or below 128.0.0.0 and has no plan yet, because the 32-bit shift makes its size negative; afterwards
  the search never finds an address to sell in the pool, whatever is free.
\<close>

theorem addSalePlan_half_closes_pool:
  assumes q: "find (\<lambda>p. p_id p = pid) (pools s) = Some q" "wf_cidr (p_block q)" "net (parseCidr (p_block q)) \<le> 2 ^ 31"
    and none: "\<forall>c \<in> set (plans s). pl_pool_id c \<noteq> pid"
  shows "\<exists>s'. addSalePlan g now email pid ''128.0.0.0/1'' ''single'' None s = (Inr (g (length (plans s))), s') \<and>
     pools s' = pools s \<and> findFreeSingleIp (p_block q) (pool_plans pid s') taken = None"
proof -
  let ?c = "''128.0.0.0/1''"
  have pc: "net (parseCidr ?c) = 2 ^ 31" "size (parseCidr ?c) = - (2 ^ 31)" by code_simp+
  have "CIDR_RE ?c" "isAligned ?c" "cidr_cast ?c = Inr ()" "parse_mode ''single'' = Some SaleSingle"
    "\<not> size_missing (plan_size SaleSingle None)" "\<not> size_above (size (parseCidr ?c)) (plan_size SaleSingle None)" by code_simp+
  moreover have "cidrContains (p_block q) ?c"
    using wf_cidr_range [OF q(2)] q(3) pc by (simp add: cidrContains_def Let_def)
  ultimately have chk: "addSalePlan_checks pid ?c ''single'' None s = Inr SaleSingle"
    using q(1) none by (simp add: addSalePlan_checks_Inr)
  show ?thesis
  proof (cases rule: addSalePlan_cases [of g now email pid ?c "''single''" None s])
    case (Refused e)
    with chk show ?thesis by simp
  next
    case (Added mode as)
    let ?s' = "snd (addSalePlan g now email pid ?c ''single'' None s)"
    have "filter (\<lambda>p. pl_pool_id p = pid) (plans s) = []" using none by (auto simp: filter_empty_conv)
    then have p: "pool_plans pid ?s' = [\<lparr>sp_id = g (length (plans s)), sp_cidr = ?c, sp_saleMode = SaleSingle, sp_blockSize = None\<rparr>]"
      using Added chk by (simp add: pool_plans_def plan_size_def)
    have "findFreeSingleIp (p_block q) (pool_plans pid ?s') taken = None"
      unfolding p findFreeSingleIp_None_iff by (simp add: addrs_def pc)
    with Added show ?thesis by simp
  qed
qed

theorem addSalePlan_half_closes_pool_witness:
  "\<exists>s'. addSalePlan demo_gen T0 ''root@example.org'' ''p9'' ''128.0.0.0/1'' ''single'' None
      (demo_db\<lparr>pools := [\<lparr>p_id = ''p9'', p_block = ''103.20.4.0/24'', p_available_count = 256, p_allocated_count = 0\<rparr>]\<rparr>) =
        (Inr ''row-0'', s') \<and>
    findFreeSingleIp ''103.20.4.0/24'' (pool_plans ''p9'' s') [] = None"
proof -
  let ?q = "\<lparr>p_id = ''p9'', p_block = ''103.20.4.0/24'', p_available_count = 256, p_allocated_count = 0\<rparr>"
  have "wf_cidr ''103.20.4.0/24''" "net (parseCidr ''103.20.4.0/24'') \<le> 2 ^ 31" "demo_gen 0 = ''row-0''" by code_simp+
  moreover have "plans (demo_db\<lparr>pools := [?q]\<rparr>) = []" by (simp add: demo_db_def empty_db_def)
  ultimately show ?thesis
    using addSalePlan_half_closes_pool [of "''p9''" "demo_db\<lparr>pools := [?q]\<rparr>" ?q demo_gen T0 "''root@example.org''" "[]"] by auto
qed

end
