(* ===== verification/System.thy ===== *)
theory System
  imports BillingTick ChangeTier AdminGrant GreDrift Codes Admin
begin

text \<open>
  The system as a whole: the requests of the API (\<^verbatim>\<open>apps/api/src\<close>) and the jobs of the worker
  (\<^verbatim>\<open>apps/worker-internal/src/main.ts\<close>) as one step relation over the database, and the invariants
  every reachable state has. A request is one step: its transactions take row locks, and the drift and
  monitor jobs only read the tables below.
\<close>

section \<open>Operations that leave codes alone and only append to the ledger\<close>

definition grows :: "db \<Rightarrow> db \<Rightarrow> bool" where
  "grows s t \<longleftrightarrow> (\<exists>xs. txs t = txs s @ xs) \<and> codes t = codes s \<and> redemptions t = redemptions s"

lemma grows_refl [simp]: "grows s s"
  by (simp add: grows_def)

lemma grows_trans: "grows s t \<Longrightarrow> grows t u \<Longrightarrow> grows s u"
  by (auto simp: grows_def)

lemma grows_stmt [simp]:
  "grows s (audit now a i act rt ri md t) = grows s t" "grows s (notify u ty sv md t) = grows s t"
  "grows s (set_ips P1 f1 t) = grows s t" "grows s (set_tunnels P2 f2 t) = grows s t"
  "grows s (set_blocks P3 f3 t) = grows s t" "grows s (set_gateways P4 f4 t) = grows s t"
  "grows s (gateway_drop g t) = grows s t" "grows s (pool_give p n t) = grows s t" "grows s (pool_take p n t) = grows s t"
  "grows s (send c t) = grows s t" "grows s (wallet_debit wid b n t) = grows s t" "grows s (wallet_credit wid b n t) = grows s t"
  "grows s (upsert_ip row upd t) = grows s t" "grows s (gateway_add gid t) = grows s t" "grows s (mark_deleted now tid t) = grows s t"
  "grows s (t\<lparr>tunnels := ts\<rparr>) = grows s t" "grows s (t\<lparr>blocks := bs\<rparr>) = grows s t" "grows s (t\<lparr>ips := ps\<rparr>) = grows s t"
  by (simp_all add: grows_def stmt_defs upsert_ip_def gateway_add_def mark_deleted_def)

lemma grows_pay: "pay g w u typ price desc key t = Inr t' \<Longrightarrow> grows t t'"
  by (auto dest: pay_Inr(2) simp: grows_def wallet_debit_def)

lemma grows_pay' [simp]: "pay g w u typ price desc key t = Inr t' \<Longrightarrow> grows s t \<Longrightarrow> grows s t'"
  by (rule grows_trans) (auto intro: grows_pay)

lemma grows_insert_tunnel [simp]: "insert_tunnel x t = Inr t' \<Longrightarrow> grows s t \<Longrightarrow> grows s t'"
  by (drule insert_tunnel_Inr) simp

lemma grows_renewal [simp]: "renewal g w u typ price desc key t = Some t' \<Longrightarrow> grows s t \<Longrightarrow> grows s t'"
  by (auto simp: renewal_def insert_tx_once_def Let_def grows_def wallet_debit_def split: if_splits)

lemma grows_begin: "(\<And>r s'. body s = Inr (r, s') \<Longrightarrow> grows s s') \<Longrightarrow> grows s (snd (sql_begin body s))"
  by (rule sql_begin_inv) auto

lemma grows_chargeOneTunnel: "grows s (snd (chargeOneTunnel g now k s))"
  unfolding chargeOneTunnel_def
  by (rule grows_begin) (auto simp: suspend_tunnel_def Let_def split: option.splits if_splits)

lemma grows_chargeOnePublicIp: "grows s (snd (chargeOnePublicIp g now k s))"
  unfolding chargeOnePublicIp_def
  by (rule grows_begin) (auto simp: suspendPublicIp_def Let_def split: option.splits if_splits sum.splits)

lemma grows_chargeOneIpBlock: "grows s (snd (chargeOneIpBlock g now k s))"
  unfolding chargeOneIpBlock_def
  by (rule grows_begin) (auto simp: suspend_block_def Let_def split: option.splits if_splits sum.splits)

lemma grows_forceCancelTunnel: "grows s (snd (forceCancelTunnel now k s))"
  by (auto simp: forceCancelTunnel_def Let_def split: option.splits)

lemma grows_push [simp]: "grows s (push_tunnel_cidrs tid t) = grows s t"
  by (auto simp: push_tunnel_cidrs_def split: option.splits)

lemma grows_fold_push [simp]: "grows s (fold push_tunnel_cidrs ts t) = grows s t"
  by (induction ts arbitrary: t) auto

lemma grows_forceCancelPublicIp: "grows s (snd (forceCancelPublicIp now k s))"
  by (auto simp: forceCancelPublicIp_def Let_def split: option.splits)

lemma grows_forceCancelIpBlock: "grows s (snd (forceCancelIpBlock now k s))"
  by (auto simp: forceCancelIpBlock_def Let_def split: option.splits)

lemma grows_loop: "(\<And>x t. grows t (snd (f x t))) \<Longrightarrow> grows s (snd (for_try f xs s))"
  by (rule for_try_inv [where I = "grows s"]) (auto intro: grows_trans)


lemma grows_phases:
  "grows s (snd (tick_tunnels g now s))" "grows s (snd (tick_ips g now s))" "grows s (snd (tick_blocks g now s))"
  "grows s (snd (cancel_tunnels now s))" "grows s (snd (cancel_ips now s))" "grows s (snd (cancel_blocks now s))"
  by (simp_all add: tick_tunnels_def tick_ips_def tick_blocks_def cancel_tunnels_def cancel_ips_def cancel_blocks_def Let_def case_prod_beta
      grows_loop grows_chargeOneTunnel grows_chargeOnePublicIp grows_chargeOneIpBlock grows_forceCancelTunnel
      grows_forceCancelPublicIp grows_forceCancelIpBlock)

lemma grows_runBillingTick: "grows s (snd (runBillingTick g now s))"
  unfolding snd_runBillingTick by (meson grows_phases grows_trans)

lemma grows_calls [simp]: "grows s (t\<lparr>calls := cs\<rparr>) = grows s t" "grows s (t\<lparr>audits := as\<rparr>) = grows s t"
  by (simp_all add: grows_def)

lemma grows_buyPublicIp: "grows s (snd (buyPublicIp g now u ip s))"
  unfolding buyPublicIp_def
  by (auto simp: sql_begin_def Let_def split: sum.splits option.splits if_splits)

lemma grows_buyFirst: "grows s (snd (buyFirstAvailableSingleIp g now u s))"
  by (auto simp: buyFirstAvailableSingleIp_def grows_buyPublicIp split: option.splits)

lemma grows_moveIp: "grows s (snd (moveIp agent now u ip t s))"
proof -
  have "grows s (snd (moveIp_tx now u ip t s))"
    unfolding moveIp_tx_def by (rule grows_begin) (auto simp: Let_def split: option.splits if_splits)
  then show ?thesis using moveIp_snd [of agent now u ip t s] by auto
qed

lemma grows_releasePublicIp: "grows s (snd (releasePublicIp now u ip s))"
  unfolding releasePublicIp_def
  by (rule grows_begin) (auto split: sum.splits option.splits if_splits)

lemma grows_fold_block_row [simp]: "grows s (fold (block_row pid u bid now) is t) = grows s t"
  by (induction "is" arbitrary: t) (auto simp: block_row_def)

lemma grows_buyIpBlock: "grows s (snd (buyIpBlock g now u n s))"
  unfolding buyIpBlock_def
  by (auto simp: sql_begin_def Let_def split: sum.splits option.splits if_splits)

lemma grows_moveIpBlock: "grows s (snd (moveIpBlock agent now u b t s))"
proof -
  have "grows s (snd (moveIpBlock_tx now u b t s))"
    unfolding moveIpBlock_tx_def by (rule grows_begin) (auto simp: Let_def split: option.splits if_splits)
  then show ?thesis using moveIpBlock_snd [of agent now u b t s] by auto
qed

lemma grows_releaseIpBlock: "grows s (snd (releaseIpBlock now u b s))"
  unfolding releaseIpBlock_def
  by (rule grows_begin) (auto simp: Let_def split: sum.splits option.splits if_splits)

lemma save_only:
  "save_speed xs s = Inr s' \<Longrightarrow> \<exists>ps. s' = s\<lparr>pricing_speed := ps\<rparr>"
  "save_ip ys s = Inr s' \<Longrightarrow> \<exists>ps. s' = s\<lparr>pricing_ip := ps\<rparr>"
  "\<exists>ps. fold upsert_allow zs s = s\<lparr>pricing_allow := ps\<rparr>"
proof -
  show "\<exists>ps. s' = s\<lparr>pricing_speed := ps\<rparr>" if "save_speed xs s = Inr s'"
    using that
  proof (induction xs s rule: save_speed.induct)
    case (1 s)
    then show ?case by (auto intro: exI [of _ "pricing_speed s"])
  qed (fastforce split: option.splits if_splits)
  show "\<exists>ps. s' = s\<lparr>pricing_ip := ps\<rparr>" if "save_ip ys s = Inr s'"
    using that
  proof (induction ys s rule: save_ip.induct)
    case (1 s)
    then show ?case by (auto intro: exI [of _ "pricing_ip s"])
  qed (fastforce split: option.splits if_splits)
  show "\<exists>ps. fold upsert_allow zs s = s\<lparr>pricing_allow := ps\<rparr>"
  proof (induction zs arbitrary: s)
    case Nil
    then show ?case by (auto intro: exI [of _ "pricing_allow s"])
  next
    case (Cons z zs)
    have "\<exists>ps. upsert_allow z s = s\<lparr>pricing_allow := ps\<rparr>" by (cases z) (auto simp: upsert_allow_def Let_def)
    with Cons [of "upsert_allow z s"] show ?case by auto
  qed
qed

lemma savePricing_only: "\<exists>a b c. snd (savePricing inp s) = s\<lparr>pricing_speed := a, pricing_ip := b, pricing_allow := c\<rparr>"
proof -
  have id: "s = s\<lparr>pricing_speed := pricing_speed s, pricing_ip := pricing_ip s, pricing_allow := pricing_allow s\<rparr>" by simp
  show ?thesis
    unfolding savePricing_def
  proof (rule sql_begin_inv)
    fix r s'
    assume "(case save_speed (in_speed inp) s of
         Inl e \<Rightarrow> Inl e
       | Inr s1 \<Rightarrow> (case save_ip (in_ip inp) s1 of
           Inl e \<Rightarrow> Inl e
         | Inr s2 \<Rightarrow> Inr ((), fold upsert_allow (in_allow inp) s2))) = Inr (r, s')"
    then show "\<exists>a b c. s' = s\<lparr>pricing_speed := a, pricing_ip := b, pricing_allow := c\<rparr>"
      using save_only(3) by (fastforce split: sum.splits dest!: save_only(1,2))
  next
    show "\<exists>a b c. s = s\<lparr>pricing_speed := a, pricing_ip := b, pricing_allow := c\<rparr>" using id by blast
  qed
qed

lemma grows_savePricing: "grows s (snd (savePricing inp s))"
  using savePricing_only [of inp s] by (auto simp: grows_def)

lemma grows_op:
  assumes "\<And>r s'. m s = (Inr r, s') \<Longrightarrow> grows s s'" "\<And>e. fst (m s) = Inl e \<Longrightarrow> snd (m s) = s"
  shows "grows s (snd (m s))"
proof (cases rule: op_cases [of "m s"])
  case (Fail e)
  then show ?thesis using assms(2) by simp
next
  case (Ok x)
  from assms(1) [OF Ok] show ?thesis .
qed

lemma grows_adminGrantIp: "grows s (snd (adminGrantIp now a u ip pr s))"
  by (rule grows_op [OF _ adminGrantIp_fail]) (auto simp: adminGrantIp_def adminGrantIp_tx_def Let_def flow)

lemma grows_adminGrantBlock: "grows s (snd (adminGrantBlock g now a u c pr s))"
  by (rule grows_op [OF _ adminGrantBlock_fail]) (auto simp: adminGrantBlock_def adminGrantBlock_tx_def Let_def flow)

lemma grows_createTunnel: "grows s (snd (createTunnel g now kp inp s))"
  by (rule grows_op [OF _ createTunnel_fail]) (auto simp: createTunnel_def createTunnel_tx_def Let_def flow)

lemma grows_changeTunnelTier: "grows s (snd (changeTunnelTier agent g now u tid tier s))"
proof (rule grows_op [OF _ changeTunnelTier_fail])
  have tx: "grows s s1" if "changeTier_tx g now u tid tier price s = Inr (r, s1)" for price r s1
    using that unfolding changeTier_tx_def
    by (clarsimp simp only: flow)
       (auto simp: insert_tx_once_def Let_def grows_def wallet_debit_def set_tunnels_def audit_def split: if_splits)
  fix r s'
  assume "changeTunnelTier agent g now u tid tier s = (Inr r, s')"
  then show "grows s s'"
  proof (rule changeTunnelTier_Inr)
    fix price push s1
    assume t: "changeTier_tx g now u tid tier price s = Inr ((ct_oldTier r, ct_balanceAfter r, push), s1)"
      and s': "s' = s1\<lparr>calls := calls s1 @ (case push of None \<Rightarrow> [] | Some p \<Rightarrow> case tier_call tid tier p of None \<Rightarrow> [] | Some c \<Rightarrow> [c])\<rparr>"
    from tx [OF t] show "grows s s'" unfolding s' by simp
  qed
qed

lemma grows_activateTunnel: "grows s (snd (activateTunnel agent now tid s))"
  by (auto simp: activateTunnel_def flow_defs split: option.splits)

lemma grows_removeTunnel: "grows s (snd (removeTunnel agent now tid s))"
  by (auto simp: removeTunnel_def flow_defs sql_begin_def split: option.splits)

lemma grows_deleteTunnel: "grows s (snd (deleteTunnel agent now tid u s))"
  by (auto simp: deleteTunnel_run deleteTunnel_tx_Inr split: sum.splits prod.splits)

lemma grows_provisionGreTunnel: "grows s (snd (provisionGreTunnel dns g now inp s))"
  by (rule grows_op [OF _ provisionGreTunnel_fail])
    (auto simp: provisionGreTunnel_def provisionGre_tx_def Let_def flow)

lemma grows_activateGreTunnel: "grows s (snd (activateGreTunnel agent tid s))"
  by (rule activateGreTunnel_inv [where I = "grows s"]) auto

lemma grows_deleteGreTunnel: "grows s (snd (deleteGreTunnel agent now tid u s))"
  by (auto simp: deleteGreTunnel_run split: option.splits)

lemma grows_updateGreEndpoint: "grows s (snd (updateGreEndpoint dns agent now tid u h s))"
  by (rule updateGreEndpoint_inv [where I = "grows s"]) (auto simp: endpoint_defs)

lemma grows_resolveGreEndpoint: "grows s (snd (resolveGreEndpoint dns agent now tid s))"
  by (rule resolveGreEndpoint_inv [where I = "grows s"]) (auto simp: endpoint_defs)

lemma codes_ok_grows: "grows s s' \<Longrightarrow> codes_ok s \<Longrightarrow> codes_ok s'"
  by (auto simp: grows_def codes_ok_def code_ok_def uses_def)


lemma tenancy_renewal: "renewal g w u typ price desc key t = Some t' \<Longrightarrow> tenancy_ok t' = tenancy_ok t"
  by (rule tenancy_congs) (auto simp: renewal_def insert_tx_once_def Let_def wallet_debit_def split: if_splits)

lemma tenancy_ip_row: "tenancy_ok s \<Longrightarrow> (\<And>p. i_user_id (f p) = i_user_id p \<and> i_tunnel_id (f p) = i_tunnel_id p \<and>
    i_block_id (f p) = i_block_id p \<and> i_ip_address (f p) = i_ip_address p) \<Longrightarrow> tenancy_ok (set_ips P f s)"
  by (rule tenancy_set_ips) (auto simp: row_ok_def dest: tenancy_okD)

lemma tenancy_chargeOneTunnel: "tenancy_ok s \<Longrightarrow> tenancy_ok (snd (chargeOneTunnel g now k s))"
  unfolding chargeOneTunnel_def
  by (rule sql_begin_inv) (auto simp: suspend_tunnel_def Let_def tenancy_renewal intro!: tenancy_set_tunnels split: option.splits if_splits)

lemma tenancy_chargeOnePublicIp: "tenancy_ok s \<Longrightarrow> tenancy_ok (snd (chargeOnePublicIp g now k s))"
  unfolding chargeOnePublicIp_def
  by (rule sql_begin_inv) (auto simp: suspendPublicIp_def Let_def tenancy_renewal intro!: tenancy_ip_row split: option.splits if_splits sum.splits)

lemma tenancy_chargeOneIpBlock: "tenancy_ok s \<Longrightarrow> tenancy_ok (snd (chargeOneIpBlock g now k s))"
  unfolding chargeOneIpBlock_def
  by (rule sql_begin_inv) (auto simp: suspend_block_def Let_def tenancy_renewal intro!: tenancy_set_blocks split: option.splits if_splits)

lemma tenancy_forceCancelTunnel: "tenancy_ok s \<Longrightarrow> tenancy_ok (snd (forceCancelTunnel now k s))"
  by (auto simp: forceCancelTunnel_def Let_def intro!: tenancy_set_tunnels tenancy_detach split: option.splits)

lemma tenancy_push [simp]: "tenancy_ok (push_tunnel_cidrs tid t) = tenancy_ok t"
  by (auto simp: push_tunnel_cidrs_def split: option.splits)

lemma tenancy_fold_push [simp]: "tenancy_ok (fold push_tunnel_cidrs ts t) = tenancy_ok t"
  by (induction ts arbitrary: t) auto

lemma tenancy_clear:
  "tenancy_ok s \<Longrightarrow> (\<And>p. i_user_id (f p) = None \<and> i_tunnel_id (f p) = None \<and> (i_block_id (f p) = i_block_id p \<or> i_block_id (f p) = None) \<and> i_ip_address (f p) = i_ip_address p) \<Longrightarrow>
    (\<And>p. p \<in> set (ips s) \<Longrightarrow> P p \<Longrightarrow> i_block_id (f p) = None) \<Longrightarrow> tenancy_ok (set_ips P f s)"
  by (rule tenancy_set_ips) (auto simp: row_ok_def dest: tenancy_okD)

lemma tenancy_forceCancelIpBlock: "tenancy_ok s \<Longrightarrow> tenancy_ok (snd (forceCancelIpBlock now k s))"
  by (auto simp: forceCancelIpBlock_def Let_def intro!: tenancy_set_blocks tenancy_clear split: option.splits)

text \<open>Only an address outside every block may be freed alone.\<close>

lemma tenancy_forceCancelPublicIp:
  assumes "tenancy_ok s" "\<forall>p \<in> set (ips s). i_ip_address p = ip \<longrightarrow> i_block_id p = None"
  shows "tenancy_ok (snd (forceCancelPublicIp now ip s))"
  using assms by (auto simp: forceCancelPublicIp_def Let_def intro!: tenancy_clear split: option.splits)

lemma tenancy_cancel_ips:
  assumes "tenancy_ok s"
  shows "tenancy_ok (snd (cancel_ips now s))"
proof -
  let ?L = "map i_ip_address (filter (ip_expired now) (ips s))"
  let ?I = "\<lambda>t. tenancy_ok t \<and> (\<forall>p \<in> set (ips t). i_ip_address p \<in> set ?L \<longrightarrow> i_block_id p = None)"
  have "?I (snd (for_try (forceCancelPublicIp now) ?L s))"
  proof (rule for_try_inv [where I = ?I])
    fix ip t
    assume ip: "ip \<in> set ?L" and I: "?I t"
    then show "?I (snd (forceCancelPublicIp now ip t))"
      by (auto simp: tenancy_forceCancelPublicIp ips_forceCancelPublicIp in_set_upd_where)
  next
    show "?I s"
      using assms tenancy_okD(1) [OF assms]
      by (auto simp: ids_ok_def ip_expired_def distinct_map dest: inj_onD)
  qed
  then show ?thesis by (simp add: cancel_ips_def)
qed

section \<open>The inventory through the operations\<close>

definition pool_keys :: "db \<Rightarrow> (uuid \<times> cidr) list" where
  "pool_keys s = map (\<lambda>q. (p_id q, p_block q)) (pools s)"

definition ip_key :: "public_ip \<Rightarrow> ip4 \<times> uuid" where
  "ip_key p = (i_ip_address p, i_pool_id p)"

lemma pools_ok_keys:
  "pools_ok s \<longleftrightarrow> distinct (map fst (pool_keys s)) \<and> (\<forall>k \<in> set (pool_keys s). wf_cidr (snd k)) \<and>
     (\<forall>k \<in> set (pool_keys s). \<forall>l \<in> set (pool_keys s). cidrsOverlap (snd k) (snd l) \<longrightarrow> fst k = fst l) \<and>
     distinct (map pl_id (plans s)) \<and>
     (\<forall>c \<in> set (plans s). wf_cidr (pl_cidr c) \<and>
       (\<exists>k \<in> set (pool_keys s). fst k = pl_pool_id c \<and> addrs (pl_cidr c) \<subseteq> addrs (snd k))) \<and>
     (\<forall>c \<in> set (plans s). \<forall>d \<in> set (plans s).
       pl_pool_id c = pl_pool_id d \<and> cidrsOverlap (pl_cidr c) (pl_cidr d) \<longrightarrow> c = d) \<and>
     (\<forall>a \<in> ip_key ` set (ips s). is_ip4 (fst a) \<and> (\<exists>k \<in> set (pool_keys s). fst k = snd a \<and> ip4ToInt (fst a) \<in> addrs (snd k)))"
  by (simp add: pools_ok_def pools_apart_def plans_fit_def rows_fit_def pool_keys_def ip_key_def pool_covers_iff comp_def)

lemma pools_ok_mono:
  "pools_ok s \<Longrightarrow> pool_keys s' = pool_keys s \<Longrightarrow> plans s' = plans s \<Longrightarrow> ip_key ` set (ips s') \<subseteq> ip_key ` set (ips s) \<Longrightarrow> pools_ok s'"
  unfolding pools_ok_keys by (simp only:) (meson subsetD)

text \<open>The interface of an operation that changes neither pools nor plans and moves no address row.\<close>

definition restocks :: "db \<Rightarrow> db \<Rightarrow> bool" where
  "restocks s t \<longleftrightarrow> pool_keys t = pool_keys s \<and> plans t = plans s \<and> ip_key ` set (ips t) \<subseteq> ip_key ` set (ips s)"

lemma restocks_ok: "restocks s t \<Longrightarrow> pools_ok s \<Longrightarrow> pools_ok t"
  unfolding restocks_def by (rule pools_ok_mono) auto

lemma restocks_refl [simp]: "restocks s s"
  by (simp add: restocks_def)

lemma restocks_trans: "restocks s t \<Longrightarrow> restocks t u \<Longrightarrow> restocks s u"
  unfolding restocks_def by (metis subset_trans)

lemma pool_keys_counts [simp]:
  "pool_keys (pool_give p n t) = pool_keys t" "pool_keys (pool_take p n t) = pool_keys t"
  by (simp_all add: pool_keys_def pool_give_def pool_take_def map_upd_where_same)

lemma pool_keys_cong: "pools t = pools s \<Longrightarrow> pool_keys t = pool_keys s"
  by (simp add: pool_keys_def)

lemma restocks_stmt [simp]:
  "restocks s (audit now a i act rt ri md t) = restocks s t" "restocks s (notify u ty sv md t) = restocks s t"
  "restocks s (set_tunnels P2 f2 t) = restocks s t"
  "restocks s (set_blocks P3 f3 t) = restocks s t" "restocks s (set_gateways P4 f4 t) = restocks s t"
  "restocks s (gateway_drop g t) = restocks s t" "restocks s (pool_give p n t) = restocks s t" "restocks s (pool_take p n t) = restocks s t"
  "restocks s (send c t) = restocks s t" "restocks s (wallet_debit wid b n t) = restocks s t" "restocks s (wallet_credit wid b n t) = restocks s t"
  "restocks s (gateway_add gid t) = restocks s t" "restocks s (mark_deleted now tid t) = restocks s t"
  "restocks s (t\<lparr>tunnels := ts\<rparr>) = restocks s t" "restocks s (t\<lparr>blocks := bs\<rparr>) = restocks s t"
  "restocks s (t\<lparr>calls := cs\<rparr>) = restocks s t" "restocks s (t\<lparr>audits := as\<rparr>) = restocks s t" "restocks s (t\<lparr>txs := xs\<rparr>) = restocks s t"
  by (simp_all add: restocks_def gateway_add_def mark_deleted_def) (simp_all add: pool_keys_def stmt_defs pool_give_def map_upd_where_same)

lemma restocks_set_ips [simp]:
  assumes "\<And>p. i_ip_address (f p) = i_ip_address p" "\<And>p. i_pool_id (f p) = i_pool_id p"
  shows "restocks s (set_ips P f t) = restocks s t"
proof -
  have "ip_key (f p) = ip_key p" for p using assms by (simp add: ip_key_def)
  then have "map ip_key (upd_where P f (ips t)) = map ip_key (ips t)" by (rule map_upd_where_same)
  then have "ip_key ` set (upd_where P f (ips t)) = ip_key ` set (ips t)" by (metis set_map)
  moreover have "pool_keys (set_ips P f t) = pool_keys t" by (rule pool_keys_cong) simp
  ultimately show ?thesis by (simp add: restocks_def)
qed

lemma restocks_renewal [simp]: "renewal g w u typ price desc key t = Some t' \<Longrightarrow> restocks s t' = restocks s t"
  by (auto simp: renewal_def insert_tx_once_def Let_def split: if_splits)

lemma restocks_pay [simp]: "pay g w u typ price desc key t = Inr t' \<Longrightarrow> restocks s t' = restocks s t"
  by (auto simp: pay_def insert_tx_def Let_def split: if_splits)

lemma restocks_insert_tunnel [simp]: "insert_tunnel x t = Inr t' \<Longrightarrow> restocks s t' = restocks s t"
  by (drule insert_tunnel_Inr) simp

lemma restocks_push [simp]: "restocks s (push_tunnel_cidrs tid t) = restocks s t" "restocks s (fold push_tunnel_cidrs ts t) = restocks s t"
proof -
  show p: "restocks s (push_tunnel_cidrs tid t) = restocks s t" for tid t
    by (auto simp: push_tunnel_cidrs_def split: option.splits)
  show "restocks s (fold push_tunnel_cidrs ts t) = restocks s t"
    by (induction ts arbitrary: t) (auto simp: p)
qed

lemma restocks_begin: "(\<And>r s'. body s = Inr (r, s') \<Longrightarrow> restocks s s') \<Longrightarrow> restocks s (snd (sql_begin body s))"
  by (rule sql_begin_inv) auto

lemma restocks_loop: "(\<And>x t. restocks t (snd (f x t))) \<Longrightarrow> restocks s (snd (for_try f xs s))"
  by (rule for_try_inv [where I = "restocks s"]) (auto intro: restocks_trans)

lemma restocks_charges:
  "restocks s (snd (chargeOneTunnel g now k s))" "restocks s (snd (chargeOnePublicIp g now a s))" "restocks s (snd (chargeOneIpBlock g now k s))"
  unfolding chargeOneTunnel_def chargeOnePublicIp_def chargeOneIpBlock_def
  by (rule restocks_begin; auto simp: suspend_tunnel_def suspendPublicIp_def suspend_block_def Let_def split: option.splits if_splits sum.splits)+

lemma restocks_cancels:
  "restocks s (snd (forceCancelTunnel now k s))" "restocks s (snd (forceCancelPublicIp now a s))" "restocks s (snd (forceCancelIpBlock now k s))"
  by (auto simp: forceCancelTunnel_def forceCancelPublicIp_def forceCancelIpBlock_def Let_def split: option.splits)

lemma restocks_runBillingTick: "restocks s (snd (runBillingTick g now s))"
proof -
  have "restocks s (snd (tick_tunnels g now s))" "restocks s (snd (tick_ips g now s))" "restocks s (snd (tick_blocks g now s))"
    "restocks s (snd (cancel_tunnels now s))" "restocks s (snd (cancel_ips now s))" "restocks s (snd (cancel_blocks now s))" for s
    by (simp_all add: tick_tunnels_def tick_ips_def tick_blocks_def cancel_tunnels_def cancel_ips_def cancel_blocks_def Let_def case_prod_beta
        restocks_loop restocks_charges restocks_cancels)
  then show ?thesis unfolding snd_runBillingTick by (meson restocks_trans)
qed

lemma restocks_ips:
  "restocks s (snd (moveIp agent now u ip t s))" "restocks s (snd (releasePublicIp now u ip s))"
  "restocks s (snd (moveIpBlock agent now u b t s))" "restocks s (snd (releaseIpBlock now u b s))"
proof -
  have "restocks s (snd (moveIp_tx now u ip t s))"
    unfolding moveIp_tx_def by (rule restocks_begin) (auto simp: Let_def split: option.splits if_splits)
  then show "restocks s (snd (moveIp agent now u ip t s))" using moveIp_snd [of agent now u ip t s] by auto
  have "restocks s (snd (moveIpBlock_tx now u b t s))"
    unfolding moveIpBlock_tx_def by (rule restocks_begin) (auto simp: Let_def split: option.splits if_splits)
  then show "restocks s (snd (moveIpBlock agent now u b t s))" using moveIpBlock_snd [of agent now u b t s] by auto
  show "restocks s (snd (releasePublicIp now u ip s))"
    unfolding releasePublicIp_def by (rule restocks_begin) (auto split: sum.splits option.splits if_splits)
  show "restocks s (snd (releaseIpBlock now u b s))"
    unfolding releaseIpBlock_def by (rule restocks_begin) (auto simp: Let_def split: sum.splits option.splits if_splits)
qed

lemma restocks_op:
  assumes "\<And>r s'. m s = (Inr r, s') \<Longrightarrow> restocks s s'" "\<And>e. fst (m s) = Inl e \<Longrightarrow> snd (m s) = s"
  shows "restocks s (snd (m s))"
proof (cases rule: op_cases [of "m s"])
  case (Fail e)
  then show ?thesis using assms(2) by simp
next
  case (Ok x)
  from assms(1) [OF Ok] show ?thesis .
qed

lemma restocks_createTunnel: "restocks s (snd (createTunnel g now kp inp s))"
  by (rule restocks_op [OF _ createTunnel_fail]) (auto simp: createTunnel_def createTunnel_tx_def Let_def flow)

lemma restocks_changeTunnelTier: "restocks s (snd (changeTunnelTier agent g now u tid tier s))"
proof (rule restocks_op [OF _ changeTunnelTier_fail])
  have tx: "restocks s s1" if "changeTier_tx g now u tid tier price s = Inr (r, s1)" for price r s1
    using that unfolding changeTier_tx_def
    by (clarsimp simp only: flow) (auto simp: insert_tx_once_def Let_def split: if_splits)
  fix r s'
  assume "changeTunnelTier agent g now u tid tier s = (Inr r, s')"
  then show "restocks s s'"
  proof (rule changeTunnelTier_Inr)
    fix price push s1
    assume t: "changeTier_tx g now u tid tier price s = Inr ((ct_oldTier r, ct_balanceAfter r, push), s1)"
      and s': "s' = s1\<lparr>calls := calls s1 @ (case push of None \<Rightarrow> [] | Some p \<Rightarrow> case tier_call tid tier p of None \<Rightarrow> [] | Some c \<Rightarrow> [c])\<rparr>"
    from tx [OF t] show "restocks s s'" unfolding s' by simp
  qed
qed

lemma restocks_tunnels:
  "restocks s (snd (activateTunnel agent now tid s))" "restocks s (snd (removeTunnel agent now tid s))"
  "restocks s (snd (deleteTunnel agent now tid u s))" "restocks s (snd (activateGreTunnel agent tid s))"
  "restocks s (snd (deleteGreTunnel agent now tid u s))" "restocks s (snd (updateGreEndpoint dns agent now tid u h s))"
  "restocks s (snd (resolveGreEndpoint dns agent now tid s))"
proof -
  show "restocks s (snd (activateTunnel agent now tid s))" "restocks s (snd (removeTunnel agent now tid s))"
    "restocks s (snd (deleteTunnel agent now tid u s))" "restocks s (snd (deleteGreTunnel agent now tid u s))"
    by (auto simp: activateTunnel_def removeTunnel_def deleteTunnel_run deleteTunnel_tx_Inr deleteGreTunnel_run flow_defs sql_begin_def
        split: option.splits sum.splits prod.splits)
  show "restocks s (snd (activateGreTunnel agent tid s))" by (rule activateGreTunnel_inv [where I = "restocks s"]) auto
  show "restocks s (snd (updateGreEndpoint dns agent now tid u h s))"
    by (rule updateGreEndpoint_inv [where I = "restocks s"]) (auto simp: endpoint_defs)
  show "restocks s (snd (resolveGreEndpoint dns agent now tid s))"
    by (rule resolveGreEndpoint_inv [where I = "restocks s"]) (auto simp: endpoint_defs)
qed

lemma restocks_provisionGreTunnel: "restocks s (snd (provisionGreTunnel dns g now inp s))"
  by (rule restocks_op [OF _ provisionGreTunnel_fail])
    (auto simp: provisionGreTunnel_def provisionGre_tx_def Let_def flow)

lemma pools_ok_upsert:
  assumes ok: "pools_ok t" and row: "is_ip4 (i_ip_address row)" "q \<in> set (pools t)" "p_id q = i_pool_id row" "pool_covers (i_ip_address row) q"
    and f: "\<And>p. i_ip_address (f p) = i_ip_address p" "\<And>p. i_pool_id (f p) = i_pool_id p"
  shows "pools_ok (upsert_ip row f t)"
proof (cases "find (\<lambda>p. i_ip_address p = i_ip_address row) (ips t) = None")
  case True
  then have "upsert_ip row f t = t\<lparr>ips := ips t @ [row]\<rparr>" by (simp add: upsert_ip_def)
  with ok row show ?thesis by (auto simp: pools_ok_def pools_apart_def plans_fit_def rows_fit_def)
next
  case False
  then have "upsert_ip row f t = set_ips (\<lambda>p. i_ip_address p = i_ip_address row) f t" by (auto simp: upsert_ip_def)
  with restocks_ok [of t, OF _ ok] f show ?thesis by simp
qed

lemma pools_upsert [simp]: "pools (upsert_ip row f t) = pools t"
  by (simp add: upsert_ip_def)

lemma pools_ok_block_rows:
  assumes "pools_ok t" "q \<in> set (pools t)" "\<And>a. a \<in> set as \<Longrightarrow> is_ip4 a \<and> pool_covers a q"
  shows "pools_ok (fold (block_row now (p_id q) u bid) as t)"
  using assms
proof (induction as arbitrary: t)
  case (Cons a as)
  have "pools_ok (block_row now (p_id q) u bid a t)"
    unfolding block_row_def by (rule pools_ok_upsert [where q = q]) (use Cons.prems in \<open>auto simp: new_ip_def\<close>)
  moreover have "pools (block_row now (p_id q) u bid a t) = pools t" by (simp add: block_row_def)
  ultimately show ?case using Cons by simp
qed simp

lemma pools_ok_buyPublicIp: "pools_ok s \<Longrightarrow> pools_ok (snd (buyPublicIp g now u ip s))"
proof (cases rule: op_cases [of "buyPublicIp g now u ip s"])
  case (Fail e)
  moreover assume "pools_ok s"
  ultimately show ?thesis using buyPublicIp_fail by metis
next
  case (Ok r)
  assume ok: "pools_ok s"
  from Ok show ?thesis
  proof (rule buyPublicIp_Inr)
    fix price pool w s2 s3
    assume ip: "is_ip4 ip" and f: "find (pool_covers ip) (pools s) = Some pool"
      and s2: "s2 = pool_take (p_id pool) 1 (upsert_ip (new_ip ip (p_id pool) u None (Some price) (Some (now + 31 * DAY_MS)) now)
                          (\<lambda>p. p\<lparr>i_user_id := Some u, i_tunnel_id := None, i_block_id := None,
                                 i_status := IpAllocated, i_price_satang := Some price,
                                 i_next_billing_at := Some (now + 31 * DAY_MS), i_allocated_at := Some now,
                                 i_released_at := None\<rparr>) s)"
      and p: "pay g w u TxIpCharge price (''Public IP '' @ ip) (''buy-ip-'' @ ip @ ''-'' @ show_int now) s2 = Inr s3"
      and s': "snd (buyPublicIp g now u ip s) = audit now ActUser (Some u) ''ip.buy'' (Some ''public_ip'') None [(''ip'', JStr ip)] s3"
    have "pools_ok (upsert_ip (new_ip ip (p_id pool) u None (Some price) (Some (now + 31 * DAY_MS)) now)
                          (\<lambda>p. p\<lparr>i_user_id := Some u, i_tunnel_id := None, i_block_id := None,
                                 i_status := IpAllocated, i_price_satang := Some price,
                                 i_next_billing_at := Some (now + 31 * DAY_MS), i_allocated_at := Some now,
                                 i_released_at := None\<rparr>) s)"
      by (rule pools_ok_upsert [OF ok, where q = pool]) (use ip find_SomeD [OF f] in \<open>auto simp: new_ip_def\<close>)
    then show ?thesis by (rule restocks_ok [rotated]) (simp add: s' restocks_pay [OF p] s2)
  qed
qed

lemma pools_ok_buyFirst: "pools_ok s \<Longrightarrow> pools_ok (snd (buyFirstAvailableSingleIp g now u s))"
  by (auto simp: buyFirstAvailableSingleIp_def pools_ok_buyPublicIp split: option.splits)

lemma block_ips_covered:
  assumes "{start ..< start + n} \<subseteq> addrs (p_block q)" "0 \<le> start" "start + n \<le> 2 ^ 32" "a \<in> set (block_ips start n)"
  shows "is_ip4 a \<and> pool_covers a q"
proof -
  from assms(4) obtain i where i: "i \<in> {start ..< start + n}" "a = intToIp4 i" by (auto simp: set_block_ips)
  with assms(2,3) have "0 \<le> i" "i < 2 ^ 32" by auto
  with i assms(1) show ?thesis by (auto simp: pool_covers_iff ip4ToInt_intToIp4)
qed

lemma pools_ok_buyIpBlock: "pools_ok s \<Longrightarrow> pools_ok (snd (buyIpBlock g now u n s))"
proof (cases rule: op_cases [of "buyIpBlock g now u n s"])
  case (Fail e)
  moreover assume "pools_ok s"
  ultimately show ?thesis using buyIpBlock_fail by metis
next
  case (Ok r)
  assume ok: "pools_ok s"
  from Ok show ?thesis
  proof (rule buyIpBlock_Inr)
    fix pfx price w pid addresses c s3 s4
    let ?b = "bought_block (g (length (blocks s))) u pid c n price now"
    assume pfx: "BLOCK_SIZE_TO_PREFIX n = Some pfx" and ch: "choose_block n pfx (pools s) s = Some (pid, addresses, c)"
      and s3: "s3 = pool_take pid n (fold (block_row now pid u (g (length (blocks s)))) addresses (s\<lparr>blocks := blocks s @ [?b]\<rparr>))"
      and p: "pay g w u TxIpCharge price (''Public IP block '' @ c) (''buy-block-'' @ g (length (blocks s)) @ ''-'' @ show_int now) s3 = Inr s4"
      and s': "snd (buyIpBlock g now u n s) = audit now ActUser (Some u) ''ipblock.buy'' (Some ''ip_block'') (Some (g (length (blocks s))))
        [(''cidr'', JStr c), (''priceSatang'', JNum price)] s4"
    from choose_block_Some [OF ch] obtain q start where q: "q \<in> set (pools s)" "pid = p_id q"
      and f: "findFreeBlock (p_block q) (pool_plans (p_id q) s) n (pool_taken (p_id q) s) = Some (start, addresses)" by blast
    have inv: "wf_plans (p_block q) (pool_plans (p_id q) s)" "\<And>d. d \<in> set (pool_plans (p_id q) s) \<Longrightarrow> addrs (sp_cidr d) \<subseteq> addrs (p_block q)"
      using pools_ok_inventory [OF ok] q by (auto simp: inventory_ok_def)
    note found = findFreeBlock_sound [OF inv(1) pfx f]
    have sub: "{start ..< start + n} \<subseteq> addrs (p_block q)"
    proof (cases "pool_plans (p_id q) s = []")
      case False
      with found(6) obtain d where "d \<in> set (pool_plans (p_id q) s)" "{start ..< start + n} \<subseteq> addrs (sp_cidr d)" by auto
      with inv(2) show ?thesis by blast
    qed (use found(6) in simp)
    have b: "pools_ok (s\<lparr>blocks := blocks s @ [?b]\<rparr>)" using ok pools_ok_cong [of "s\<lparr>blocks := blocks s @ [?b]\<rparr>" s] by simp
    have "pools_ok (fold (block_row now (p_id q) u (g (length (blocks s)))) addresses (s\<lparr>blocks := blocks s @ [?b]\<rparr>))"
      by (rule pools_ok_block_rows [OF b]) (use q found(1) block_ips_covered [OF sub found(3,4)] in auto)
    then show ?thesis by (rule restocks_ok [rotated]) (simp add: s' restocks_pay [OF p] s3 q(2))
  qed
qed

lemma cidr32_covers:
  assumes "is_ip4 ip" "cidrContains (p_block q) (ip @ ''/32'')"
  shows "pool_covers ip q"
proof -
  have g: "good_net (ip4ToInt ip) 32" using ip4ToInt_range [of ip] by (simp add: good_net_def)
  have m: "ip @ ''/32'' = mk_cidr (ip4ToInt ip) 32"
    using assms(1) by (simp add: mk_cidr_def is_ip4_def) code_simp
  have "addrs (mk_cidr (ip4ToInt ip) 32) \<subseteq> addrs (p_block q)"
    using assms(2) cidrContains_addrs [OF wf_mk_cidr [OF g]] unfolding m by simp
  then show ?thesis using addrs_mk_cidr [OF g] by (auto simp: pool_covers_iff)
qed

lemma pools_ok_adminGrantIp: "pools_ok s \<Longrightarrow> pools_ok (snd (adminGrantIp now a u ip pr s))"
proof (cases rule: op_cases [of "adminGrantIp now a u ip pr s"])
  case (Fail e)
  moreover assume "pools_ok s"
  ultimately show ?thesis using adminGrantIp_fail by metis
next
  case (Ok r)
  assume ok: "pools_ok s"
  from Ok show ?thesis
  proof (rule adminGrantIp_Inr)
    fix price and pool :: pool
    let ?t = "upsert_ip (new_ip ip (p_id pool) u None (Some price) (Some (now + 31 * DAY_MS)) now)
           (\<lambda>p. p\<lparr>i_user_id := Some u, i_tunnel_id := None, i_block_id := None,
                  i_status := IpAllocated, i_price_satang := Some price,
                  i_next_billing_at := Some (now + 31 * DAY_MS), i_allocated_at := Some now,
                  i_released_at := None\<rparr>) s"
    assume ip: "is_ip4 ip" and f: "find (\<lambda>p. cidrContains (p_block p) (ip @ ''/32'')) (pools s) = Some pool"
      and s': "snd (adminGrantIp now a u ip pr s) = audit now ActAdmin a ''ip.admin_grant'' (Some ''public_ip'') None
         [(''ip'', JStr ip), (''priceSatang'', JNum price), (''grantedTo'', JStr u)] (pool_take (p_id pool) 1 ?t)"
    have "pools_ok ?t"
      by (rule pools_ok_upsert [OF ok, where q = pool]) (use ip find_SomeD [OF f] cidr32_covers in \<open>auto simp: new_ip_def\<close>)
    then show ?thesis by (rule restocks_ok [rotated]) (simp add: s')
  qed
qed

lemma pools_ok_adminGrantBlock: "pools_ok s \<Longrightarrow> pools_ok (snd (adminGrantBlock g now a u c pr s))"
proof (cases rule: op_cases [of "adminGrantBlock g now a u c pr s"])
  case (Fail e)
  moreover assume "pools_ok s"
  ultimately show ?thesis using adminGrantBlock_fail by metis
next
  case (Ok x)
  assume ok: "pools_ok s"
  obtain c' bid where x: "x = (c', bid)" by (cases x)
  from Ok [unfolded x] show ?thesis
  proof (rule adminGrantBlock_Inr)
    fix price and pool :: pool
    let ?b = "bought_block bid u (p_id pool) c (size (parseCidr c)) price now"
    let ?t = "fold (block_row now (p_id pool) u bid) (block_ips (net (parseCidr c)) (size (parseCidr c))) (s\<lparr>blocks := blocks s @ [?b]\<rparr>)"
    assume wf: "wf_cidr c" and f: "find (\<lambda>p. cidrContains (p_block p) c) (pools s) = Some pool"
      and s': "snd (adminGrantBlock g now a u c pr s) = audit now ActAdmin a ''ipblock.admin_grant'' (Some ''ip_block'') (Some bid)
         [(''cidr'', JStr c), (''priceSatang'', JNum price), (''grantedTo'', JStr u)] (pool_take (p_id pool) (size (parseCidr c)) ?t)"
    have pool: "pool \<in> set (pools s)" "addrs c \<subseteq> addrs (p_block pool)" using find_SomeD [OF f] cidrContains_addrs [OF wf] by auto
    have b: "pools_ok (s\<lparr>blocks := blocks s @ [?b]\<rparr>)" using ok pools_ok_cong [of "s\<lparr>blocks := blocks s @ [?b]\<rparr>" s] by simp
    have "pools_ok ?t"
      by (rule pools_ok_block_rows [OF b])
        (use pool(1) block_ips_covered [of _ _ pool, OF _ wf_cidr_range(1,3) [OF wf]] pool(2) addrs_def in auto)
    then show ?thesis by (rule restocks_ok [rotated]) (simp add: s')
  qed
qed

section \<open>Requests of administrators\<close>

definition ledger_same :: "db \<Rightarrow> db \<Rightarrow> bool" where
  "ledger_same s t \<longleftrightarrow> wallets t = wallets s \<and> txs t = txs s \<and> codes t = codes s \<and> redemptions t = redemptions s"

lemma ledger_sameD: "ledger_same s t \<Longrightarrow> grows s t" "ledger_same s t \<Longrightarrow> ledger_ok t = ledger_ok s"
  by (auto simp: ledger_same_def grows_def) (simp_all add: ledger_ok_cong [of t s])

lemma ledger_same_audit [simp]: "ledger_same s (audit now a i act rt ri md t) = ledger_same s t"
  by (simp add: ledger_same_def audit_def)

definition assets_same :: "db \<Rightarrow> db \<Rightarrow> bool" where
  "assets_same s t \<longleftrightarrow> tunnels t = tunnels s \<and> blocks t = blocks s \<and> ips t = ips s"

lemma assets_sameD: "assets_same s t \<Longrightarrow> tenancy_ok t = tenancy_ok s"
  using tenancy_congs [of t s] by (simp add: assets_same_def)

lemma adjustCredit_rest:
  "grows s (snd (adjustCredit g now email u amount reason s))" "assets_same s (snd (adjustCredit g now email u amount reason s))"
  "pools_ok (snd (adjustCredit g now email u amount reason s)) = pools_ok s"
proof -
  let ?t = "snd (adjustCredit g now email u amount reason s)"
  have "(\<exists>xs. txs ?t = txs s @ xs) \<and> (\<exists>ws ys as. ?t = s\<lparr>wallets := ws, txs := ys, audits := as\<rparr>)"
  proof (cases rule: op_cases [of "adjustCredit g now email u amount reason s"])
    case (Fail e)
    have "s = s\<lparr>wallets := wallets s, txs := txs s, audits := audits s\<rparr>" by simp
    with Fail adjustCredit_fail show ?thesis by (metis append_Nil2)
  next
    case (Ok b)
    then show ?thesis by (rule adjustCredit_Inr) auto
  qed
  then show "grows s ?t" "assets_same s ?t" "pools_ok ?t = pools_ok s"
    using pools_ok_cong [of ?t s] by (auto simp: grows_def assets_same_def)
qed

lemma priced_item_rest:
  assumes "priced_item kind ref p s = Inr (x, s1)"
  shows "ledger_same s s1" "restocks s s1" "tenancy_ok s \<Longrightarrow> tenancy_ok s1"
  using assms by (auto simp: priced_item_def flow ledger_same_def split: price_kind.splits
      intro!: tenancy_set_tunnels tenancy_set_blocks tenancy_ip_row) (simp_all add: stmt_defs)

lemma overridePrice_rest:
  "ledger_same s (snd (overridePrice now email kind ref p s))" "restocks s (snd (overridePrice now email kind ref p s))"
  "tenancy_ok s \<Longrightarrow> tenancy_ok (snd (overridePrice now email kind ref p s))"
proof -
  let ?t = "snd (overridePrice now email kind ref p s)"
  have "ledger_same s ?t \<and> restocks s ?t \<and> (tenancy_ok s \<longrightarrow> tenancy_ok ?t)"
  proof (cases rule: op_cases [of "overridePrice now email kind ref p s"])
    case (Fail e)
    then show ?thesis using overridePrice_fail [of now email kind ref p s e] by (simp add: ledger_same_def)
  next
    case (Ok x)
    then show ?thesis
      by (rule overridePrice_Inr) (auto dest: priced_item_rest)
  qed
  then show "ledger_same s ?t" "restocks s ?t" "tenancy_ok s \<Longrightarrow> tenancy_ok ?t" by auto
qed

lemma admin_savePricing_rest:
  "ledger_same s (snd (admin_savePricing now email inp s))" "assets_same s (snd (admin_savePricing now email inp s))"
  "pools_ok (snd (admin_savePricing now email inp s)) = pools_ok s"
proof -
  obtain a b c where s1: "snd (savePricing inp s) = s\<lparr>pricing_speed := a, pricing_ip := b, pricing_allow := c\<rparr>"
    using savePricing_only [of inp s] by blast
  let ?t = "snd (admin_savePricing now email inp s)"
  have "?t = snd (savePricing inp s) \<or> (\<exists>as. ?t = (snd (savePricing inp s))\<lparr>audits := as\<rparr>)"
  proof (cases "savePricing inp s")
    case (Pair r s1)
    show ?thesis
    proof (cases r)
      case (Inl e)
      then show ?thesis by (simp add: admin_savePricing_def Pair)
    next
      case (Inr u)
      have "?t = s1 \<or> ?t = s1\<lparr>audits := audits ?t\<rparr>"
        by (simp add: admin_savePricing_def Pair Inr Let_def audit_def)
      then show ?thesis unfolding Pair snd_conv by blast
    qed
  qed
  then show "ledger_same s ?t" "assets_same s ?t" "pools_ok ?t = pools_ok s"
    using pools_ok_cong [of ?t s] by (auto simp: s1 ledger_same_def assets_same_def)
qed

lemma addPool_rest:
  "ledger_same s (snd (addPool agent g now email block saleMode blockSize s))"
  "assets_same s (snd (addPool agent g now email block saleMode blockSize s))"
  by (cases rule: addPool_cases [of agent g now email block saleMode blockSize s];
      simp add: ledger_same_def assets_same_def pool_added_def)+

lemma addSalePlan_rest:
  "ledger_same s (snd (addSalePlan g now email pid c saleMode blockSize s))"
  "assets_same s (snd (addSalePlan g now email pid c saleMode blockSize s))"
  by (cases rule: addSalePlan_cases [of g now email pid c saleMode blockSize s];
      simp add: ledger_same_def assets_same_def)+

lemma deleteSalePlan_rest:
  "ledger_same s (snd (deleteSalePlan now email pid planId s))" "assets_same s (snd (deleteSalePlan now email pid planId s))"
  by (cases rule: deleteSalePlan_cases [of now email pid planId s]; simp add: ledger_same_def assets_same_def)+

text \<open>Deleting a pool removes rows, and no row that stays names a block that goes.\<close>

lemma tenancy_pool_removed:
  assumes ok: "tenancy_ok s" and ref: "\<not> pool_referenced pid s"
  shows "tenancy_ok (pool_removed pid s)"
proof -
  let ?t = "pool_removed pid s"
  have t: "tunnels ?t = tunnels s" "ips ?t = filter (\<lambda>p. i_pool_id p \<noteq> pid) (ips s)"
    "blocks ?t = filter (\<lambda>b. b_pool_id b \<noteq> pid) (blocks s)" by (simp_all add: pool_removed_def)
  have "row_ok ?t p" if p: "p \<in> set (ips ?t)" for p
  proof -
    have r: "row_ok s p" "p \<in> set (ips s)" "i_pool_id p \<noteq> pid" using p ok by (auto simp: t dest: tenancy_okD)
    have "belongs (blk_owners ?t) (i_block_id p) (i_user_id p)"
    proof (cases "i_block_id p")
      case (Some bid)
      then obtain u where u: "i_user_id p = Some u" "map_of (blk_owners s) bid = Some u"
        using r(1) by (auto simp: row_ok_def belongs_def split: option.splits)
      then obtain b where b: "b \<in> set (blocks s)" "b_id b = bid" "b_user_id b = u"
        by (auto simp: blk_owners_def dest!: map_of_SomeD)
      with r Some ref have "b_pool_id b \<noteq> pid" unfolding pool_referenced_def by blast
      then have "(bid, u) \<in> set (blk_owners ?t)" using b by (force simp: blk_owners_def t)
      moreover have "distinct (map fst (blk_owners ?t))"
        using tenancy_okD(1) [OF ok] by (simp add: owners_ids ids_ok_def t distinct_map_filter)
      ultimately have "map_of (blk_owners ?t) bid = Some u" by simp
      with Some u(1) show ?thesis by (simp add: belongs_def)
    qed simp
    moreover have "tun_owners ?t = tun_owners s" by (simp add: tun_owners_def t)
    ultimately show ?thesis using r(1) by (simp add: row_ok_def)
  qed
  moreover have "ids_ok ?t" using tenancy_okD(1) [OF ok] by (simp add: ids_ok_def t distinct_map_filter)
  ultimately show ?thesis by (simp add: tenancy_ok_def)
qed

lemma deletePool_rest:
  "ledger_same s (snd (deletePool agent now email pid s))" "tenancy_ok s \<Longrightarrow> tenancy_ok (snd (deletePool agent now email pid s))"
proof -
  show "ledger_same s (snd (deletePool agent now email pid s))"
    by (cases rule: deletePool_cases [of agent now email pid s]) (simp_all add: ledger_same_def pool_removed_def)
  show "tenancy_ok (snd (deletePool agent now email pid s))" if "tenancy_ok s"
  proof (cases rule: deletePool_cases [of agent now email pid s])
    case (Deleted r as cs)
    have "tenancy_ok ((pool_removed pid s)\<lparr>audits := as, calls := cs\<rparr>) = tenancy_ok (pool_removed pid s)" by (rule tenancy_congs) simp_all
    with tenancy_pool_removed [OF that Deleted(4)] Deleted(1) show ?thesis by simp
  qed (use that in simp)
qed

lemma set_mode_rest:
  "ledger_same s (set_mode mode ip pid s)" "tenancy_ok s \<Longrightarrow> tenancy_ok (set_mode mode ip pid s)"
proof -
  show "ledger_same s (set_mode mode ip pid s)" by (simp add: ledger_same_def set_mode_def set_ips_def)
  show "tenancy_ok (set_mode mode ip pid s)" if ok: "tenancy_ok s"
  proof (cases "find (\<lambda>p. i_ip_address p = ip) (ips s) = None")
    case True
    have up: "set_mode mode ip pid s = upsert_ip (sale_row ip pid mode) id s"
      using True by (simp add: set_mode_def upsert_ip_def sale_row_def)
    show ?thesis unfolding up by (rule tenancy_upsert [OF ok]) (use tenancy_okD(2) [OF ok] in \<open>auto simp: row_ok_def sale_row_def\<close>)
  next
    case False
    then show ?thesis using ok by (auto simp: set_mode_def intro!: tenancy_ip_row)
  qed
qed

lemma ledger_same_trans: "ledger_same s t \<Longrightarrow> ledger_same t u \<Longrightarrow> ledger_same s u"
  by (simp add: ledger_same_def)

lemma sale_mode_loop_rest:
  "ledger_same s (snd (sale_mode_loop mode xs n s)) \<and> (tenancy_ok s \<longrightarrow> tenancy_ok (snd (sale_mode_loop mode xs n s)))"
proof (induction mode xs n s rule: sale_mode_loop.induct)
  case (2 mode ip rest touched s)
  show ?case
  proof (cases "is_ip4 ip \<and> find (pool_covers ip) (pools s) \<noteq> None")
    case True
    then obtain q where q: "is_ip4 ip" "find (pool_covers ip) (pools s) = Some q" by auto
    note r = set_mode_rest [where s = s and mode = mode and ip = ip and pid = "p_id q"]
    from 2(2) [OF _ q(2)] q(1) have IH: "ledger_same (set_mode mode ip (p_id q) s) (snd (sale_mode_loop mode rest (Suc touched) (set_mode mode ip (p_id q) s)))"
      "tenancy_ok (set_mode mode ip (p_id q) s) \<longrightarrow> tenancy_ok (snd (sale_mode_loop mode rest (Suc touched) (set_mode mode ip (p_id q) s)))" by auto
    show ?thesis using ledger_same_trans [OF r(1) IH(1)] IH(2) r(2) q by auto
  next
    case False
    with 2(1) show ?thesis by (auto simp: ledger_same_def)
  qed
qed (simp add: ledger_same_def)

lemma setSaleMode_rest:
  "ledger_same s (snd (setSaleMode xs mode s))" "tenancy_ok s \<Longrightarrow> tenancy_ok (snd (setSaleMode xs mode s))"
  using sale_mode_loop_rest [of s mode xs 0]
  by (simp_all add: setSaleMode_def seq_def attempt_def throw_if_def ledger_same_def)

text \<open>Changing the status or the expiry of codes keeps their counters.\<close>

lemma codes_ok_set_codes:
  assumes "codes_ok s" "\<And>c. c_id (f c) = c_id c \<and> c_code_normalized (f c) = c_code_normalized c \<and> c_credit_value (f c) = c_credit_value c \<and>
    c_current_uses (f c) = c_current_uses c \<and> c_max_uses_total (f c) = c_max_uses_total c"
  shows "codes_ok (set_codes P f s)"
proof -
  have m: "map c_id (upd_where P f (codes s)) = map c_id (codes s)" "map c_code_normalized (upd_where P f (codes s)) = map c_code_normalized (codes s)"
    using assms(2) by (auto intro: map_upd_where_same)
  have i: "c_id ` set (upd_where P f (codes s)) = c_id ` set (codes s)" using m(1) by (metis set_map)
  have c: "code_ok (set_codes P f s) (f c) = code_ok s c" "code_ok (set_codes P f s) c = code_ok s c" for c
    using assms(2) [of c] by (simp_all add: code_ok_def uses_def set_codes_def)
  have "\<forall>c \<in> set (codes (set_codes P f s)). code_ok (set_codes P f s) c"
    using assms(1) c by (auto simp: set_codes_def in_set_upd_where codes_ok_def)
  then show ?thesis using assms(1) by (simp add: codes_ok_def) (simp add: set_codes_def m i)
qed

lemma code_admin_rest:
  "codes_ok s \<Longrightarrow> codes_ok (snd (setCodeStatus now cid st s))" "codes_ok s \<Longrightarrow> codes_ok (snd (setCodeExpiry now cid ex s))"
  "codes_ok s \<Longrightarrow> codes_ok (snd (setBatchCodesStatus now cid st s))" "codes_ok s \<Longrightarrow> codes_ok (snd (setBatchCodesExpiry now cid ex s))"
proof -
  have a: "codes_ok (audit now a i act rt ri md t) = codes_ok t" for a i act rt ri md t
    by (simp add: codes_ok_def code_ok_def uses_def audit_def)
  assume "codes_ok s"
  then show "codes_ok (snd (setCodeStatus now cid st s))" "codes_ok (snd (setCodeExpiry now cid ex s))"
    "codes_ok (snd (setBatchCodesStatus now cid st s))" "codes_ok (snd (setBatchCodesExpiry now cid ex s))"
    by (simp_all add: setCodeStatus_def setCodeExpiry_def setBatchCodesStatus_def setBatchCodesExpiry_def a codes_ok_set_codes)
qed

definition except_codes :: "db \<Rightarrow> db \<Rightarrow> bool" where
  "except_codes s t \<longleftrightarrow> wallets t = wallets s \<and> txs t = txs s \<and> tunnels t = tunnels s \<and> blocks t = blocks s \<and> ips t = ips s \<and>
     pools t = pools s \<and> plans t = plans s"

lemma code_admin_frame:
  "except_codes s (snd (setCodeStatus now cid st s))" "except_codes s (snd (setCodeExpiry now cid ex s))"
  "except_codes s (snd (setBatchCodesStatus now cid st s))" "except_codes s (snd (setBatchCodesExpiry now cid ex s))"
  by (simp_all add: except_codes_def setCodeStatus_def setCodeExpiry_def setBatchCodesStatus_def setBatchCodesExpiry_def set_codes_def)

lemma insert_codes_pools: "insert_codes g inp bid cs s = Inr s' \<Longrightarrow> pools s' = pools s \<and> plans s' = plans s"
  by (induction g inp bid cs s rule: insert_codes.induct) (auto split: if_splits)

lemma createBatch_frame:
  assumes "createBatch g rnd now adm inp s = Some (r, s')"
  shows "except_codes s s'"
proof (cases r)
  case (Inl e)
  with assms createBatch_fail [of g rnd now adm inp s e s'] show ?thesis by (simp add: except_codes_def)
next
  case (Inr b)
  obtain bid cs where b: "b = (bid, cs)" by (cases b)
  have "pools s' = pools s \<and> plans s' = plans s"
    using assms [unfolded Inr]
    by (auto simp: createBatch_def sql_begin_def createBatch_tx_def Let_def flow split: option.splits if_splits sum.splits dest!: insert_codes_pools)
  with createBatch_Inr [OF assms [unfolded Inr b]] show ?thesis by (simp add: except_codes_def)
qed

lemma redeem_pools: "pools (snd (redeem g now u raw s)) = pools s \<and> plans (snd (redeem g now u raw s)) = plans s \<and> ips (snd (redeem g now u raw s)) = ips s"
  unfolding redeem_def redeem_tx_def
  by (auto simp: flow_defs sql_begin_def insert_tx_def set_codes_def wallet_credit_def andThen_def or_throw_def throw_if_def
      split: option.splits sum.splits if_splits prod.splits)

lemma tenancy_phases:
  assumes "tenancy_ok t"
  shows "tenancy_ok (snd (tick_tunnels g now t))" "tenancy_ok (snd (tick_ips g now t))" "tenancy_ok (snd (tick_blocks g now t))"
    "tenancy_ok (snd (cancel_tunnels now t))" "tenancy_ok (snd (cancel_blocks now t))"
proof -
  show "tenancy_ok (snd (tick_tunnels g now t))"
    unfolding tick_tunnels_def by (rule for_try_inv [where I = tenancy_ok, OF _ assms]) (rule tenancy_chargeOneTunnel)
  show "tenancy_ok (snd (tick_ips g now t))"
    unfolding tick_ips_def by (rule for_try_inv [where I = tenancy_ok, OF _ assms]) (rule tenancy_chargeOnePublicIp)
  show "tenancy_ok (snd (tick_blocks g now t))"
    unfolding tick_blocks_def by (rule for_try_inv [where I = tenancy_ok, OF _ assms]) (rule tenancy_chargeOneIpBlock)
  show "tenancy_ok (snd (cancel_tunnels now t))"
    unfolding cancel_tunnels_def by (rule for_try_inv [where I = tenancy_ok, OF _ assms]) (rule tenancy_forceCancelTunnel)
  show "tenancy_ok (snd (cancel_blocks now t))"
    unfolding cancel_blocks_def by (rule for_try_inv [where I = tenancy_ok, OF _ assms]) (rule tenancy_forceCancelIpBlock)
qed

lemma tenancy_runBillingTick: "tenancy_ok s \<Longrightarrow> tenancy_ok (snd (runBillingTick g now s))"
  unfolding snd_runBillingTick by (intro tenancy_phases tenancy_cancel_ips)

section \<open>Requests and reachable states\<close>

text \<open>
  What the world answers to one request: the clock, the ids and random bytes it draws, the gateway
  agents and the name service.
\<close>

record env =
  e_now :: ms
  e_gen :: uuid_gen
  e_rnd :: "nat \<Rightarrow> nat list"
  e_keys :: keypair
  e_agent :: agent
  e_dns :: resolver

datatype request =
    CreateTunnel CreateTunnelInput | ActivateTunnel uuid | RemoveTunnel uuid | DeleteTunnel uuid uuid
  | ChangeTier uuid uuid string
  | ProvisionGre CreateGreTunnelInput | ActivateGre uuid | DeleteGre uuid uuid | UpdateGreEndpoint uuid uuid string
  | ResolveGre uuid
  | BuyIp uuid ip4 | BuyFirstIp uuid | MoveIp uuid ip4 "uuid option" | ReleaseIp uuid ip4
  | BuyBlock uuid int | MoveBlock uuid uuid "uuid option" | ReleaseBlock uuid uuid
  | Redeem uuid string
  | CreateBatch uuid CreateBatchInput | SetCodeStatus uuid admin_status | SetCodeExpiry uuid "ms option"
  | SetBatchStatus uuid admin_status | SetBatchExpiry uuid "ms option"
  | GrantIp string uuid ip4 "int option" | GrantBlock string uuid cidr "int option"
  | AdjustCredit string uuid int string | OverridePrice string price_kind string "int option"
  | SavePricing string SavePricingInput
  | AddPool string cidr string "int option" | DeletePool string uuid
  | AddSalePlan string uuid cidr string "int option" | DeleteSalePlan string uuid uuid | SetSaleMode "ip4 list" string
  | BillingTick

text \<open>The state a request leaves; \<open>None\<close> when it does not return (the drawing of codes may not end).\<close>

fun handle :: "env \<Rightarrow> request \<Rightarrow> db \<Rightarrow> db option" where
  "handle e (CreateTunnel inp) s = Some (snd (createTunnel (e_gen e) (e_now e) (e_keys e) inp s))"
| "handle e (ActivateTunnel tid) s = Some (snd (activateTunnel (e_agent e) (e_now e) tid s))"
| "handle e (RemoveTunnel tid) s = Some (snd (removeTunnel (e_agent e) (e_now e) tid s))"
| "handle e (DeleteTunnel tid u) s = Some (snd (deleteTunnel (e_agent e) (e_now e) tid u s))"
| "handle e (ChangeTier u tid tier) s = Some (snd (changeTunnelTier (e_agent e) (e_gen e) (e_now e) u tid tier s))"
| "handle e (ProvisionGre inp) s = Some (snd (provisionGreTunnel (e_dns e) (e_gen e) (e_now e) inp s))"
| "handle e (ActivateGre tid) s = Some (snd (activateGreTunnel (e_agent e) tid s))"
| "handle e (DeleteGre tid u) s = Some (snd (deleteGreTunnel (e_agent e) (e_now e) tid u s))"
| "handle e (UpdateGreEndpoint tid u h) s = Some (snd (updateGreEndpoint (e_dns e) (e_agent e) (e_now e) tid u h s))"
| "handle e (ResolveGre tid) s = Some (snd (resolveGreEndpoint (e_dns e) (e_agent e) (e_now e) tid s))"
| "handle e (BuyIp u ip) s = Some (snd (buyPublicIp (e_gen e) (e_now e) u ip s))"
| "handle e (BuyFirstIp u) s = Some (snd (buyFirstAvailableSingleIp (e_gen e) (e_now e) u s))"
| "handle e (MoveIp u ip t) s = Some (snd (moveIp (e_agent e) (e_now e) u ip t s))"
| "handle e (ReleaseIp u ip) s = Some (snd (releasePublicIp (e_now e) u ip s))"
| "handle e (BuyBlock u n) s = Some (snd (buyIpBlock (e_gen e) (e_now e) u n s))"
| "handle e (MoveBlock u b t) s = Some (snd (moveIpBlock (e_agent e) (e_now e) u b t s))"
| "handle e (ReleaseBlock u b) s = Some (snd (releaseIpBlock (e_now e) u b s))"
| "handle e (Redeem u raw) s = Some (snd (redeem (e_gen e) (e_now e) u raw s))"
| "handle e (CreateBatch a inp) s = map_option snd (createBatch (e_gen e) (e_rnd e) (e_now e) a inp s)"
| "handle e (SetCodeStatus c st) s = Some (snd (setCodeStatus (e_now e) c st s))"
| "handle e (SetCodeExpiry c x) s = Some (snd (setCodeExpiry (e_now e) c x s))"
| "handle e (SetBatchStatus b st) s = Some (snd (setBatchCodesStatus (e_now e) b st s))"
| "handle e (SetBatchExpiry b x) s = Some (snd (setBatchCodesExpiry (e_now e) b x s))"
| "handle e (GrantIp m u ip p) s = Some (snd (adminGrantIp (e_now e) (adminId m s) u ip p s))"
| "handle e (GrantBlock m u c p) s = Some (snd (adminGrantBlock (e_gen e) (e_now e) (adminId m s) u c p s))"
| "handle e (AdjustCredit m u a r) s = Some (snd (adjustCredit (e_gen e) (e_now e) m u a r s))"
| "handle e (OverridePrice m k ref p) s = Some (snd (overridePrice (e_now e) m k ref p s))"
| "handle e (SavePricing m inp) s = Some (snd (admin_savePricing (e_now e) m inp s))"
| "handle e (AddPool m c mode n) s = Some (snd (addPool (e_agent e) (e_gen e) (e_now e) m c mode n s))"
| "handle e (DeletePool m pid) s = Some (snd (deletePool (e_agent e) (e_now e) m pid s))"
| "handle e (AddSalePlan m pid c mode n) s = Some (snd (addSalePlan (e_gen e) (e_now e) m pid c mode n s))"
| "handle e (DeleteSalePlan m pid pl) s = Some (snd (deleteSalePlan (e_now e) m pid pl s))"
| "handle e (SetSaleMode xs mode) s = Some (snd (setSaleMode xs mode s))"
| "handle e BillingTick s = Some (snd (runBillingTick (e_gen e) (e_now e) s))"

definition fresh_ids :: "env \<Rightarrow> db \<Rightarrow> bool" where
  "fresh_ids e s \<longleftrightarrow> fresh_tunnel (e_gen e) s \<and> fresh_block (e_gen e) s \<and> fresh_pool (e_gen e) s \<and> fresh_codes (e_gen e) s"

text \<open>Sale plans of length 0 and 1 are left out: their size overflows.\<close>

fun sane :: "request \<Rightarrow> bool" where
  "sane (AddSalePlan m pid c mode n) \<longleftrightarrow> prefix (parseCidr c) \<noteq> Some 0 \<and> prefix (parseCidr c) \<noteq> Some 1"
| "sane _ \<longleftrightarrow> True"

inductive step :: "db \<Rightarrow> db \<Rightarrow> bool" where
  request: "fresh_ids e s \<Longrightarrow> sane r \<Longrightarrow> handle e r s = Some s' \<Longrightarrow> step s s'"

inductive reachable :: "db \<Rightarrow> db \<Rightarrow> bool" for s0 where
  start: "reachable s0 s0"
| next_state: "reachable s0 s \<Longrightarrow> step s s' \<Longrightarrow> reachable s0 s'"

inductive_cases stepE: "step s s'"

definition sys_ok :: "db \<Rightarrow> bool" where
  "sys_ok s \<longleftrightarrow> ledger_ok s \<and> codes_ok s \<and> tenancy_ok s \<and> pools_ok s"

lemma sys_okI: "sys_ok s \<Longrightarrow> ledger_ok t \<Longrightarrow> grows s t \<Longrightarrow> tenancy_ok t \<Longrightarrow> pools_ok t \<Longrightarrow> sys_ok t"
  by (auto simp: sys_ok_def intro: codes_ok_grows)

lemma sys_ok_except_codes: "sys_ok s \<Longrightarrow> except_codes s t \<Longrightarrow> codes_ok t \<Longrightarrow> sys_ok t"
  using ledger_ok_cong [of t s] tenancy_congs [of t s] pools_ok_cong [of t s] by (simp add: sys_ok_def except_codes_def)

lemma sys_ok_admin: "sys_ok s \<Longrightarrow> ledger_same s t \<Longrightarrow> tenancy_ok t \<Longrightarrow> pools_ok t \<Longrightarrow> sys_ok t"
  using ledger_sameD [of s t] by (intro sys_okI [of s t]) (auto simp: sys_ok_def)

lemma sys_ok_tunnels:
  assumes ok: "sys_ok s" and fresh: "fresh_tunnel g s"
  shows "sys_ok (snd (createTunnel g now kp inp s))" "sys_ok (snd (activateTunnel agent now tid s))"
    "sys_ok (snd (removeTunnel agent now tid s))" "sys_ok (snd (deleteTunnel agent now tid u s))"
    "sys_ok (snd (changeTunnelTier agent g now u tid tier s))" "sys_ok (snd (provisionGreTunnel dns g now ginp s))"
    "sys_ok (snd (activateGreTunnel agent tid s))" "sys_ok (snd (deleteGreTunnel agent now tid u s))"
    "sys_ok (snd (updateGreEndpoint dns agent now tid u h s))" "sys_ok (snd (resolveGreEndpoint dns agent now tid s))"
proof -
  have i: "ledger_ok s" "tenancy_ok s" "pools_ok s" using ok by (simp_all add: sys_ok_def)
  show "sys_ok (snd (createTunnel g now kp inp s))"
    by (intro sys_okI [OF ok] create_tunnel.ledger_kept i grows_createTunnel create_tunnel_iso.kept fresh restocks_ok [OF restocks_createTunnel])
  show "sys_ok (snd (activateTunnel agent now tid s))"
    by (intro sys_okI [OF ok] activate_tunnel.money.ledger_kept i grows_activateTunnel activate_tunnel_iso.kept TrueI restocks_ok [OF restocks_tunnels(1)])
  show "sys_ok (snd (removeTunnel agent now tid s))"
    by (intro sys_okI [OF ok] remove_tunnel.money.ledger_kept i grows_removeTunnel remove_tunnel_iso.kept TrueI restocks_ok [OF restocks_tunnels(2)])
  show "sys_ok (snd (deleteTunnel agent now tid u s))"
    using delete_tunnel.money.ledger_kept [where s = s and x = "(tid, u)"] delete_tunnel_iso.kept [where s = s and x = "(tid, u)"] i
    by (intro sys_okI [OF ok] grows_deleteTunnel restocks_ok [OF restocks_tunnels(3)]) auto
  show "sys_ok (snd (changeTunnelTier agent g now u tid tier s))"
    using change_tier.ledger_kept [where s = s and x = "(u, tid, tier)"] change_tier_iso.kept [where s = s and x = "(u, tid, tier)"] i
    by (intro sys_okI [OF ok] grows_changeTunnelTier restocks_ok [OF restocks_changeTunnelTier]) auto
  show "sys_ok (snd (provisionGreTunnel dns g now ginp s))"
    by (intro sys_okI [OF ok] provision_gre.ledger_kept i grows_provisionGreTunnel provision_gre_iso.kept fresh restocks_ok [OF restocks_provisionGreTunnel])
  show "sys_ok (snd (activateGreTunnel agent tid s))"
    by (intro sys_okI [OF ok] activate_gre.money.ledger_kept i grows_activateGreTunnel activate_gre_iso.kept TrueI restocks_ok [OF restocks_tunnels(4)])
  show "sys_ok (snd (deleteGreTunnel agent now tid u s))"
    using delete_gre.money.ledger_kept [where s = s and x = "(tid, u)"] delete_gre_iso.kept [where s = s and x = "(tid, u)"] i
    by (intro sys_okI [OF ok] grows_deleteGreTunnel restocks_ok [OF restocks_tunnels(5)]) auto
  show "sys_ok (snd (updateGreEndpoint dns agent now tid u h s))"
    using update_gre.money.ledger_kept [where s = s and x = "(tid, u, h)"] update_gre_iso.kept [where s = s and x = "(tid, u, h)"] i
    by (intro sys_okI [OF ok] grows_updateGreEndpoint restocks_ok [OF restocks_tunnels(6)]) auto
  show "sys_ok (snd (resolveGreEndpoint dns agent now tid s))"
    by (intro sys_okI [OF ok] resolve_gre.money.ledger_kept i grows_resolveGreEndpoint resolve_gre_iso.kept TrueI restocks_ok [OF restocks_tunnels(7)])
qed

lemma sys_ok_addresses:
  assumes ok: "sys_ok s" and fresh: "fresh_block g s"
  shows "sys_ok (snd (buyPublicIp g now u ip s))" "sys_ok (snd (buyFirstAvailableSingleIp g now u s))"
    "sys_ok (snd (moveIp agent now u ip t s))" "sys_ok (snd (releasePublicIp now u ip s))"
    "sys_ok (snd (buyIpBlock g now u n s))" "sys_ok (snd (moveIpBlock agent now u b t s))" "sys_ok (snd (releaseIpBlock now u b s))"
    "sys_ok (snd (adminGrantIp now a u ip pr s))" "sys_ok (snd (adminGrantBlock g now a u c pr s))"
    "sys_ok (snd (runBillingTick g now s))"
proof -
  have i: "ledger_ok s" "tenancy_ok s" "pools_ok s" using ok by (simp_all add: sys_ok_def)
  show buy: "sys_ok (snd (buyPublicIp g now u ip s))" for ip
    by (intro sys_okI [OF ok] buy_ip.ledger_kept i grows_buyPublicIp buyPublicIp_tenancy pools_ok_buyPublicIp)
  show "sys_ok (snd (buyFirstAvailableSingleIp g now u s))"
    using buy ok by (auto simp: buyFirstAvailableSingleIp_def split: option.splits)
  show "sys_ok (snd (moveIp agent now u ip t s))"
    using move_ip.money.ledger_kept [where s = s and x = "(u, ip, t)"] move_ip_iso.kept [where s = s and x = "(u, ip, t)"] i
    by (intro sys_okI [OF ok] grows_moveIp restocks_ok [OF restocks_ips(1)]) auto
  show "sys_ok (snd (releasePublicIp now u ip s))"
    by (intro sys_okI [OF ok] release_ip.money.ledger_kept i grows_releasePublicIp releasePublicIp_tenancy restocks_ok [OF restocks_ips(2)])
  show "sys_ok (snd (buyIpBlock g now u n s))"
    by (intro sys_okI [OF ok] buy_block.ledger_kept i grows_buyIpBlock buyIpBlock_tenancy fresh pools_ok_buyIpBlock)
  show "sys_ok (snd (moveIpBlock agent now u b t s))"
    using move_block.money.ledger_kept [where s = s and x = "(u, b, t)"] move_block_iso.kept [where s = s and x = "(u, b, t)"] i
    by (intro sys_okI [OF ok] grows_moveIpBlock restocks_ok [OF restocks_ips(3)]) auto
  show "sys_ok (snd (releaseIpBlock now u b s))"
    by (intro sys_okI [OF ok] release_block.money.ledger_kept i grows_releaseIpBlock releaseIpBlock_tenancy restocks_ok [OF restocks_ips(4)])
  show "sys_ok (snd (adminGrantIp now a u ip pr s))"
    using grant_ip.money.ledger_kept [where s = s and x = "(u, ip, pr)"] i
    by (intro sys_okI [OF ok] grows_adminGrantIp adminGrantIp_tenancy pools_ok_adminGrantIp) auto
  show "sys_ok (snd (adminGrantBlock g now a u c pr s))"
    using grant_block.money.ledger_kept [where s = s and x = "(u, c, pr)"] i fresh
    by (intro sys_okI [OF ok] grows_adminGrantBlock adminGrantBlock_tenancy pools_ok_adminGrantBlock) auto
  have "ledger_ok (snd (runBillingTick g now s))"
    unfolding snd_runBillingTick by (intro tick_ledger_phases cancel_ledger_phases i)
  then show "sys_ok (snd (runBillingTick g now s))"
    by (intro sys_okI [OF ok] grows_runBillingTick tenancy_runBillingTick i restocks_ok [OF restocks_runBillingTick])
qed

lemma sys_ok_codes:
  assumes ok: "sys_ok s" and fresh: "fresh_codes g s"
  shows "sys_ok (snd (redeem g now u raw s))" "sys_ok (snd (setCodeStatus now cid st s))" "sys_ok (snd (setCodeExpiry now cid ex s))"
    "sys_ok (snd (setBatchCodesStatus now cid st s))" "sys_ok (snd (setBatchCodesExpiry now cid ex s))"
    "createBatch g rnd now adm inp s = Some (r, s') \<Longrightarrow> sys_ok s'"
proof -
  have i: "ledger_ok s" "codes_ok s" "tenancy_ok s" "pools_ok s" using ok by (simp_all add: sys_ok_def)
  have "pools_ok (snd (redeem g now u raw s)) = pools_ok s" using redeem_pools [of g now u raw s] by (intro pools_ok_cong) auto
  then show "sys_ok (snd (redeem g now u raw s))"
    using redeem_op.kept [where s = s and x = "(u, raw)"] redeem_iso.kept [where s = s and x = "(u, raw)"] i
    by (simp add: sys_ok_def)
  show "sys_ok (snd (setCodeStatus now cid st s))" "sys_ok (snd (setCodeExpiry now cid ex s))"
    "sys_ok (snd (setBatchCodesStatus now cid st s))" "sys_ok (snd (setBatchCodesExpiry now cid ex s))"
    by (rule sys_ok_except_codes [OF ok]; simp add: code_admin_frame code_admin_rest i)+
  show "sys_ok s'" if run: "createBatch g rnd now adm inp s = Some (r, s')"
  proof (rule sys_ok_except_codes [OF ok createBatch_frame [OF run]])
    show "codes_ok s'"
    proof (cases r)
      case (Inl e)
      with run i(2) createBatch_fail [of g rnd now adm inp s e s'] show ?thesis by simp
    next
      case (Inr b)
      obtain bid cs where "b = (bid, cs)" by (cases b)
      with Inr run show ?thesis using createBatch_codes_ok [OF _ i(2) fresh] by blast
    qed
  qed
qed

lemma sys_ok_administration:
  assumes ok: "sys_ok s" and fresh: "fresh_pool g s"
  shows "sys_ok (snd (adjustCredit g now m u amount reason s))" "sys_ok (snd (overridePrice now m k ref p s))"
    "sys_ok (snd (admin_savePricing now m inp s))" "sys_ok (snd (addPool agent g now m c mode n s))"
    "sys_ok (snd (deletePool agent now m pid s))" "sys_ok (snd (deleteSalePlan now m pid pl s))" "sys_ok (snd (setSaleMode xs md s))"
    "prefix (parseCidr c) \<noteq> Some 0 \<Longrightarrow> prefix (parseCidr c) \<noteq> Some 1 \<Longrightarrow> sys_ok (snd (addSalePlan g now m pid c mode n s))"
proof -
  have i: "ledger_ok s" "tenancy_ok s" "pools_ok s" using ok by (simp_all add: sys_ok_def)
  note r = adjustCredit_rest [where s = s and g = g and now = now and email = m and u = u and amount = amount and reason = reason]
  show "sys_ok (snd (adjustCredit g now m u amount reason s))"
    by (rule sys_okI [OF ok adjustCredit_ledger_ok [OF i(1)] r(1)]) (simp_all add: assets_sameD [OF r(2)] r(3) i)
  show "sys_ok (snd (overridePrice now m k ref p s))"
    by (intro sys_ok_admin [OF ok] overridePrice_rest i restocks_ok [OF overridePrice_rest(2)])
  note r = admin_savePricing_rest [where s = s and now = now and email = m and inp = inp]
  show "sys_ok (snd (admin_savePricing now m inp s))"
    by (rule sys_ok_admin [OF ok r(1)]) (simp_all add: assets_sameD [OF r(2)] r(3) i)
  show "sys_ok (snd (addPool agent g now m c mode n s))"
    by (rule sys_ok_admin [OF ok addPool_rest(1)]) (simp_all add: assets_sameD [OF addPool_rest(2)] i addPool_pools_ok fresh)
  show "sys_ok (snd (deletePool agent now m pid s))"
    by (intro sys_ok_admin [OF ok] deletePool_rest deletePool_pools_ok i)
  show "sys_ok (snd (deleteSalePlan now m pid pl s))"
    by (rule sys_ok_admin [OF ok deleteSalePlan_rest(1)]) (simp_all add: assets_sameD [OF deleteSalePlan_rest(2)] i deleteSalePlan_pools_ok)
  show "sys_ok (snd (setSaleMode xs md s))"
    by (intro sys_ok_admin [OF ok] setSaleMode_rest setSaleMode_pools_ok i)
  show "sys_ok (snd (addSalePlan g now m pid c mode n s))"
    if "prefix (parseCidr c) \<noteq> Some 0" "prefix (parseCidr c) \<noteq> Some 1"
    by (rule sys_ok_admin [OF ok addSalePlan_rest(1)]) (simp_all add: assets_sameD [OF addSalePlan_rest(2)] i addSalePlan_pools_ok fresh that)
qed

lemma sys_ok_handle:
  assumes "handle e r s = Some s'" "fresh_ids e s" "sane r" "sys_ok s"
  shows "sys_ok s'"
  using assms(1,3)
  by (cases r) (use assms(2,4) in \<open>auto simp: fresh_ids_def intro: sys_ok_tunnels sys_ok_addresses sys_ok_codes sys_ok_administration\<close>)

interpretation system: keeps sys_ok "\<lambda>(e, r) s. fresh_ids e s \<and> sane r" "\<lambda>(e, r) s. (Inr (), case handle e r s of None \<Rightarrow> s | Some s' \<Rightarrow> s')"
  by unfold_locales (auto intro: sys_ok_handle split: option.splits)

lemma sys_ok_reachable: "reachable s0 s \<Longrightarrow> sys_ok s0 \<Longrightarrow> sys_ok s"
  by (induction rule: reachable.induct) (auto elim!: stepE intro: sys_ok_handle)


section \<open>History\<close>

text \<open>The ledger is append-only, and a code keeps its text and its id.\<close>

definition code_keys :: "db \<Rightarrow> (string \<times> uuid) list" where
  "code_keys s = map (\<lambda>c. (c_code_normalized c, c_id c)) (codes s)"

definition evolves :: "db \<Rightarrow> db \<Rightarrow> bool" where
  "evolves s t \<longleftrightarrow> (\<exists>xs. txs t = txs s @ xs) \<and> (\<exists>ks. code_keys t = code_keys s @ ks)"

lemma evolves_refl [simp]: "evolves s s"
  by (simp add: evolves_def)

lemma evolves_trans: "evolves s t \<Longrightarrow> evolves t u \<Longrightarrow> evolves s u"
  by (auto simp: evolves_def)

lemma evolves_grows: "grows s t \<Longrightarrow> evolves s t"
  by (auto simp: grows_def evolves_def code_keys_def)

lemma code_keys_set_codes:
  assumes "\<And>c. c_code_normalized (f c) = c_code_normalized c" "\<And>c. c_id (f c) = c_id c"
  shows "code_keys (set_codes P f s) = code_keys s"
  using assms by (simp add: code_keys_def set_codes_def map_upd_where_same)

lemma evolves_code_admin:
  "evolves s (snd (setCodeStatus now cid st s))" "evolves s (snd (setCodeExpiry now cid ex s))"
  "evolves s (snd (setBatchCodesStatus now cid st s))" "evolves s (snd (setBatchCodesExpiry now cid ex s))"
proof -
  have "code_keys (audit now a i act rt ri md t) = code_keys t" for a i act rt ri md t by (simp add: code_keys_def audit_def)
  moreover have "txs (set_codes P f t) = txs t" for P f t by (simp add: set_codes_def)
  ultimately show "evolves s (snd (setCodeStatus now cid st s))" "evolves s (snd (setCodeExpiry now cid ex s))"
    "evolves s (snd (setBatchCodesStatus now cid st s))" "evolves s (snd (setBatchCodesExpiry now cid ex s))"
    by (simp_all add: setCodeStatus_def setCodeExpiry_def setBatchCodesStatus_def setBatchCodesExpiry_def evolves_def code_keys_set_codes)
qed

lemma evolves_createBatch:
  assumes "createBatch g rnd now adm inp s = Some (r, s')"
  shows "evolves s s'"
proof (cases r)
  case (Inl e)
  with assms createBatch_fail [of g rnd now adm inp s e s'] show ?thesis by simp
next
  case (Inr b)
  obtain bid cs where b: "b = (bid, cs)" by (cases b)
  from createBatch_Inr [OF assms [unfolded Inr b]] show ?thesis by (auto simp: evolves_def code_keys_def)
qed

lemma redeem_code_keys:
  assumes "redeem g now u raw s = (Inr r, s')"
  shows "code_keys s' = code_keys s"
proof (rule redeem_Inr [OF assms])
  assume "\<exists>P. codes s' = upd_where P (\<lambda>c. c\<lparr>c_status := CodeExhausted\<rparr>)
       (upd_where (redeemable now (normalize raw)) (\<lambda>c. c\<lparr>c_current_uses := c_current_uses c + 1\<rparr>) (codes s))"
  then show ?thesis by (auto simp: code_keys_def map_upd_where_same)
qed

lemma evolves_redeem: "evolves s (snd (redeem g now u raw s))"
proof (cases rule: op_cases [of "redeem g now u raw s"])
  case (Fail e)
  then show ?thesis using redeem_fail [OF Fail] by simp
next
  case (Ok r)
  have "\<exists>xs. txs (snd (redeem g now u raw s)) = txs s @ xs" by (rule redeem_Inr [OF Ok]) blast
  with redeem_code_keys [OF Ok] show ?thesis by (simp add: evolves_def)
qed

lemma grows_same: "ledger_same s t \<Longrightarrow> evolves s t"
  by (simp add: evolves_grows ledger_sameD)

lemma evolves_handle: "handle e r s = Some s' \<Longrightarrow> evolves s s'"
  by (cases r)
    (auto intro: evolves_grows [OF grows_createTunnel] evolves_grows [OF grows_activateTunnel] evolves_grows [OF grows_removeTunnel]
      evolves_grows [OF grows_deleteTunnel] evolves_grows [OF grows_changeTunnelTier] evolves_grows [OF grows_provisionGreTunnel]
      evolves_grows [OF grows_activateGreTunnel] evolves_grows [OF grows_deleteGreTunnel] evolves_grows [OF grows_updateGreEndpoint]
      evolves_grows [OF grows_resolveGreEndpoint] evolves_grows [OF grows_buyPublicIp] evolves_grows [OF grows_buyFirst]
      evolves_grows [OF grows_moveIp] evolves_grows [OF grows_releasePublicIp] evolves_grows [OF grows_buyIpBlock]
      evolves_grows [OF grows_moveIpBlock] evolves_grows [OF grows_releaseIpBlock] evolves_grows [OF grows_adminGrantIp]
      evolves_grows [OF grows_adminGrantBlock] evolves_grows [OF grows_runBillingTick] evolves_grows [OF adjustCredit_rest(1)]
      grows_same [OF overridePrice_rest(1)] grows_same [OF admin_savePricing_rest(1)] grows_same [OF addPool_rest(1)]
      grows_same [OF deletePool_rest(1)] grows_same [OF addSalePlan_rest(1)] grows_same [OF deleteSalePlan_rest(1)]
      grows_same [OF setSaleMode_rest(1)] evolves_redeem evolves_code_admin evolves_createBatch)

lemma evolves_reachable: "reachable s t \<Longrightarrow> evolves s t"
  by (induction rule: reachable.induct) (auto elim!: stepE intro: evolves_trans evolves_handle)

lemma code_id_unique:
  assumes "codes_ok t" "(n, i) \<in> set (code_keys t)" "(n, j) \<in> set (code_keys t)"
  shows "i = j"
  using assms by (auto simp: code_keys_def codes_ok_def dest: distinct_key_eq)

text \<open>
  C12. No code pays a customer twice, ever: after a successful redemption every later attempt of the same
  customer with the same code fails and changes nothing, however it is typed, whatever its per-user
  limit, and whatever has happened in between. In particular a limit above one use per customer cannot
  be used up.
\<close>

theorem redeem_once:
  assumes ok: "sys_ok s" and run: "redeem g now u raw s = (Inr r, s1)" and later: "reachable s1 s2"
    and same: "normalize raw2 = normalize raw" and fresh: "fresh_codes g s"
  shows "\<exists>e. redeem g2 now2 u raw2 s2 = (Inl e, s2)"
proof (cases rule: op_cases [of "redeem g2 now2 u raw2 s2"])
  case (Fail e)
  then show ?thesis using redeem_fail [OF Fail] by (intro exI [of _ e]) (metis prod.collapse)
next
  case (Ok r2)
  have "sys_ok s1" using sys_ok_codes(1) [OF ok fresh, of now u raw] run by simp
  then have c2: "codes_ok s2" using sys_ok_reachable [OF later] by (simp add: sys_ok_def)
  from run obtain code where f: "find (redeemable now (normalize raw)) (codes s) = Some code"
    and used: "key_used (Some (redeem_key (c_id code) u)) s1"
    by (rule redeem_Inr) (auto simp: key_used_def redeem_row_def redeem_key_def)
  from Ok obtain code2 where f2: "find (redeemable now2 (normalize raw)) (codes s2) = Some code2"
    and free: "\<not> key_used (Some (redeem_key (c_id code2) u)) s2"
    by (rule redeem_Inr) (auto simp: same)
  note ev = evolves_reachable [OF later]
  have "(normalize raw, c_id code) \<in> set (code_keys s)" using find_SomeD [OF f] by (force simp: code_keys_def redeemable_def)
  then have "(normalize raw, c_id code) \<in> set (code_keys s2)" using ev redeem_code_keys [OF run] by (auto simp: evolves_def)
  moreover have "(normalize raw, c_id code2) \<in> set (code_keys s2)" using find_SomeD [OF f2] by (force simp: code_keys_def redeemable_def)
  ultimately have "c_id code2 = c_id code" using code_id_unique [OF c2] by blast
  moreover have "key_used k s1 \<Longrightarrow> key_used k s2" for k using ev by (auto simp: evolves_def key_used_def)
  ultimately show ?thesis using free used by auto
qed

lemma code_db_ok: "sys_ok code_db"
proof -
  have "ledger_ok code_db" "codes_ok code_db" "tenancy_ok code_db" "pools_ok code_db" by code_simp+
  then show ?thesis by (simp add: sys_ok_def)
qed

definition demo_env :: env where
  "demo_env = \<lparr>e_now = T0, e_gen = demo_gen, e_rnd = replicate 16, e_keys = demo_keys, e_agent = (\<lambda>_. None), e_dns = (\<lambda>_. Inr [])\<rparr>"

lemma demo_fresh: "fresh_ids demo_env code_db"
proof -
  let ?L = "map t_id (tunnels code_db) @ map b_id (blocks code_db) @ map p_id (pools code_db) @ map pl_id (plans code_db) @ map c_id (codes code_db)"
  have "\<forall>x \<in> set ?L. take 4 x \<noteq> ''row-''" by code_simp
  moreover have "take 4 (demo_gen n) = ''row-''" for n by (simp add: demo_gen_def)
  ultimately have "demo_gen n \<notin> set ?L" for n by blast
  then show ?thesis
    using demo_gen_inj by (simp add: fresh_ids_def fresh_tunnel_def fresh_block_def fresh_pool_def fresh_codes_def demo_env_def)
qed

theorem redeem_once_witness:
  "\<exists>e. redeem demo_gen (T0 + 1) ''u2'' ''AAAA-BBBB'' (snd (redeem demo_gen T0 ''u2'' ''aaaa bbbb'' code_db)) =
     (Inl e, snd (redeem demo_gen T0 ''u2'' ''aaaa bbbb'' code_db))"
proof -
  have n: "normalize ''AAAA-BBBB'' = normalize ''aaaa bbbb''" by code_simp
  have "fresh_codes demo_gen code_db" using demo_fresh by (simp add: fresh_ids_def demo_env_def)
  from redeem_once [OF code_db_ok demo_redeem reachable.start n this] show ?thesis .
qed


lemma ledger_sum_append: "ledger_sum wid (xs @ ys) = ledger_sum wid xs + ledger_sum wid ys"
  by (simp add: ledger_sum_def)

text \<open>
  C2. History is never rewritten: from any sound state on, the ledger only grows at its end, and the
  balance of every wallet is what the old rows said plus what the new rows add.
\<close>

theorem ledger_append_only:
  assumes "reachable s t" "sys_ok s"
  shows "\<exists>new. txs t = txs s @ new \<and>
     (\<forall>w \<in> set (wallets t). w_balance w = ledger_sum (w_id w) (txs s) + ledger_sum (w_id w) new)"
proof -
  from evolves_reachable [OF assms(1)] obtain new where new: "txs t = txs s @ new" by (auto simp: evolves_def)
  have "ledger_ok t" using sys_ok_reachable [OF assms] by (simp add: sys_ok_def)
  then have "w_balance w = ledger_sum (w_id w) (txs s) + ledger_sum (w_id w) new" if "w \<in> set (wallets t)" for w
    using ledger_okD(2) [OF _ that] by (simp add: new ledger_sum_append)
  with new show ?thesis by blast
qed

theorem ledger_append_only_witness:
  "\<exists>new. txs (snd (runBillingTick demo_gen T0 code_db)) = txs code_db @ new \<and>
     (\<forall>w \<in> set (wallets (snd (runBillingTick demo_gen T0 code_db))).
        w_balance w = ledger_sum (w_id w) (txs code_db) + ledger_sum (w_id w) new)"
proof -
  have "step code_db (snd (runBillingTick demo_gen T0 code_db))"
    by (rule step.request [OF demo_fresh, of BillingTick]) (simp_all add: demo_env_def)
  from ledger_append_only [OF reachable.next_state [OF reachable.start this] code_db_ok] show ?thesis .
qed

end
