(* ===== verification/Email.thy ===== *)
theory Email
  imports BillingTick Admin "HOL-Library.Multiset"
begin

text \<open>
  \<^verbatim>\<open>packages/provisioning/src/email\<close>: which audit rows become mails, the queue and its dispatcher.
  The id of an audit row is its position in the table. The mail service behind \<^verbatim>\<open>fetch\<close> is a
  parameter. The queue tables are a record of their own; the last field logs the requests sent to the
  service. The text of a mail is left out, apart from the escaping of HTML; the recipient is the address
  of the user. \<^verbatim>\<open>new Date()\<close> and \<^verbatim>\<open>NOW()\<close> of one run are its argument \<open>now\<close>.
\<close>

section \<open>Classification\<close>

datatype email_category = CatInstant | CatDigest | CatSkip

definition USER_ACTIONS :: "(string \<times> email_category) list" where
  "USER_ACTIONS = [(''code.redeem'', CatInstant), (''ip.buy'', CatInstant), (''ipblock.buy'', CatInstant),
     (''ip.release'', CatInstant), (''ipblock.release'', CatInstant), (''tunnel.delete'', CatInstant),
     (''tunnel.tier_change'', CatInstant), (''ip.assign'', CatDigest), (''ip.unassign'', CatDigest),
     (''ipblock.assign'', CatDigest), (''ipblock.unassign'', CatDigest)]"

definition ADMIN_TO_USER_ACTIONS :: "(string \<times> email_category) list" where
  "ADMIN_TO_USER_ACTIONS = [(''ip.admin_grant'', CatInstant), (''ipblock.admin_grant'', CatInstant), (''wallet.adjust'', CatInstant)]"

definition SYSTEM_USER_FACING_ACTIONS :: "(string \<times> email_category) list" where
  "SYSTEM_USER_FACING_ACTIONS = [(''billing.suspend'', CatInstant), (''billing.cancel'', CatInstant)]"

definition UUID_RE :: "string \<Rightarrow> bool" where
  "UUID_RE s \<longleftrightarrow> length s = 36 \<and> (\<forall>c \<in> set s. is_hex c \<or> c = CHR ''-'')"

text \<open>A field of the metadata that is a string and looks like an id; a date is never one.\<close>

definition id_of :: "json option \<Rightarrow> string option" where
  "id_of j = (case j of Some (JStr v) \<Rightarrow> if UUID_RE v then Some v else None | _ \<Rightarrow> None)"

fun first_some :: "'a option list \<Rightarrow> 'a option" where
  "first_some [] = None"
| "first_some (x # xs) = (case x of Some v \<Rightarrow> Some v | None \<Rightarrow> first_some xs)"

definition extractTargetUser :: "audit_log \<Rightarrow> uuid option" where
  "extractTargetUser row = (let md = map_of (a_metadata row) in
     first_some [id_of (md ''userId''), id_of (md ''user_id''), id_of (md ''targetUserId''), id_of (md ''target_user_id''),
       id_of (md ''grantedTo''),
       id_of (if a_resource_type row = Some ''user'' then map_option JStr (a_resource_id row) else None)])"

definition classifyAudit :: "audit_log \<Rightarrow> (uuid \<times> email_category) option" where
  "classifyAudit row =
     (case (a_actor_type row, a_actor_id row) of
        (ActUser, Some u) \<Rightarrow>
          if u = [] then None
          else (case map_of USER_ACTIONS (a_action row) of
            None \<Rightarrow> Some (u, CatDigest) | Some CatSkip \<Rightarrow> None | Some c \<Rightarrow> Some (u, c))
      | (ActAdmin, _) \<Rightarrow> (case map_of ADMIN_TO_USER_ACTIONS (a_action row) of
            None \<Rightarrow> None | Some c \<Rightarrow> map_option (\<lambda>u. (u, c)) (extractTargetUser row))
      | (ActSystem, _) \<Rightarrow> (case map_of SYSTEM_USER_FACING_ACTIONS (a_action row) of
            None \<Rightarrow> None | Some c \<Rightarrow> map_option (\<lambda>u. (u, c)) (extractTargetUser row))
      | _ \<Rightarrow> None)"

section \<open>The queue\<close>

record email_event =
  ee_id :: uuid
  ee_user_id :: uuid
  ee_audit_log_id :: nat
  ee_action :: string
  ee_category :: email_category
  ee_scheduled_for :: ms
  ee_sent_at :: "ms option"
  ee_retry_count :: int
  ee_last_error :: "string option"

record user_email_prefs =
  up_user_id :: uuid
  up_enabled :: bool
  up_digest_interval_min :: int

record mail =
  m_to :: string
  m_events :: "uuid list"

record mailq =
  mq_events :: "email_event list"
  mq_last_scanned :: "ms option"
  mq_prefs :: "user_email_prefs list"
  mq_outbox :: "mail list"

definition DIGEST_INTERVAL_MIN_DEFAULT :: int where
  "DIGEST_INTERVAL_MIN_DEFAULT = 15"

text \<open>\<^verbatim>\<open>Math.ceil(now / ms) * ms\<close> for a positive interval.\<close>

definition nextDigestBoundary :: "ms \<Rightarrow> int \<Rightarrow> ms" where
  "nextDigestBoundary now intervalMin = (let step = intervalMin * 60000 in - ((- now) div step) * step)"

definition getIntervalMin :: "mailq \<Rightarrow> uuid \<Rightarrow> int" where
  "getIntervalMin q u = (case find (\<lambda>p. up_user_id p = u) (mq_prefs q) of
       None \<Rightarrow> DIGEST_INTERVAL_MIN_DEFAULT
     | Some p \<Rightarrow> if \<not> up_enabled p then -1 else up_digest_interval_min p)"

definition audit_page :: "ms \<Rightarrow> db \<Rightarrow> (nat \<times> audit_log) list" where
  "audit_page since s = take 500 (sort_key (\<lambda>r. a_created_at (snd r))
     (filter (\<lambda>r. since < a_created_at (snd r)) (zip [0 ..< length (audits s)] (audits s))))"

record EnqueueResult =
  er_scanned :: nat
  er_enqueued :: nat
  er_skipped :: nat

definition new_event :: "uuid_gen \<Rightarrow> ms \<Rightarrow> nat \<times> audit_log \<Rightarrow> uuid \<times> email_category \<Rightarrow> mailq \<Rightarrow> email_event" where
  "new_event g now r c q = \<lparr>ee_id = g (length (mq_events q)), ee_user_id = fst c, ee_audit_log_id = fst r, ee_action = a_action (snd r),
     ee_category = snd c,
     ee_scheduled_for = (if snd c = CatInstant then now else nextDigestBoundary now (getIntervalMin q (fst c))),
     ee_sent_at = None, ee_retry_count = 0, ee_last_error = None\<rparr>"

text \<open>
  The loop. The unique index on \<^verbatim>\<open>audit_log_id\<close> makes a second insert of the same row a no-op; an
  unknown user violates a foreign key, and that error ends the run.
\<close>

fun enqueue_rows :: "uuid_gen \<Rightarrow> ms \<Rightarrow> db \<Rightarrow> (nat \<times> audit_log) list \<Rightarrow> EnqueueResult \<Rightarrow> mailq \<Rightarrow> (error + EnqueueResult) \<times> mailq" where
  "enqueue_rows g now s [] res q = (Inr res, q)"
| "enqueue_rows g now s (r # rs) res q =
     (case classifyAudit (snd r) of
        None \<Rightarrow> enqueue_rows g now s rs (res\<lparr>er_skipped := er_skipped res + 1\<rparr>) q
      | Some c \<Rightarrow>
          if getIntervalMin q (fst c) < 0 then enqueue_rows g now s rs (res\<lparr>er_skipped := er_skipped res + 1\<rparr>) q
          else if fst r \<in> set (map ee_audit_log_id (mq_events q)) then enqueue_rows g now s rs res q
          else if fst c \<notin> set (map u_id (users s)) then (Inl (JsError ''violates foreign key constraint''), q)
          else enqueue_rows g now s rs (res\<lparr>er_enqueued := er_enqueued res + 1\<rparr>)
                 (q\<lparr>mq_events := mq_events q @ [new_event g now r c q]\<rparr>))"

definition enqueueEmailEvents :: "uuid_gen \<Rightarrow> ms \<Rightarrow> db \<Rightarrow> mailq \<Rightarrow> (error + EnqueueResult) \<times> mailq" where
  "enqueueEmailEvents g now s q =
     (let since = (case mq_last_scanned q of None \<Rightarrow> 0 | Some t \<Rightarrow> t);
          rows = audit_page since s;
          res = \<lparr>er_scanned = length rows, er_enqueued = 0, er_skipped = 0\<rparr>
      in if rows = [] then (Inr res, q)
         else (case enqueue_rows g now s rows res q of
             (Inl e, q1) \<Rightarrow> (Inl e, q1)
           | (Inr res1, q1) \<Rightarrow> (Inr res1, q1\<lparr>mq_last_scanned := map_option (\<lambda>_. a_created_at (snd (last rows))) (mq_last_scanned q1)\<rparr>)))"

section \<open>Sending\<close>

datatype fetch_result = NetworkFailure string | Response int string

datatype send_error = EmailSendError (es_status: int) (es_body: string) | OtherError string

definition send_message :: "send_error \<Rightarrow> string" where
  "send_message e = (case e of EmailSendError st b \<Rightarrow> ''Resend HTTP '' @ show_int st @ '': '' @ take 300 b | OtherError m \<Rightarrow> m)"

record mail_env =
  me_configured :: bool
  me_dryRun :: bool
  me_fetch :: "mail \<Rightarrow> fetch_result"

definition sendEmail :: "mail_env \<Rightarrow> mail \<Rightarrow> mailq \<Rightarrow> (send_error + unit) \<times> mailq" where
  "sendEmail env m q =
     (if \<not> me_configured env then (Inl (EmailSendError 0 ''RESEND_API_KEY or EMAIL_FROM not set''), q)
      else (case me_fetch env m of
          NetworkFailure msg \<Rightarrow> Inl (OtherError msg)
        | Response st body \<Rightarrow> if 200 \<le> st \<and> st \<le> 299 then Inr () else Inl (EmailSendError st body),
        q\<lparr>mq_outbox := mq_outbox q @ [m]\<rparr>))"

definition isTransientEmailError :: "send_error \<Rightarrow> bool" where
  "isTransientEmailError e = (case e of OtherError _ \<Rightarrow> True | EmailSendError st _ \<Rightarrow> st = 429 \<or> st \<ge> 500)"

definition MAX_RETRIES :: int where
  "MAX_RETRIES = 5"

definition BATCH_SIZE :: nat where
  "BATCH_SIZE = 100"

record DispatchResult =
  di_processed :: nat
  di_sent :: nat
  di_failed :: nat
  di_dryRun :: bool
  di_errors :: "string list"

definition set_events :: "uuid list \<Rightarrow> (email_event \<Rightarrow> email_event) \<Rightarrow> mailq \<Rightarrow> mailq" where
  "set_events ids f q = q\<lparr>mq_events := upd_where (\<lambda>e. ee_id e \<in> set ids) f (mq_events q)\<rparr>"

definition recipient :: "db \<Rightarrow> email_event \<Rightarrow> string option" where
  "recipient s e = map_option u_email (find (\<lambda>u. u_id u = ee_user_id e) (users s))"

text \<open>\<open>events\<close> is not empty; the first one gives the recipient and decides whether to retry.\<close>

definition sendOne :: "mail_env \<Rightarrow> ms \<Rightarrow> string \<times> email_event list \<Rightarrow> DispatchResult \<Rightarrow> mailq \<Rightarrow> (send_error + DispatchResult) \<times> mailq" where
  "sendOne env now job res q =
     (let to = fst job; events = snd job; ids = map ee_id events; n = length events;
          (r, q1) = (if me_dryRun env then (Inr (), q) else sendEmail env \<lparr>m_to = to, m_events = ids\<rparr> q)
      in case r of
           Inr _ \<Rightarrow> (Inr (res\<lparr>di_sent := di_sent res + n\<rparr>),
             set_events ids (\<lambda>e. e\<lparr>ee_sent_at := Some now, ee_last_error := None\<rparr>) q1)
         | Inl err \<Rightarrow>
             let msg = take 500 (send_message err); c = ee_retry_count (hd events);
                 q2 = (if isTransientEmailError err \<and> c + 1 < MAX_RETRIES
                   then set_events ids (\<lambda>e. e\<lparr>ee_retry_count := ee_retry_count e + 1,
                     ee_scheduled_for := now + min (js_shl 1 c) 16 * 60000, ee_last_error := Some msg\<rparr>) q1
                   else set_events ids (\<lambda>e. e\<lparr>ee_sent_at := Some now, ee_last_error := Some msg\<rparr>) q1);
                 res1 = res\<lparr>di_failed := di_failed res + n, di_errors := di_errors res @ [to @ '': '' @ msg]\<rparr>
             in ((case err of EmailSendError st _ \<Rightarrow> if st = 0 then Inl err else Inr res1 | _ \<Rightarrow> Inr res1), q2))"

fun send_all :: "mail_env \<Rightarrow> ms \<Rightarrow> (string \<times> email_event list) list \<Rightarrow> DispatchResult \<Rightarrow> mailq \<Rightarrow> (send_error + DispatchResult) \<times> mailq" where
  "send_all env now [] res q = (Inr res, q)"
| "send_all env now (j # js) res q = (case sendOne env now j res q of
     (Inl e, q1) \<Rightarrow> (Inl e, q1) | (Inr res1, q1) \<Rightarrow> send_all env now js res1 q1)"

definition pending :: "ms \<Rightarrow> email_event \<Rightarrow> bool" where
  "pending now e \<longleftrightarrow> ee_sent_at e = None \<and> ee_scheduled_for e \<le> now \<and> ee_retry_count e < MAX_RETRIES"

text \<open>The batch, joined with the users' addresses.\<close>

definition batch :: "ms \<Rightarrow> db \<Rightarrow> mailq \<Rightarrow> (string \<times> email_event) list" where
  "batch now s q = take BATCH_SIZE (sort_key (\<lambda>(_, e). ee_scheduled_for e)
     (List.map_filter (\<lambda>e. map_option (\<lambda>a. (a, e)) (recipient s e)) (filter (pending now) (mq_events q))))"

text \<open>A \<^verbatim>\<open>Map\<close> keeps its keys in insertion order: one digest per user, in order of first appearance.\<close>

definition jobs :: "(string \<times> email_event) list \<Rightarrow> (string \<times> email_event list) list" where
  "jobs rows =
     (let digests = filter (\<lambda>(_, e). ee_category e = CatDigest) rows
      in map (\<lambda>(a, e). (a, [e])) (filter (\<lambda>(_, e). ee_category e = CatInstant) rows) @
         map (\<lambda>u. let items = filter (\<lambda>(_, e). ee_user_id e = u) digests in (fst (hd items), map snd items))
           (uniq (map (\<lambda>(_, e). ee_user_id e) digests)))"

definition dispatchEmailEvents :: "mail_env \<Rightarrow> ms \<Rightarrow> db \<Rightarrow> mailq \<Rightarrow> (send_error + DispatchResult) \<times> mailq" where
  "dispatchEmailEvents env now s q =
     (let rows = batch now s q; res = \<lparr>di_processed = length rows, di_sent = 0, di_failed = 0, di_dryRun = me_dryRun env, di_errors = []\<rparr>
      in send_all env now (jobs rows) res q)"

definition escape_char :: "char \<Rightarrow> string" where
  "escape_char c = (if c = CHR ''&'' then ''&amp;'' else if c = CHR ''<'' then ''&lt;'' else if c = CHR ''>'' then ''&gt;''
     else if c = CHR 0x22 then ''&quot;'' else if c = CHR 0x27 then ''&#39;'' else [c])"

definition escapeHtml :: "string \<Rightarrow> string" where
  "escapeHtml s = concat (map escape_char s)"

section \<open>Billing events and mails\<close>

text \<open>The audit rows an operation appends are all left out of the mails.\<close>

definition quiet :: "db \<Rightarrow> db \<Rightarrow> bool" where
  "quiet s t \<longleftrightarrow> (\<exists>new. audits t = audits s @ new \<and> (\<forall>a \<in> set new. classifyAudit a = None))"

lemma quiet_refl [simp]: "quiet s s"
  by (simp add: quiet_def)

lemma quiet_trans: "quiet s t \<Longrightarrow> quiet t u \<Longrightarrow> quiet s u"
  by (fastforce simp: quiet_def)

lemma quiet_cong: "audits t' = audits t \<Longrightarrow> quiet s t' = quiet s t"
  by (simp add: quiet_def)

lemma quiet_stmt [simp]:
  "quiet s (notify u ty sv md t) = quiet s t" "quiet s (set_ips P1 f1 t) = quiet s t" "quiet s (set_tunnels P2 f2 t) = quiet s t"
  "quiet s (set_blocks P3 f3 t) = quiet s t" "quiet s (gateway_drop g t) = quiet s t" "quiet s (pool_give p n t) = quiet s t"
  "quiet s (send c t) = quiet s t" "quiet s (wallet_debit wid b n t) = quiet s t" "quiet s (t\<lparr>txs := xs\<rparr>) = quiet s t"
  by (rule quiet_cong; simp add: stmt_defs)+

lemma quiet_system:
  assumes "quiet s t" "rt \<noteq> Some ''user''"
    and "\<And>k. k \<in> set (map fst md) \<Longrightarrow> k \<notin> {''userId'', ''user_id'', ''targetUserId'', ''target_user_id'', ''grantedTo''}"
  shows "quiet s (audit now ActSystem None act rt ri md t)"
proof -
  have "map_of md k = None" if "k \<in> {''userId'', ''user_id'', ''targetUserId'', ''target_user_id'', ''grantedTo''}" for k
    using assms(3) that by (auto simp: map_of_eq_None_iff)
  then have "classifyAudit \<lparr>a_actor_type = ActSystem, a_actor_id = None, a_action = act, a_resource_type = rt,
      a_resource_id = ri, a_metadata = md, a_created_at = now\<rparr> = None"
    using assms(2) by (simp add: classifyAudit_def extractTargetUser_def id_of_def split: option.splits)
  then show ?thesis using assms(1) by (auto simp: quiet_def audit_def)
qed

lemma quiet_renewal [simp]: "renewal g w u typ price desc key t = Some t' \<Longrightarrow> quiet s t' = quiet s t"
  by (auto simp: renewal_def insert_tx_once_def Let_def split: if_splits)

lemma quiet_push [simp]: "quiet s (push_tunnel_cidrs tid t) = quiet s t" "quiet s (fold push_tunnel_cidrs ts t) = quiet s t"
proof -
  show p: "quiet s (push_tunnel_cidrs tid t) = quiet s t" for tid t
    by (auto simp: push_tunnel_cidrs_def split: option.splits)
  show "quiet s (fold push_tunnel_cidrs ts t) = quiet s t" by (induction ts arbitrary: t) (auto simp: p)
qed

lemma quiet_begin: "(\<And>r s'. body s = Inr (r, s') \<Longrightarrow> quiet s s') \<Longrightarrow> quiet s (snd (sql_begin body s))"
  by (rule sql_begin_inv) auto

lemma quiet_charges:
  "quiet s (snd (chargeOneTunnel g now k s))" "quiet s (snd (chargeOnePublicIp g now a s))" "quiet s (snd (chargeOneIpBlock g now k s))"
  unfolding chargeOneTunnel_def chargeOnePublicIp_def chargeOneIpBlock_def
  by (rule quiet_begin; auto simp: suspend_tunnel_def suspendPublicIp_def suspend_block_def Let_def intro!: quiet_system
      split: option.splits if_splits sum.splits)+

lemma quiet_cancels:
  "quiet s (snd (forceCancelTunnel now k s))" "quiet s (snd (forceCancelPublicIp now a s))" "quiet s (snd (forceCancelIpBlock now k s))"
  by (auto simp: forceCancelTunnel_def forceCancelPublicIp_def forceCancelIpBlock_def Let_def intro!: quiet_system split: option.splits)

lemma quiet_loop: "(\<And>x t. quiet t (snd (f x t))) \<Longrightarrow> quiet s (snd (for_try f xs s))"
  by (rule for_try_inv [where I = "quiet s"]) (auto intro: quiet_trans)

text \<open>
  No customer gets a mail about a suspension or a cancellation: every audit row a billing tick
  writes is dropped by the classifier, because it names the customer neither in its metadata nor as its
  resource, although the classifier lists these actions as mails to send at once.
\<close>

theorem billing_never_mailed:
  "\<exists>new. audits (snd (runBillingTick g now s)) = audits s @ new \<and> (\<forall>a \<in> set new. classifyAudit a = None)"
proof -
  have "quiet s (snd (tick_tunnels g now s))" "quiet s (snd (tick_ips g now s))" "quiet s (snd (tick_blocks g now s))"
    "quiet s (snd (cancel_tunnels now s))" "quiet s (snd (cancel_ips now s))" "quiet s (snd (cancel_blocks now s))" for s
    by (simp_all add: tick_tunnels_def tick_ips_def tick_blocks_def cancel_tunnels_def cancel_ips_def cancel_blocks_def Let_def case_prod_beta
        quiet_loop quiet_charges quiet_cancels)
  then have "quiet s (snd (runBillingTick g now s))" unfolding snd_runBillingTick by (meson quiet_trans)
  then show ?thesis by (simp add: quiet_def)
qed

section \<open>Queueing\<close>

lemma nextDigestBoundary_bounds:
  assumes "0 < intervalMin"
  shows "now \<le> nextDigestBoundary now intervalMin" "nextDigestBoundary now intervalMin < now + intervalMin * 60000"
    "intervalMin * 60000 dvd nextDigestBoundary now intervalMin"
proof -
  let ?m = "intervalMin * 60000"
  have m: "0 < ?m" using assms by simp
  have e: "- now = ?m * ((- now) div ?m) + (- now) mod ?m" by simp
  have b: "0 \<le> (- now) mod ?m" "(- now) mod ?m < ?m" using m by simp_all
  have "nextDigestBoundary now intervalMin = now + (- now) mod ?m"
    using e by (simp add: nextDigestBoundary_def Let_def algebra_simps)
  with b show "now \<le> nextDigestBoundary now intervalMin" "nextDigestBoundary now intervalMin < now + ?m" by simp_all
  show "?m dvd nextDigestBoundary now intervalMin" by (simp add: nextDigestBoundary_def Let_def)
qed

definition queued :: "mailq \<Rightarrow> nat set" where
  "queued q = set (map ee_audit_log_id (mq_events q))"

text \<open>
  Whom an audit row is to be mailed to, and how, written without the tables of the classifier: a
  customer's own action goes to that customer, at once when it moved money or destroyed something
  and else with the next digest; three actions of an administrator and the two billing actions go
  at once to the customer the row names, if it names one.
\<close>

definition uuid_shaped :: "string \<Rightarrow> bool" where
  "uuid_shaped v \<longleftrightarrow> length v = 36 \<and> (\<forall>c \<in> set v. is_hex c \<or> c = CHR ''-'')"

definition names_user :: "audit_log \<Rightarrow> uuid \<Rightarrow> bool" where
  "names_user a u \<longleftrightarrow> uuid_shaped u \<and>
     (\<exists>pre post. map (map_of (a_metadata a)) [''userId'', ''user_id'', ''targetUserId'', ''target_user_id'', ''grantedTo''] @
          [if a_resource_type a = Some ''user'' then map_option JStr (a_resource_id a) else None] =
        pre @ Some (JStr u) # post \<and> (\<forall>v. Some (JStr v) \<in> set pre \<longrightarrow> \<not> uuid_shaped v))"

definition addressed_to :: "audit_log \<Rightarrow> uuid \<Rightarrow> email_category \<Rightarrow> bool" where
  "addressed_to a u cat \<longleftrightarrow>
     a_actor_type a = ActUser \<and> a_actor_id a = Some u \<and> u \<noteq> '''' \<and>
       cat = (if a_action a \<in> {''code.redeem'', ''ip.buy'', ''ipblock.buy'', ''ip.release'', ''ipblock.release'',
                ''tunnel.delete'', ''tunnel.tier_change''} then CatInstant else CatDigest) \<or>
     a_actor_type a = ActAdmin \<and> a_action a \<in> {''ip.admin_grant'', ''ipblock.admin_grant'', ''wallet.adjust''} \<and>
       names_user a u \<and> cat = CatInstant \<or>
     a_actor_type a = ActSystem \<and> a_action a \<in> {''billing.suspend'', ''billing.cancel''} \<and>
       names_user a u \<and> cat = CatInstant"

definition takes_mail :: "mailq \<Rightarrow> uuid \<Rightarrow> bool" where
  "takes_mail q u \<longleftrightarrow> (\<forall>p. find (\<lambda>p. up_user_id p = u) (mq_prefs q) = Some p \<longrightarrow> up_enabled p)"

text \<open>At once, or at the first multiple of the user's digest interval (15 minutes unless chosen) from now on.\<close>

definition due_at :: "ms \<Rightarrow> mailq \<Rightarrow> uuid \<Rightarrow> email_category \<Rightarrow> ms \<Rightarrow> bool" where
  "due_at now q u cat t \<longleftrightarrow>
     (let step = 60000 * (case find (\<lambda>p. up_user_id p = u) (mq_prefs q) of None \<Rightarrow> 15 | Some p \<Rightarrow> up_digest_interval_min p)
      in if cat = CatInstant then t = now else step dvd t \<and> now \<le> t \<and> t < now + step)"

lemma first_some_iff:
  "first_some (map id_of xs) = Some u \<longleftrightarrow> UUID_RE u \<and>
     (\<exists>pre post. xs = pre @ Some (JStr u) # post \<and> (\<forall>v. Some (JStr v) \<in> set pre \<longrightarrow> \<not> UUID_RE v))"
proof (induction xs)
  case (Cons x xs)
  have id_Some: "id_of j = Some w \<longleftrightarrow> j = Some (JStr w) \<and> UUID_RE w" for j w
    by (auto simp: id_of_def split: option.splits json.splits if_splits)
  show ?case
  proof (cases "id_of x")
    case (Some w)
    then have x: "x = Some (JStr w)" "UUID_RE w" by (simp_all add: id_Some)
    have "(\<exists>pre post. x # xs = pre @ Some (JStr u) # post \<and> (\<forall>v. Some (JStr v) \<in> set pre \<longrightarrow> \<not> UUID_RE v)) \<longleftrightarrow> u = w"
    proof
      assume "\<exists>pre post. x # xs = pre @ Some (JStr u) # post \<and> (\<forall>v. Some (JStr v) \<in> set pre \<longrightarrow> \<not> UUID_RE v)"
      then obtain pre post where e: "x # xs = pre @ Some (JStr u) # post" "\<forall>v. Some (JStr v) \<in> set pre \<longrightarrow> \<not> UUID_RE v" by blast
      show "u = w" using e x by (cases pre) auto
    next
      assume "u = w"
      then show "\<exists>pre post. x # xs = pre @ Some (JStr u) # post \<and> (\<forall>v. Some (JStr v) \<in> set pre \<longrightarrow> \<not> UUID_RE v)"
        by (intro exI [of _ "[]"] exI [of _ xs]) (simp add: x)
    qed
    then show ?thesis using Some x by auto
  next
    case None
    have "(\<exists>pre post. x # xs = pre @ Some (JStr u) # post \<and> (\<forall>v. Some (JStr v) \<in> set pre \<longrightarrow> \<not> UUID_RE v)) \<longleftrightarrow>
        (\<exists>pre post. xs = pre @ Some (JStr u) # post \<and> (\<forall>v. Some (JStr v) \<in> set pre \<longrightarrow> \<not> UUID_RE v))" if u: "UUID_RE u"
    proof
      assume "\<exists>pre post. x # xs = pre @ Some (JStr u) # post \<and> (\<forall>v. Some (JStr v) \<in> set pre \<longrightarrow> \<not> UUID_RE v)"
      then obtain pre post where e: "x # xs = pre @ Some (JStr u) # post" "\<forall>v. Some (JStr v) \<in> set pre \<longrightarrow> \<not> UUID_RE v" by blast
      have "pre \<noteq> []" using e(1) None u by (auto simp: id_of_def)
      then obtain p pre' where p: "pre = p # pre'" by (cases pre) auto
      show "\<exists>pre post. xs = pre @ Some (JStr u) # post \<and> (\<forall>v. Some (JStr v) \<in> set pre \<longrightarrow> \<not> UUID_RE v)"
        using e unfolding p by (intro exI [of _ pre'] exI [of _ post]) simp
    next
      assume "\<exists>pre post. xs = pre @ Some (JStr u) # post \<and> (\<forall>v. Some (JStr v) \<in> set pre \<longrightarrow> \<not> UUID_RE v)"
      then obtain pre post where e: "xs = pre @ Some (JStr u) # post" "\<forall>v. Some (JStr v) \<in> set pre \<longrightarrow> \<not> UUID_RE v" by blast
      have "\<not> UUID_RE v" if "x = Some (JStr v)" for v using None that by (auto simp: id_of_def)
      with e show "\<exists>pre post. x # xs = pre @ Some (JStr u) # post \<and> (\<forall>v. Some (JStr v) \<in> set pre \<longrightarrow> \<not> UUID_RE v)"
        by (intro exI [of _ "x # pre"] exI [of _ post]) auto
    qed
    then show ?thesis using None Cons.IH by auto
  qed
qed simp

lemma extractTargetUser_iff: "extractTargetUser a = Some u \<longleftrightarrow> names_user a u"
proof -
  have e: "extractTargetUser a = first_some (map id_of (map (map_of (a_metadata a))
      [''userId'', ''user_id'', ''targetUserId'', ''target_user_id'', ''grantedTo''] @
      [if a_resource_type a = Some ''user'' then map_option JStr (a_resource_id a) else None]))"
    by (simp add: extractTargetUser_def Let_def)
  have s: "UUID_RE = uuid_shaped" by (intro ext) (simp add: UUID_RE_def uuid_shaped_def)
  show ?thesis unfolding e first_some_iff names_user_def s ..
qed

lemma classifyAudit_iff: "classifyAudit a = Some (u, cat) \<longleftrightarrow> addressed_to a u cat"
proof (cases "a_actor_type a")
  case ActUser
  show ?thesis
    by (cases "a_actor_id a") (auto simp: classifyAudit_def addressed_to_def ActUser USER_ACTIONS_def)
next
  case ActAdmin
  show ?thesis
    by (auto simp: classifyAudit_def addressed_to_def ActAdmin ADMIN_TO_USER_ACTIONS_def extractTargetUser_iff)
next
  case ActSystem
  show ?thesis
    by (auto simp: classifyAudit_def addressed_to_def ActSystem SYSTEM_USER_FACING_ACTIONS_def extractTargetUser_iff)
qed (simp add: classifyAudit_def addressed_to_def)

text \<open>Whether an audit row is to be mailed to anybody.\<close>

definition wanted :: "mailq \<Rightarrow> audit_log \<Rightarrow> bool" where
  "wanted q a \<longleftrightarrow> (case classifyAudit a of None \<Rightarrow> False | Some c \<Rightarrow> 0 \<le> getIntervalMin q (fst c))"

definition users_known :: "db \<Rightarrow> bool" where
  "users_known s \<longleftrightarrow> (\<forall>a \<in> set (audits s). \<forall>c. classifyAudit a = Some c \<longrightarrow> fst c \<in> set (map u_id (users s)))"

lemma getIntervalMin_events [simp]: "getIntervalMin (q\<lparr>mq_events := es\<rparr>) u = getIntervalMin q u"
  by (simp add: getIntervalMin_def)

lemma wanted_events [simp]: "wanted (q\<lparr>mq_events := es\<rparr>) a = wanted q a"
  by (simp add: wanted_def split: option.splits)

text \<open>What a row of the queue says of the audit row behind it.\<close>

definition queued_for :: "ms \<Rightarrow> mailq \<Rightarrow> (nat \<times> audit_log) list \<Rightarrow> email_event \<Rightarrow> bool" where
  "queued_for now q rows e \<longleftrightarrow> (\<exists>a. (ee_audit_log_id e, a) \<in> set rows \<and> wanted q a \<and>
     classifyAudit a = Some (ee_user_id e, ee_category e) \<and> ee_action e = a_action a \<and>
     ee_scheduled_for e = (if ee_category e = CatInstant then now else nextDigestBoundary now (getIntervalMin q (ee_user_id e))) \<and>
     ee_sent_at e = None \<and> ee_retry_count e = 0 \<and> ee_last_error e = None)"

lemma enqueue_rows_spec:
  assumes "\<forall>r \<in> set rows. \<forall>c. classifyAudit (snd r) = Some c \<longrightarrow> fst c \<in> set (map u_id (users s))"
    and "distinct (map ee_audit_log_id (mq_events q))"
  shows "\<exists>res' new. enqueue_rows g now s rows res q = (Inr res', q\<lparr>mq_events := mq_events q @ new\<rparr>) \<and>
     er_scanned res' = er_scanned res \<and> er_enqueued res' = er_enqueued res + length new \<and>
     er_skipped res' = er_skipped res + length (filter (\<lambda>r. \<not> wanted q (snd r)) rows) \<and>
     distinct (map ee_audit_log_id (mq_events q @ new)) \<and>
     queued (q\<lparr>mq_events := mq_events q @ new\<rparr>) = queued q \<union> {k. \<exists>a. (k, a) \<in> set rows \<and> wanted q a} \<and>
     (\<forall>e \<in> set new. queued_for now q rows e)"
  using assms
proof (induction rows arbitrary: q res)
  case Nil
  then show ?case by (simp add: queued_def)
next
  case (Cons r rs)
  obtain k a where r: "r = (k, a)" by (cases r)
  have "\<forall>r \<in> set rs. \<forall>c. classifyAudit (snd r) = Some c \<longrightarrow> fst c \<in> set (map u_id (users s))" using Cons.prems(1) by simp
  note IH = Cons.IH [OF this]
  have more: "queued_for now q (r # rs) e" if "queued_for now q rs e" for e
    using that by (auto simp: queued_for_def)
  show ?case
  proof (cases "wanted q a")
    case False
    then have "enqueue_rows g now s (r # rs) res q = enqueue_rows g now s rs (res\<lparr>er_skipped := er_skipped res + 1\<rparr>) q"
      by (auto simp: r wanted_def split: option.splits)
    moreover have "{k. \<exists>a. (k, a) \<in> set (r # rs) \<and> wanted q a} = {k. \<exists>a. (k, a) \<in> set rs \<and> wanted q a}" using False by (auto simp: r)
    moreover obtain res' new where "enqueue_rows g now s rs (res\<lparr>er_skipped := er_skipped res + 1\<rparr>) q = (Inr res', q\<lparr>mq_events := mq_events q @ new\<rparr>)"
      "er_scanned res' = er_scanned res" "er_enqueued res' = er_enqueued res + length new"
      "er_skipped res' = er_skipped res + 1 + length (filter (\<lambda>r. \<not> wanted q (snd r)) rs)"
      "distinct (map ee_audit_log_id (mq_events q @ new))"
      "queued (q\<lparr>mq_events := mq_events q @ new\<rparr>) = queued q \<union> {k. \<exists>a. (k, a) \<in> set rs \<and> wanted q a}"
      "\<forall>e \<in> set new. queued_for now q rs e"
      using IH [OF Cons.prems(2), of "res\<lparr>er_skipped := er_skipped res + 1\<rparr>"] by auto
    ultimately show ?thesis
      by (intro exI [of _ res'] exI [of _ new] conjI) (use False more in \<open>simp_all only: r\<close>, simp_all)
  next
    case True
    then obtain c where c: "classifyAudit a = Some c" "0 \<le> getIntervalMin q (fst c)" by (auto simp: wanted_def split: option.splits)
    have rows: "{k. \<exists>a. (k, a) \<in> set (r # rs) \<and> wanted q a} = insert k {k. \<exists>a. (k, a) \<in> set rs \<and> wanted q a}" using True by (auto simp: r)
    show ?thesis
    proof (cases "k \<in> queued q")
      case in_q: True
      then have "enqueue_rows g now s (r # rs) res q = enqueue_rows g now s rs res q"
        using c by (simp add: r queued_def)
      moreover have "queued q \<union> {k. \<exists>a. (k, a) \<in> set (r # rs) \<and> wanted q a} = queued q \<union> {k. \<exists>a. (k, a) \<in> set rs \<and> wanted q a}"
        unfolding rows using in_q by blast
      moreover obtain res' new where "enqueue_rows g now s rs res q = (Inr res', q\<lparr>mq_events := mq_events q @ new\<rparr>)"
        "er_scanned res' = er_scanned res" "er_enqueued res' = er_enqueued res + length new"
        "er_skipped res' = er_skipped res + length (filter (\<lambda>r. \<not> wanted q (snd r)) rs)"
        "distinct (map ee_audit_log_id (mq_events q @ new))"
        "queued (q\<lparr>mq_events := mq_events q @ new\<rparr>) = queued q \<union> {k. \<exists>a. (k, a) \<in> set rs \<and> wanted q a}"
        "\<forall>e \<in> set new. queued_for now q rs e"
        using IH [OF Cons.prems(2), of res] by auto
      ultimately show ?thesis
        by (intro exI [of _ res'] exI [of _ new] conjI) (use True more in \<open>simp_all only: r\<close>, simp_all)
    next
      case new: False
      let ?e = "new_event g now r c q"
      let ?q = "q\<lparr>mq_events := mq_events q @ [?e]\<rparr>"
      let ?res = "res\<lparr>er_enqueued := er_enqueued res + 1\<rparr>"
      have u: "fst c \<in> set (map u_id (users s))" using Cons.prems(1) c(1) unfolding r by (metis list.set_intros(1) snd_conv)
      have run: "enqueue_rows g now s (r # rs) res q = enqueue_rows g now s rs ?res ?q"
        using c u new by (simp add: r queued_def)
      have d: "distinct (map ee_audit_log_id (mq_events ?q))"
        using Cons.prems(2) new by (simp add: queued_def new_event_def r)
      have same: "queued_for now ?q rs e = queued_for now q rs e" for e by (simp add: queued_for_def)
      have w: "(\<lambda>r. \<not> wanted ?q (snd r)) = (\<lambda>r. \<not> wanted q (snd r))" by simp
      obtain res' es where e: "enqueue_rows g now s rs ?res ?q = (Inr res', ?q\<lparr>mq_events := mq_events ?q @ es\<rparr>)"
        "er_scanned res' = er_scanned ?res" "er_enqueued res' = er_enqueued ?res + length es"
        "er_skipped res' = er_skipped ?res + length (filter (\<lambda>r. \<not> wanted q (snd r)) rs)"
        "distinct (map ee_audit_log_id (mq_events ?q @ es))"
        "queued (?q\<lparr>mq_events := mq_events ?q @ es\<rparr>) = queued ?q \<union> {k. \<exists>a. (k, a) \<in> set rs \<and> wanted ?q a}"
        "\<forall>e \<in> set es. queued_for now q rs e"
        using IH [OF d, of ?res] unfolding same w by auto
      have q: "queued ?q = insert k (queued q)" by (auto simp: queued_def new_event_def r)
      have ev: "queued_for now q (r # rs) ?e"
        using True c by (auto simp: queued_for_def new_event_def r)
      show ?thesis
        by (rule exI [of _ res'], rule exI [of _ "?e # es"]) (use e run q rows ev more True in \<open>auto simp: r\<close>)
    qed
  qed
qed

lemma audit_page_set:
  assumes "(k, a) \<in> set (audit_page since s)"
  shows "k < length (audits s)" "a = audits s ! k" "since < a_created_at a"
  using in_set_takeD [OF assms [unfolded audit_page_def]] by (auto simp: in_set_zip)

text \<open>A page that is not full holds every newer row.\<close>

lemma audit_page_complete:
  assumes "length (audit_page since s) < 500" "k < length (audits s)" "since < a_created_at (audits s ! k)"
  shows "(k, audits s ! k) \<in> set (audit_page since s)"
proof -
  let ?L = "filter (\<lambda>r. since < a_created_at (snd r)) (zip [0 ..< length (audits s)] (audits s))"
  have "length ?L < 500" using assms(1) by (simp add: audit_page_def)
  then have "audit_page since s = sort_key (\<lambda>r. a_created_at (snd r)) ?L" by (simp add: audit_page_def)
  moreover have "(k, audits s ! k) \<in> set ?L" using assms(2,3) by (force simp: in_set_zip)
  ultimately show ?thesis by simp
qed

lemma page_known:
  assumes "users_known s"
  shows "\<forall>r \<in> set (audit_page since s). \<forall>c. classifyAudit (snd r) = Some c \<longrightarrow> fst c \<in> set (map u_id (users s))"
proof (intro ballI allI impI)
  fix r c
  assume r: "r \<in> set (audit_page since s)" and c: "classifyAudit (snd r) = Some c"
  obtain k a where "r = (k, a)" by (cases r)
  with r audit_page_set [of k a since s] have "snd r \<in> set (audits s)" by simp
  with assms c show "fst c \<in> set (map u_id (users s))" by (simp only: users_known_def)
qed

lemma enqueue_spec:
  assumes known: "users_known s" and d: "distinct (map ee_audit_log_id (mq_events q))" and since: "mq_last_scanned q = Some since"
  obtains res new where "enqueueEmailEvents g now s q = (Inr res, q\<lparr>mq_events := mq_events q @ new,
      mq_last_scanned := Some (if audit_page since s = [] then since else a_created_at (snd (last (audit_page since s))))\<rparr>)"
    "er_scanned res = length (audit_page since s)" "er_enqueued res = length new"
    "er_skipped res = length (filter (\<lambda>r. \<not> wanted q (snd r)) (audit_page since s))"
    "distinct (map ee_audit_log_id (mq_events q @ new))"
    "set (map ee_audit_log_id (mq_events q @ new)) = queued q \<union> {k. \<exists>a. (k, a) \<in> set (audit_page since s) \<and> wanted q a}"
    "\<forall>e \<in> set new. queued_for now q (audit_page since s) e"
proof (cases "audit_page since s = []")
  case True
  then have "enqueueEmailEvents g now s q = (Inr \<lparr>er_scanned = 0, er_enqueued = 0, er_skipped = 0\<rparr>, q\<lparr>mq_events := mq_events q @ [], mq_last_scanned := Some since\<rparr>)"
    using since by (simp add: enqueueEmailEvents_def)
  with True d show thesis
    by (intro that [of "\<lparr>er_scanned = 0, er_enqueued = 0, er_skipped = 0\<rparr>" "[]"]) (simp_all add: queued_def)
next
  case False
  let ?rows = "audit_page since s"
  let ?res = "\<lparr>er_scanned = length ?rows, er_enqueued = 0, er_skipped = 0\<rparr>"
  obtain res new where e: "enqueue_rows g now s ?rows ?res q = (Inr res, q\<lparr>mq_events := mq_events q @ new\<rparr>)"
    "er_scanned res = er_scanned ?res" "er_enqueued res = er_enqueued ?res + length new"
    "er_skipped res = er_skipped ?res + length (filter (\<lambda>r. \<not> wanted q (snd r)) ?rows)"
    "distinct (map ee_audit_log_id (mq_events q @ new))"
    "queued (q\<lparr>mq_events := mq_events q @ new\<rparr>) = queued q \<union> {k. \<exists>a. (k, a) \<in> set ?rows \<and> wanted q a}"
    "\<forall>e \<in> set new. queued_for now q ?rows e"
    using enqueue_rows_spec [OF page_known [OF known, of since] d, of g now ?res] by blast
  have "enqueueEmailEvents g now s q = (Inr res, q\<lparr>mq_events := mq_events q @ new, mq_last_scanned := Some (a_created_at (snd (List.last ?rows)))\<rparr>)"
    using e(1) since False by (simp add: enqueueEmailEvents_def Let_def)
  with False e show thesis by (intro that [of res new]) (simp_all add: queued_def)
qed

text \<open>The page: the oldest rows newer than the checkpoint, at most 500, in order of time.\<close>

lemma take_sort_key_rest:
  assumes "x \<in> set xs" "x \<notin> set (take n (sort_key f xs))" "y \<in> set (take n (sort_key f xs))"
  shows "f y \<le> (f x :: 'k :: linorder)"
proof -
  let ?ys = "sort_key f xs"
  have "x \<in> set (take n ?ys @ drop n ?ys)" using assms(1) by simp
  with assms(2) have "x \<in> set (drop n ?ys)" by (simp only: set_append) simp
  moreover have "sorted (map f (take n ?ys @ drop n ?ys))" by simp
  ultimately show ?thesis using assms(3) unfolding map_append sorted_append by simp
qed

definition page_of :: "ms \<Rightarrow> db \<Rightarrow> (nat \<times> audit_log) list \<Rightarrow> bool" where
  "page_of since s page \<longleftrightarrow>
     (\<forall>(k, a) \<in> set page. k < length (audits s) \<and> a = audits s ! k \<and> since < a_created_at a) \<and>
     distinct (map fst page) \<and> sorted (map (\<lambda>(k, a). a_created_at a) page) \<and>
     length page = min 500 (length (filter (\<lambda>a. since < a_created_at a) (audits s))) \<and>
     (\<forall>k < length (audits s). since < a_created_at (audits s ! k) \<and> k \<notin> fst ` set page \<longrightarrow>
        length page = 500 \<and> (\<forall>(j, b) \<in> set page. a_created_at b \<le> a_created_at (audits s ! k)))"

lemma audit_page_page: "page_of since s (audit_page since s)"
proof -
  let ?z = "zip [0 ..< length (audits s)] (audits s)"
  let ?L = "filter (\<lambda>r. since < a_created_at (snd r)) ?z"
  let ?S = "sort_key (\<lambda>r. a_created_at (snd r)) ?L"
  have d: "distinct (map fst ?S)"
  proof -
    have "distinct (map fst ?L)" by (rule distinct_map_filter) (simp add: map_fst_zip_take)
    moreover have "mset (map fst ?S) = mset (map fst ?L)" by simp
    ultimately show ?thesis using mset_eq_imp_distinct_iff by blast
  qed
  have len: "length ?L = length (filter (\<lambda>a. since < a_created_at a) (audits s))"
  proof -
    have "map snd (filter (\<lambda>r. P (snd r)) z) = filter P (map snd z)" for P and z :: "(nat \<times> audit_log) list"
      by (induction z) auto
    then have "map snd ?L = filter (\<lambda>a. since < a_created_at a) (map snd ?z)" .
    also have "map snd ?z = audits s" by simp
    finally show ?thesis by (metis length_map)
  qed
  have rows: "(\<forall>(k, a) \<in> set (audit_page since s). k < length (audits s) \<and> a = audits s ! k \<and> since < a_created_at a)"
    using audit_page_set by blast
  have dist: "distinct (map fst (audit_page since s))"
    unfolding audit_page_def take_map [symmetric] using d by (rule distinct_take)
  have sort: "sorted (map (\<lambda>(k, a). a_created_at a) (audit_page since s))"
    unfolding audit_page_def case_prod_unfold take_map [symmetric] by (intro sorted_wrt_take) simp
  have size: "length (audit_page since s) = min 500 (length (filter (\<lambda>a. since < a_created_at a) (audits s)))"
    by (simp add: audit_page_def len [symmetric])
  have rest: "length (audit_page since s) = 500 \<and> (\<forall>(j, b) \<in> set (audit_page since s). a_created_at b \<le> a_created_at (audits s ! k))"
    if k: "k < length (audits s)" "since < a_created_at (audits s ! k)" "k \<notin> fst ` set (audit_page since s)" for k
  proof -
    have out: "(k, audits s ! k) \<notin> set (audit_page since s)" using k(3) by force
    then have "\<not> length (audit_page since s) < 500" using audit_page_complete [OF _ k(1,2)] by blast
    moreover have "length (audit_page since s) \<le> 500" by (simp add: audit_page_def)
    moreover have "(k, audits s ! k) \<in> set ?L" using k(1,2) by (force simp: in_set_zip)
    then have "a_created_at (snd y) \<le> a_created_at (snd (k, audits s ! k))" if "y \<in> set (audit_page since s)" for y
      using take_sort_key_rest [of "(k, audits s ! k)" ?L 500 "\<lambda>r. a_created_at (snd r)" y] out that
      unfolding audit_page_def by blast
    ultimately show ?thesis by force
  qed
  show ?thesis unfolding page_of_def using rows dist sort size rest by blast
qed

lemma wanted_iff:
  assumes "\<forall>p \<in> set (mq_prefs q). 5 \<le> up_digest_interval_min p"
  shows "wanted q a \<longleftrightarrow> (\<exists>u cat. addressed_to a u cat \<and> takes_mail q u)"
proof -
  have i: "0 \<le> getIntervalMin q u \<longleftrightarrow> takes_mail q u" for u
  proof (cases "find (\<lambda>p. up_user_id p = u) (mq_prefs q)")
    case None
    then show ?thesis by (simp add: getIntervalMin_def takes_mail_def DIGEST_INTERVAL_MIN_DEFAULT_def)
  next
    case (Some p)
    with assms find_SomeD(1) [OF Some] show ?thesis by (auto simp: getIntervalMin_def takes_mail_def)
  qed
  show ?thesis
    unfolding classifyAudit_iff [symmetric] by (auto simp: wanted_def i split: option.splits)
qed

lemma queued_for_spec:
  assumes prefs: "\<forall>p \<in> set (mq_prefs q). 5 \<le> up_digest_interval_min p" and e: "queued_for now q rows e"
  shows "\<exists>a. (ee_audit_log_id e, a) \<in> set rows \<and> addressed_to a (ee_user_id e) (ee_category e) \<and>
     takes_mail q (ee_user_id e) \<and> ee_action e = a_action a \<and>
     due_at now q (ee_user_id e) (ee_category e) (ee_scheduled_for e) \<and>
     ee_sent_at e = None \<and> ee_retry_count e = 0 \<and> ee_last_error e = None"
proof -
  let ?u = "ee_user_id e"
  from e obtain a where a: "(ee_audit_log_id e, a) \<in> set rows" "wanted q a" "classifyAudit a = Some (?u, ee_category e)"
      "ee_action e = a_action a" "ee_sent_at e = None" "ee_retry_count e = 0" "ee_last_error e = None"
    and t: "ee_scheduled_for e = (if ee_category e = CatInstant then now else nextDigestBoundary now (getIntervalMin q ?u))"
    by (auto simp: queued_for_def)
  have i: "0 \<le> getIntervalMin q ?u" using a(2,3) by (simp add: wanted_def)
  have m: "takes_mail q ?u" and
    step: "getIntervalMin q ?u = (case find (\<lambda>p. up_user_id p = ?u) (mq_prefs q) of None \<Rightarrow> 15 | Some p \<Rightarrow> up_digest_interval_min p)"
    using i by (auto simp: getIntervalMin_def takes_mail_def DIGEST_INTERVAL_MIN_DEFAULT_def split: option.splits if_splits)
  have pos: "0 < getIntervalMin q ?u"
    unfolding step using prefs by (fastforce dest: find_SomeD split: option.splits)
  have "due_at now q ?u (ee_category e) (ee_scheduled_for e)"
    unfolding due_at_def Let_def step [symmetric] t
    using nextDigestBoundary_bounds [OF pos, of now] by (auto simp: mult.commute)
  with a m show ?thesis unfolding classifyAudit_iff by blast
qed

text \<open>
  C30. A run of the enqueuer scans the page of the at most 500 oldest audit rows newer than the
  checkpoint. It adds one unsent row to the queue for each row of the page that is addressed to a
  customer who takes mail and is not queued yet: for that customer, with that action and category,
  due at once or at the customer's next digest boundary. No audit row is ever queued twice, the
  counters report the page, the new rows and the rows left out, and the checkpoint moves to the
  last row of the page and never back. Which rows are addressed to whom is \<open>addressed_to\<close>: the
  customer's own actions, and the listed actions of administrators and of the billing that name
  a customer; a row of the billing that names none (as those of the tick) is left out. The
  accounts of the addressed customers exist, and the digest intervals are those the table allows.
\<close>

theorem enqueue_correct:
  assumes known: "\<forall>a \<in> set (audits s). \<forall>u cat. addressed_to a u cat \<longrightarrow> u \<in> u_id ` set (users s)"
    and prefs: "\<forall>p \<in> set (mq_prefs q). 5 \<le> up_digest_interval_min p"
    and d: "distinct (map ee_audit_log_id (mq_events q))" and since: "mq_last_scanned q = Some since"
  shows "\<exists>res new page. page_of since s page \<and>
     enqueueEmailEvents g now s q = (Inr res, q\<lparr>mq_events := mq_events q @ new,
       mq_last_scanned := Some (if page = [] then since else a_created_at (snd (last page)))\<rparr>) \<and>
     res = \<lparr>er_scanned = length page, er_enqueued = length new,
       er_skipped = length (filter (\<lambda>(k, a). \<not> (\<exists>u cat. addressed_to a u cat \<and> takes_mail q u)) page)\<rparr> \<and>
     distinct (map ee_audit_log_id (mq_events q @ new)) \<and>
     (\<forall>(k, a) \<in> set page. (\<exists>u cat. addressed_to a u cat \<and> takes_mail q u) \<longrightarrow>
        k \<in> ee_audit_log_id ` set (mq_events q @ new)) \<and>
     (\<forall>e \<in> set new. \<exists>a. (ee_audit_log_id e, a) \<in> set page \<and> addressed_to a (ee_user_id e) (ee_category e) \<and>
        takes_mail q (ee_user_id e) \<and> ee_action e = a_action a \<and>
        due_at now q (ee_user_id e) (ee_category e) (ee_scheduled_for e) \<and>
        ee_sent_at e = None \<and> ee_retry_count e = 0 \<and> ee_last_error e = None) \<and>
     since \<le> (if page = [] then since else a_created_at (snd (last page)))"
proof -
  have "users_known s"
    using known unfolding classifyAudit_iff [symmetric] by (fastforce simp: users_known_def)
  then show ?thesis
  proof (rule enqueue_spec [OF _ d since, where g = g and now = now])
    fix res new
    let ?page = "audit_page since s"
    assume e: "enqueueEmailEvents g now s q = (Inr res, q\<lparr>mq_events := mq_events q @ new,
        mq_last_scanned := Some (if ?page = [] then since else a_created_at (snd (last ?page)))\<rparr>)"
      "er_scanned res = length ?page" "er_enqueued res = length new"
      "er_skipped res = length (filter (\<lambda>r. \<not> wanted q (snd r)) ?page)"
      "distinct (map ee_audit_log_id (mq_events q @ new))"
      "set (map ee_audit_log_id (mq_events q @ new)) = queued q \<union> {k. \<exists>a. (k, a) \<in> set ?page \<and> wanted q a}"
      "\<forall>e \<in> set new. queued_for now q ?page e"
    note w = wanted_iff [OF prefs]
    have res: "res = \<lparr>er_scanned = length ?page, er_enqueued = length new,
       er_skipped = length (filter (\<lambda>(k, a). \<not> (\<exists>u cat. addressed_to a u cat \<and> takes_mail q u)) ?page)\<rparr>"
      using e(2-4) by (cases res) (simp add: w case_prod_unfold)
    have all: "\<forall>(k, a) \<in> set ?page. (\<exists>u cat. addressed_to a u cat \<and> takes_mail q u) \<longrightarrow>
        k \<in> ee_audit_log_id ` set (mq_events q @ new)"
      using e(6) unfolding w set_map by blast
    have ck: "since \<le> (if ?page = [] then since else a_created_at (snd (last ?page)))"
      using audit_page_set(3) [of "fst (last ?page)" "snd (last ?page)" since s] by (auto dest: last_in_set)
    show ?thesis
      by (intro exI [of _ res] exI [of _ new] exI [of _ ?page] conjI audit_page_page e(1,5) res all ck ballI
          queued_for_spec [OF prefs e(7) [rule_format]])
  qed
qed

fun enqueue_runs :: "(uuid_gen \<times> ms \<times> db) list \<Rightarrow> mailq \<Rightarrow> mailq" where
  "enqueue_runs [] q = q"
| "enqueue_runs ((g, now, s) # rs) q = enqueue_runs rs (snd (enqueueEmailEvents g now s q))"

lemma enqueue_rows_queued:
  "queued (snd (enqueue_rows g now s rows res q)) \<subseteq> queued q \<union> fst ` set rows \<and>
   mq_last_scanned (snd (enqueue_rows g now s rows res q)) = mq_last_scanned q"
proof (induction rows arbitrary: res q)
  case (Cons r rs)
  have new: "queued (q\<lparr>mq_events := mq_events q @ [new_event g now r c q]\<rparr>) = insert (fst r) (queued q)" for c
    by (simp add: queued_def new_event_def)
  show ?case
  proof (cases "classifyAudit (snd r)")
    case None
    then show ?thesis using Cons.IH [of "res\<lparr>er_skipped := er_skipped res + 1\<rparr>" q] by auto
  next
    case (Some c)
    show ?thesis
      using Cons.IH [of "res\<lparr>er_skipped := er_skipped res + 1\<rparr>" q] Cons.IH [of res q] new [of c]
        Cons.IH [of "res\<lparr>er_enqueued := er_enqueued res + 1\<rparr>" "q\<lparr>mq_events := mq_events q @ [new_event g now r c q]\<rparr>"]
      by (auto simp: Some)
  qed
qed simp

text \<open>
  What the checkpoint has passed is lost: a row stamped at or before the checkpoint that is not
  queued, because it shares its time with the last row of a full page or because its transaction was
  committed after the scan, is not queued by any later run.
\<close>

theorem enqueue_misses_late_rows:
  assumes "mq_last_scanned q = Some t" "a_created_at a \<le> t" "k \<notin> queued q"
    and "\<forall>(g, now, s) \<in> set runs. k < length (audits s) \<and> audits s ! k = a"
  shows "k \<notin> queued (enqueue_runs runs q)"
  using assms
proof (induction runs arbitrary: q t)
  case (Cons r runs)
  obtain g now s where r: "r = (g, now, s)" by (cases r)
  let ?rows = "audit_page t s"
  let ?q' = "snd (enqueueEmailEvents g now s q)"
  have notin: "k \<notin> fst ` set ?rows"
  proof
    assume "k \<in> fst ` set ?rows"
    then obtain b where "(k, b) \<in> set ?rows" by force
    from audit_page_set(2,3) [OF this] Cons.prems(2,4) show False by (simp add: r)
  qed
  have "k \<notin> queued ?q' \<and> (\<exists>t'. mq_last_scanned ?q' = Some t' \<and> t \<le> t')"
  proof (cases "?rows = []")
    case True
    then show ?thesis using Cons.prems by (simp add: enqueueEmailEvents_def Let_def)
  next
    case False
    let ?res = "\<lparr>er_scanned = length ?rows, er_enqueued = 0, er_skipped = 0\<rparr>"
    obtain x q1 where x: "enqueue_rows g now s ?rows ?res q = (x, q1)" by fastforce
    have q1: "k \<notin> queued q1" "mq_last_scanned q1 = Some t"
      using enqueue_rows_queued [of g now s ?rows ?res q] Cons.prems notin by (auto simp: x)
    have "t < a_created_at (snd (last ?rows))"
      using audit_page_set(3) [of "fst (last ?rows)" "snd (last ?rows)" t s] last_in_set [OF False] by simp
    then show ?thesis
      using False x q1 Cons.prems(1) by (cases x) (auto simp: enqueueEmailEvents_def Let_def queued_def)
  qed
  then obtain t' where t': "mq_last_scanned ?q' = Some t'" "t \<le> t'" "k \<notin> queued ?q'" by blast
  from Cons.IH [OF t'(1) _ t'(3)] t'(2) Cons.prems(2,4) show ?case by (simp add: r)
qed simp

section \<open>Dispatching\<close>

lemma mset_groups:
  assumes "distinct ks" "set (map f xs) \<subseteq> set ks"
  shows "mset (concat (map (\<lambda>k. filter (\<lambda>x. f x = k) xs) ks)) = mset xs"
  using assms
proof (induction ks arbitrary: xs)
  case (Cons k ks)
  let ?ys = "filter (\<lambda>x. f x \<noteq> k) xs"
  have "map (\<lambda>j. filter (\<lambda>x. f x = j) xs) ks = map (\<lambda>j. filter (\<lambda>x. f x = j) ?ys) ks"
    using Cons.prems(1) by (auto intro!: filter_cong)
  moreover have "mset (concat (map (\<lambda>j. filter (\<lambda>x. f x = j) ?ys) ks)) = mset ?ys" using Cons.prems by (intro Cons.IH) auto
  ultimately have "mset (concat (map (\<lambda>j. filter (\<lambda>x. f x = j) xs) ks)) = mset ?ys" by (simp only:)
  moreover have "mset xs = filter_mset (\<lambda>x. f x = k) (mset xs) + filter_mset (\<lambda>x. f x \<noteq> k) (mset xs)"
    by (rule multiset_partition)
  ultimately show ?case by simp
qed simp

definition job_events :: "(string \<times> email_event list) list \<Rightarrow> email_event list" where
  "job_events js = concat (map snd js)"

text \<open>Grouping loses no event and repeats none.\<close>

lemma mset_jobs:
  assumes "\<forall>(_, e) \<in> set rows. ee_category e \<noteq> CatSkip"
  shows "mset (job_events (jobs rows)) = mset (map snd rows)"
proof -
  define I where "I = filter (\<lambda>(_, e). ee_category e = CatInstant) rows"
  define D where "D = filter (\<lambda>(_, e). ee_category e = CatDigest) rows"
  let ?f = "\<lambda>(_ :: string, e). ee_user_id e"
  let ?g = "\<lambda>u. filter (\<lambda>x. ?f x = u) D"
  have 1: "concat (map (snd \<circ> (\<lambda>(a, e). (a, [e]))) I) = map snd I" by (induction I) auto
  have 2: "job_events (jobs rows) = map snd I @ map snd (concat (map ?g (uniq (map ?f D))))"
    using 1 unfolding job_events_def jobs_def Let_def I_def [symmetric] D_def [symmetric] by (simp add: map_concat comp_def case_prod_unfold)
  have 3: "mset (concat (map ?g (uniq (map ?f D)))) = mset D" by (rule mset_groups) auto
  have 4: "mset rows = mset I + mset D"
    using assms unfolding I_def D_def
  proof (induction rows)
    case (Cons r rs)
    obtain a e where r: "r = (a, e)" by (cases r)
    have "mset rs = mset (filter (\<lambda>(_, e). ee_category e = CatInstant) rs) + mset (filter (\<lambda>(_, e). ee_category e = CatDigest) rs)"
      using Cons by simp
    then show ?case using Cons.prems by (cases "ee_category e") (simp_all add: r)
  qed simp
  show ?thesis unfolding 2 mset_append mset_map 3 4 image_mset_union ..
qed

lemma jobs_owner:
  assumes "(a, es) \<in> set (jobs rows)"
  shows "es \<noteq> []" "\<exists>e \<in> set es. (a, e) \<in> set rows \<and> (\<forall>e' \<in> set es. ee_user_id e' = ee_user_id e)"
    "set es \<subseteq> snd ` set rows"
proof -
  let ?D = "filter (\<lambda>(_, e). ee_category e = CatDigest) rows"
  let ?g = "\<lambda>u. filter (\<lambda>(_, e). ee_user_id e = u) ?D"
  consider e where "es = [e]" "(a, e) \<in> set rows"
    | u where "u \<in> set (map (\<lambda>(_, e). ee_user_id e) ?D)" "a = fst (hd (?g u))" "es = map snd (?g u)"
    using assms by (auto simp: jobs_def Let_def)
  then have "es \<noteq> [] \<and> (\<exists>e \<in> set es. (a, e) \<in> set rows \<and> (\<forall>e' \<in> set es. ee_user_id e' = ee_user_id e)) \<and> set es \<subseteq> snd ` set rows"
  proof cases
    case 1
    then show ?thesis by force
  next
    case 2
    then have ne: "?g u \<noteq> []" by (auto simp: filter_empty_conv)
    then have "hd (?g u) \<in> set (?g u)" by (rule hd_in_set)
    moreover have "set (?g u) \<subseteq> set rows" "\<forall>x \<in> set (?g u). ee_user_id (snd x) = u" by auto
    ultimately show ?thesis unfolding 2(2,3) using ne
      by (intro conjI bexI [of _ "snd (hd (?g u))"]) auto
  qed
  then show "es \<noteq> []" "\<exists>e \<in> set es. (a, e) \<in> set rows \<and> (\<forall>e' \<in> set es. ee_user_id e' = ee_user_id e)"
    "set es \<subseteq> snd ` set rows" by blast+
qed

lemma set_events_sel [simp]:
  "mq_events (set_events ids f q) = upd_where (\<lambda>e. ee_id e \<in> set ids) f (mq_events q)"
  "mq_outbox (set_events ids f q) = mq_outbox q" "mq_last_scanned (set_events ids f q) = mq_last_scanned q"
  "mq_prefs (set_events ids f q) = mq_prefs q"
  by (simp_all add: set_events_def)

text \<open>What a dispatch may do, whatever the service answers.\<close>

definition job_mail :: "string \<times> email_event list \<Rightarrow> mail" where
  "job_mail j = \<lparr>m_to = fst j, m_events = map ee_id (snd j)\<rparr>"

lemma sendOne_frame:
  assumes "sendOne env now j res q = (r, q')"
  shows "\<exists>f. mq_events q' = upd_where (\<lambda>e. ee_id e \<in> ee_id ` set (snd j)) f (mq_events q) \<and> (\<forall>e. ee_id (f e) = ee_id e)"
    "mq_outbox q' = mq_outbox q \<or> mq_outbox q' = mq_outbox q @ [job_mail j]"
  using assms
  by (auto simp: sendOne_def sendEmail_def job_mail_def Let_def split: if_splits sum.splits fetch_result.splits prod.splits)

lemma send_all_frame:
  "\<exists>ms. mq_outbox (snd (send_all env now js res q)) = mq_outbox q @ ms \<and> set ms \<subseteq> job_mail ` set js"
  "map ee_id (mq_events (snd (send_all env now js res q))) = map ee_id (mq_events q)"
  "e \<in> set (mq_events q) \<Longrightarrow> ee_id e \<notin> ee_id ` set (job_events js) \<Longrightarrow> e \<in> set (mq_events (snd (send_all env now js res q)))"
proof -
  have "(\<exists>ms. mq_outbox (snd (send_all env now js res q)) = mq_outbox q @ ms \<and> set ms \<subseteq> job_mail ` set js) \<and>
    map ee_id (mq_events (snd (send_all env now js res q))) = map ee_id (mq_events q) \<and>
    (\<forall>e \<in> set (mq_events q). ee_id e \<notin> ee_id ` set (job_events js) \<longrightarrow> e \<in> set (mq_events (snd (send_all env now js res q))))"
  proof (induction js arbitrary: res q)
    case (Cons j js)
    obtain r q1 where 1: "sendOne env now j res q = (r, q1)" by fastforce
    obtain f where f: "mq_events q1 = upd_where (\<lambda>e. ee_id e \<in> ee_id ` set (snd j)) f (mq_events q)" "\<forall>e. ee_id (f e) = ee_id e"
      using sendOne_frame(1) [OF 1] by blast
    obtain m where m: "mq_outbox q1 = mq_outbox q @ m" "set m \<subseteq> {job_mail j}" using sendOne_frame(2) [OF 1] by (elim disjE) simp_all
    have ids: "map ee_id (mq_events q1) = map ee_id (mq_events q)" using f by (simp add: map_upd_where_same)
    have keep: "e \<in> set (mq_events q1)" if "e \<in> set (mq_events q)" "ee_id e \<notin> ee_id ` set (snd j)" for e
      using that unfolding f(1) in_set_upd_where by metis
    show ?case
    proof (cases r)
      case (Inl err)
      then show ?thesis using m ids keep by (auto simp: 1 job_events_def)
    next
      case (Inr res1)
      obtain ms where ms: "mq_outbox (snd (send_all env now js res1 q1)) = mq_outbox q1 @ ms" "set ms \<subseteq> job_mail ` set js"
        using Cons.IH by blast
      have "mq_outbox (snd (send_all env now js res1 q1)) = mq_outbox q @ (m @ ms) \<and> set (m @ ms) \<subseteq> job_mail ` set (j # js)"
        using m ms by auto
      then show ?thesis using Cons.IH [of res1 q1] ids keep by (auto simp: 1 Inr job_events_def image_Un)
    qed
  qed (simp add: job_events_def)
  then show "\<exists>ms. mq_outbox (snd (send_all env now js res q)) = mq_outbox q @ ms \<and> set ms \<subseteq> job_mail ` set js"
    "map ee_id (mq_events (snd (send_all env now js res q))) = map ee_id (mq_events q)"
    "e \<in> set (mq_events q) \<Longrightarrow> ee_id e \<notin> ee_id ` set (job_events js) \<Longrightarrow> e \<in> set (mq_events (snd (send_all env now js res q)))"
    by blast+
qed

lemma batch_mem:
  assumes "(a, e) \<in> set (batch now s q)"
  shows "e \<in> set (mq_events q)" "pending now e" "recipient s e = Some a"
  using in_set_takeD [OF assms [unfolded batch_def]] by (auto simp: map_filter_def)

lemma job_events_batch:
  assumes "e \<in> set (job_events (jobs rows))"
  shows "\<exists>a. (a, e) \<in> set rows"
  using assms jobs_owner(3) by (force simp: job_events_def)

lemma dispatch_events_pending:
  assumes "e \<in> set (job_events (jobs (batch now s q)))"
  shows "e \<in> set (mq_events q)" "pending now e"
  using job_events_batch [OF assms] batch_mem by blast+

text \<open>
  Whatever the mail service answers, a dispatch leaves the rows that are not due as they are: one that
  was sent, that is scheduled for later or whose retries are used up neither changes nor appears in a
  mail, and no row is lost. A mail goes to the address of the one user whose rows it reports.
\<close>

theorem dispatch_only_due:
  assumes "distinct (map ee_id (mq_events q))"
  shows "\<exists>ms. mq_outbox (snd (dispatchEmailEvents env now s q)) = mq_outbox q @ ms \<and>
     map ee_id (mq_events (snd (dispatchEmailEvents env now s q))) = map ee_id (mq_events q) \<and>
     (\<forall>e \<in> set (mq_events q). \<not> pending now e \<longrightarrow>
        e \<in> set (mq_events (snd (dispatchEmailEvents env now s q))) \<and> (\<forall>m \<in> set ms. ee_id e \<notin> set (m_events m))) \<and>
     (\<forall>m \<in> set ms. \<exists>u. \<forall>e \<in> set (mq_events q). ee_id e \<in> set (m_events m) \<longrightarrow>
        ee_user_id e = u \<and> recipient s e = Some (m_to m))"
proof -
  let ?js = "jobs (batch now s q)"
  let ?q' = "snd (dispatchEmailEvents env now s q)"
  have q': "\<exists>res. ?q' = snd (send_all env now ?js res q)" by (auto simp: dispatchEmailEvents_def Let_def)
  then obtain ms where ms: "mq_outbox ?q' = mq_outbox q @ ms" "set ms \<subseteq> job_mail ` set ?js" using send_all_frame(1) by metis
  have ids: "map ee_id (mq_events ?q') = map ee_id (mq_events q)" using q' send_all_frame(2) by metis
  have inj: "e = e'" if "e \<in> set (mq_events q)" "e' \<in> set (mq_events q)" "ee_id e = ee_id e'" for e e'
    using assms that by (auto simp: distinct_map dest: inj_onD)
  have idle: "ee_id e \<notin> ee_id ` set (job_events ?js)" if "e \<in> set (mq_events q)" "\<not> pending now e" for e
    using dispatch_events_pending inj that by blast
  have mail: "\<exists>a es. (a, es) \<in> set ?js \<and> m_to m = a \<and> m_events m = map ee_id es" if "m \<in> set ms" for m
    using ms(2) that by (force simp: job_mail_def)
  have 1: "e \<in> set (mq_events ?q') \<and> (\<forall>m \<in> set ms. ee_id e \<notin> set (m_events m))" if "e \<in> set (mq_events q)" "\<not> pending now e" for e
  proof
    show "e \<in> set (mq_events ?q')" using q' send_all_frame(3) [OF that(1) idle [OF that]] by metis
    show "\<forall>m \<in> set ms. ee_id e \<notin> set (m_events m)" using idle [OF that] mail by (fastforce simp: job_events_def)
  qed
  have 2: "\<exists>u. \<forall>e \<in> set (mq_events q). ee_id e \<in> set (m_events m) \<longrightarrow> ee_user_id e = u \<and> recipient s e = Some (m_to m)"
    if m: "m \<in> set ms" for m
  proof -
    obtain es where es: "(m_to m, es) \<in> set ?js" "m_events m = map ee_id es" using mail [OF m] by blast
    obtain e0 where e0: "(m_to m, e0) \<in> set (batch now s q)" "\<forall>e' \<in> set es. ee_user_id e' = ee_user_id e0"
      using jobs_owner(2) [OF es(1)] by blast
    have "ee_user_id e = ee_user_id e0 \<and> recipient s e = Some (m_to m)" if e: "e \<in> set (mq_events q)" "ee_id e \<in> set (m_events m)" for e
    proof -
      obtain e' where e': "e' \<in> set es" "ee_id e = ee_id e'" using e(2) es(2) by auto
      then obtain a where "(a, e') \<in> set (batch now s q)" using jobs_owner(3) [OF es(1)] by auto
      then have "e = e'" using batch_mem(1) inj e(1) e'(2) by blast
      then have u: "ee_user_id e = ee_user_id e0" using e0(2) e'(1) by simp
      then have "recipient s e = recipient s e0" by (simp add: recipient_def)
      with u batch_mem(3) [OF e0(1)] show ?thesis by simp
    qed
    then show ?thesis by blast
  qed
  from ms(1) ids 1 2 show ?thesis by blast
qed

definition accepts_all :: "mail_env \<Rightarrow> bool" where
  "accepts_all env \<longleftrightarrow> me_configured env \<and> \<not> me_dryRun env \<and>
     (\<forall>m. case me_fetch env m of NetworkFailure _ \<Rightarrow> False | Response st _ \<Rightarrow> 200 \<le> st \<and> st \<le> 299)"

definition mark_sent :: "ms \<Rightarrow> email_event \<Rightarrow> email_event" where
  "mark_sent now e = e\<lparr>ee_sent_at := Some now, ee_last_error := None\<rparr>"

lemma sendOne_accepted:
  assumes "accepts_all env"
  shows "sendOne env now j res q = (Inr (res\<lparr>di_sent := di_sent res + length (snd j)\<rparr>),
     q\<lparr>mq_events := upd_where (\<lambda>e. ee_id e \<in> ee_id ` set (snd j)) (mark_sent now) (mq_events q), mq_outbox := mq_outbox q @ [job_mail j]\<rparr>)"
proof -
  from assms have "me_configured env" "\<not> me_dryRun env" by (simp_all add: accepts_all_def)
  moreover from assms obtain st b where "me_fetch env (job_mail j) = Response st b" "200 \<le> st" "st \<le> 299"
    by (cases "me_fetch env (job_mail j)") (auto simp: accepts_all_def dest: spec [of _ "job_mail j"])
  ultimately show ?thesis
    by (simp add: sendOne_def sendEmail_def job_mail_def Let_def set_events_def mark_sent_def [abs_def])
qed

lemma upd_where_mark_sent:
  "upd_where (\<lambda>e. ee_id e \<in> B) (mark_sent now) (upd_where (\<lambda>e. ee_id e \<in> A) (mark_sent now) es) =
   upd_where (\<lambda>e. ee_id e \<in> A \<union> B) (mark_sent now) es"
  by (induction es) (auto simp: mark_sent_def)

lemma send_all_accepted:
  assumes "accepts_all env"
  shows "send_all env now js res q = (Inr (res\<lparr>di_sent := di_sent res + length (job_events js)\<rparr>),
     q\<lparr>mq_events := upd_where (\<lambda>e. ee_id e \<in> ee_id ` set (job_events js)) (mark_sent now) (mq_events q),
       mq_outbox := mq_outbox q @ map job_mail js\<rparr>)"
proof (induction js arbitrary: res q)
  case Nil
  show ?case by (simp add: job_events_def upd_where_none)
next
  case (Cons j js)
  have "ee_id ` set (job_events (j # js)) = ee_id ` set (snd j) \<union> ee_id ` set (job_events js)" by (auto simp: job_events_def)
  then show ?case by (simp add: sendOne_accepted [OF assms] Cons.IH upd_where_mark_sent) (simp add: job_events_def add.assoc)
qed

text \<open>
  C29. When the mail service accepts every mail, a dispatch sends each row of its batch in exactly one
  mail, marks exactly those rows as sent, reports their number, and keeps the order of the table.
\<close>

theorem dispatch_delivers:
  assumes "accepts_all env" "\<forall>e \<in> set (mq_events q). ee_category e \<noteq> CatSkip"
  shows "\<exists>res ms. dispatchEmailEvents env now s q = (Inr res, q\<lparr>mq_outbox := mq_outbox q @ ms,
       mq_events := map (\<lambda>e. if ee_id e \<in> set (map (ee_id \<circ> snd) (batch now s q)) then e\<lparr>ee_sent_at := Some now, ee_last_error := None\<rparr> else e) (mq_events q)\<rparr>) \<and>
     di_sent res = length (batch now s q) \<and> di_processed res = length (batch now s q) \<and> di_failed res = 0 \<and>
     mset (concat (map m_events ms)) = mset (map (ee_id \<circ> snd) (batch now s q))"
proof -
  let ?rows = "batch now s q"
  have "\<forall>(a, e) \<in> set ?rows. ee_category e \<noteq> CatSkip" using assms(2) batch_mem(1) by fastforce
  note m = mset_jobs [OF this]
  have len: "length (job_events (jobs ?rows)) = length ?rows" using m by (metis length_map size_mset)
  have ids: "ee_id ` set (job_events (jobs ?rows)) = set (map (ee_id \<circ> snd) ?rows)"
    using m by (metis image_comp list.set_map set_mset_mset)
  have "concat (map m_events (map job_mail js)) = map ee_id (job_events js)" for js
    by (induction js) (simp_all add: job_mail_def job_events_def)
  then have ms: "mset (concat (map m_events (map job_mail (jobs ?rows)))) = mset (map (ee_id \<circ> snd) ?rows)"
    using m by (metis map_map mset_map)
  show ?thesis
    by (rule exI [of _ "\<lparr>di_processed = length ?rows, di_sent = length ?rows, di_failed = 0, di_dryRun = me_dryRun env, di_errors = []\<rparr>"],
        rule exI [of _ "map job_mail (jobs ?rows)"])
      (use ms in \<open>simp add: dispatchEmailEvents_def Let_def send_all_accepted [OF assms(1)] len ids upd_where_def mark_sent_def\<close>)
qed

definition dispatch_runs :: "(mail_env \<times> ms \<times> db) list \<Rightarrow> mailq \<Rightarrow> mailq" where
  "dispatch_runs runs q = fold (\<lambda>(env, now, s) q. snd (dispatchEmailEvents env now s q)) runs q"

lemma dispatch_keeps_ids: "map ee_id (mq_events (snd (dispatchEmailEvents env now s q))) = map ee_id (mq_events q)"
  by (simp add: dispatchEmailEvents_def Let_def send_all_frame(2))

lemma dispatch_keeps_idle:
  assumes "distinct (map ee_id (mq_events q))" "e \<in> set (mq_events q)" "\<not> pending now e"
  shows "e \<in> set (mq_events (snd (dispatchEmailEvents env now s q)))"
proof -
  have "ee_id e \<notin> ee_id ` set (job_events (jobs (batch now s q)))"
  proof
    assume "ee_id e \<in> ee_id ` set (job_events (jobs (batch now s q)))"
    then obtain e' where e': "e' \<in> set (job_events (jobs (batch now s q)))" "ee_id e = ee_id e'" by auto
    from dispatch_events_pending [OF e'(1)] assms e'(2) have "e = e'" by (auto simp: distinct_map dest: inj_onD)
    with dispatch_events_pending(2) [OF e'(1)] assms(3) show False by simp
  qed
  then show ?thesis using send_all_frame(3) [OF assms(2)] by (simp add: dispatchEmailEvents_def Let_def)
qed

lemma stranded_forever:
  assumes "distinct (map ee_id (mq_events q))" "e \<in> set (mq_events q)" "MAX_RETRIES \<le> ee_retry_count e"
  shows "e \<in> set (mq_events (dispatch_runs runs q))"
  using assms
proof (induction runs arbitrary: q)
  case (Cons r runs)
  obtain env now s where r: "r = (env, now, s)" by (cases r)
  have "\<not> pending now e" using Cons.prems(3) by (simp add: pending_def)
  from dispatch_keeps_idle [OF Cons.prems(1,2) this] Cons.IH dispatch_keeps_ids Cons.prems(1,3)
  show ?case by (simp add: dispatch_runs_def r)
qed (simp add: dispatch_runs_def)

text \<open>
  A digest can strand a row. When a transient failure hits a digest whose first row is fresh, the
  retry count of every row of the digest goes up; a row that had used four of its five tries is then
  neither sent nor given up, and no later run looks at it again.
\<close>

theorem digest_strands_row:
  assumes q: "mq_events q = [e1, e2]" "ee_id e1 \<noteq> ee_id e2" "pending now e1" "pending now e2"
    and digest: "ee_category e1 = CatDigest" "ee_category e2 = CatDigest" "ee_user_id e2 = ee_user_id e1"
    and counts: "0 \<le> ee_retry_count e1" "ee_retry_count e1 < 4" "ee_retry_count e2 = 4" "ee_scheduled_for e1 \<le> ee_scheduled_for e2"
    and user: "recipient s e1 = Some a"
    and fails: "me_configured env" "\<not> me_dryRun env" "\<forall>m. \<exists>body. me_fetch env m = Response 500 body"
  shows "\<exists>e \<in> set (mq_events (dispatch_runs runs (snd (dispatchEmailEvents env now s q)))).
    ee_id e = ee_id e2 \<and> ee_sent_at e = None \<and> (\<forall>t. \<not> pending t e)"
proof -
  let ?q' = "snd (dispatchEmailEvents env now s q)"
  have r2: "recipient s e2 = Some a" using user digest(3) by (simp add: recipient_def)
  have b: "batch now s q = [(a, e1), (a, e2)]"
    using q user r2 counts(4) by (simp add: batch_def BATCH_SIZE_def map_filter_def)
  have j: "jobs (batch now s q) = [(a, [e1, e2])]" using digest by (simp add: b jobs_def Let_def)
  obtain body where f: "me_fetch env \<lparr>m_to = a, m_events = [ee_id e1, ee_id e2]\<rparr> = Response 500 body" using fails(3) by blast
  define x where "x = now + min (js_shl 1 (ee_retry_count e1)) 16 * 60000"
  define msg where "msg = Some (take 500 (send_message (EmailSendError 500 body)))"
  have "e2\<lparr>ee_retry_count := 5, ee_scheduled_for := x, ee_last_error := msg\<rparr> \<in> set (mq_events ?q')"
    using q(1,2) counts fails(1,2) f
    by (simp add: dispatchEmailEvents_def Let_def j sendOne_def sendEmail_def isTransientEmailError_def MAX_RETRIES_def x_def msg_def)
  moreover have "distinct (map ee_id (mq_events ?q'))" using q(1,2) by (simp add: dispatch_keeps_ids)
  ultimately have "e2\<lparr>ee_retry_count := 5, ee_scheduled_for := x, ee_last_error := msg\<rparr> \<in> set (mq_events (dispatch_runs runs ?q'))"
    by (intro stranded_forever) (auto simp: MAX_RETRIES_def)
  moreover have "ee_sent_at e2 = None" using q(4) by (simp add: pending_def)
  ultimately show ?thesis by (intro bexI) (auto simp: pending_def MAX_RETRIES_def)
qed

section \<open>Escaping\<close>

text \<open>
  The escaped text holds no character that opens or closes a tag or an attribute value.
\<close>

lemma escapeHtml_safe: "set (escapeHtml t) \<inter> {CHR ''<'', CHR ''>'', CHR 0x22, CHR 0x27} = {}"
  by (auto simp: escapeHtml_def escape_char_def split: if_splits)

section \<open>Witnesses\<close>

definition mail_row :: "string \<Rightarrow> ms \<Rightarrow> audit_log" where
  "mail_row act t = \<lparr>a_actor_type = ActUser, a_actor_id = Some ''u1'', a_action = act, a_resource_type = None,
     a_resource_id = None, a_metadata = [], a_created_at = t\<rparr>"

definition mail_db :: db where
  "mail_db = demo_db\<lparr>audits := [mail_row ''ip.buy'' T0, mail_row ''ip.assign'' (T0 + 1)]\<rparr>"

definition empty_mailq :: mailq where
  "empty_mailq = \<lparr>mq_events = [], mq_last_scanned = Some 0, mq_prefs = [], mq_outbox = []\<rparr>"

text \<open>The purchase is mailed at once, the assignment with the next digest.\<close>

theorem enqueue_correct_witness:
  "\<exists>res new. enqueueEmailEvents demo_gen (T0 + 2) mail_db empty_mailq = (Inr res, empty_mailq\<lparr>mq_events := new,
       mq_last_scanned := Some (T0 + 1)\<rparr>) \<and> er_scanned res = 2 \<and> {0, 1} \<subseteq> ee_audit_log_id ` set new \<and>
     (\<forall>e \<in> set new. ee_user_id e = ''u1'' \<and> (ee_audit_log_id e = 0 \<longrightarrow> ee_scheduled_for e = T0 + 2))"
proof -
  have rows: "addressed_to (mail_row ''ip.buy'' t) u c \<longleftrightarrow> u = ''u1'' \<and> c = CatInstant"
    "addressed_to (mail_row ''ip.assign'' t) u c \<longleftrightarrow> u = ''u1'' \<and> c = CatDigest" for t u c
    by (auto simp: addressed_to_def mail_row_def)
  have known: "\<forall>a \<in> set (audits mail_db). \<forall>u cat. addressed_to a u cat \<longrightarrow> u \<in> u_id ` set (users mail_db)"
    by (auto simp: mail_db_def rows demo_db_def)
  have q: "\<forall>p \<in> set (mq_prefs empty_mailq). 5 \<le> up_digest_interval_min p"
    "distinct (map ee_audit_log_id (mq_events empty_mailq))" "mq_last_scanned empty_mailq = Some 0"
    by (simp_all add: empty_mailq_def)
  have a: "audits mail_db = [mail_row ''ip.buy'' T0, mail_row ''ip.assign'' (T0 + 1)]" by (simp add: mail_db_def)
  have t: "a_created_at (mail_row x t) = t" for x t by (simp add: mail_row_def)
  have page: "page = [(0, mail_row ''ip.buy'' T0), (1, mail_row ''ip.assign'' (T0 + 1))]" if p: "page_of 0 mail_db page" for page
  proof -
    from p have "length page = 2" by (simp add: page_of_def a t)
    then obtain k x l y where e: "page = [(k, x), (l, y)]" by (auto simp: numeral_2_eq_2 length_Suc_conv)
    from p have f: "k < 2" "l < 2" "k \<noteq> l" "x = audits mail_db ! k" "y = audits mail_db ! l" "a_created_at x \<le> a_created_at y"
      by (auto simp: page_of_def e a)
    then have "k = 0 \<and> l = 1 \<or> k = 1 \<and> l = 0" by auto
    with f show ?thesis by (auto simp: e a t)
  qed
  from enqueue_correct [OF known q, of demo_gen "T0 + 2"] obtain res new p where p: "page_of 0 mail_db p"
    and run: "enqueueEmailEvents demo_gen (T0 + 2) mail_db empty_mailq = (Inr res, empty_mailq\<lparr>mq_events := mq_events empty_mailq @ new,
       mq_last_scanned := Some (if p = [] then 0 else a_created_at (snd (last p)))\<rparr>)"
    and res: "res = \<lparr>er_scanned = length p, er_enqueued = length new,
       er_skipped = length (filter (\<lambda>(k, a). \<not> (\<exists>u cat. addressed_to a u cat \<and> takes_mail empty_mailq u)) p)\<rparr>"
    and all: "\<forall>(k, a) \<in> set p. (\<exists>u cat. addressed_to a u cat \<and> takes_mail empty_mailq u) \<longrightarrow>
        k \<in> ee_audit_log_id ` set (mq_events empty_mailq @ new)"
    and ev: "\<forall>e \<in> set new. \<exists>a. (ee_audit_log_id e, a) \<in> set p \<and> addressed_to a (ee_user_id e) (ee_category e) \<and>
        takes_mail empty_mailq (ee_user_id e) \<and> ee_action e = a_action a \<and>
        due_at (T0 + 2) empty_mailq (ee_user_id e) (ee_category e) (ee_scheduled_for e) \<and>
        ee_sent_at e = None \<and> ee_retry_count e = 0 \<and> ee_last_error e = None"
    by (elim exE conjE) (rule that)
  note e = page [OF p]
  have m: "takes_mail empty_mailq ''u1''" "mq_events empty_mailq = []" by (simp_all add: takes_mail_def empty_mailq_def)
  have "ee_user_id x = ''u1'' \<and> (ee_audit_log_id x = 0 \<longrightarrow> ee_scheduled_for x = T0 + 2)" if "x \<in> set new" for x
    using ev [rule_format, OF that] by (auto simp: e rows due_at_def)
  moreover have "{0, 1} \<subseteq> ee_audit_log_id ` set new" using all m by (auto simp: e rows)
  moreover have "er_scanned res = 2" by (simp add: res e)
  moreover have "enqueueEmailEvents demo_gen (T0 + 2) mail_db empty_mailq = (Inr res, empty_mailq\<lparr>mq_events := new,
       mq_last_scanned := Some (T0 + 1)\<rparr>)" using run unfolding e m by (simp add: t)
  ultimately show ?thesis by blast
qed

text \<open>A second row with the stamp of the checkpoint: a full page ended with its twin.\<close>

theorem enqueue_misses_late_rows_witness:
  "1 \<notin> queued (enqueue_runs [(demo_gen, T0 + 2, mail_db)] (empty_mailq\<lparr>mq_last_scanned := Some (T0 + 1)\<rparr>)) \<and>
   wanted empty_mailq (audits mail_db ! 1)"
proof -
  have "length (audits mail_db) = 2" "a_created_at (audits mail_db ! 1) = T0 + 1" "wanted empty_mailq (audits mail_db ! 1)"
    by code_simp+
  then show ?thesis
    using enqueue_misses_late_rows [of "empty_mailq\<lparr>mq_last_scanned := Some (T0 + 1)\<rparr>" "T0 + 1" "audits mail_db ! 1" 1 "[(demo_gen, T0 + 2, mail_db)]"]
    by (simp add: queued_def empty_mailq_def)
qed

definition demo_event :: "uuid \<Rightarrow> email_category \<Rightarrow> int \<Rightarrow> email_event" where
  "demo_event k c n = \<lparr>ee_id = k, ee_user_id = ''u1'', ee_audit_log_id = 0, ee_action = ''ip.assign'', ee_category = c,
     ee_scheduled_for = T0, ee_sent_at = None, ee_retry_count = n, ee_last_error = None\<rparr>"

definition demo_mailq :: mailq where
  "demo_mailq = empty_mailq\<lparr>mq_events := [demo_event ''e1'' CatDigest 0, demo_event ''e2'' CatDigest 4]\<rparr>"

definition answering :: "int \<Rightarrow> mail_env" where
  "answering st = \<lparr>me_configured = True, me_dryRun = False, me_fetch = (\<lambda>_. Response st '''')\<rparr>"

theorem dispatch_only_due_witness:
  "\<exists>ms. mq_outbox (snd (dispatchEmailEvents (answering 500) T0 demo_db demo_mailq)) = ms \<and>
     (\<forall>m \<in> set ms. ''e1'' \<in> set (m_events m) \<longrightarrow> m_to m = ''a@example.org'')"
proof -
  have d: "distinct (map ee_id (mq_events demo_mailq))" by code_simp
  have e: "demo_event ''e1'' CatDigest 0 \<in> set (mq_events demo_mailq)" "ee_id (demo_event ''e1'' CatDigest 0) = ''e1''"
    "recipient demo_db (demo_event ''e1'' CatDigest 0) = Some ''a@example.org''" "mq_outbox demo_mailq = []"
    by code_simp+
  from dispatch_only_due [OF d, of "answering 500" T0 demo_db] e show ?thesis by fastforce
qed

theorem dispatch_delivers_witness:
  "\<exists>res. fst (dispatchEmailEvents (answering 200) T0 demo_db demo_mailq) = Inr res \<and> di_sent res = 2 \<and>
     mset (concat (map m_events (mq_outbox (snd (dispatchEmailEvents (answering 200) T0 demo_db demo_mailq))))) = {#''e1'', ''e2''#}"
proof -
  have a: "accepts_all (answering 200)" by (simp add: accepts_all_def answering_def)
  have c: "\<forall>e \<in> set (mq_events demo_mailq). ee_category e \<noteq> CatSkip" by code_simp
  have b: "map (ee_id \<circ> snd) (batch T0 demo_db demo_mailq) = [''e1'', ''e2'']" by code_simp
  then have "length (batch T0 demo_db demo_mailq) = 2" by (metis length_Cons length_map list.size(3) numeral_2_eq_2)
  moreover have "mq_outbox demo_mailq = []" by code_simp
  ultimately show ?thesis using dispatch_delivers [OF a c, of T0 demo_db] b by auto
qed

theorem digest_strands_row_witness:
  "\<exists>e \<in> set (mq_events (dispatch_runs [(answering 200, T0 + 3600000, demo_db)] (snd (dispatchEmailEvents (answering 500) T0 demo_db demo_mailq)))).
    ee_id e = ''e2'' \<and> ee_sent_at e = None"
proof -
  have "mq_events demo_mailq = [demo_event ''e1'' CatDigest 0, demo_event ''e2'' CatDigest 4]" by (simp add: demo_mailq_def)
  moreover have "recipient demo_db (demo_event ''e1'' CatDigest 0) = Some ''a@example.org''" by code_simp
  ultimately show ?thesis
    using digest_strands_row [of demo_mailq "demo_event ''e1'' CatDigest 0" "demo_event ''e2'' CatDigest 4" T0 demo_db
        "''a@example.org''" "answering 500" "[(answering 200, T0 + 3600000, demo_db)]"]
    by (auto simp: demo_event_def pending_def MAX_RETRIES_def answering_def)
qed

end
