(* ===== verification/Telemetry.thy ===== *)
theory Telemetry
  imports Provision
begin

text \<open>
  \<^verbatim>\<open>traffic-sampler.ts\<close> and \<^verbatim>\<open>connection-events.ts\<close>: the byte counters of the tunnels, and
  which clients are connected. The tables are a record of their own. The answers of the gateway agents,
  what \<^verbatim>\<open>new Date(text)\<close> makes of a text and which texts PostgreSQL accepts as an \<^verbatim>\<open>inet\<close> are
  parameters. A bucket is kept as an instant; counters are integers, which the code represents exactly
  below 2 to the 53 bytes. \<^verbatim>\<open>now()\<close> is the argument \<open>now\<close> throughout a run.
\<close>

section \<open>Tables\<close>

record tunnel_stats =
  sl_tunnel_id :: uuid
  sl_bytes_rx :: int
  sl_bytes_tx :: int
  sl_ts :: ms

record bandwidth =
  bu_tunnel_id :: uuid
  bu_bucket_start :: ms
  bu_rx_bytes :: int
  bu_tx_bytes :: int

record conn_event =
  ce_tunnel_id :: "uuid option"
  ce_protocol :: string
  ce_event :: string
  ce_client_ip :: "string option"
  ce_detail :: "string option"
  ce_created_at :: ms

record telemetry =
  te_last :: "tunnel_stats list"
  te_usage :: "bandwidth list"
  te_events :: "conn_event list"

section \<open>Traffic samples\<close>

definition BUCKET_MS :: int where
  "BUCKET_MS = 5 * 60 * 1000"

definition bucketOf :: "ms \<Rightarrow> ms" where
  "bucketOf now = now div BUCKET_MS * BUCKET_MS"

text \<open>A counter as an agent reports it, by the public key or the peer id.\<close>

record peer_stats =
  pst_key :: string
  pst_bytesRx :: int
  pst_bytesTx :: int

record stats_agents =
  getPeerStats :: "gateway \<Rightarrow> string + peer_stats list"
  listGreStats :: "gateway \<Rightarrow> string + peer_stats list"

record sample =
  sm_tunnelId :: uuid
  sm_rx :: int
  sm_tx :: int

record SampleResult =
  sr_tunnels :: nat
  sr_inserted :: nat
  sr_gatewaysOk :: nat
  sr_gatewaysFailed :: nat
  sr_errors :: "string list"

definition wg_ids :: "gateway \<Rightarrow> db \<Rightarrow> (string \<times> uuid) list" where
  "wg_ids gw s = List.map_filter (\<lambda>t. if t_gateway_id t = g_id gw \<and> t_deleted_at t = None \<and> t_protocol t = ''wireguard''
     then map_option (\<lambda>k. (k, t_id t)) (t_wg_public_key t) else None) (tunnels s)"

definition gre_ids :: "gateway \<Rightarrow> db \<Rightarrow> (string \<times> uuid) list" where
  "gre_ids gw s = map (\<lambda>t. (peerIdFromTunnelId (t_id t), t_id t))
     (filter (\<lambda>t. t_gateway_id t = g_id gw \<and> t_deleted_at t = None \<and> t_protocol t = ''gre'') (tunnels s))"

text \<open>\<^verbatim>\<open>new Map(pairs)\<close> keeps the last pair of a key; a peer without a tunnel is skipped.\<close>

definition match_peers :: "(string \<times> uuid) list \<Rightarrow> peer_stats list \<Rightarrow> sample list" where
  "match_peers ids ps = List.map_filter (\<lambda>p. map_option (\<lambda>i. \<lparr>sm_tunnelId = i, sm_rx = pst_bytesRx p, sm_tx = pst_bytesTx p\<rparr>)
     (map_of (rev ids) (pst_key p))) ps"

definition poll :: "bool \<Rightarrow> string \<Rightarrow> (string \<times> uuid) list \<Rightarrow> string + peer_stats list \<Rightarrow> sample list \<times> bool \<times> string list" where
  "poll wanted what ids answer = (if \<not> wanted then ([], False, [])
     else (case answer of Inl msg \<Rightarrow> ([], False, [what @ msg]) | Inr ps \<Rightarrow> (match_peers ids ps, True, [])))"

definition gateway_samples :: "stats_agents \<Rightarrow> gateway \<Rightarrow> db \<Rightarrow> sample list \<times> bool \<times> string list" where
  "gateway_samples A gw s =
     (let (xs, ok1, e1) = poll (''wireguard'' \<in> set (g_supported_protocols gw)) (g_hostname gw @ '' wg-stats: '') (wg_ids gw s) (getPeerStats A gw);
          (ys, ok2, e2) = poll (''gre'' \<in> set (g_supported_protocols gw)) (g_hostname gw @ '' gre-stats: '') (gre_ids gw s) (listGreStats A gw)
      in (xs @ ys, ok1 \<or> ok2, e1 @ e2))"

definition upsert_last :: "ms \<Rightarrow> sample \<Rightarrow> telemetry \<Rightarrow> telemetry" where
  "upsert_last now m d = d\<lparr>te_last :=
     (if sm_tunnelId m \<in> set (map sl_tunnel_id (te_last d))
      then upd_where (\<lambda>l. sl_tunnel_id l = sm_tunnelId m) (\<lambda>l. l\<lparr>sl_bytes_rx := sm_rx m, sl_bytes_tx := sm_tx m, sl_ts := now\<rparr>) (te_last d)
      else te_last d @ [\<lparr>sl_tunnel_id = sm_tunnelId m, sl_bytes_rx = sm_rx m, sl_bytes_tx = sm_tx m, sl_ts = now\<rparr>])\<rparr>"

definition upsert_usage :: "uuid \<Rightarrow> ms \<Rightarrow> int \<Rightarrow> int \<Rightarrow> telemetry \<Rightarrow> telemetry" where
  "upsert_usage tid bucket dRx dTx d = d\<lparr>te_usage :=
     (if (tid, bucket) \<in> set (map (\<lambda>u. (bu_tunnel_id u, bu_bucket_start u)) (te_usage d))
      then upd_where (\<lambda>u. bu_tunnel_id u = tid \<and> bu_bucket_start u = bucket)
        (\<lambda>u. u\<lparr>bu_rx_bytes := bu_rx_bytes u + dRx, bu_tx_bytes := bu_tx_bytes u + dTx\<rparr>) (te_usage d)
      else te_usage d @ [\<lparr>bu_tunnel_id = tid, bu_bucket_start = bucket, bu_rx_bytes = dRx, bu_tx_bytes = dTx\<rparr>])\<rparr>"

definition delta :: "int \<Rightarrow> int \<Rightarrow> int" where
  "delta prev cur = (if cur \<ge> prev then cur - prev else cur)"

definition record_sample :: "ms \<Rightarrow> sample \<Rightarrow> SampleResult \<times> telemetry \<Rightarrow> SampleResult \<times> telemetry" where
  "record_sample now m st =
     (let (res, d) = st;
          res1 = res\<lparr>sr_tunnels := sr_tunnels res + 1\<rparr>;
          d1 = upsert_last now m d
      in case find (\<lambda>l. sl_tunnel_id l = sm_tunnelId m) (te_last d) of
           None \<Rightarrow> (res1, d1)
         | Some prev \<Rightarrow>
             let dRx = delta (sl_bytes_rx prev) (sm_rx m); dTx = delta (sl_bytes_tx prev) (sm_tx m)
             in if dRx = 0 \<and> dTx = 0 then (res1, d1)
                else (res1\<lparr>sr_inserted := sr_inserted res1 + 1\<rparr>, upsert_usage (sm_tunnelId m) (bucketOf now) dRx dTx d1))"

definition sample_gateway :: "stats_agents \<Rightarrow> ms \<Rightarrow> db \<Rightarrow> gateway \<Rightarrow> SampleResult \<times> telemetry \<Rightarrow> SampleResult \<times> telemetry" where
  "sample_gateway A now s gw st =
     (let (res, d) = st; (samples, gwOk, errs) = gateway_samples A gw s; res1 = res\<lparr>sr_errors := sr_errors res @ errs\<rparr>
      in if \<not> gwOk then (res1\<lparr>sr_gatewaysFailed := sr_gatewaysFailed res1 + 1\<rparr>, d)
         else fold (record_sample now) samples (res1\<lparr>sr_gatewaysOk := sr_gatewaysOk res1 + 1\<rparr>, d))"

definition sampleAllGateways :: "stats_agents \<Rightarrow> ms \<Rightarrow> db \<Rightarrow> telemetry \<Rightarrow> SampleResult \<times> telemetry" where
  "sampleAllGateways A now s d =
     fold (sample_gateway A now s) (filter (\<lambda>g. g_status g = GwActive) (gateways s))
       (\<lparr>sr_tunnels = 0, sr_inserted = 0, sr_gatewaysOk = 0, sr_gatewaysFailed = 0, sr_errors = []\<rparr>, d)"

definition pruneTrafficSamples :: "ms \<Rightarrow> int \<Rightarrow> telemetry \<Rightarrow> nat \<times> telemetry" where
  "pruneTrafficSamples now days d =
     (let old = (\<lambda>u. bu_bucket_start u < now - days * DAY_MS)
      in (length (filter old (te_usage d)), d\<lparr>te_usage := filter (\<lambda>u. \<not> old u) (te_usage d)\<rparr>))"

section \<open>Connection events\<close>

record IngestEvent =
  ie_protocol :: string
  ie_peerKey :: string
  ie_event :: string
  ie_clientIp :: "string option"
  ie_detail :: "string option"
  ie_ts :: "string option"

definition DEBOUNCE_SECONDS :: int where
  "DEBOUNCE_SECONDS = 30"

definition sanitizeCN :: "string \<Rightarrow> string" where
  "sanitizeCN = map (\<lambda>c. if is_alnum c \<or> c \<in> set ''_.-'' then c else CHR ''_'')"

text \<open>The fallback throws on the first candidate without a key that it meets.\<close>

fun find_cn :: "string \<Rightarrow> tunnel list \<Rightarrow> error + uuid option" where
  "find_cn key [] = Inr None"
| "find_cn key (t # ts) = (case t_wg_public_key t of
     None \<Rightarrow> Inl (JsError ''TypeError: cannot read properties of null'')
   | Some k \<Rightarrow> if sanitizeCN k = key then Inr (Some (t_id t)) else find_cn key ts)"

definition mapPeerToTunnel :: "string \<Rightarrow> string \<Rightarrow> db \<Rightarrow> error + uuid option" where
  "mapPeerToTunnel protocol key s =
     (case find (\<lambda>t. t_wg_public_key t = Some key \<and> t_deleted_at t = None) (tunnels s) of
        Some t \<Rightarrow> Inr (Some (t_id t))
      | None \<Rightarrow> find_cn key (filter (\<lambda>t. t_protocol t = protocol \<and> t_deleted_at t = None) (tunnels s)))"

record ingest_env =
  ig_date :: "string \<Rightarrow> ms option"
  ig_inet :: "string \<Rightarrow> bool"

definition event_time :: "ingest_env \<Rightarrow> ms \<Rightarrow> IngestEvent \<Rightarrow> ms option" where
  "event_time V now e = (case ie_ts e of None \<Rightarrow> Some now | Some t \<Rightarrow> if t = [] then Some now else ig_date V t)"

definition debounced :: "ms \<Rightarrow> uuid option \<Rightarrow> string \<Rightarrow> telemetry \<Rightarrow> bool" where
  "debounced now t ev d \<longleftrightarrow> t \<noteq> None \<and>
     (\<exists>c \<in> set (te_events d). ce_tunnel_id c = t \<and> ce_event c = ev \<and> ce_created_at c > now - DEBOUNCE_SECONDS * 1000)"

text \<open>One event; \<open>None\<close> when it is skipped, for whatever reason.\<close>

definition record_event :: "ingest_env \<Rightarrow> ms \<Rightarrow> db \<Rightarrow> IngestEvent \<Rightarrow> telemetry \<Rightarrow> telemetry option" where
  "record_event V now s e d =
     (if ie_protocol e = [] \<or> ie_peerKey e = [] \<or> ie_event e = [] then None
      else case mapPeerToTunnel (ie_protocol e) (ie_peerKey e) s of
        Inl _ \<Rightarrow> None
      | Inr t \<Rightarrow>
          if debounced now t (ie_event e) d then None
          else let ip = (case ie_clientIp e of None \<Rightarrow> None | Some c \<Rightarrow> if c = [] then None else Some c)
            in case event_time V now e of
                 None \<Rightarrow> None
               | Some ts \<Rightarrow>
                   if (case ip of None \<Rightarrow> False | Some c \<Rightarrow> \<not> ig_inet V c) then None
                   else Some (d\<lparr>te_events := te_events d @ [\<lparr>ce_tunnel_id = t, ce_protocol = ie_protocol e, ce_event = ie_event e,
                     ce_client_ip = ip, ce_detail = ie_detail e, ce_created_at = ts\<rparr>]\<rparr>))"

fun recordConnectionEvents :: "ingest_env \<Rightarrow> ms \<Rightarrow> db \<Rightarrow> IngestEvent list \<Rightarrow> telemetry \<Rightarrow> (nat \<times> nat) \<times> telemetry" where
  "recordConnectionEvents V now s [] d = ((0, 0), d)"
| "recordConnectionEvents V now s (e # es) d = (case record_event V now s e d of
     None \<Rightarrow> (case recordConnectionEvents V now s es d of ((stored, skipped), d') \<Rightarrow> ((stored, skipped + 1), d'))
   | Some d1 \<Rightarrow> (case recordConnectionEvents V now s es d1 of ((stored, skipped), d') \<Rightarrow> ((stored + 1, skipped), d')))"

definition connectionEvents :: "ingest_env \<Rightarrow> ms \<Rightarrow> db \<Rightarrow> IngestEvent list \<Rightarrow> telemetry \<Rightarrow> (nat \<times> nat) \<times> telemetry" where
  "connectionEvents V now s events d = recordConnectionEvents V now s (take 200 events) d"

text \<open>Newest first; rows of the same instant in the order of the table.\<close>

definition newest_first :: "uuid \<Rightarrow> telemetry \<Rightarrow> conn_event list" where
  "newest_first tid d = sort_key (\<lambda>c. - ce_created_at c) (filter (\<lambda>c. ce_tunnel_id c = Some tid) (te_events d))"

definition getConnectionEvents :: "uuid \<Rightarrow> int \<Rightarrow> telemetry \<Rightarrow> conn_event list" where
  "getConnectionEvents tid limit d = take (nat (min (max limit 1) 500)) (newest_first tid d)"

record OnlineStatus =
  os_online :: bool
  os_lastSeenAt :: "ms option"

definition getOnlineStatus :: "uuid list \<Rightarrow> telemetry \<Rightarrow> uuid \<Rightarrow> OnlineStatus option" where
  "getOnlineStatus ids d tid = (if tid \<notin> set ids then None else case newest_first tid d of
       [] \<Rightarrow> None
     | c # _ \<Rightarrow> let online = (ce_event c \<noteq> ''disconnect'') in
         Some \<lparr>os_online = online, os_lastSeenAt = (if online then Some (ce_created_at c) else None)\<rparr>)"

definition pruneConnectionEvents :: "ms \<Rightarrow> int \<Rightarrow> telemetry \<Rightarrow> nat \<times> telemetry" where
  "pruneConnectionEvents now days d =
     (let old = (\<lambda>c. ce_created_at c < now - days * DAY_MS)
      in (length (filter old (te_events d)), d\<lparr>te_events := filter (\<lambda>c. \<not> old c) (te_events d)\<rparr>))"

section \<open>The usage adds up\<close>

definition usage_ok :: "telemetry \<Rightarrow> bool" where
  "usage_ok d \<longleftrightarrow> distinct (map (\<lambda>u. (bu_tunnel_id u, bu_bucket_start u)) (te_usage d))"

definition total :: "(bandwidth \<Rightarrow> int) \<Rightarrow> uuid \<Rightarrow> telemetry \<Rightarrow> int" where
  "total f tid d = sum_list (map f (filter (\<lambda>u. bu_tunnel_id u = tid) (te_usage d)))"

definition baseline :: "(tunnel_stats \<Rightarrow> int) \<Rightarrow> uuid \<Rightarrow> telemetry \<Rightarrow> int option" where
  "baseline f tid d = map_option f (find (\<lambda>l. sl_tunnel_id l = tid) (te_last d))"

text \<open>What a meter that starts at a baseline should show after a sequence of readings.\<close>

fun metered :: "int option \<Rightarrow> int list \<Rightarrow> int" where
  "metered p [] = 0"
| "metered None (c # cs) = metered (Some c) cs"
| "metered (Some p) (c # cs) = (if c \<ge> p then c - p else c) + metered (Some c) cs"

fun after :: "int option \<Rightarrow> int list \<Rightarrow> int option" where
  "after p [] = p"
| "after p (c # cs) = after (Some c) cs"

lemma metered_append: "metered p (xs @ ys) = metered p xs + metered (after p xs) ys"
  by (induction p xs rule: metered.induct) auto

lemma after_append: "after p (xs @ ys) = after (after p xs) ys"
  by (induction p xs rule: after.induct) auto

lemma metered_sorted: "sorted (p # cs) \<Longrightarrow> metered (Some p) cs = last (p # cs) - p"
  by (induction cs arbitrary: p) auto

lemma metered_nonneg: "\<forall>c \<in> set cs. 0 \<le> c \<Longrightarrow> 0 \<le> metered p cs"
  by (induction p cs rule: metered.induct) auto

lemma upsert_last_baseline:
  assumes f: "\<And>l rx tx t. f (l\<lparr>sl_bytes_rx := rx, sl_bytes_tx := tx, sl_ts := t\<rparr>) = g rx tx"
  shows "baseline f tid (upsert_last now m d) = (if sm_tunnelId m = tid then Some (g (sm_rx m) (sm_tx m)) else baseline f tid d)"
proof -
  let ?P = "\<lambda>l. sl_tunnel_id l = sm_tunnelId m"
  let ?f = "\<lambda>l. l\<lparr>sl_bytes_rx := sm_rx m, sl_bytes_tx := sm_tx m, sl_ts := now\<rparr>"
  have upd: "map_option f (find (\<lambda>l. sl_tunnel_id l = tid) (upd_where ?P ?f ls)) =
    (if sm_tunnelId m = tid then (if tid \<in> set (map sl_tunnel_id ls) then Some (g (sm_rx m) (sm_tx m)) else None)
     else map_option f (find (\<lambda>l. sl_tunnel_id l = tid) ls))" for ls
    by (induction ls) (auto simp: f)
  have new: "find P (xs @ [x]) = (case find P xs of None \<Rightarrow> if P x then Some x else None | Some y \<Rightarrow> Some y)" for P x and xs :: "tunnel_stats list"
    by (induction xs) auto
  have g: "f \<lparr>sl_tunnel_id = sm_tunnelId m, sl_bytes_rx = sm_rx m, sl_bytes_tx = sm_tx m, sl_ts = now\<rparr> = g (sm_rx m) (sm_tx m)"
    using f [where l = "\<lparr>sl_tunnel_id = sm_tunnelId m, sl_bytes_rx = 0, sl_bytes_tx = 0, sl_ts = now\<rparr>" and rx = "sm_rx m" and tx = "sm_tx m" and t = now] by simp
  show ?thesis
  proof (cases "sm_tunnelId m \<in> set (map sl_tunnel_id (te_last d))")
    case True
    then show ?thesis using upd [of "te_last d"] by (auto simp: baseline_def upsert_last_def)
  next
    case False
    then have "find ?P (te_last d) = None" by (force simp: find_None_iff)
    with False g show ?thesis by (auto simp: baseline_def upsert_last_def new split: option.splits)
  qed
qed

lemma sum_upd_where:
  assumes "distinct (map k us)" "key \<in> set (map k us)" "\<And>u. P u \<longleftrightarrow> k u = key" "\<And>u. f (g u) = f u + x" "\<And>u. Q (g u) = Q u" "\<And>u. P u \<Longrightarrow> Q u"
  shows "sum_list (map f (filter Q (upd_where P g us))) = sum_list (map f (filter Q us)) + (x :: int)"
  using assms(1,2)
proof (induction us)
  case (Cons u us)
  show ?case
  proof (cases "P u")
    case True
    then have "key \<notin> set (map k us)" using Cons.prems(1) assms(3) by auto
    then have "upd_where P g us = us" using assms(3) by (intro upd_where_none) auto
    then show ?thesis using True assms(4-6) by simp
  next
    case False
    then show ?thesis using Cons assms(3) by auto
  qed
qed simp

lemma upsert_usage_total:
  assumes "usage_ok d"
  shows "total bu_rx_bytes tid (upsert_usage t b rx tx d) = total bu_rx_bytes tid d + (if t = tid then rx else 0)"
    "total bu_tx_bytes tid (upsert_usage t b rx tx d) = total bu_tx_bytes tid d + (if t = tid then tx else 0)"
    "usage_ok (upsert_usage t b rx tx d)"
proof -
  let ?k = "\<lambda>u. (bu_tunnel_id u, bu_bucket_start u)"
  let ?P = "\<lambda>u. bu_tunnel_id u = t \<and> bu_bucket_start u = b"
  let ?g = "\<lambda>u. u\<lparr>bu_rx_bytes := bu_rx_bytes u + rx, bu_tx_bytes := bu_tx_bytes u + tx\<rparr>"
  have other: "filter (\<lambda>u. bu_tunnel_id u = tid) (upd_where ?P ?g us) = filter (\<lambda>u. bu_tunnel_id u = tid) us" if "t \<noteq> tid" for us
    using that by (induction us) auto
  have d: "distinct (map ?k (te_usage d))" using assms by (simp add: usage_ok_def)
  have tot: "sum_list (map f (filter (\<lambda>u. bu_tunnel_id u = tid) (te_usage (upsert_usage t b rx tx d)))) =
    sum_list (map f (filter (\<lambda>u. bu_tunnel_id u = tid) (te_usage d))) + (if t = tid then x else 0)"
    if f: "\<And>u. f (?g u) = f u + x" "f \<lparr>bu_tunnel_id = t, bu_bucket_start = b, bu_rx_bytes = rx, bu_tx_bytes = tx\<rparr> = x" for f and x :: int
  proof (cases "(t, b) \<in> set (map ?k (te_usage d))")
    case True
    then have "te_usage (upsert_usage t b rx tx d) = upd_where ?P ?g (te_usage d)" by (simp add: upsert_usage_def)
    moreover have "sum_list (map f (filter (\<lambda>u. bu_tunnel_id u = tid) (upd_where ?P ?g (te_usage d)))) =
        sum_list (map f (filter (\<lambda>u. bu_tunnel_id u = tid) (te_usage d))) + x" if "t = tid"
      by (rule sum_upd_where [OF d True]) (use that f in auto)
    ultimately show ?thesis using other [of "te_usage d"] by (cases "t = tid") simp_all
  next
    case False
    then have "te_usage (upsert_usage t b rx tx d) = te_usage d @ [\<lparr>bu_tunnel_id = t, bu_bucket_start = b, bu_rx_bytes = rx, bu_tx_bytes = tx\<rparr>]"
      by (simp add: upsert_usage_def)
    then show ?thesis using f(2) by (cases "t = tid") simp_all
  qed
  show "total bu_rx_bytes tid (upsert_usage t b rx tx d) = total bu_rx_bytes tid d + (if t = tid then rx else 0)"
    unfolding total_def by (rule tot) simp_all
  show "total bu_tx_bytes tid (upsert_usage t b rx tx d) = total bu_tx_bytes tid d + (if t = tid then tx else 0)"
    unfolding total_def by (rule tot) simp_all
  have "map ?k (upd_where ?P ?g (te_usage d)) = map ?k (te_usage d)" by (rule map_upd_where_same) simp
  then show "usage_ok (upsert_usage t b rx tx d)" using d unfolding usage_ok_def upsert_usage_def by (cases "(t, b) \<in> set (map ?k (te_usage d))") simp_all
qed

lemma tables_independent [simp]:
  "te_usage (upsert_last now m d) = te_usage d" "te_last (upsert_usage t b rx tx d) = te_last d"
  by (simp_all add: upsert_last_def upsert_usage_def)

lemma independent [simp]:
  "total f tid (upsert_last now m d) = total f tid d" "usage_ok (upsert_last now m d) = usage_ok d"
  "baseline h tid (upsert_usage t b rx tx d) = baseline h tid d"
  by (simp_all add: total_def usage_ok_def baseline_def)

lemma record_sample_step:
  assumes ok: "usage_ok d"
  shows "usage_ok (snd (record_sample now m (res, d)))"
    "total bu_rx_bytes tid (snd (record_sample now m (res, d))) = total bu_rx_bytes tid d + (if sm_tunnelId m = tid then metered (baseline sl_bytes_rx tid d) [sm_rx m] else 0)"
    "total bu_tx_bytes tid (snd (record_sample now m (res, d))) = total bu_tx_bytes tid d + (if sm_tunnelId m = tid then metered (baseline sl_bytes_tx tid d) [sm_tx m] else 0)"
    "baseline sl_bytes_rx tid (snd (record_sample now m (res, d))) = (if sm_tunnelId m = tid then Some (sm_rx m) else baseline sl_bytes_rx tid d)"
    "baseline sl_bytes_tx tid (snd (record_sample now m (res, d))) = (if sm_tunnelId m = tid then Some (sm_tx m) else baseline sl_bytes_tx tid d)"
proof -
  have ok1: "usage_ok (upsert_last now m d)" using ok by simp
  note u = upsert_usage_total [OF ok1]
  have b: "baseline sl_bytes_rx tid (upsert_last now m d) = (if sm_tunnelId m = tid then Some (sm_rx m) else baseline sl_bytes_rx tid d)"
    "baseline sl_bytes_tx tid (upsert_last now m d) = (if sm_tunnelId m = tid then Some (sm_tx m) else baseline sl_bytes_tx tid d)"
    using upsert_last_baseline [of sl_bytes_rx "\<lambda>rx tx. rx"] upsert_last_baseline [of sl_bytes_tx "\<lambda>rx tx. tx"] by simp_all
  show "usage_ok (snd (record_sample now m (res, d)))"
    using ok by (auto simp: record_sample_def Let_def u(3) split: option.splits)
  show "total bu_rx_bytes tid (snd (record_sample now m (res, d))) = total bu_rx_bytes tid d + (if sm_tunnelId m = tid then metered (baseline sl_bytes_rx tid d) [sm_rx m] else 0)"
    by (auto simp: record_sample_def Let_def u baseline_def delta_def split: option.splits)
  show "total bu_tx_bytes tid (snd (record_sample now m (res, d))) = total bu_tx_bytes tid d + (if sm_tunnelId m = tid then metered (baseline sl_bytes_tx tid d) [sm_tx m] else 0)"
    by (auto simp: record_sample_def Let_def u baseline_def delta_def split: option.splits)
  show "baseline sl_bytes_rx tid (snd (record_sample now m (res, d))) = (if sm_tunnelId m = tid then Some (sm_rx m) else baseline sl_bytes_rx tid d)"
    "baseline sl_bytes_tx tid (snd (record_sample now m (res, d))) = (if sm_tunnelId m = tid then Some (sm_tx m) else baseline sl_bytes_tx tid d)"
    by (simp_all add: record_sample_def Let_def b split: option.splits)
qed

definition readings :: "(sample \<Rightarrow> int) \<Rightarrow> uuid \<Rightarrow> sample list \<Rightarrow> int list" where
  "readings f tid ms = map f (filter (\<lambda>m. sm_tunnelId m = tid) ms)"

text \<open>The tables \<open>d'\<close> are \<open>d\<close> after the samples \<open>ms\<close>, for every tunnel.\<close>

definition metered_by :: "sample list \<Rightarrow> telemetry \<Rightarrow> telemetry \<Rightarrow> bool" where
  "metered_by ms d d' \<longleftrightarrow> usage_ok d' \<and> (\<forall>tid.
     total bu_rx_bytes tid d' = total bu_rx_bytes tid d + metered (baseline sl_bytes_rx tid d) (readings sm_rx tid ms) \<and>
     total bu_tx_bytes tid d' = total bu_tx_bytes tid d + metered (baseline sl_bytes_tx tid d) (readings sm_tx tid ms) \<and>
     baseline sl_bytes_rx tid d' = after (baseline sl_bytes_rx tid d) (readings sm_rx tid ms) \<and>
     baseline sl_bytes_tx tid d' = after (baseline sl_bytes_tx tid d) (readings sm_tx tid ms))"

lemma metered_by_refl: "usage_ok d \<Longrightarrow> metered_by [] d d"
  by (simp add: metered_by_def readings_def)

lemma metered_by_trans: "metered_by xs d d1 \<Longrightarrow> metered_by ys d1 d2 \<Longrightarrow> metered_by (xs @ ys) d d2"
  by (simp add: metered_by_def readings_def metered_append after_append)

lemma metered_by_ok: "metered_by xs d d' \<Longrightarrow> usage_ok d'"
  by (simp add: metered_by_def)

lemma metered_by_sample: "usage_ok d \<Longrightarrow> metered_by [m] d (snd (record_sample now m (res, d)))"
  by (simp add: metered_by_def readings_def record_sample_step)

lemma metered_by_samples: "usage_ok (snd st) \<Longrightarrow> metered_by ms (snd st) (snd (fold (record_sample now) ms st))"
proof (induction ms arbitrary: st)
  case (Cons m ms)
  have 1: "metered_by [m] (snd st) (snd (record_sample now m st))" using metered_by_sample [OF Cons.prems, of m now "fst st"] by simp
  from metered_by_trans [OF 1 Cons.IH [OF metered_by_ok [OF 1]]] show ?case by simp
qed (simp add: metered_by_refl)

text \<open>The samples of a run, of the gateways that answered.\<close>

definition gateway_run :: "stats_agents \<Rightarrow> db \<Rightarrow> gateway \<Rightarrow> sample list" where
  "gateway_run A s gw = (case gateway_samples A gw s of (ms, ok, _) \<Rightarrow> if ok then ms else [])"

definition run_samples :: "stats_agents \<Rightarrow> db \<Rightarrow> sample list" where
  "run_samples A s = concat (map (gateway_run A s) (filter (\<lambda>g. g_status g = GwActive) (gateways s)))"

lemma metered_by_gateway:
  assumes "usage_ok (snd st)"
  shows "metered_by (gateway_run A s gw) (snd st) (snd (sample_gateway A now s gw st))"
proof -
  obtain res d where st: "st = (res, d)" by (cases st)
  obtain ms ok es where g: "gateway_samples A gw s = (ms, ok, es)" by (metis prod_cases3)
  show ?thesis
    using assms metered_by_refl metered_by_samples [of "(x, d)" for x]
    by (simp add: st g gateway_run_def sample_gateway_def Let_def)
qed

lemma metered_by_gateways:
  "usage_ok (snd st) \<Longrightarrow> metered_by (concat (map (gateway_run A s) gws)) (snd st) (snd (fold (sample_gateway A now s) gws st))"
proof (induction gws arbitrary: st)
  case (Cons gw gws)
  note 1 = metered_by_gateway [OF Cons.prems, of A s gw now]
  from metered_by_trans [OF 1 Cons.IH [OF metered_by_ok [OF 1]]] show ?case by simp
qed (simp add: metered_by_refl)

definition sample_runs :: "(stats_agents \<times> ms \<times> db) list \<Rightarrow> telemetry \<Rightarrow> telemetry" where
  "sample_runs runs d = fold (\<lambda>(A, now, s) d. snd (sampleAllGateways A now s d)) runs d"

definition all_samples :: "(stats_agents \<times> ms \<times> db) list \<Rightarrow> sample list" where
  "all_samples runs = concat (map (\<lambda>(A, _, s). run_samples A s) runs)"

lemma metered_by_runs: "usage_ok d \<Longrightarrow> metered_by (all_samples runs) d (sample_runs runs d)"
proof (induction runs arbitrary: d)
  case (Cons r runs)
  obtain A now s where r: "r = (A, now, s)" by (cases r)
  have 1: "metered_by (run_samples A s) d (snd (sampleAllGateways A now s d))"
    using metered_by_gateways [of "(x, d)" for x] Cons.prems by (simp add: sampleAllGateways_def run_samples_def)
  from metered_by_trans [OF 1 Cons.IH [OF metered_by_ok [OF 1]]] show ?case by (simp add: all_samples_def sample_runs_def r)
qed (simp add: metered_by_refl all_samples_def sample_runs_def)

text \<open>
  C28. Over any number of sampling runs, with gateways failing and coming back, the usage stored for a
  tunnel grows by exactly what a meter shows that starts at the stored baseline and sees the readings of
  the runs; the first reading ever only sets the baseline. As long as the counter of a tunnel does not
  go back, that is the distance between the baseline and the last reading: no byte is counted twice or
  lost, whatever the buckets and however many runs fall into one.
\<close>

theorem sampler_conserves:
  assumes "usage_ok d"
  shows "usage_ok (sample_runs runs d) \<and>
     total bu_rx_bytes tid (sample_runs runs d) =
       total bu_rx_bytes tid d + metered (baseline sl_bytes_rx tid d) (readings sm_rx tid (all_samples runs)) \<and>
     total bu_tx_bytes tid (sample_runs runs d) =
       total bu_tx_bytes tid d + metered (baseline sl_bytes_tx tid d) (readings sm_tx tid (all_samples runs)) \<and>
     (\<forall>p. baseline sl_bytes_rx tid d = Some p \<and> sorted (p # readings sm_rx tid (all_samples runs)) \<longrightarrow>
       total bu_rx_bytes tid (sample_runs runs d) = total bu_rx_bytes tid d + last (p # readings sm_rx tid (all_samples runs)) - p)"
proof -
  from metered_by_runs [OF assms, of runs]
  have 1: "usage_ok (sample_runs runs d)"
    "total bu_rx_bytes tid (sample_runs runs d) = total bu_rx_bytes tid d + metered (baseline sl_bytes_rx tid d) (readings sm_rx tid (all_samples runs))"
    "total bu_tx_bytes tid (sample_runs runs d) = total bu_tx_bytes tid d + metered (baseline sl_bytes_tx tid d) (readings sm_tx tid (all_samples runs))"
    by (simp_all add: metered_by_def)
  have "total bu_rx_bytes tid (sample_runs runs d) = total bu_rx_bytes tid d + last (p # readings sm_rx tid (all_samples runs)) - p"
    if "baseline sl_bytes_rx tid d = Some p" "sorted (p # readings sm_rx tid (all_samples runs))" for p
    using metered_sorted [OF that(2)] 1(2) unfolding that(1) by linarith
  with 1 show ?thesis by blast
qed

definition demo_stats :: "int \<Rightarrow> stats_agents" where
  "demo_stats n = \<lparr>getPeerStats = (\<lambda>_. Inr [\<lparr>pst_key = ''pk1'', pst_bytesRx = n, pst_bytesTx = 2 * n\<rparr>]), listGreStats = (\<lambda>_. Inl ''timeout'')\<rparr>"

theorem sampler_conserves_witness:
  "total bu_rx_bytes ''t1'' (sample_runs [(demo_stats 100, T0, demo_db), (demo_stats 250, T0 + 60000, demo_db), (demo_stats 900, T0 + 300000, demo_db)]
     \<lparr>te_last = [], te_usage = [], te_events = []\<rparr>) = 800"
proof -
  let ?runs = "[(demo_stats 100, T0, demo_db), (demo_stats 250, T0 + 60000, demo_db), (demo_stats 900, T0 + 300000, demo_db)]"
  let ?d = "\<lparr>te_last = [], te_usage = [], te_events = []\<rparr> :: telemetry"
  have "usage_ok ?d" "total bu_rx_bytes ''t1'' ?d = 0" "metered (baseline sl_bytes_rx ''t1'' ?d) (readings sm_rx ''t1'' (all_samples ?runs)) = 800"
    by code_simp+
  then show ?thesis using sampler_conserves [of ?d ?runs "''t1''"] by simp
qed

section \<open>Connected or not\<close>

lemma record_event_appends:
  assumes "record_event V now s e d = Some d'"
  shows "\<exists>c. te_events d' = te_events d @ [c] \<and> ce_event c = ie_event e \<and> te_usage d' = te_usage d \<and> te_last d' = te_last d"
  using assms by (auto simp: record_event_def Let_def split: if_splits sum.splits option.splits)

text \<open>
  A batch of connection events is accounted for: each event is stored or skipped, the stored ones are
  appended to the table in their order, and a batch beyond 200 events is cut.
\<close>

lemma recordConnectionEvents_counts:
  assumes "recordConnectionEvents V now s es d = ((stored, skipped), d')"
  shows "stored + skipped = length es" "\<exists>new. te_events d' = te_events d @ new \<and> length new = stored"
proof -
  have "stored + skipped = length es \<and> (\<exists>new. te_events d' = te_events d @ new \<and> length new = stored)"
    using assms
  proof (induction es arbitrary: d stored skipped)
    case (Cons e es)
    obtain d1 m n where 1: "recordConnectionEvents V now s es (case record_event V now s e d of None \<Rightarrow> d | Some d1 \<Rightarrow> d1) = ((m, n), d1)"
      by (metis prod.exhaust)
    show ?case
    proof (cases "record_event V now s e d")
      case None
      then show ?thesis using Cons 1 by auto
    next
      case (Some d2)
      obtain c where c: "te_events d2 = te_events d @ [c]" using record_event_appends [OF Some] by blast
      have eq: "stored = m + 1" "skipped = n" "d' = d1" using Cons.prems 1 Some by auto
      have "m + n = length es \<and> (\<exists>new. te_events d1 = te_events d2 @ new \<and> length new = m)" using Cons.IH [of d2 m n] 1 Some eq(3) by simp
      then obtain new where "m + n = length es" "te_events d1 = te_events d @ (c # new)" "length new = m" using c by auto
      then show ?thesis using eq by (intro conjI exI [of _ "c # new"]) auto
    qed
  qed simp
  then show "stored + skipped = length es" "\<exists>new. te_events d' = te_events d @ new \<and> length new = stored" by blast+
qed

lemma newest_first_hd:
  assumes "newest_first tid d = c # cs"
  shows "c \<in> set (te_events d)" "ce_tunnel_id c = Some tid" "\<forall>x \<in> set (te_events d). ce_tunnel_id x = Some tid \<longrightarrow> ce_created_at x \<le> ce_created_at c"
proof -
  let ?F = "filter (\<lambda>c. ce_tunnel_id c = Some tid) (te_events d)"
  have set: "set (c # cs) = set ?F" by (metis assms newest_first_def set_sort)
  then show "c \<in> set (te_events d)" "ce_tunnel_id c = Some tid" by auto
  have "sorted (map (\<lambda>c. - ce_created_at c) (c # cs))" unfolding assms [symmetric] newest_first_def by simp
  then have "\<forall>x \<in> set (c # cs). ce_created_at x \<le> ce_created_at c" by auto
  then show "\<forall>x \<in> set (te_events d). ce_tunnel_id x = Some tid \<longrightarrow> ce_created_at x \<le> ce_created_at c" using set by auto
qed

text \<open>
  An event that is stored and is newer than the other events of its tunnel decides the status the
  portal shows: a disconnect shows the tunnel offline, anything else online and seen at that moment.
\<close>

lemma shown_status:
  assumes "record_event V now s e d = Some d'" "mapPeerToTunnel (ie_protocol e) (ie_peerKey e) s = Inr (Some tid)"
    and "event_time V now e = Some ts" "\<forall>c \<in> set (te_events d). ce_tunnel_id c = Some tid \<longrightarrow> ce_created_at c < ts" "tid \<in> set ids"
  shows "getOnlineStatus ids d' tid = Some (if ie_event e = ''disconnect'' then \<lparr>os_online = False, os_lastSeenAt = None\<rparr>
     else \<lparr>os_online = True, os_lastSeenAt = Some ts\<rparr>)"
proof -
  obtain c where c: "te_events d' = te_events d @ [c]" "ce_tunnel_id c = Some tid" "ce_created_at c = ts" "ce_event c = ie_event e"
    using assms(1-3) by (auto simp: record_event_def Let_def split: if_splits option.splits)
  have "c \<in> set (newest_first tid d')" using c by (simp add: newest_first_def)
  then obtain x xs where x: "newest_first tid d' = x # xs" by (cases "newest_first tid d'") auto
  have "ce_created_at c \<le> ce_created_at x" using newest_first_hd(3) [OF x] c by simp
  then have "x = c" using newest_first_hd(1,2) [OF x] c assms(4) by auto
  with x c assms(5) show ?thesis by (simp add: getOnlineStatus_def Let_def)
qed

text \<open>
  A client that reconnects quickly is shown offline. When a tunnel connects, disconnects and connects
  again within thirty seconds, the second connect is taken for a repetition and dropped, the disconnect
  stays the newest event, and the connected tunnel is reported offline until its next event.
\<close>

theorem reconnect_shown_offline:
  assumes "mapPeerToTunnel p k s = Inr (Some tid)" "p \<noteq> []" "k \<noteq> []" "tid \<in> set ids"
    and "\<forall>c \<in> set (te_events d). ce_tunnel_id c = Some tid \<longrightarrow> ce_created_at c \<le> t1 - 30000"
    and "t1 < t2" "t2 \<le> t3" "t3 < t1 + 30000"
  shows "\<exists>d1 d2. let ev = (\<lambda>x. \<lparr>ie_protocol = p, ie_peerKey = k, ie_event = x, ie_clientIp = None, ie_detail = None, ie_ts = None\<rparr>) in
     record_event V t1 s (ev ''connect'') d = Some d1 \<and> record_event V t2 s (ev ''disconnect'') d1 = Some d2 \<and>
     record_event V t3 s (ev ''connect'') d2 = None \<and> map_option os_online (getOnlineStatus ids d2 tid) = Some False"
proof -
  let ?ev = "\<lambda>x. \<lparr>ie_protocol = p, ie_peerKey = k, ie_event = x, ie_clientIp = None, ie_detail = None, ie_ts = None\<rparr>"
  let ?row = "\<lambda>x t. \<lparr>ce_tunnel_id = Some tid, ce_protocol = p, ce_event = x, ce_client_ip = None, ce_detail = None, ce_created_at = t\<rparr>"
  let ?d1 = "d\<lparr>te_events := te_events d @ [?row ''connect'' t1]\<rparr>"
  let ?d2 = "d\<lparr>te_events := te_events d @ [?row ''connect'' t1, ?row ''disconnect'' t2]\<rparr>"
  have 1: "record_event V t1 s (?ev ''connect'') d = Some ?d1"
    using assms by (auto simp: record_event_def debounced_def DEBOUNCE_SECONDS_def event_time_def)
  have 2: "record_event V t2 s (?ev ''disconnect'') ?d1 = Some ?d2"
    using assms by (auto simp: record_event_def debounced_def DEBOUNCE_SECONDS_def event_time_def)
  have 3: "record_event V t3 s (?ev ''connect'') ?d2 = None"
    using assms by (auto simp: record_event_def debounced_def DEBOUNCE_SECONDS_def)
  have "getOnlineStatus ids ?d2 tid = Some (if ie_event (?ev ''disconnect'') = ''disconnect'' then \<lparr>os_online = False, os_lastSeenAt = None\<rparr>
     else \<lparr>os_online = True, os_lastSeenAt = Some t2\<rparr>)"
    by (rule shown_status [OF 2]) (use assms in \<open>auto simp: event_time_def\<close>)
  with 1 2 3 show ?thesis by (intro exI [of _ ?d1] exI [of _ ?d2]) simp
qed

text \<open>
  The retention job makes a tunnel that has been connected for longer than the retention look
  offline: the only event it has is deleted, and the status falls back to unknown.
\<close>

theorem prune_forgets_connected:
  assumes "te_events d = [c]" "ce_tunnel_id c = Some tid" "ce_event c = ''connect''" "ce_created_at c < now - days * DAY_MS" "tid \<in> set ids"
  shows "map_option os_online (getOnlineStatus ids d tid) = Some True \<and>
     getOnlineStatus ids (snd (pruneConnectionEvents now days d)) tid = None"
  using assms by (simp add: getOnlineStatus_def newest_first_def pruneConnectionEvents_def Let_def)

theorem reconnect_shown_offline_witness:
  "\<exists>d1 d2. let V = \<lparr>ig_date = (\<lambda>_. None), ig_inet = (\<lambda>_. True)\<rparr>;
      ev = (\<lambda>x. \<lparr>ie_protocol = ''wireguard'', ie_peerKey = ''pk1'', ie_event = x, ie_clientIp = None, ie_detail = None, ie_ts = None\<rparr>) in
     record_event V T0 demo_db (ev ''connect'') \<lparr>te_last = [], te_usage = [], te_events = []\<rparr> = Some d1 \<and>
     record_event V (T0 + 5000) demo_db (ev ''disconnect'') d1 = Some d2 \<and>
     record_event V (T0 + 9000) demo_db (ev ''connect'') d2 = None \<and> map_option os_online (getOnlineStatus [''t1''] d2 ''t1'') = Some False"
proof -
  have "mapPeerToTunnel ''wireguard'' ''pk1'' demo_db = Inr (Some ''t1'')" by code_simp
  then show ?thesis
    using reconnect_shown_offline [of "''wireguard''" "''pk1''" demo_db "''t1''" "[''t1'']" "\<lparr>te_last = [], te_usage = [], te_events = []\<rparr>"
        T0 "T0 + 5000" "T0 + 9000" "\<lparr>ig_date = (\<lambda>_. None), ig_inet = (\<lambda>_. True)\<rparr>"]
    unfolding Let_def by simp
qed

definition old_connect :: conn_event where
  "old_connect = \<lparr>ce_tunnel_id = Some ''t1'', ce_protocol = ''wireguard'', ce_event = ''connect'', ce_client_ip = None, ce_detail = None,
     ce_created_at = T0 - 91 * DAY_MS\<rparr>"

theorem prune_forgets_connected_witness:
  "getOnlineStatus [''t1''] (snd (pruneConnectionEvents T0 90 \<lparr>te_last = [], te_usage = [], te_events = [old_connect]\<rparr>)) ''t1'' = None"
  using prune_forgets_connected [of "\<lparr>te_last = [], te_usage = [], te_events = [old_connect]\<rparr>" old_connect "''t1''" T0 90 "[''t1'']"]
  by (simp add: old_connect_def)

end
