(* ===== verification/TunnelApi.thy ===== *)
theory TunnelApi
  imports ChangeTier Gre Telemetry "HOL-Library.Multiset"
begin

text \<open>
  \<^verbatim>\<open>apps/api/src/tunnels\<close>: the customer's view of tunnels. \<^verbatim>\<open>tunnels.service.ts\<close> lists them, renames
  them, reports traffic, pings clients and renders configuration files; \<^verbatim>\<open>tunnels.controller.ts\<close>
  validates requests and turns errors into responses. The session guard supplies the user id. What
  \<^verbatim>\<open>decryptSecret\<close>, \<^verbatim>\<open>new Date(text)\<close> and a ping of an agent return are parameters. A file is a
  \<open>string\<close> of UTF-8 bytes. Tables are in the order of creation, so a query by descending
  \<^verbatim>\<open>created_at\<close> reads them from the end; that column is left out of the results.
\<close>

section \<open>Responses\<close>

definition error_text :: "error \<Rightarrow> string" where
  "error_text e = (case e of
       InsufficientCredit need have \<Rightarrow> ''need '' @ show_int need @ '' satang, have '' @ show_int have
     | NoGatewayAvailable \<Rightarrow> ''no active gateway with capacity''
     | NoIpAvailable \<Rightarrow> ''no IP available for the requested sale mode/size''
     | NotFound what \<Rightarrow> what @ '' not found''
     | ValidationError m \<Rightarrow> m
     | JsError m \<Rightarrow> m
     | UniqueViolation c \<Rightarrow> ''duplicate key value violates unique constraint '' @ c
     | CheckViolation c \<Rightarrow> ''new row violates check constraint '' @ c
     | BadRequestException m \<Rightarrow> m
     | ForbiddenException m \<Rightarrow> m
     | UnauthorizedException \<Rightarrow> ''Unauthorized'')"

text \<open>
  \<^verbatim>\<open>if (e instanceof ProvisionError) throw new BadRequestException({ code, message }); throw e\<close>, with the
  body written as one text, and \<^verbatim>\<open>throw new BadRequestException(e.message)\<close>.
\<close>

definition provision_response :: "error \<Rightarrow> error" where
  "provision_response e = (case error_code e of None \<Rightarrow> e | Some c \<Rightarrow> BadRequestException (c @ '': '' @ error_text e))"

definition bad_request :: "error \<Rightarrow> error" where
  "bad_request e = (case e of BadRequestException m \<Rightarrow> e | _ \<Rightarrow> BadRequestException (error_text e))"

definition respond :: "(error \<Rightarrow> error) \<Rightarrow> 'a op \<Rightarrow> 'a op" where
  "respond h m s = (case m s of (Inl e, s1) \<Rightarrow> (Inl (h e), s1) | (Inr x, s1) \<Rightarrow> (Inr x, s1))"

definition own_tunnel :: "uuid \<Rightarrow> uuid \<Rightarrow> db \<Rightarrow> tunnel option" where
  "own_tunnel userId tid s = find (\<lambda>t. t_id t = tid \<and> t_user_id t = userId \<and> t_deleted_at t = None) (tunnels s)"

definition own_with_gateway :: "uuid \<Rightarrow> uuid \<Rightarrow> db \<Rightarrow> (tunnel \<times> gateway) option" where
  "own_with_gateway userId tid s = (case own_tunnel userId tid s of
       None \<Rightarrow> None
     | Some t \<Rightarrow> map_option (\<lambda>g. (t, g)) (find (\<lambda>g. g_id g = t_gateway_id t) (gateways s)))"

section \<open>Listing\<close>

definition availableProtocols :: "db \<Rightarrow> string list \<times> (string \<times> string \<times> satang) list" where
  "availableProtocols s =
     (let active = filter (\<lambda>g. g_status g = GwActive) (gateways s)
      in ((if \<exists>g \<in> set active. g_wg_public_key g \<noteq> None then [''wireguard''] else []) @
          (if \<exists>g \<in> set active. ''gre'' \<in> set (g_supported_protocols g) then [''gre''] else []),
          [(''tier_100mb'', ''100 Mbps'', 10000), (''tier_500mb'', ''500 Mbps'', 20000), (''tier_1gb'', ''1 Gbps'', 30000)]))"

definition GRE_ONLINE_CUTOFF_MS :: int where
  "GRE_ONLINE_CUTOFF_MS = 3 * 60 * 1000"

record tunnel_view =
  tv_id :: uuid
  tv_name :: string
  tv_description :: "string option"
  tv_speedTier :: string
  tv_status :: tunnel_status
  tv_protocol :: string
  tv_privateIp :: ip4
  tv_publicIps :: "(ip4 \<times> uuid option) list"
  tv_online :: bool
  tv_lastSeenAt :: "ms option"

definition view_ips :: "uuid \<Rightarrow> db \<Rightarrow> (ip4 \<times> uuid option) list" where
  "view_ips tid s = map (\<lambda>p. (i_ip_address p, i_block_id p)) (sort_key (\<lambda>p. ip4ToInt (i_ip_address p))
     (filter (\<lambda>p. i_tunnel_id p = Some tid \<and> i_status p = IpAllocated) (ips s)))"

definition view_tunnel :: "ms \<Rightarrow> db \<Rightarrow> (uuid \<Rightarrow> OnlineStatus option) \<Rightarrow> tunnel \<Rightarrow> tunnel_view" where
  "view_tunnel now s online t =
     (let hs = (case t_last_handshake_at t of None \<Rightarrow> 0 | Some h \<Rightarrow> h);
          gre = (t_protocol t = ''gre'')
      in \<lparr>tv_id = t_id t, tv_name = t_name t, tv_description = t_description t, tv_speedTier = t_speed_tier t,
          tv_status = t_status t, tv_protocol = t_protocol t, tv_privateIp = t_private_ip t, tv_publicIps = view_ips (t_id t) s,
          tv_online = (if gre then hs > 0 \<and> now - hs < GRE_ONLINE_CUTOFF_MS
            else case online (t_id t) of None \<Rightarrow> False | Some o1 \<Rightarrow> os_online o1),
          tv_lastSeenAt = (if gre then t_last_handshake_at t else case online (t_id t) of None \<Rightarrow> None | Some o1 \<Rightarrow> os_lastSeenAt o1)\<rparr>)"

definition listForUser :: "ms \<Rightarrow> uuid \<Rightarrow> db \<Rightarrow> telemetry \<Rightarrow> tunnel_view list" where
  "listForUser now userId s d =
     (let rows = rev (filter (\<lambda>t. t_user_id t = userId \<and> t_deleted_at t = None) (tunnels s))
      in map (view_tunnel now s (getOnlineStatus (map t_id rows) d)) rows)"

section \<open>Traffic\<close>

datatype traffic_bucket = B5m | B1h | B1d

definition bucketMs :: "traffic_bucket \<Rightarrow> int" where
  "bucketMs b = (case b of B1d \<Rightarrow> 86400000 | B1h \<Rightarrow> 3600000 | B5m \<Rightarrow> 300000)"

definition date_bin :: "int \<Rightarrow> ms \<Rightarrow> ms" where
  "date_bin step t = t div step * step"

record traffic_report =
  rep_samples :: "(ms \<times> int \<times> int) list"
  rep_totalRx :: int
  rep_totalTx :: int
  rep_bucketMs :: int

definition usage_between :: "uuid \<Rightarrow> ms \<Rightarrow> ms \<Rightarrow> telemetry \<Rightarrow> bandwidth list" where
  "usage_between tid from until d = filter (\<lambda>u. bu_tunnel_id u = tid \<and> from \<le> bu_bucket_start u \<and> bu_bucket_start u < until) (te_usage d)"

definition binned :: "int \<Rightarrow> bandwidth list \<Rightarrow> (ms \<times> int \<times> int) list" where
  "binned step us =
     map (\<lambda>k. let g = filter (\<lambda>u. date_bin step (bu_bucket_start u) = k) us
        in (k, sum_list (map bu_rx_bytes g), sum_list (map bu_tx_bytes g)))
       (sort (remdups (map (\<lambda>u. date_bin step (bu_bucket_start u)) us)))"

definition getTraffic :: "(string \<Rightarrow> ms option) \<Rightarrow> uuid \<Rightarrow> uuid \<Rightarrow> string \<Rightarrow> string \<Rightarrow> traffic_bucket \<Rightarrow> db \<Rightarrow> telemetry \<Rightarrow> error + traffic_report" where
  "getTraffic date userId tid fromISO toISO bucket s d =
     andThen (or_throw (NotFound ''tunnel'') (own_tunnel userId tid s)) (\<lambda>_.
     (case (date fromISO, date toISO) of
        (Some from, Some until) \<Rightarrow>
          andThen (throw_if (until \<le> from) (BadRequestException ''to must be > from'')) (\<lambda>_.
          andThen (throw_if (until - from > 90 * 24 * 60 * 60 * 1000) (BadRequestException ''range cannot exceed 90 days'')) (\<lambda>_.
          let samples = binned (bucketMs bucket) (usage_between tid from until d)
          in Inr \<lparr>rep_samples = samples, rep_totalRx = foldl (\<lambda>n (_, rx, _). n + rx) 0 samples,
            rep_totalTx = foldl (\<lambda>n (_, _, tx). n + tx) 0 samples, rep_bucketMs = bucketMs bucket\<rparr>))
      | _ \<Rightarrow> Inl (BadRequestException ''from/to must be ISO datetimes'')))"

section \<open>Renaming\<close>

definition updateName :: "ms \<Rightarrow> uuid \<Rightarrow> uuid \<Rightarrow> string \<Rightarrow> (uuid \<times> string) op" where
  "updateName now userId tid newName s =
     (let trimmed = js_trim newName in
      seq (attempt (throw_if (\<not> TUNNEL_NAME_RE trimmed) (BadRequestException ''name: a-z A-Z 0-9 - _ only''))) (\<lambda>_.
      seq (attempt (or_throw (NotFound ''tunnel'') (own_tunnel userId tid s))) (\<lambda>existing.
      if t_name existing = trimmed then done_with (tid, trimmed)
      else
        seq (attempt (throw_if (\<exists>t \<in> set (tunnels s). t_user_id t = userId \<and> lower (t_name t) = lower trimmed \<and> t_id t \<noteq> tid \<and> t_deleted_at t = None)
          (BadRequestException (''name taken: '' @ trimmed)))) (\<lambda>_.
        seq (do_stmt (set_tunnels (\<lambda>t. t_id t = tid \<and> t_user_id t = userId \<and> t_deleted_at t = None) (\<lambda>t. t\<lparr>t_name := trimmed\<rparr>))) (\<lambda>_.
        seq (do_stmt (audit now ActUser (Some userId) ''tunnel.rename'' (Some ''tunnel'') (Some tid)
          [(''oldName'', JStr (t_name existing)), (''newName'', JStr trimmed)])) (\<lambda>_.
        done_with (tid, trimmed)))))) s)"

definition clean_description :: "string option \<Rightarrow> string option" where
  "clean_description d = (let c = js_trim (take 300 (case d of None \<Rightarrow> [] | Some x \<Rightarrow> x)) in if c = [] then None else Some c)"

definition updateDescription :: "ms \<Rightarrow> uuid \<Rightarrow> uuid \<Rightarrow> string option \<Rightarrow> (uuid \<times> string option) op" where
  "updateDescription now userId tid description s =
     (let cleaned = clean_description description in
      seq (attempt (or_throw (NotFound ''tunnel'') (own_tunnel userId tid s))) (\<lambda>_.
      seq (do_stmt (set_tunnels (\<lambda>t. t_id t = tid \<and> t_user_id t = userId \<and> t_deleted_at t = None) (\<lambda>t. t\<lparr>t_description := cleaned\<rparr>))) (\<lambda>_.
      seq (do_stmt (audit now ActUser (Some userId) ''tunnel.description_update'' (Some ''tunnel'') (Some tid)
        [(''description'', json_opt cleaned)])) (\<lambda>_.
      done_with (tid, cleaned)))) s)"

section \<open>Ping\<close>

definition incrementIp :: "ip4 \<Rightarrow> ip4" where
  "incrementIp ip = (let oct = map js_Number (split_on CHR ''.'' ip); n = js_ushr (js_ushr (quad_bits oct) 0 + 1) 0
     in join ''.'' (map show_int [js_and (js_ushr n 24) 255, js_and (js_ushr n 16) 255, js_and (js_ushr n 8) 255, js_and n 255]))"

record ping_result =
  pg_ip :: ip4
  pg_transmitted :: int
  pg_received :: int
  pg_lossPct :: int
  pg_error :: "string option"

type_synonym pinger = "uuid \<Rightarrow> ip4 \<Rightarrow> int option \<Rightarrow> error + ping_result"

definition ping_target :: "tunnel \<Rightarrow> ip4" where
  "ping_target t = (if t_protocol t = ''gre'' then incrementIp (t_private_ip t) else t_private_ip t)"

definition pingTunnel :: "pinger \<Rightarrow> uuid \<Rightarrow> uuid \<Rightarrow> int option \<Rightarrow> db \<Rightarrow> error + ping_result list" where
  "pingTunnel ping userId tid n s =
     andThen (or_throw (NotFound ''tunnel'') (own_with_gateway userId tid s)) (\<lambda>(t, gw).
     case ping (g_id gw) (ping_target t) n of
       Inr r \<Rightarrow> Inr [r]
     | Inl e \<Rightarrow> Inr [\<lparr>pg_ip = ping_target t, pg_transmitted = 4, pg_received = 0, pg_lossPct = 100, pg_error = Some (error_text e)\<rparr>])"

section \<open>Configuration files\<close>

datatype config_format = FmtWireguard | FmtMikrotik

record config_file =
  cf_filename :: string
  cf_conf :: string

text \<open>Line feed, double quote and backslash; a dash and a dot outside ASCII, as UTF-8.\<close>

definition nl :: string where
  "nl = [CHR 0x0A]"

definition quoted :: "string \<Rightarrow> string" where
  "quoted t = CHR 0x22 # t @ [CHR 0x22]"

definition cont :: string where
  "cont = '' '' @ [CHR 0x5C]"

definition em_dash :: string where
  "em_dash = [CHR 0xE2, CHR 0x80, CHR 0x94]"

definition mid_dot :: string where
  "mid_dot = [CHR 0xC2, CHR 0xB7]"

definition unlines :: "string list \<Rightarrow> string" where
  "unlines ls = concat (map (\<lambda>l. l @ nl) ls)"

definition single_ips :: "uuid \<Rightarrow> db \<Rightarrow> ip4 list" where
  "single_ips tid s = map i_ip_address (sort_key (\<lambda>p. ip4ToInt (i_ip_address p))
     (filter (\<lambda>p. i_tunnel_id p = Some tid \<and> i_block_id p = None \<and> i_status p = IpAllocated) (ips s)))"

definition config_blocks :: "uuid \<Rightarrow> db \<Rightarrow> cidr list" where
  "config_blocks tid s = sort (tunnel_block_cidrs tid s)"

definition routable :: "ip4 list \<Rightarrow> cidr list \<Rightarrow> cidr list" where
  "routable singles blockCidrs = map (\<lambda>ip. ip @ ''/32'') singles @ blockCidrs"

definition safeName :: "string \<Rightarrow> string" where
  "safeName n = (case map (\<lambda>c. if is_alnum c \<or> c = CHR ''_'' \<or> c = CHR ''-'' then c else CHR ''_'') n of [] \<Rightarrow> ''tunnel'' | m \<Rightarrow> m)"

definition wireguard_conf :: "string \<Rightarrow> ip4 \<Rightarrow> string \<Rightarrow> string \<Rightarrow> int \<Rightarrow> string \<Rightarrow> string" where
  "wireguard_conf privateKey privateIp gwPub host port allowedIPs = unlines
     [''[Interface]'',
      ''PrivateKey = '' @ privateKey,
      ''Address = '' @ privateIp @ ''/32'',
      '''',
      ''[Peer]'',
      ''PublicKey = '' @ gwPub,
      ''Endpoint = '' @ host @ '':'' @ show_int port,
      ''AllowedIPs = '' @ allowedIPs,
      ''PersistentKeepalive = 25'']"

record MikrotikArgs =
  mk_privateKey :: string
  mk_gwPub :: string
  mk_endpointHost :: string
  mk_endpointPort :: int
  mk_privateIp :: ip4
  mk_privateSubnet :: cidr
  mk_singles :: "ip4 list"
  mk_blockCidrs :: "cidr list"

definition mk_prefix :: "cidr \<Rightarrow> string" where
  "mk_prefix c = (case split_on CHR ''/'' c of _ # p # _ \<Rightarrow> if p = [] then ''24'' else p | _ \<Rightarrow> ''24'')"

definition buildMikrotikScript :: "MikrotikArgs \<Rightarrow> string" where
  "buildMikrotikScript a =
     (let routes = routable (mk_singles a) (mk_blockCidrs a);
          allowed = (if routes \<noteq> [] then ''0.0.0.0/0'' else mk_privateSubnet a);
          wgIface = unlines [''/interface/wireguard'', ''add name=wg-vpnhub listen-port=13231'' @ cont,
            ''    private-key='' @ quoted (mk_privateKey a), ''''];
          wgPeer = unlines [''/interface/wireguard/peers'', ''add interface=wg-vpnhub name=vpnhub-gw'' @ cont,
            ''    public-key='' @ quoted (mk_gwPub a) @ cont,
            ''    endpoint-address='' @ mk_endpointHost a @ '' endpoint-port='' @ show_int (mk_endpointPort a) @ cont,
            ''    allowed-address='' @ allowed @ cont,
            ''    persistent-keepalive=25s'', ''''];
          privAddr = unlines [''/ip/address'', ''add interface=wg-vpnhub address='' @ mk_privateIp a @ ''/'' @ mk_prefix (mk_privateSubnet a), ''''];
          clamp = (\<lambda>dir. [''add chain=forward action=change-mss new-mss=1380 passthrough=yes'' @ cont,
            ''    protocol=tcp tcp-flags=syn tcp-mss=1381-65535 '' @ dir @ ''-interface=wg-vpnhub'' @ cont,
            ''    comment='' @ quoted ''vpnhub: clamp MSS (PMTUD-safe)'']);
          mssClamp = unlines ([''/ip/firewall/mangle''] @ clamp ''out'' @ clamp ''in'' @ ['''']);
          loBridge = unlines ([''/interface/bridge'', ''add name=lo-vpnhub'', '''', ''/ip/address''] @
            map (\<lambda>ip. ''add interface=lo-vpnhub address='' @ ip @ ''/32'') (mk_singles a) @
            map (\<lambda>c. ''add interface=lo-vpnhub address='' @ c) (mk_blockCidrs a) @ ['''']);
          polRouting = unlines ([''/routing/table'', ''add fib name=vpnhub-egress'', '''', ''/ip/route'',
            ''add gateway=wg-vpnhub routing-table=vpnhub-egress'', '''', ''/routing/rule''] @
            map (\<lambda>src. ''add src-address='' @ src @ '' action=lookup table=vpnhub-egress'') routes @ [''''])
      in if routes = [] then wgIface @ wgPeer @ privAddr @ mssClamp
         else wgIface @ wgPeer @ privAddr @ loBridge @ polRouting @ mssClamp)"

definition gre_script :: "string \<Rightarrow> ip4 \<Rightarrow> ip4 \<Rightarrow> cidr list \<Rightarrow> string" where
  "gre_script name remote custEnd routes = unlines
     ([''# VPN Hub GRE tunnel '' @ em_dash @ '' '' @ name,
       ''# Server (VPN Hub): '' @ remote @ '' '' @ mid_dot @ '' customer end: '' @ custEnd,
       ''# Paste into Mikrotik terminal or /import file=<name>.rsc  (RouterOS 7.x)'',
       '''',
       ''/interface gre'',
       ''add name=gre-vpnhub remote-address='' @ remote @ '' local-address=0.0.0.0'' @ cont,
       ''    keepalive=10s,3 mtu=1476 clamp-tcp-mss=yes'',
       '''',
       ''/ip address'',
       ''add address='' @ custEnd @ ''/30 interface=gre-vpnhub'',
       '''',
       ''# Public IPs assigned to this tunnel '' @ em_dash @ '' routed via the GRE interface''] @
      map (\<lambda>r. ''/ip route add dst-address='' @ r @ '' gateway=gre-vpnhub'') routes @
      ['''',
       ''# Suggested: run this script every 60s to auto-update the remote IP if'',
       ''# our DNS changes (mirrors the Mikrotik pattern from the user manual):'',
       ''# :local cloudDNS '' @ quoted ''gw1.myip.in.th'',
       ''# :if ([/interface gre get gre-vpnhub running]) do={} else={'',
       ''#   :local newIp [:resolve $cloudDNS]'',
       ''#   :if ($newIp != [/interface gre get gre-vpnhub remote-address]) do={'',
       ''#     /interface gre set gre-vpnhub remote-address=$newIp'',
       ''#   }'',
       ''# }''])"

definition gre_summary :: "tunnel \<Rightarrow> ip4 \<Rightarrow> ip4 \<Rightarrow> int \<Rightarrow> string" where
  "gre_summary t remote custEnd greKey = unlines
     [''# VPN Hub GRE tunnel '' @ em_dash @ '' '' @ t_name t,
      ''#'',
      ''# Server IP (our end):     '' @ remote,
      ''# Server tunnel address:   '' @ t_private_ip t @ ''/30'',
      ''# Customer tunnel address: '' @ custEnd @ ''/30'',
      ''# GRE key:                 '' @ (if greKey = 0 then ''(none)'' else show_int greKey),
      ''# Remote endpoint on us:   '' @ (case t_remote_endpoint_host t of None \<Rightarrow> ''(not set)'' | Some h \<Rightarrow> h),
      ''#'',
      ''# On Linux: ip tunnel add gre0 mode gre remote '' @ remote @ '' local <your-ip>'' @ (if greKey = 0 then '''' else '' key '' @ show_int greKey),
      ''#           ip addr add '' @ custEnd @ ''/30 dev gre0 && ip link set gre0 up'',
      ''# Then add routes for the public IPs you bought pointing at gre0.'']"

definition buildGreConfig :: "tunnel \<Rightarrow> gateway \<Rightarrow> config_format \<Rightarrow> db \<Rightarrow> config_file" where
  "buildGreConfig t gw fmt s =
     (let custEnd = intToIp (ipToInt (t_private_ip t) + 1);
          remote = (case g_bgp_router_id gw of None \<Rightarrow> ''185.213.250.91'' | Some r \<Rightarrow> r);
          greKey = (case t_gre_key t of None \<Rightarrow> 0 | Some k \<Rightarrow> k)
      in case fmt of
           FmtMikrotik \<Rightarrow> \<lparr>cf_filename = safeName (t_name t) @ ''.mikrotik.rsc'',
             cf_conf = gre_script (t_name t) remote custEnd (routable (single_ips (t_id t) s) (config_blocks (t_id t) s))\<rparr>
         | FmtWireguard \<Rightarrow> \<lparr>cf_filename = safeName (t_name t) @ ''.gre.txt'', cf_conf = gre_summary t remote custEnd greKey\<rparr>)"

definition present :: "string option \<Rightarrow> string option" where
  "present x = (case x of Some (c # cs) \<Rightarrow> Some (c # cs) | _ \<Rightarrow> None)"

definition getConfig :: "(string \<Rightarrow> error + string) \<Rightarrow> uuid \<Rightarrow> uuid \<Rightarrow> config_format \<Rightarrow> db \<Rightarrow> error + config_file" where
  "getConfig decryptSecret userId tid fmt s =
     andThen (or_throw (NotFound ''tunnel'') (own_with_gateway userId tid s)) (\<lambda>(t, gw).
     andThen (throw_if (t_status t = TunProvisioning) (BadRequestException ''tunnel is still provisioning, try again in a moment'')) (\<lambda>_.
     if t_protocol t = ''gre'' then Inr (buildGreConfig t gw fmt s)
     else case (present (t_wg_private_key_encrypted t), present (g_wg_public_key gw), present (g_wg_endpoint gw), g_wg_port gw) of
       (Some enc, Some gwPub, Some host, Some port) \<Rightarrow>
         andThen (decryptSecret enc) (\<lambda>privateKey.
         let singles = single_ips tid s; blockCidrs = config_blocks tid s in
         case fmt of
           FmtMikrotik \<Rightarrow> Inr \<lparr>cf_filename = safeName (t_name t) @ ''.mikrotik.rsc'',
             cf_conf = buildMikrotikScript \<lparr>mk_privateKey = privateKey, mk_gwPub = gwPub, mk_endpointHost = host, mk_endpointPort = port,
               mk_privateIp = t_private_ip t, mk_privateSubnet = g_private_subnet gw, mk_singles = singles, mk_blockCidrs = blockCidrs\<rparr>\<rparr>
         | FmtWireguard \<Rightarrow> Inr \<lparr>cf_filename = safeName (t_name t) @ ''.conf'',
             cf_conf = wireguard_conf privateKey (t_private_ip t) gwPub host port
               (join '', '' (g_private_subnet gw # routable singles blockCidrs))\<rparr>)
     | _ \<Rightarrow> Inl (BadRequestException ''tunnel is missing wireguard fields (data corruption?)'')))"

section \<open>The controller\<close>

record CreateTunnelBody =
  tb_speedTier :: string
  tb_name :: string
  tb_description :: "string option"
  tb_gatewayHostname :: "string option"
  tb_protocol :: "string option"
  tb_remoteEndpointHost :: "string option"

record CreateResponse =
  cx_tunnelId :: uuid
  cx_status :: string
  cx_gateway :: string
  cx_privateIp :: ip4
  cx_greKey :: "int option"

text \<open>
  The jobs of the gateway queue, by their ids; a job whose id is queued already is not added again. The
  GRE branch starts the activation without waiting for it, so its effect is a step of its own.
\<close>

type_synonym job_ids = "uuid list"

definition add_job :: "uuid \<Rightarrow> job_ids \<Rightarrow> job_ids" where
  "add_job tid js = (if tid \<in> set js then js else js @ [tid])"

definition provision :: "uuid_gen \<Rightarrow> ms \<Rightarrow> keypair \<Rightarrow> CreateTunnelInput \<Rightarrow> db \<times> job_ids \<Rightarrow> (error + CreateTunnelResult) \<times> (db \<times> job_ids)" where
  "provision g now kp inp st = (case createTunnel g now kp inp (fst st) of
       (Inl e, s1) \<Rightarrow> (Inl e, (s1, snd st))
     | (Inr r, s1) \<Rightarrow> (Inr r, (s1, add_job (cr_tunnelId r) (snd st))))"

definition create :: "resolver \<Rightarrow> uuid_gen \<Rightarrow> ms \<Rightarrow> keypair \<Rightarrow> uuid \<Rightarrow> CreateTunnelBody \<Rightarrow> db \<times> job_ids \<Rightarrow> (error + CreateResponse) \<times> (db \<times> job_ids)" where
  "create dns g now kp userId body st =
     (if tb_speedTier body = [] \<or> tb_name body = [] then (Inl (BadRequestException ''speedTier, name required''), st)
      else if \<not> TUNNEL_NAME_RE (tb_name body) then (Inl (BadRequestException ''name: a-z A-Z 0-9 - _ only''), st)
      else if tb_protocol body = Some ''gre'' then
        (case present (tb_remoteEndpointHost body) of
           None \<Rightarrow> (Inl (BadRequestException ''remoteEndpointHost required for GRE tunnels''), st)
         | Some host \<Rightarrow>
             (case provisionGreTunnel dns g now \<lparr>gi_userId = userId, gi_speedTier = tb_speedTier body, gi_name = tb_name body,
                 gi_description = tb_description body, gi_remoteEndpointHost = host, gi_gatewayHostname = tb_gatewayHostname body\<rparr> (fst st) of
                (Inl e, s1) \<Rightarrow> (Inl (provision_response e), (s1, snd st))
              | (Inr r, s1) \<Rightarrow> (Inr \<lparr>cx_tunnelId = gr_tunnelId r, cx_status = ''provisioning'', cx_gateway = gr_gatewayHostname r,
                  cx_privateIp = pp_gwEnd (gr_p2p r), cx_greKey = Some (gr_greKey r)\<rparr>, (s1, snd st))))
      else
        (case provision g now kp \<lparr>ci_userId = userId, ci_speedTier = tb_speedTier body, ci_name = tb_name body,
            ci_description = tb_description body, ci_gatewayHostname = tb_gatewayHostname body, ci_protocol = Some ''wireguard''\<rparr> st of
           (Inl e, st1) \<Rightarrow> (Inl (provision_response e), st1)
         | (Inr r, st1) \<Rightarrow> (Inr \<lparr>cx_tunnelId = cr_tunnelId r, cx_status = ''provisioning'', cx_gateway = cr_gatewayHostname r,
             cx_privateIp = cr_privateIp r, cx_greKey = None\<rparr>, st1)))"

text \<open>The query parameter \<open>count\<close>, already a number: a positive one is cut to 10.\<close>

definition ping_count :: "int option \<Rightarrow> int option" where
  "ping_count c = (case c of None \<Rightarrow> None | Some n \<Rightarrow> if n > 0 then Some (min n 10) else None)"

definition ping_endpoint :: "pinger \<Rightarrow> uuid \<Rightarrow> uuid \<Rightarrow> int option \<Rightarrow> db \<Rightarrow> error + ping_result list" where
  "ping_endpoint ping userId tid c s = map_sum (\<lambda>e. BadRequestException (error_text e)) id (pingTunnel ping userId tid (ping_count c) s)"

definition traffic_endpoint :: "(string \<Rightarrow> ms option) \<Rightarrow> uuid \<Rightarrow> uuid \<Rightarrow> string \<Rightarrow> string \<Rightarrow> string option \<Rightarrow> db \<Rightarrow> telemetry \<Rightarrow> error + traffic_report" where
  "traffic_endpoint date userId tid from until bucket s d =
     map_sum (\<lambda>e. BadRequestException (error_text e)) id
       (getTraffic date userId tid from until (if bucket = Some ''1h'' then B1h else if bucket = Some ''1d'' then B1d else B5m) s d)"

record patch_body =
  pb_name :: "string option"
  pb_description :: "string option option"
  pb_remoteEndpointHost :: "string option"

definition when_some :: "'a option \<Rightarrow> ('a \<Rightarrow> 'b op) \<Rightarrow> unit op" where
  "when_some x f s = (case x of None \<Rightarrow> (Inr (), s) | Some v \<Rightarrow> seq (f v) (\<lambda>_. done_with ()) s)"

definition patch :: "resolver \<Rightarrow> agent \<Rightarrow> ms \<Rightarrow> uuid \<Rightarrow> uuid \<Rightarrow> patch_body \<Rightarrow> unit op" where
  "patch dns agent now userId tid body =
     respond bad_request
       (seq (when_some (pb_name body) (updateName now userId tid)) (\<lambda>_.
        seq (when_some (pb_remoteEndpointHost body) (\<lambda>h.
          if js_trim h = [] then attempt (Inl (BadRequestException ''endpoint cannot be empty''))
          else respond provision_response (updateGreEndpoint dns agent now tid userId (js_trim h)))) (\<lambda>_.
        seq (when_some (pb_description body) (updateDescription now userId tid)) (\<lambda>_.
        attempt (throw_if (pb_name body = None \<and> pb_remoteEndpointHost body = None \<and> pb_description body = None)
          (BadRequestException ''nothing to update''))))))"

definition resolveEndpoint :: "resolver \<Rightarrow> agent \<Rightarrow> ms \<Rightarrow> uuid \<Rightarrow> uuid \<Rightarrow> ReresolveResult op" where
  "resolveEndpoint dns agent now userId tid s =
     seq (attempt (or_throw (BadRequestException ''tunnel not found'') (own_tunnel userId tid s))) (\<lambda>t.
     seq (attempt (throw_if (t_protocol t \<noteq> ''gre'') (BadRequestException ''only GRE tunnels have a DNS endpoint''))) (\<lambda>_.
     respond (\<lambda>e. BadRequestException (error_text e)) (resolveGreEndpoint dns agent now tid))) s"

definition endpointHistory :: "uuid \<Rightarrow> uuid \<Rightarrow> db \<Rightarrow> error + audit_log list" where
  "endpointHistory userId tid s =
     andThen (or_throw (BadRequestException ''tunnel not found'') (own_tunnel userId tid s)) (\<lambda>_.
     Inr (take 50 (sort_key (\<lambda>a. - a_created_at a) (filter (\<lambda>a. a_resource_type a = Some ''tunnel'' \<and> a_resource_id a = Some tid \<and>
       a_action a \<in> {''gre.endpoint_reresolved'', ''gre.endpoint_changed''}) (audits s)))))"

definition changeTier :: "agent \<Rightarrow> uuid_gen \<Rightarrow> ms \<Rightarrow> uuid \<Rightarrow> uuid \<Rightarrow> string \<Rightarrow> ChangeTierResult op" where
  "changeTier agent g now userId tid tier = respond provision_response (changeTunnelTier agent g now userId tid tier)"

definition remove :: "agent \<Rightarrow> ms \<Rightarrow> uuid \<Rightarrow> uuid \<Rightarrow> unit op" where
  "remove agent now userId tid s =
     seq (attempt (or_throw (BadRequestException ''tunnel not found'') (own_tunnel userId tid s))) (\<lambda>t.
     respond provision_response
       (if t_protocol t = ''gre'' then deleteGreTunnel agent now tid userId
        else seq (deleteTunnel agent now tid userId) (\<lambda>_. done_with ()))) s"

section \<open>The gateway worker\<close>

datatype job_name = ProvisionTunnel | RemoveTunnel | TodoJob | UnknownJob string

text \<open>One run of a job, and the runs the queue allows: it stops at the first that succeeds.\<close>

definition gateway_processor :: "agent \<Rightarrow> ms \<Rightarrow> job_name \<Rightarrow> uuid \<Rightarrow> bool op" where
  "gateway_processor agent now name tid s = (case name of
       ProvisionTunnel \<Rightarrow> activateTunnel agent now tid s
     | RemoveTunnel \<Rightarrow> removeTunnel agent now tid s
     | TodoJob \<Rightarrow> (Inr True, s)
     | UnknownJob n \<Rightarrow> (Inl (JsError (''unknown gateway job: '' @ n)), s))"

fun run_attempts :: "(agent \<times> ms) list \<Rightarrow> job_name \<Rightarrow> uuid \<Rightarrow> bool op" where
  "run_attempts [] name tid s = (Inl (JsError ''job failed''), s)"
| "run_attempts ((agent, now) # rest) name tid s = (case gateway_processor agent now name tid s of
     (Inr b, s1) \<Rightarrow> (Inr b, s1)
   | (Inl e, s1) \<Rightarrow> if rest = [] then (Inl e, s1) else run_attempts rest name tid s1)"

section \<open>Isolation of customers\<close>

lemma respond_simps:
  "snd (respond h m s) = snd (m s)" "fst (respond h m s) = (case fst (m s) of Inl e \<Rightarrow> Inl (h e) | Inr x \<Rightarrow> Inr x)"
  by (simp_all add: respond_def split: prod.splits sum.splits)

definition refused :: "'a op \<Rightarrow> db \<Rightarrow> bool" where
  "refused m s \<longleftrightarrow> isl (fst (m s)) \<and> snd (m s) = s"

lemma refused_respond [simp]: "refused (respond h m) s = refused m s"
  by (auto simp: refused_def respond_simps isl_def split: sum.splits)

lemma refused_seq: "refused m s \<Longrightarrow> refused (seq m k) s"
  by (auto simp: refused_def seq_def isl_def split: prod.splits sum.splits)

lemma refused_attempt: "refused (attempt r) s = isl r"
  by (simp add: refused_def attempt_def)

lemma refused_seq_pure:
  assumes "\<And>x. m s = (Inr x, s) \<Longrightarrow> refused (k x) s" "snd (m s) = s"
  shows "refused (seq m k) s"
  using assms by (cases "m s"; cases "fst (m s)") (auto simp: refused_def seq_def)

lemma refused_eqI: "(\<And>x. m x = m' x) \<Longrightarrow> refused m' s \<Longrightarrow> refused m s"
  by (simp add: refused_def)

lemma gre_row_stranger:
  assumes "own_tunnel userId tid s = None"
  shows "gre_row (\<lambda>t. t_user_id t = userId \<and> t_deleted_at t = None) tid s = None"
proof -
  have "find (\<lambda>t. t_id t = tid \<and> t_protocol t = ''gre'' \<and> t_user_id t = userId \<and> t_deleted_at t = None) (tunnels s) = None"
    using assms by (auto simp: own_tunnel_def find_None_iff)
  then show ?thesis by (simp add: gre_row_def)
qed

lemma stranger_tier: "own_tunnel userId tid s = None \<Longrightarrow> refused (changeTunnelTier agent g now userId tid tier) s"
  by (auto simp: refused_def changeTunnelTier_def changeTier_tx_def own_tunnel_def seq_def attempt_def sql_begin_def throw_if_def
      isl_def split: sum.splits prod.splits if_splits)

lemma stranger_endpoint: "own_tunnel userId tid s = None \<Longrightarrow> refused (updateGreEndpoint dns agent now tid userId h) s"
  by (simp add: refused_def updateGreEndpoint_def seq_def attempt_def throw_if_def gre_row_stranger)

lemma stranger_rename: "own_tunnel userId tid s = None \<Longrightarrow> refused (updateName now userId tid n) s"
  by (simp add: refused_def updateName_def Let_def seq_def attempt_def throw_if_def)

lemma stranger_describe: "own_tunnel userId tid s = None \<Longrightarrow> refused (updateDescription now userId tid n) s"
  by (simp add: refused_def updateDescription_def Let_def seq_def attempt_def)

lemma refused_when: "x = Some v \<Longrightarrow> refused (f v) s \<Longrightarrow> refused (when_some x f) s"
  using refused_seq [of "f v" s "\<lambda>_. done_with ()"] by (simp add: refused_def when_some_def)

lemma when_None [simp]: "when_some None f s = (Inr (), s)"
  by (simp add: when_some_def)

lemma stranger_patch:
  assumes "own_tunnel userId tid s = None"
  shows "refused (patch dns agent now userId tid body) s"
proof -
  note r = stranger_rename [OF assms] stranger_endpoint [OF assms] stranger_describe [OF assms]
  have n: "refused (seq (when_some None f) k) s = refused (k ()) s" for f :: "'x \<Rightarrow> 'y op" and k :: "unit \<Rightarrow> 'z op"
    by (simp add: refused_def seq_def)
  have h: "refused (if js_trim h = [] then attempt (Inl e) else respond provision_response (updateGreEndpoint dns agent now tid userId (js_trim h))) s"
    for h :: string and e by (simp add: r refused_attempt)
  show ?thesis
    unfolding patch_def refused_respond
    by (cases "pb_name body"; cases "pb_remoteEndpointHost body"; cases "pb_description body")
      (auto simp: n refused_attempt intro!: refused_seq refused_when [OF refl] r h)
qed

text \<open>
  C24. The requests about one tunnel are closed to everybody but its owner: when no live tunnel with that
  id belongs to the user of the session, every request is refused and nothing changes, neither in the
  database nor on a gateway.
\<close>

theorem strangers_refused:
  assumes "own_tunnel userId tid s = None"
  shows "isl (getConfig dec userId tid fmt s) \<and> isl (ping_endpoint ping userId tid c s) \<and>
     isl (traffic_endpoint date userId tid from until b s d) \<and> isl (endpointHistory userId tid s) \<and>
     isl (fst (changeTier agent g now userId tid tier s)) \<and> snd (changeTier agent g now userId tid tier s) = s \<and>
     isl (fst (patch dns agent now userId tid body s)) \<and> snd (patch dns agent now userId tid body s) = s \<and>
     isl (fst (resolveEndpoint dns agent now userId tid s)) \<and> snd (resolveEndpoint dns agent now userId tid s) = s \<and>
     isl (fst (remove agent now userId tid s)) \<and> snd (remove agent now userId tid s) = s"
proof -
  have gw: "own_with_gateway userId tid s = None" using assms by (simp add: own_with_gateway_def)
  have "refused (changeTier agent g now userId tid tier) s" by (simp add: changeTier_def stranger_tier [OF assms])
  moreover have "refused (resolveEndpoint dns agent now userId tid) s"
    using assms by (simp add: refused_def resolveEndpoint_def seq_def attempt_def)
  moreover have "refused (remove agent now userId tid) s" using assms by (simp add: refused_def remove_def seq_def attempt_def)
  ultimately show ?thesis
    using assms gw stranger_patch [OF assms, of dns agent now body]
    by (simp add: getConfig_def ping_endpoint_def pingTunnel_def traffic_endpoint_def getTraffic_def endpointHistory_def refused_def)
qed

theorem strangers_refused_witness:
  "isl (getConfig Inr ''u2'' ''t1'' FmtWireguard demo_db) \<and> snd (remove (\<lambda>_. None) T0 ''u2'' ''t1'' demo_db) = demo_db"
proof -
  have "own_tunnel ''u2'' ''t1'' demo_db = None" by code_simp
  from strangers_refused [OF this, where dec = Inr and fmt = FmtWireguard and agent = "\<lambda>_. None" and now = T0]
  show ?thesis by blast
qed

section \<open>Both ends of a GRE tunnel\<close>

lemma incrementIp_intToIp: "incrementIp (intToIp m) = intToIp (m + 1)"
proof -
  define n where "n = m mod 4294967296"
  have r: "0 \<le> n" "n < 4294967296" by (simp_all add: n_def)
  have m: "intToIp m = intToIp4 n" unfolding intToIp_eq by (rule intToIp4_mod) (simp add: n_def)
  have "incrementIp (intToIp4 n) = intToIp (js_ushr (ipToInt (intToIp4 n) + 1) 0)"
    by (simp add: incrementIp_def intToIp_def ipToInt_def Let_def)
  also have "\<dots> = intToIp (js_ushr (n + 1) 0)" using ipToInt_intToIp4 [OF r] by simp
  also have "\<dots> = intToIp (m + 1)" unfolding intToIp_eq
    by (rule intToIp4_mod) (simp add: js_ushr_def to_uint32_def n_def mod_add_left_eq)
  finally show ?thesis by (simp add: m)
qed

lemma ipToInt_intToIp: "intToIp (ipToInt (intToIp m) + 1) = intToIp (m + 1)"
proof -
  define n where "n = m mod 4294967296"
  have r: "0 \<le> n" "n < 4294967296" by (simp_all add: n_def)
  have "intToIp m = intToIp4 n" unfolding intToIp_eq by (rule intToIp4_mod) (simp add: n_def)
  then have "intToIp (ipToInt (intToIp m) + 1) = intToIp (n + 1)" using ipToInt_intToIp4 [OF r] by simp
  also have "\<dots> = intToIp (m + 1)" unfolding intToIp_eq by (rule intToIp4_mod) (simp add: n_def mod_add_left_eq)
  finally show ?thesis .
qed

lemma allocateNextP2p_ends: "allocateNextP2p subnet used = Inr pp \<Longrightarrow> \<exists>m. pp_gwEnd pp = intToIp m \<and> pp_custEnd pp = intToIp (m + 1)"
  by (auto simp: allocateNextP2p_def Let_def flow split: option.splits)

text \<open>
  C37. Four parts of the program compute the customer's end of a GRE tunnel on their own: the allocator, the
  request to the gateway agent, the connectivity test and the rendered configuration. They agree for
  every network the allocator hands out.
\<close>

theorem gre_ends_agree:
  assumes "allocateNextP2p subnet used = Inr pp" "t_private_ip t = pp_gwEnd pp" "t_protocol t = ''gre''"
  shows "ping_target t = pp_custEnd pp \<and> intToIp (ipToInt (t_private_ip t) + 1) = pp_custEnd pp \<and>
     gre_create_call t gw s = CreateGrePeer (g_id gw) (peerIdFromTunnelId (t_id t)) (t_remote_endpoint_ip t)
       (g_bgp_router_id gw) (pp_gwEnd pp @ ''/30'') (pp_custEnd pp) (gre_routes t s) (tierRateKbit (t_speed_tier t)) \<and>
     cf_conf (buildGreConfig t gw FmtMikrotik s) =
       gre_script (t_name t) (case g_bgp_router_id gw of None \<Rightarrow> ''185.213.250.91'' | Some r \<Rightarrow> r) (pp_custEnd pp)
         (routable (single_ips (t_id t) s) (config_blocks (t_id t) s))"
proof -
  obtain m where m: "pp_gwEnd pp = intToIp m" "pp_custEnd pp = intToIp (m + 1)" using allocateNextP2p_ends [OF assms(1)] by blast
  have c: "intToIp (ipToInt (t_private_ip t) + 1) = pp_custEnd pp" using m assms(2) by (simp add: ipToInt_intToIp)
  then show ?thesis
    using assms(2,3) m by (simp add: ping_target_def incrementIp_intToIp gre_create_call_def buildGreConfig_def Let_def)
qed

theorem gre_ends_agree_witness:
  "\<exists>pp. allocateNextP2p ''10.100.0.0/24'' [] = Inr pp \<and> ping_target (demo_tunnel\<lparr>t_protocol := ''gre'', t_private_ip := pp_gwEnd pp\<rparr>) = pp_custEnd pp \<and>
     pp_custEnd pp = ''10.100.0.2''"
proof -
  have "map_sum id (\<lambda>p. pp_custEnd p) (allocateNextP2p ''10.100.0.0/24'' []) = Inr ''10.100.0.2''" by code_simp
  then obtain pp where pp: "allocateNextP2p ''10.100.0.0/24'' [] = Inr pp" "pp_custEnd pp = ''10.100.0.2''"
    by (cases "allocateNextP2p ''10.100.0.0/24'' []") auto
  from gre_ends_agree [OF pp(1), of "demo_tunnel\<lparr>t_protocol := ''gre'', t_private_ip := pp_gwEnd pp\<rparr>"] pp show ?thesis by simp
qed

section \<open>A change that fails half-way\<close>

text \<open>
  A change of name and endpoint is not atomic: when the new endpoint is refused, the customer gets an
  error, and the tunnel has its new name all the same.
\<close>

theorem patch_partial:
  assumes "own_tunnel userId tid s = Some t" "TUNNEL_NAME_RE (js_trim n)" "t_name t \<noteq> js_trim n"
    and "\<forall>u \<in> set (tunnels s). t_user_id u = userId \<and> t_deleted_at u = None \<and> t_id u \<noteq> tid \<longrightarrow> lower (t_name u) \<noteq> lower (js_trim n)"
    and "js_trim h \<noteq> []" "\<not> isPlausibleHost (js_trim h)"
  shows "\<exists>m s'. patch dns agent now userId tid \<lparr>pb_name = Some n, pb_description = d, pb_remoteEndpointHost = Some h\<rparr> s = (Inl (BadRequestException m), s') \<and>
     own_tunnel userId tid s' = Some (t\<lparr>t_name := js_trim n\<rparr>)"
proof -
  let ?P = "\<lambda>t. t_id t = tid \<and> t_user_id t = userId \<and> t_deleted_at t = None"
  let ?s1 = "audit now ActUser (Some userId) ''tunnel.rename'' (Some ''tunnel'') (Some tid)
    [(''oldName'', JStr (t_name t)), (''newName'', JStr (js_trim n))] (set_tunnels ?P (\<lambda>t. t\<lparr>t_name := js_trim n\<rparr>) s)"
  have 1: "updateName now userId tid n s = (Inr (tid, js_trim n), ?s1)"
    using assms(1-4) by (auto simp: updateName_def Let_def seq_def attempt_def throw_if_def do_stmt_def done_with_def)
  have 2: "updateGreEndpoint dns agent now tid userId (js_trim h) ?s1 = (Inl (ValidationError ''endpoint must be a valid domain or IPv4''), ?s1)"
    using assms(6) by (simp add: updateGreEndpoint_def seq_def attempt_def)
  have p: "?P t" using assms(1) by (auto simp: own_tunnel_def dest: find_SomeD)
  have "own_tunnel userId tid ?s1 = Some (t\<lparr>t_name := js_trim n\<rparr>)"
    using assms(1) p by (simp add: own_tunnel_def audit_def set_tunnels_def find_upd_where)
  moreover have "patch dns agent now userId tid \<lparr>pb_name = Some n, pb_description = d, pb_remoteEndpointHost = Some h\<rparr> s =
      (Inl (bad_request (provision_response (ValidationError ''endpoint must be a valid domain or IPv4''))), ?s1)"
    using 1 2 assms(5) by (simp add: patch_def respond_def seq_def when_some_def done_with_def)
  ultimately show ?thesis by (simp add: bad_request_def provision_response_def error_code_def)
qed

theorem patch_partial_witness:
  "\<exists>m s' t. patch (\<lambda>_. Inr []) (\<lambda>_. None) T0 ''u1'' ''t1'' \<lparr>pb_name = Some ''office'', pb_description = None, pb_remoteEndpointHost = Some ''not a host''\<rparr> demo_db =
     (Inl (BadRequestException m), s') \<and> own_tunnel ''u1'' ''t1'' s' = Some t \<and> t_name t = ''office''"
proof -
  have n: "js_trim ''office'' = ''office''" "js_trim ''not a host'' = ''not a host''" "TUNNEL_NAME_RE ''office''" "\<not> isPlausibleHost ''not a host''"
    by code_simp+
  have t: "own_tunnel ''u1'' ''t1'' demo_db = Some demo_tunnel" "tunnels demo_db = [demo_tunnel]" "t_name demo_tunnel \<noteq> ''office''" "t_id demo_tunnel = ''t1''"
    by code_simp+
  from patch_partial [OF t(1), of "''office''" "''not a host''" "\<lambda>_. Inr []" "\<lambda>_. None" T0 None] n t show ?thesis by fastforce
qed

section \<open>Traffic reports\<close>

lemma sum_groups:
  assumes "distinct ks" "set (map f us) \<subseteq> set ks"
  shows "sum_list (map (\<lambda>k. sum_list (map g (filter (\<lambda>u. f u = k) us))) ks) = (sum_list (map g us) :: int)"
  using assms(2)
proof (induction us)
  case (Cons u us)
  have "sum_list (map (\<lambda>k. sum_list (map g (filter (\<lambda>u. f u = k) (u # us)))) ks) =
    sum_list (map (\<lambda>k. (if k = f u then g u else 0) + sum_list (map g (filter (\<lambda>u. f u = k) us))) ks)"
    by (intro arg_cong [where f = sum_list] map_cong) auto
  also have "\<dots> = sum_list (map (\<lambda>k. if k = f u then g u else 0) ks) + sum_list (map (\<lambda>k. sum_list (map g (filter (\<lambda>u. f u = k) us))) ks)"
    by (simp add: sum_list_addf)
  also have "sum_list (map (\<lambda>k. if k = f u then g u else 0) ks) = g u"
    using assms(1) Cons.prems by (simp add: sum_list_distinct_conv_sum_set sum.If_cases)
  finally show ?case using Cons by simp
qed simp

lemma foldl_totals:
  "foldl (\<lambda>n (_, rx, _). n + rx) a xs = a + sum_list (map (\<lambda>(_, rx, _). rx) xs)"
  "foldl (\<lambda>n (_, _, tx). n + tx) a xs = a + sum_list (map (\<lambda>(_, _, tx). tx) xs)" for a :: int
  by (induction xs arbitrary: a) auto

lemma binned_totals:
  "sum_list (map (\<lambda>(_, rx, _). rx) (binned step us)) = sum_list (map bu_rx_bytes us)"
  "sum_list (map (\<lambda>(_, _, tx). tx) (binned step us)) = sum_list (map bu_tx_bytes us)"
  unfolding binned_def Let_def map_map comp_def case_prod_conv
  by (rule sum_groups; simp)+

text \<open>
  A traffic report loses nothing by its resolution: whatever the bucket, its totals are the bytes
  stored for the tunnel in the half-open range, its buckets are distinct, in order and aligned to the
  resolution, and a range beyond 90 days or an empty one is refused.
\<close>

theorem getTraffic_correct:
  assumes "getTraffic date userId tid fromISO toISO bucket s d = Inr r"
  shows "\<exists>from until. date fromISO = Some from \<and> date toISO = Some until \<and> from < until \<and> until - from \<le> 90 * DAY_MS \<and>
     own_tunnel userId tid s \<noteq> None \<and>
     rep_totalRx r = sum_list (map bu_rx_bytes (usage_between tid from until d)) \<and>
     rep_totalTx r = sum_list (map bu_tx_bytes (usage_between tid from until d)) \<and>
     sorted (map fst (rep_samples r)) \<and> distinct (map fst (rep_samples r)) \<and> (\<forall>k \<in> set (map fst (rep_samples r)). bucketMs bucket dvd k)"
proof -
  from assms obtain from' until where r: "date fromISO = Some from'" "date toISO = Some until" "from' < until" "until - from' \<le> 7776000000"
    "own_tunnel userId tid s \<noteq> None" "rep_samples r = binned (bucketMs bucket) (usage_between tid from' until d)"
    "rep_totalRx r = foldl (\<lambda>n (_, rx, _). n + rx) 0 (rep_samples r)" "rep_totalTx r = foldl (\<lambda>n (_, _, tx). n + tx) 0 (rep_samples r)"
    by (auto simp: getTraffic_def Let_def flow split: option.splits)
  have "map fst (rep_samples r) = sort (remdups (map (\<lambda>u. date_bin (bucketMs bucket) (bu_bucket_start u)) (usage_between tid from' until d)))"
    by (simp add: r(6) binned_def Let_def comp_def)
  then have "sorted (map fst (rep_samples r))" "distinct (map fst (rep_samples r))" "\<forall>k \<in> set (map fst (rep_samples r)). bucketMs bucket dvd k"
    by (auto simp: date_bin_def)
  with r show ?thesis by (auto simp: foldl_totals binned_totals)
qed

section \<open>Names\<close>

definition names_unique :: "db \<Rightarrow> bool" where
  "names_unique s \<longleftrightarrow> distinct (map (\<lambda>t. (t_user_id t, lower (t_name t))) (filter (\<lambda>t. t_deleted_at t = None) (tunnels s)))"

lemma distinct_keys_upd:
  assumes "distinct (map t_id ts)" "distinct (map k (filter L ts))" "\<And>t. t_id (f t) = t_id t" "\<And>t. L (f t) = L t"
    and "\<And>t u. t \<in> set ts \<Longrightarrow> u \<in> set ts \<Longrightarrow> P t \<Longrightarrow> L u \<Longrightarrow> t_id u \<noteq> t_id t \<Longrightarrow> k u \<noteq> k (f t)"
    and one: "\<And>t u. t \<in> set ts \<Longrightarrow> u \<in> set ts \<Longrightarrow> P t \<Longrightarrow> P u \<Longrightarrow> t_id t = t_id u"
  shows "distinct (map k (filter L (upd_where P f ts)))"
  using assms(1,2,5,6)
proof (induction ts)
  case (Cons t ts)
  have IH: "distinct (map k (filter L (upd_where P f ts)))"
  proof (rule Cons.IH)
    show "distinct (map t_id ts)" "distinct (map k (filter L ts))" using Cons.prems(1,2) by (simp_all split: if_splits)
    show "k u \<noteq> k (f v)" if "v \<in> set ts" "u \<in> set ts" "P v" "L u" "t_id u \<noteq> t_id v" for v u
      using Cons.prems(3) [of v u] that by simp
    show "t_id v = t_id u" if "v \<in> set ts" "u \<in> set ts" "P v" "P u" for v u
      using Cons.prems(4) [of v u] that by simp
  qed
  have new: "k (if P t then f t else t) \<notin> k ` {u \<in> set (upd_where P f ts). L u}" if "L t"
  proof
    assume "k (if P t then f t else t) \<in> k ` {u \<in> set (upd_where P f ts). L u}"
    then obtain u where u: "u \<in> set ts" "L u" "k (if P t then f t else t) = k (if P u then f u else u)"
      by (auto simp: in_set_upd_where assms(4) split: if_splits)
    have "t_id t \<notin> t_id ` set ts" using Cons.prems(1) by simp
    then have id: "t_id u \<noteq> t_id t" using u(1) by (metis imageI)
    show False
    proof (cases "P t")
      case True
      then have "\<not> P u" using Cons.prems(4) [of t u] u(1) id by simp metis
      with True u Cons.prems(3) [of t u] id show False by simp
    next
      case False
      show False
      proof (cases "P u")
        case True
        with False u Cons.prems(3) [of u t] id that show False by simp
      next
        case nP: False
        with False u(3) have "k t = k u" by simp
        with Cons.prems(2) that u(1,2) show False by simp
      qed
    qed
  qed
  show ?case using IH new by (cases "P t") (simp_all add: assms(4))
next
  case Nil
  show ?case by simp
qed

text \<open>
  A rename succeeds exactly for the owner, with a valid name that no other live tunnel of that customer
  has up to case; then it changes nothing but that name and one audit row, and names stay unique per
  customer, so that the unique index behind it never fires.
\<close>

theorem updateName_correct:
  assumes "ids_ok s" "names_unique s"
  shows "(isl (fst (updateName now userId tid n s)) \<longleftrightarrow>
        \<not> TUNNEL_NAME_RE (js_trim n) \<or> own_tunnel userId tid s = None \<or>
        (\<exists>t \<in> set (tunnels s). t_user_id t = userId \<and> lower (t_name t) = lower (js_trim n) \<and> t_id t \<noteq> tid \<and> t_deleted_at t = None) \<and>
          map_option t_name (own_tunnel userId tid s) \<noteq> Some (js_trim n)) \<and>
     (isl (fst (updateName now userId tid n s)) \<longrightarrow> snd (updateName now userId tid n s) = s) \<and>
     (\<not> isl (fst (updateName now userId tid n s)) \<longrightarrow>
        map_option t_name (own_tunnel userId tid (snd (updateName now userId tid n s))) = Some (js_trim n)) \<and>
     names_unique (snd (updateName now userId tid n s)) \<and>
     map (t_name_update (\<lambda>_. [])) (tunnels (snd (updateName now userId tid n s))) = map (t_name_update (\<lambda>_. [])) (tunnels s) \<and>
     filter (\<lambda>t. t_id t \<noteq> tid) (tunnels (snd (updateName now userId tid n s))) = filter (\<lambda>t. t_id t \<noteq> tid) (tunnels s) \<and>
     (let s' = snd (updateName now userId tid n s) in s'\<lparr>tunnels := [], audits := []\<rparr> = s\<lparr>tunnels := [], audits := []\<rparr>)"
proof (cases "TUNNEL_NAME_RE (js_trim n) \<and> own_tunnel userId tid s \<noteq> None")
  case False
  then have "updateName now userId tid n s = (Inl (if TUNNEL_NAME_RE (js_trim n) then NotFound ''tunnel'' else BadRequestException ''name: a-z A-Z 0-9 - _ only''), s)"
    by (auto simp: updateName_def Let_def seq_def attempt_def throw_if_def)
  then show ?thesis using False assms(2) by simp
next
  case True
  then obtain t where t: "own_tunnel userId tid s = Some t" and re: "TUNNEL_NAME_RE (js_trim n)" by auto
  let ?P = "\<lambda>t. t_id t = tid \<and> t_user_id t = userId \<and> t_deleted_at t = None"
  define dup where "dup = (\<exists>t \<in> set (tunnels s). t_user_id t = userId \<and> lower (t_name t) = lower (js_trim n) \<and> t_id t \<noteq> tid \<and> t_deleted_at t = None)"
  let ?s1 = "set_tunnels ?P (\<lambda>t. t\<lparr>t_name := js_trim n\<rparr>) s"
  let ?s2 = "audit now ActUser (Some userId) ''tunnel.rename'' (Some ''tunnel'') (Some tid) [(''oldName'', JStr (t_name t)), (''newName'', JStr (js_trim n))] ?s1"
  have run: "updateName now userId tid n s = (if t_name t = js_trim n then (Inr (tid, js_trim n), s)
      else if dup then (Inl (BadRequestException (''name taken: '' @ js_trim n)), s) else (Inr (tid, js_trim n), ?s2))"
    using t re unfolding updateName_def Let_def dup_def [symmetric] by (simp add: seq_def attempt_def throw_if_def do_stmt_def done_with_def)
  show ?thesis
  proof (cases "t_name t = js_trim n \<or> dup")
    case True
    then show ?thesis using t re assms(2) unfolding dup_def [symmetric] by (auto simp: run)
  next
    case new: False
    then have run2: "updateName now userId tid n s = (Inr (tid, js_trim n), ?s2)" using run by simp
    have own: "own_tunnel userId tid ?s2 = Some (t\<lparr>t_name := js_trim n\<rparr>)"
      using t by (auto simp: own_tunnel_def audit_def set_tunnels_def find_upd_where dest: find_SomeD)
    have "distinct (map t_id (tunnels s))" using assms(1) by (simp add: ids_ok_def)
    then have "names_unique ?s2"
      unfolding names_unique_def audit_def set_tunnels_def
      by simp (rule distinct_keys_upd, use assms(2) new in \<open>auto simp: names_unique_def dup_def\<close>)
    moreover have "map (t_name_update (\<lambda>_. [])) (tunnels ?s2) = map (t_name_update (\<lambda>_. [])) (tunnels s)"
      unfolding audit_def set_tunnels_def by simp (rule map_upd_where_same, simp)
    moreover have "filter (\<lambda>v. t_id v \<noteq> tid) (upd_where ?P f ts) = filter (\<lambda>v. t_id v \<noteq> tid) ts" if "\<And>v. t_id (f v) = t_id v" for f and ts :: "tunnel list"
      using that by (induction ts) auto
    then have "filter (\<lambda>v. t_id v \<noteq> tid) (tunnels ?s2) = filter (\<lambda>v. t_id v \<noteq> tid) (tunnels s)" unfolding audit_def set_tunnels_def by simp
    moreover have "?s2\<lparr>tunnels := [], audits := []\<rparr> = s\<lparr>tunnels := [], audits := []\<rparr>" by (simp add: audit_def set_tunnels_def)
    ultimately show ?thesis using t re new own unfolding dup_def [symmetric] run2 by simp
  qed
qed

theorem updateName_correct_witness:
  "map_option t_name (own_tunnel ''u1'' ''t1'' (snd (updateName T0 ''u1'' ''t1'' '' office '' demo_db))) = Some ''office''"
proof -
  have 1: "ids_ok demo_db" "names_unique demo_db" "\<not> isl (fst (updateName T0 ''u1'' ''t1'' '' office '' demo_db))" "js_trim '' office '' = ''office''"
    by code_simp+
  from updateName_correct [OF 1(1,2), of T0 "''u1''" "''t1''" "'' office ''"] 1(3,4) show ?thesis by simp
qed

definition demo_usage :: telemetry where
  "demo_usage = \<lparr>te_last = [], te_usage = [\<lparr>bu_tunnel_id = ''t1'', bu_bucket_start = T0, bu_rx_bytes = 10, bu_tx_bytes = 1\<rparr>,
     \<lparr>bu_tunnel_id = ''t1'', bu_bucket_start = T0 + 300000, bu_rx_bytes = 20, bu_tx_bytes = 2\<rparr>], te_events = []\<rparr>"

theorem getTraffic_correct_witness:
  "\<exists>r. getTraffic (\<lambda>x. if x = ''a'' then Some T0 else Some (T0 + 3600000)) ''u1'' ''t1'' ''a'' ''b'' B1h demo_db demo_usage = Inr r \<and> rep_totalRx r = 30"
proof -
  let ?date = "\<lambda>x. if x = ''a'' then Some T0 else Some (T0 + 3600000)"
  have "\<not> isl (getTraffic ?date ''u1'' ''t1'' ''a'' ''b'' B1h demo_db demo_usage)" by code_simp
  then obtain r where r: "getTraffic ?date ''u1'' ''t1'' ''a'' ''b'' B1h demo_db demo_usage = Inr r" by (cases "getTraffic ?date ''u1'' ''t1'' ''a'' ''b'' B1h demo_db demo_usage") auto
  have "sum_list (map bu_rx_bytes (usage_between ''t1'' T0 (T0 + 3600000) demo_usage)) = 30" by code_simp
  with getTraffic_correct [OF r] r show ?thesis by simp
qed

section \<open>The rendered file can be read back\<close>

text \<open>A reader of configuration files: the value of the first line \<open>key = value\<close>.\<close>

definition conf_value :: "string \<Rightarrow> string \<Rightarrow> string option" where
  "conf_value key conf = map_option (drop (length key + 3)) (find (\<lambda>l. take (length key + 3) l = key @ '' = '') (split_on CHR 0x0A conf))"

fun skip_space :: "string \<Rightarrow> string" where
  "skip_space [] = []"
| "skip_space (c # cs) = (if c = CHR '' '' then cs else c # cs)"

definition conf_list :: "string \<Rightarrow> string list" where
  "conf_list v = map skip_space (split_on CHR '','' v)"

definition one_line :: "string \<Rightarrow> bool" where
  "one_line t \<longleftrightarrow> CHR 0x0A \<notin> set t"

definition item :: "string \<Rightarrow> bool" where
  "item t \<longleftrightarrow> CHR 0x0A \<notin> set t \<and> CHR '','' \<notin> set t \<and> take 1 t \<noteq> '' ''"

lemma split_unlines: "\<forall>l \<in> set ls. one_line l \<Longrightarrow> split_on CHR 0x0A (unlines ls) = ls @ [[]]"
  by (induction ls) (simp_all add: unlines_def nl_def one_line_def split_on_sep)

lemma conf_list_join:
  assumes "item x" "\<forall>y \<in> set xs. item y"
  shows "conf_list (join '', '' (x # xs)) = x # xs"
proof -
  have sp: "skip_space z = z" if "item z" for z using that by (cases z) (auto simp: item_def)
  have "split_on CHR '','' (join '', '' (x # xs)) = x # map (\<lambda>y. CHR '' '' # y) xs"
    using assms
  proof (induction xs arbitrary: x)
    case Nil
    then show ?case by (simp add: item_def split_on_no_sep)
  next
    case (Cons y ys)
    have "split_on CHR '','' (x @ CHR '','' # CHR '' '' # join '', '' (y # ys)) = x # split_on CHR '','' (CHR '' '' # join '', '' (y # ys))"
      using Cons.prems by (intro split_on_sep) (simp add: item_def)
    then show ?case using Cons by simp
  qed
  then have "conf_list (join '', '' (x # xs)) = skip_space x # map (\<lambda>y. y) xs" by (simp add: conf_list_def comp_def)
  then show ?thesis using assms(1) by (simp add: sp)
qed

lemma one_line_join:
  assumes "\<forall>y \<in> set xs. item y"
  shows "one_line (join '', '' xs)"
  using assms by (induction xs rule: induct_list012) (auto simp: one_line_def item_def)

lemma one_line_app [simp]: "one_line (a @ b) \<longleftrightarrow> one_line a \<and> one_line b"
  by (auto simp: one_line_def)

lemma one_line_digits: "one_line (show_int n)"
proof -
  have "CHR 0x0A \<notin> set (show_nat k)" for k
  proof
    assume "CHR 0x0A \<in> set (show_nat k)"
    then obtain i where i: "CHR 0x0A = digit_char i" using show_nat_digits by blast
    have "digit_char i \<in> set ''0123456789''" unfolding digit_char_def by (rule nth_mem) simp
    then show False unfolding i [symmetric] by simp
  qed
  then show ?thesis by (simp add: one_line_def show_int_def)
qed

text \<open>The addresses a file routes are those the gateway was told to route, in another order.\<close>

lemma routable_cidrs: "mset (routable (single_ips tid s) (config_blocks tid s)) = mset (tunnel_cidrs tid s)"
proof -
  have "filter (\<lambda>p. i_tunnel_id p = Some tid \<and> i_block_id p = None \<and> i_status p = IpAllocated) (ips s) =
    filter (\<lambda>p. i_tunnel_id p = Some tid \<and> i_status p = IpAllocated \<and> i_block_id p = None) (ips s)"
    by (intro filter_cong) auto
  then show ?thesis
    by (simp add: routable_def single_ips_def config_blocks_def tunnel_cidrs_def tunnel_singles_def comp_def)
qed


text \<open>
  C31. The WireGuard file a customer downloads can be read back: each key holds the value of the database,
  and the routed addresses, read as a list, are the subnet of the gateway and exactly the addresses and
  blocks that are pushed to the gateway for this tunnel.
\<close>

theorem config_roundtrip:
  assumes conf: "getConfig dec userId tid FmtWireguard s = Inr f" and own: "own_with_gateway userId tid s = Some (t, gw)"
    and wg: "t_protocol t \<noteq> ''gre''" "t_wg_private_key_encrypted t = Some enc" "dec enc = Inr key"
      "g_wg_public_key gw = Some pub" "g_wg_endpoint gw = Some host" "g_wg_port gw = Some port"
    and lines: "one_line key" "one_line pub" "one_line host" "one_line (t_private_ip t)"
    and items: "item (g_private_subnet gw)" "\<forall>c \<in> set (tunnel_cidrs tid s). item c"
  shows "conf_value ''PrivateKey'' (cf_conf f) = Some key \<and> conf_value ''Address'' (cf_conf f) = Some (t_private_ip t @ ''/32'') \<and>
     conf_value ''PublicKey'' (cf_conf f) = Some pub \<and> conf_value ''Endpoint'' (cf_conf f) = Some (host @ '':'' @ show_int port) \<and>
     (\<exists>v routes. conf_value ''AllowedIPs'' (cf_conf f) = Some v \<and> conf_list v = g_private_subnet gw # routes \<and>
        mset routes = mset (tunnel_cidrs tid s))"
proof -
  define routes where "routes = routable (single_ips tid s) (config_blocks tid s)"
  define v where "v = join '', '' (g_private_subnet gw # routes)"
  have c: "cf_conf f = wireguard_conf key (t_private_ip t) pub host port v"
    using conf own wg by (auto simp: getConfig_def present_def Let_def v_def routes_def flow split: list.splits)
  have m: "mset routes = mset (tunnel_cidrs tid s)" unfolding routes_def by (rule routable_cidrs)
  then have i: "\<forall>c \<in> set routes. item c" using items(2) by (metis set_mset_mset)
  then have "one_line v" unfolding v_def using items(1) by (intro one_line_join) simp
  then have split: "split_on CHR 0x0A (cf_conf f) =
    [''[Interface]'', ''PrivateKey = '' @ key, ''Address = '' @ t_private_ip t @ ''/32'', '''', ''[Peer]'', ''PublicKey = '' @ pub,
     ''Endpoint = '' @ host @ '':'' @ show_int port, ''AllowedIPs = '' @ v, ''PersistentKeepalive = 25''] @ [[]]"
    unfolding c wireguard_conf_def using lines one_line_digits [of port]
    by (intro split_unlines) (simp add: one_line_def)
  have "conf_list v = g_private_subnet gw # routes" unfolding v_def by (rule conf_list_join [OF items(1) i])
  with m split show ?thesis by (simp add: conf_value_def)
qed

definition config_db :: db where
  "config_db = demo_db\<lparr>tunnels := [demo_tunnel\<lparr>t_wg_private_key_encrypted := Some ''secret''\<rparr>]\<rparr>"

theorem config_roundtrip_witness:
  "\<exists>f v. getConfig Inr ''u1'' ''t1'' FmtWireguard config_db = Inr f \<and> conf_value ''PrivateKey'' (cf_conf f) = Some ''secret'' \<and>
     conf_value ''AllowedIPs'' (cf_conf f) = Some v \<and> mset (conf_list v) = {#''10.8.0.0/24'', ''203.0.113.1/32'', ''203.0.113.8/30''#}"
proof -
  have "\<not> isl (getConfig Inr ''u1'' ''t1'' FmtWireguard config_db)" by code_simp
  then obtain f where f: "getConfig Inr ''u1'' ''t1'' FmtWireguard config_db = Inr f"
    by (cases "getConfig Inr ''u1'' ''t1'' FmtWireguard config_db") auto
  define t where "t = demo_tunnel\<lparr>t_wg_private_key_encrypted := Some ''secret''\<rparr>"
  define gw where "gw = hd (gateways demo_db)"
  have own: "own_with_gateway ''u1'' ''t1'' config_db = Some (t, gw)" unfolding t_def gw_def by code_simp
  have flds: "t_protocol t \<noteq> ''gre''" "t_wg_private_key_encrypted t = Some ''secret''" "g_wg_public_key gw = Some ''gpk''"
    "g_wg_endpoint gw = Some ''gw1.example.net''" "g_wg_port gw = Some 51820" "g_private_subnet gw = ''10.8.0.0/24''" "t_private_ip t = ''10.8.0.2''"
    unfolding t_def gw_def by code_simp+
  have lines: "one_line ''secret''" "one_line ''gpk''" "one_line ''gw1.example.net''" "one_line (t_private_ip t)" "item (g_private_subnet gw)"
    unfolding flds by code_simp+
  have cidrs: "tunnel_cidrs ''t1'' config_db = [''203.0.113.1/32'', ''203.0.113.8/30'']" by code_simp
  have items: "\<forall>c \<in> set (tunnel_cidrs ''t1'' config_db). item c" unfolding cidrs by code_simp
  from config_roundtrip [OF f own flds(1,2) _ flds(3,4,5) lines items] f cidrs flds(6) show ?thesis by auto
qed

section \<open>From the request to the active tunnel\<close>

lemma activate_fails:
  assumes "tunnel_with_gateway tid s = Some (t, gw)" "t_status t \<noteq> TunActive" "\<And>c. agent c \<noteq> None"
  shows "\<exists>e c. activateTunnel agent now tid s = (Inl e, send c s)"
  using assms(1,2) assms(3) [of "CreatePeer (g_id gw) tid (t_wg_public_key t) (t_private_ip t) [] (tierRateKbit (t_speed_tier t))"]
  by (auto simp: activateTunnel_def seq_def request_def)

lemma tunnel_with_gateway_send [simp]: "tunnel_with_gateway tid (send c s) = tunnel_with_gateway tid s"
  by (simp add: tunnel_with_gateway_def send_def split: option.splits)

lemma activate_succeeds:
  assumes "tunnel_with_gateway tid s = Some (t, gw)" "t_status t \<noteq> TunActive" "\<And>c. agent c = None"
  shows "\<exists>s'. activateTunnel agent now tid s = (Inr False, s') \<and> find (\<lambda>t. t_id t = tid) (tunnels s') = Some (t\<lparr>t_status := TunActive\<rparr>)"
proof -
  from assms(1) have f: "find (\<lambda>t. t_id t = tid) (tunnels s) = Some t" by (auto simp: tunnel_with_gateway_def split: option.splits)
  then have "t_id t = tid" by (rule find_SomeD(2))
  with f assms show ?thesis by (simp add: activateTunnel_def flow_defs find_upd_where)
qed

text \<open>A request that creates a WireGuard tunnel queues the job that activates it.\<close>

lemma create_queues:
  assumes "create dns g now kp userId body st = (Inr r, st')" "tb_protocol body \<noteq> Some ''gre''"
  shows "cx_tunnelId r \<in> set (snd st')" "set (snd st') \<subseteq> insert (cx_tunnelId r) (set (snd st))"
  using assms by (auto simp: create_def provision_def add_job_def split: if_splits prod.splits sum.splits)



end
