(* ===== verification/Auth.thy ===== *)
theory Auth
  imports Provision
begin

text \<open>
  \<^verbatim>\<open>packages/auth\<close>, the guards of \<^verbatim>\<open>apps/api\<close> and the sign-in routes of the portal: who is behind a
  request. A session lives twice, as a row of \<^verbatim>\<open>user_sessions\<close> and as an entry of Redis with an expiry
  of its own; both are keyed by the hash of the token. The hash function, the random token, the
  environment and the answer of Google are parameters. The column \<^verbatim>\<open>google_sub\<close> of the users is kept
  beside the sessions; the trigger that creates a wallet is the one the comment of the source describes.
\<close>

section \<open>Sessions\<close>

record user_session =
  ss_user_id :: uuid
  ss_token_hash :: string
  ss_expires_at :: ms
  ss_revoked_at :: "ms option"

record SessionPayload =
  sp_userId :: uuid
  sp_email :: string
  sp_isAdmin :: bool

record AppUser =
  ap_id :: uuid
  ap_email :: string
  ap_isAdmin :: bool

record auth =
  az_sessions :: "user_session list"
  az_redis :: "string \<Rightarrow> (SessionPayload \<times> ms) option"
  az_subs :: "(string \<times> uuid) list"

definition rkey :: "(string \<Rightarrow> string) \<Rightarrow> string \<Rightarrow> string" where
  "rkey sha t = ''sess:'' @ sha t"

definition redis_get :: "ms \<Rightarrow> string \<Rightarrow> auth \<Rightarrow> SessionPayload option" where
  "redis_get now k a = (case az_redis a k of None \<Rightarrow> None | Some (p, e) \<Rightarrow> if now < e then Some p else None)"

definition redis_set :: "ms \<Rightarrow> string \<Rightarrow> SessionPayload \<Rightarrow> int \<Rightarrow> auth \<Rightarrow> auth" where
  "redis_set now k p seconds a = a\<lparr>az_redis := (az_redis a)(k := Some (p, now + seconds * 1000))\<rparr>"

definition isAdmin :: "string list \<Rightarrow> string \<Rightarrow> db \<Rightarrow> bool" where
  "isAdmin adminEmails email s \<longleftrightarrow> lower email \<in> set adminEmails \<or>
     (\<exists>r \<in> set (admins s). lower (au_email r) = lower email \<and> au_active r)"

text \<open>Redis is written first; a failing insert leaves the entry behind.\<close>

definition createSession :: "(string \<Rightarrow> string) \<Rightarrow> int \<Rightarrow> ms \<Rightarrow> string \<Rightarrow> AppUser \<Rightarrow> db \<Rightarrow> auth \<Rightarrow> (error + string) \<times> auth" where
  "createSession sha ttl now token user s a =
     (let a1 = redis_set now (rkey sha token) \<lparr>sp_userId = ap_id user, sp_email = ap_email user, sp_isAdmin = ap_isAdmin user\<rparr> ttl a
      in if ap_id user \<notin> set (map u_id (users s)) then (Inl (JsError ''violates foreign key constraint''), a1)
         else if sha token \<in> set (map ss_token_hash (az_sessions a1)) then (Inl (UniqueViolation ''user_sessions_token_hash_key''), a1)
         else (Inr token, a1\<lparr>az_sessions := az_sessions a1 @
           [\<lparr>ss_user_id = ap_id user, ss_token_hash = sha token, ss_expires_at = now + ttl * 1000, ss_revoked_at = None\<rparr>]\<rparr>))"

definition session_user :: "(string \<Rightarrow> string) \<Rightarrow> ms \<Rightarrow> string \<Rightarrow> db \<Rightarrow> auth \<Rightarrow> user option" where
  "session_user sha now token s a =
     (case find (\<lambda>r. ss_token_hash r = sha token \<and> ss_revoked_at r = None \<and> ss_expires_at r > now \<and>
          (\<exists>u \<in> set (users s). u_id u = ss_user_id r \<and> u_deleted_at u = None \<and> u_status u = UserActive)) (az_sessions a) of
        None \<Rightarrow> None
      | Some r \<Rightarrow> find (\<lambda>u. u_id u = ss_user_id r \<and> u_deleted_at u = None \<and> u_status u = UserActive) (users s))"

definition resolveSession :: "(string \<Rightarrow> string) \<Rightarrow> string list \<Rightarrow> ms \<Rightarrow> string option \<Rightarrow> db \<Rightarrow> auth \<Rightarrow> SessionPayload option \<times> auth" where
  "resolveSession sha adminEmails now tok s a =
     (case tok of
        None \<Rightarrow> (None, a)
      | Some token \<Rightarrow>
          if token = [] then (None, a)
          else (case redis_get now (rkey sha token) a of
              Some p \<Rightarrow> (Some p, a)
            | None \<Rightarrow>
                (case session_user sha now token s a of
                   None \<Rightarrow> (None, a)
                 | Some u \<Rightarrow>
                     let p = \<lparr>sp_userId = u_id u, sp_email = u_email u, sp_isAdmin = isAdmin adminEmails (u_email u) s\<rparr>
                     in (Some p, redis_set now (rkey sha token) p 3600 a))))"

definition destroySession :: "(string \<Rightarrow> string) \<Rightarrow> ms \<Rightarrow> string option \<Rightarrow> auth \<Rightarrow> auth" where
  "destroySession sha now tok a =
     (case tok of
        None \<Rightarrow> a
      | Some token \<Rightarrow>
          if token = [] then a
          else a\<lparr>az_redis := (az_redis a)(rkey sha token := None),
            az_sessions := upd_where (\<lambda>r. ss_token_hash r = sha token \<and> ss_revoked_at r = None) (\<lambda>r. r\<lparr>ss_revoked_at := Some now\<rparr>) (az_sessions a)\<rparr>)"

section \<open>Cookies and guards\<close>

definition hex_val :: "char \<Rightarrow> nat option" where
  "hex_val c = (if CHR ''0'' \<le> c \<and> c \<le> CHR ''9'' then Some (of_char c - 48)
     else if CHR ''a'' \<le> c \<and> c \<le> CHR ''f'' then Some (of_char c - 87)
     else if CHR ''A'' \<le> c \<and> c \<le> CHR ''F'' then Some (of_char c - 55) else None)"

text \<open>\<^verbatim>\<open>decodeURIComponent\<close> on the bytes of a header; a malformed escape raises
  \<^verbatim>\<open>URIError\<close>. Whether the bytes form UTF-8 is not checked: tokens are ASCII.\<close>

fun percent :: "string \<Rightarrow> string option" where
  "percent [] = Some []"
| "percent (c # cs) =
     (if c \<noteq> CHR ''%'' then map_option ((#) c) (percent cs)
      else case cs of
        x # y # rest \<Rightarrow> (case (hex_val x, hex_val y) of
          (Some i, Some j) \<Rightarrow> map_option ((#) (char_of (16 * i + j))) (percent rest) | _ \<Rightarrow> None)
      | _ \<Rightarrow> None)"

definition cookie_token :: "string \<Rightarrow> string option" where
  "cookie_token part = (case split_on CHR ''='' (js_trim part) of k # v \<Rightarrow> if k = ''session'' then Some (join ''='' v) else None | [] \<Rightarrow> None)"

definition tokenFromCookieHeader :: "string option \<Rightarrow> error + string option" where
  "tokenFromCookieHeader header =
     (case header of
        None \<Rightarrow> Inr None
      | Some h \<Rightarrow>
          if h = [] then Inr None
          else (case List.map_filter cookie_token (split_on CHR '';'' h) of
              [] \<Rightarrow> Inr None
            | t # _ \<Rightarrow> (case percent t of None \<Rightarrow> Inl (JsError ''URIError: URI malformed'') | Some v \<Rightarrow> Inr (Some v))))"

definition SessionGuard :: "(string \<Rightarrow> string) \<Rightarrow> string list \<Rightarrow> ms \<Rightarrow> string option \<Rightarrow> db \<Rightarrow> auth \<Rightarrow> (error + SessionPayload) \<times> auth" where
  "SessionGuard sha adminEmails now cookie s a =
     (case tokenFromCookieHeader cookie of
        Inl e \<Rightarrow> (Inl e, a)
      | Inr tok \<Rightarrow> (case resolveSession sha adminEmails now tok s a of
          (None, a1) \<Rightarrow> (Inl UnauthorizedException, a1)
        | (Some p, a1) \<Rightarrow> (Inr p, a1)))"

definition AdminGuard :: "(string \<Rightarrow> string) \<Rightarrow> string list \<Rightarrow> ms \<Rightarrow> string option \<Rightarrow> db \<Rightarrow> auth \<Rightarrow> (error + SessionPayload) \<times> auth" where
  "AdminGuard sha adminEmails now cookie s a =
     (case SessionGuard sha adminEmails now cookie s a of
        (Inl e, a1) \<Rightarrow> (Inl e, a1)
      | (Inr p, a1) \<Rightarrow> if \<not> sp_isAdmin p then (Inl (ForbiddenException ''admin only''), a1) else (Inr p, a1))"

definition IngestTokenGuard :: "string option \<Rightarrow> string option \<Rightarrow> error + unit" where
  "IngestTokenGuard expected header =
     (case expected of
        None \<Rightarrow> Inl UnauthorizedException
      | Some e \<Rightarrow>
          if e = [] then Inl UnauthorizedException
          else let auth = (case header of None \<Rightarrow> [] | Some h \<Rightarrow> h);
                   token = (if take 7 auth = ''Bearer '' then drop 7 auth else [])
               in if token \<noteq> e then Inl UnauthorizedException else Inr ())"

section \<open>Signing in\<close>

record GoogleProfile =
  gp_sub :: string
  gp_email :: string
  gp_emailVerified :: bool

definition new_wallet :: "uuid \<Rightarrow> uuid \<Rightarrow> wallet" where
  "new_wallet wid uid = \<lparr>w_id = wid, w_user_id = uid, w_balance = 0, w_lifetime_topup = 0, w_lifetime_spent = 0, w_version = 0\<rparr>"

definition upsertGoogleUser :: "uuid_gen \<Rightarrow> string list \<Rightarrow> GoogleProfile \<Rightarrow> db \<times> auth \<Rightarrow> (error + AppUser) \<times> (db \<times> auth)" where
  "upsertGoogleUser g adminEmails p st =
     (let s = fst st; a = snd st;
          (uid, s1, a1) = (case map_of (az_subs a) (gp_sub p) of
             Some uid \<Rightarrow> (uid, s\<lparr>users := upd_where (\<lambda>u. u_id u = uid) (\<lambda>u. u\<lparr>u_email := gp_email p\<rparr>) (users s)\<rparr>, a)
           | None \<Rightarrow> let uid = g (length (users s)) in
               (uid, s\<lparr>users := users s @ [\<lparr>u_id = uid, u_email = gp_email p, u_status = UserActive, u_deleted_at = None\<rparr>],
                 wallets := wallets s @ [new_wallet (g (length (wallets s))) uid]\<rparr>, a\<lparr>az_subs := az_subs a @ [(gp_sub p, uid)]\<rparr>))
      in if \<exists>u \<in> set (users s). u_email u = gp_email p \<and> u_id u \<noteq> uid then (Inl (UniqueViolation ''users_email_key''), st)
         else (Inr \<lparr>ap_id = uid, ap_email = gp_email p, ap_isAdmin = isAdmin adminEmails (gp_email p) s1\<rparr>, (s1, a1)))"

datatype callback = RedirectError string | SignedIn string

definition google_callback :: "(string \<Rightarrow> string) \<Rightarrow> int \<Rightarrow> uuid_gen \<Rightarrow> string list \<Rightarrow> (string \<Rightarrow> string + GoogleProfile) \<Rightarrow> string \<Rightarrow> ms \<Rightarrow>
    string option \<Rightarrow> string option \<Rightarrow> string option \<Rightarrow> db \<times> auth \<Rightarrow> callback \<times> (db \<times> auth)" where
  "google_callback sha ttl g adminEmails exchangeCode token now code state expected st =
     (case (code, state, expected) of
        (Some c, Some x, Some e) \<Rightarrow>
          if c = [] \<or> x = [] \<or> e = [] \<or> x \<noteq> e then (RedirectError ''oauth_state'', st)
          else (case exchangeCode c of
              Inl _ \<Rightarrow> (RedirectError ''oauth_failed'', st)
            | Inr p \<Rightarrow> (case upsertGoogleUser g adminEmails p st of
                (Inl _, st1) \<Rightarrow> (RedirectError ''oauth_failed'', st1)
              | (Inr user, (s1, a1)) \<Rightarrow> (case createSession sha ttl now token user s1 a1 of
                  (Inl _, a2) \<Rightarrow> (RedirectError ''oauth_failed'', (s1, a2))
                | (Inr t, a2) \<Rightarrow> (SignedIn t, (s1, a2)))))
      | _ \<Rightarrow> (RedirectError ''oauth_state'', st))"

definition logout :: "(string \<Rightarrow> string) \<Rightarrow> ms \<Rightarrow> string option \<Rightarrow> auth \<Rightarrow> auth" where
  "logout sha now cookie a = destroySession sha now cookie a"

section \<open>Sessions and their records\<close>

text \<open>The session row of this user that a cache key belongs to, not revoked.\<close>

definition backed :: "user_session list \<Rightarrow> string \<Rightarrow> uuid \<Rightarrow> bool" where
  "backed rs k u \<longleftrightarrow> (\<exists>r \<in> set rs. k = ''sess:'' @ ss_token_hash r \<and> ss_user_id r = u \<and> ss_revoked_at r = None)"

text \<open>
  What a cached payload says was true of one of the databases of the run: the user existed with this
  address, and was an administrator exactly when the address is configured as one or an active row of
  \<^verbatim>\<open>admin_users\<close> has it.
\<close>

definition true_of :: "string list \<Rightarrow> db list \<Rightarrow> SessionPayload \<Rightarrow> bool" where
  "true_of adm D p \<longleftrightarrow> (\<exists>s \<in> set D. (\<exists>u \<in> set (users s). u_id u = sp_userId p \<and> u_email u = sp_email p) \<and>
     (sp_isAdmin p \<longleftrightarrow> lower (sp_email p) \<in> set adm \<or>
        (\<exists>r \<in> set (admins s). lower (au_email r) = lower (sp_email p) \<and> au_active r)))"

text \<open>
  The runs: databases passed through (latest first), tokens handed out (latest first), state. A sign-in
  succeeds, is refused, or is lost: its cache entry is written and the insert of its row then fails, for
  a reason the model of the insert does not have (the connection, or a forwarded address that
  \<^verbatim>\<open>::inet\<close> rejects). The token of a sign-in is random; here its hash is none of an existing row.
  Between these steps the rest of the program changes the database, and never removes a row of \<^verbatim>\<open>users\<close>.
\<close>

inductive auth_run :: "(string \<Rightarrow> string) \<Rightarrow> string list \<Rightarrow> db list \<Rightarrow> string list \<Rightarrow> db \<times> auth \<Rightarrow> bool" for sha adm where
  start: "snd ` set subs \<subseteq> u_id ` set (users s) \<Longrightarrow>
    auth_run sha adm [s] [] (s, \<lparr>az_sessions = [], az_redis = (\<lambda>_. None), az_subs = subs\<rparr>)"
| signed_in: "auth_run sha adm D H st \<Longrightarrow> sha token \<notin> ss_token_hash ` set (az_sessions (snd st)) \<Longrightarrow>
    google_callback sha ttl g adm exchange token now code state expected st = (SignedIn t, st') \<Longrightarrow>
    auth_run sha adm (fst st' # D) (t # H) st'"
| refused: "auth_run sha adm D H st \<Longrightarrow> sha token \<notin> ss_token_hash ` set (az_sessions (snd st)) \<Longrightarrow>
    google_callback sha ttl g adm exchange token now code state expected st = (RedirectError e, st') \<Longrightarrow>
    auth_run sha adm (fst st' # D) H st'"
| lost: "auth_run sha adm D H st \<Longrightarrow> sha token \<notin> ss_token_hash ` set (az_sessions (snd st)) \<Longrightarrow>
    upsertGoogleUser g adm p st = (Inr user, (s1, a1)) \<Longrightarrow>
    auth_run sha adm (s1 # D) H (s1, redis_set now (rkey sha token)
      \<lparr>sp_userId = ap_id user, sp_email = ap_email user, sp_isAdmin = ap_isAdmin user\<rparr> ttl a1)"
| request: "auth_run sha adm D H (s, a) \<Longrightarrow> auth_run sha adm D H (s, snd (resolveSession sha adm now tok s a))"
| logout: "auth_run sha adm D H (s, a) \<Longrightarrow> auth_run sha adm D H (s, logout sha now tok a)"
| other: "auth_run sha adm D H (s, a) \<Longrightarrow> u_id ` set (users s) \<subseteq> u_id ` set (users s') \<Longrightarrow> auth_run sha adm (s' # D) H (s', a)"

definition auth_ok :: "(string \<Rightarrow> string) \<Rightarrow> string list \<Rightarrow> db list \<Rightarrow> string list \<Rightarrow> db \<times> auth \<Rightarrow> bool" where
  "auth_ok sha adm D H st \<longleftrightarrow> fst st \<in> set D \<and> snd ` set (az_subs (snd st)) \<subseteq> u_id ` set (users (fst st)) \<and>
     distinct (map ss_token_hash (az_sessions (snd st))) \<and> ss_token_hash ` set (az_sessions (snd st)) = sha ` set H \<and>
     (\<forall>k p e. az_redis (snd st) k = Some (p, e) \<longrightarrow> true_of adm D p \<and>
        (k \<in> rkey sha ` set H \<longrightarrow> backed (az_sessions (snd st)) k (sp_userId p)))"

lemma backed_append: "backed (rs @ qs) k u \<longleftrightarrow> backed rs k u \<or> backed qs k u"
  by (auto simp: backed_def)

lemma backed_token: "r \<in> set rs \<Longrightarrow> ss_token_hash r = sha token \<Longrightarrow> ss_revoked_at r = None \<Longrightarrow> backed rs (rkey sha token) (ss_user_id r)"
  unfolding backed_def rkey_def by (rule bexI [of _ r]) simp_all

lemma true_of_more: "true_of adm D p \<Longrightarrow> true_of adm (s # D) p"
  unfolding true_of_def by auto

lemma session_user_row:
  assumes "session_user sha now token s a = Some u"
  obtains r where "r \<in> set (az_sessions a)" "ss_token_hash r = sha token" "ss_revoked_at r = None" "now < ss_expires_at r" "ss_user_id r = u_id u"
    "u_deleted_at u = None" "u_status u = UserActive" "u \<in> set (users s)"
proof -
  from assms obtain r where r: "find (\<lambda>r. ss_token_hash r = sha token \<and> ss_revoked_at r = None \<and> ss_expires_at r > now \<and>
      (\<exists>u \<in> set (users s). u_id u = ss_user_id r \<and> u_deleted_at u = None \<and> u_status u = UserActive)) (az_sessions a) = Some r"
    "find (\<lambda>u. u_id u = ss_user_id r \<and> u_deleted_at u = None \<and> u_status u = UserActive) (users s) = Some u"
    by (auto simp: session_user_def split: option.splits)
  from find_SomeD [OF r(1)] find_SomeD [OF r(2)] that [of r] show thesis by simp
qed

text \<open>What signing in does before the session: the user exists with the address and rights of the profile.\<close>

lemma upsert_spec:
  assumes "upsertGoogleUser g adm p (s, a) = (Inr user, (s1, a1))" "snd ` set (az_subs a) \<subseteq> u_id ` set (users s)"
  shows "az_sessions a1 = az_sessions a" "az_redis a1 = az_redis a" "snd ` set (az_subs a1) \<subseteq> u_id ` set (users s1)"
    "\<exists>u \<in> set (users s1). u_id u = ap_id user \<and> u_email u = ap_email user" "ap_isAdmin user = isAdmin adm (ap_email user) s1"
proof -
  have "az_sessions a1 = az_sessions a \<and> az_redis a1 = az_redis a \<and> snd ` set (az_subs a1) \<subseteq> u_id ` set (users s1) \<and>
    (\<exists>u \<in> set (users s1). u_id u = ap_id user \<and> u_email u = ap_email user) \<and> ap_isAdmin user = isAdmin adm (ap_email user) s1"
  proof (cases "map_of (az_subs a) (gp_sub p)")
    case None
    let ?s1 = "s\<lparr>users := users s @ [\<lparr>u_id = g (length (users s)), u_email = gp_email p, u_status = UserActive, u_deleted_at = None\<rparr>],
                 wallets := wallets s @ [new_wallet (g (length (wallets s))) (g (length (users s)))]\<rparr>"
    have e: "s1 = ?s1" "a1 = a\<lparr>az_subs := az_subs a @ [(gp_sub p, g (length (users s)))]\<rparr>"
      "user = \<lparr>ap_id = g (length (users s)), ap_email = gp_email p, ap_isAdmin = isAdmin adm (gp_email p) ?s1\<rparr>"
      using assms(1) None by (auto simp: upsertGoogleUser_def Let_def split: if_splits)
    show ?thesis unfolding e using assms(2) by auto
  next
    case (Some uid)
    let ?us = "upd_where (\<lambda>u. u_id u = uid) (\<lambda>u. u\<lparr>u_email := gp_email p\<rparr>) (users s)"
    have e: "s1 = s\<lparr>users := ?us\<rparr>" "a1 = a" "user = \<lparr>ap_id = uid, ap_email = gp_email p, ap_isAdmin = isAdmin adm (gp_email p) (s\<lparr>users := ?us\<rparr>)\<rparr>"
      using assms(1) Some by (auto simp: upsertGoogleUser_def Let_def split: if_splits)
    have "map u_id ?us = map u_id (users s)" by (rule map_upd_where_same) simp
    then have ids: "u_id ` set ?us = u_id ` set (users s)" by (metis set_map)
    have "uid \<in> u_id ` set (users s)" using map_of_SomeD [OF Some] assms(2) by force
    then obtain u where "u \<in> set (users s)" "u_id u = uid" by blast
    then have "u\<lparr>u_email := gp_email p\<rparr> \<in> set ?us"
      unfolding in_set_upd_where by (intro bexI [of _ u]) simp_all
    with \<open>u_id u = uid\<close> have "\<exists>v \<in> set ?us. u_id v = uid \<and> u_email v = gp_email p" by (intro bexI) auto
    then show ?thesis unfolding e using assms(2) ids by simp
  qed
  then show "az_sessions a1 = az_sessions a" "az_redis a1 = az_redis a" "snd ` set (az_subs a1) \<subseteq> u_id ` set (users s1)"
    "\<exists>u \<in> set (users s1). u_id u = ap_id user \<and> u_email u = ap_email user" "ap_isAdmin user = isAdmin adm (ap_email user) s1" by blast+
qed

lemma cache_ok:
  assumes ok: "auth_ok sha adm D H (s, a)" and fresh: "sha token \<notin> ss_token_hash ` set (az_sessions a)"
    and up: "upsertGoogleUser g adm p (s, a) = (Inr user, (s1, a1))"
  shows "auth_ok sha adm (s1 # D) H (s1, redis_set now (rkey sha token)
      \<lparr>sp_userId = ap_id user, sp_email = ap_email user, sp_isAdmin = ap_isAdmin user\<rparr> ttl a1)"
proof -
  note u = upsert_spec [OF up, OF ok [unfolded auth_ok_def, simplified, THEN conjunct2, THEN conjunct1]]
  let ?p = "\<lparr>sp_userId = ap_id user, sp_email = ap_email user, sp_isAdmin = ap_isAdmin user\<rparr>"
  have "true_of adm (s1 # D) ?p" using u(4,5) by (auto simp: true_of_def isAdmin_def)
  moreover have "rkey sha token \<notin> rkey sha ` set H" using fresh ok by (auto simp: auth_ok_def rkey_def)
  ultimately show ?thesis using ok u(1-3) true_of_more by (simp add: auth_ok_def redis_set_def)
qed

lemma other_ok:
  assumes "auth_ok sha adm D H (s, a)" "u_id ` set (users s) \<subseteq> u_id ` set (users s')"
  shows "auth_ok sha adm (s' # D) H (s', a)"
proof -
  have "snd ` set (az_subs a) \<subseteq> u_id ` set (users s)" using assms(1) by (simp add: auth_ok_def)
  then have "snd ` set (az_subs a) \<subseteq> u_id ` set (users s')" using assms(2) by (rule subset_trans)
  then show ?thesis using assms(1) true_of_more by (simp add: auth_ok_def)
qed

lemma row_ok:
  assumes ok: "auth_ok sha adm D H (s, a)" and fresh: "sha token \<notin> ss_token_hash ` set (az_sessions a)"
    and p: "\<And>p e. az_redis a (rkey sha token) = Some (p, e) \<Longrightarrow> sp_userId p = uid"
  shows "auth_ok sha adm D (token # H) (s, a\<lparr>az_sessions := az_sessions a @
     [\<lparr>ss_user_id = uid, ss_token_hash = sha token, ss_expires_at = e, ss_revoked_at = None\<rparr>]\<rparr>)"
proof -
  let ?r = "\<lparr>ss_user_id = uid, ss_token_hash = sha token, ss_expires_at = e, ss_revoked_at = None\<rparr>"
  have "backed [?r] (rkey sha token) uid" using backed_token [of ?r "[?r]" sha token] by simp
  then show ?thesis using ok fresh p by (auto simp: auth_ok_def backed_append)
qed

lemma upsert_Inl: "upsertGoogleUser g adm p st = (Inl e, st1) \<Longrightarrow> st1 = st"
  by (simp add: upsertGoogleUser_def Let_def split: option.splits if_splits)

lemma callback_cases:
  assumes "google_callback sha ttl g adm exchange token now code state expected st = (r, st')"
  obtains e where "r = RedirectError e" "st' = st"
  | p user s1 a1 where "upsertGoogleUser g adm p st = (Inr user, (s1, a1))"
      "(r, st') = (case createSession sha ttl now token user s1 a1 of (Inl _, a2) \<Rightarrow> (RedirectError ''oauth_failed'', (s1, a2))
        | (Inr t, a2) \<Rightarrow> (SignedIn t, (s1, a2)))"
proof (cases "\<exists>c x p. code = Some c \<and> state = Some x \<and> expected = Some x \<and> c \<noteq> [] \<and> x \<noteq> [] \<and> exchange c = Inr p")
  case True
  then obtain c x p where x: "code = Some c" "state = Some x" "expected = Some x" "c \<noteq> []" "x \<noteq> []" "exchange c = Inr p" by blast
  show thesis
  proof (cases "fst (upsertGoogleUser g adm p st)")
    case (Inl e)
    then have u: "upsertGoogleUser g adm p st = (Inl e, st)" using upsert_Inl [of g adm p st e] by (simp add: prod_eq_iff)
    show thesis by (rule that(1) [of "''oauth_failed''"]) (use assms in \<open>simp_all add: google_callback_def x u\<close>)
  next
    case (Inr user)
    then obtain s1 a1 where u: "upsertGoogleUser g adm p st = (Inr user, (s1, a1))" by (metis prod.collapse)
    show thesis by (rule that(2) [OF u]) (use assms in \<open>simp add: google_callback_def x u\<close>)
  qed
next
  case False
  have "(\<exists>e. r = RedirectError e) \<and> st' = st"
    using assms False by (auto simp: google_callback_def split: option.splits if_splits sum.splits)
  then show thesis using that(1) by blast
qed

lemma callback_ok:
  assumes ok: "auth_ok sha adm D H (s, a)" and fresh: "sha token \<notin> ss_token_hash ` set (az_sessions a)"
    and c: "google_callback sha ttl g adm exchange token now code state expected (s, a) = (r, st')"
  shows "auth_ok sha adm (fst st' # D) (case r of SignedIn t \<Rightarrow> t # H | RedirectError _ \<Rightarrow> H) st'"
  using c
proof (cases rule: callback_cases)
  case (1 e)
  with ok true_of_more show ?thesis by (simp add: auth_ok_def)
next
  case (2 p user s1 a1)
  note up = 2(1)
  note u = upsert_spec [OF up, OF ok [unfolded auth_ok_def, simplified, THEN conjunct2, THEN conjunct1]]
  let ?p = "\<lparr>sp_userId = ap_id user, sp_email = ap_email user, sp_isAdmin = ap_isAdmin user\<rparr>"
  let ?a = "redis_set now (rkey sha token) ?p ttl a1"
  have "ap_id user \<in> u_id ` set (users s1)" using u(4) by force
  moreover have f: "sha token \<notin> ss_token_hash ` set (az_sessions ?a)" using fresh u(1) by (simp add: redis_set_def)
  ultimately have "r = SignedIn token" "st' = (s1, ?a\<lparr>az_sessions := az_sessions ?a @
      [\<lparr>ss_user_id = ap_id user, ss_token_hash = sha token, ss_expires_at = now + ttl * 1000, ss_revoked_at = None\<rparr>]\<rparr>)"
    using 2(2) by (simp_all add: createSession_def Let_def)
  then show ?thesis using row_ok [OF cache_ok [OF ok fresh up] f] by (simp add: redis_set_def)
qed

lemma resolve_ok:
  assumes "auth_ok sha adm D H (s, a)"
  shows "auth_ok sha adm D H (s, snd (resolveSession sha adm now tok s a))"
proof (cases "\<exists>token u. tok = Some token \<and> token \<noteq> [] \<and> redis_get now (rkey sha token) a = None \<and> session_user sha now token s a = Some u")
  case True
  then obtain token u where t: "tok = Some token" "token \<noteq> []" "redis_get now (rkey sha token) a = None" "session_user sha now token s a = Some u" by blast
  from t(4) obtain r where r: "r \<in> set (az_sessions a)" "ss_token_hash r = sha token" "ss_revoked_at r = None" "ss_user_id r = u_id u"
    "u \<in> set (users s)" by (rule session_user_row)
  let ?p = "\<lparr>sp_userId = u_id u, sp_email = u_email u, sp_isAdmin = isAdmin adm (u_email u) s\<rparr>"
  have "backed (az_sessions a) (rkey sha token) (u_id u)" using backed_token [of r "az_sessions a" sha token] r by simp
  moreover have "true_of adm D ?p" using r(5) assms by (auto simp: auth_ok_def true_of_def isAdmin_def)
  ultimately show ?thesis using assms t by (simp add: resolveSession_def auth_ok_def redis_set_def Let_def)
next
  case False
  then have "snd (resolveSession sha adm now tok s a) = a"
    by (auto simp: resolveSession_def split: option.splits)
  with assms show ?thesis by simp
qed

lemma logout_ok:
  assumes "auth_ok sha adm D H (s, a)"
  shows "auth_ok sha adm D H (s, logout sha now tok a)"
proof (cases tok)
  case None
  with assms show ?thesis by (simp add: logout_def destroySession_def)
next
  case (Some token)
  let ?P = "\<lambda>r. ss_token_hash r = sha token \<and> ss_revoked_at r = None"
  let ?f = "\<lambda>r. r\<lparr>ss_revoked_at := Some now\<rparr>"
  have m: "map ss_token_hash (upd_where ?P ?f (az_sessions a)) = map ss_token_hash (az_sessions a)" by (rule map_upd_where_same) simp
  then have i: "ss_token_hash ` set (upd_where ?P ?f (az_sessions a)) = ss_token_hash ` set (az_sessions a)" by (metis set_map)
  have keep: "r \<in> set (upd_where ?P ?f (az_sessions a))" if "r \<in> set (az_sessions a)" "ss_token_hash r \<noteq> sha token" for r
    using that unfolding in_set_upd_where by metis
  have "backed (upd_where ?P ?f (az_sessions a)) k u" if k: "backed (az_sessions a) k u" "k \<noteq> rkey sha token" for k u
    using k keep unfolding backed_def rkey_def by blast
  with m i assms show ?thesis by (simp add: Some logout_def destroySession_def auth_ok_def)
qed

text \<open>
  C22. Whatever sign-ins (granted, refused or lost half way), requests, logouts and changes of the database
  happen, in any order and at any time: no two session rows share a token; the rows are those of the
  tokens handed out; every cached payload was true of the database at some moment, its user with its
  address and its administrator flag alike; and a cache entry that a handed-out token opens belongs to a
  row of the same user that was never revoked. The only entries without a row are those of lost sign-ins,
  whose token nobody was given.
\<close>

theorem sessions_well_formed:
  assumes "auth_run sha adm D H (s, a)"
  shows "distinct (map ss_token_hash (az_sessions a)) \<and> ss_token_hash ` set (az_sessions a) = sha ` set H \<and>
    (\<forall>k p e. az_redis a k = Some (p, e) \<longrightarrow> true_of adm D p \<and>
       (\<forall>t \<in> set H. k = rkey sha t \<longrightarrow> backed (az_sessions a) k (sp_userId p)))"
proof -
  have "auth_ok sha adm D H st" if "auth_run sha adm D H st" for st
    using that
  proof induction
    case (signed_in D H st token ttl g exchange now code state expected t st')
    then show ?case using callback_ok [of sha adm D H "fst st" "snd st" token ttl g exchange now code state expected "SignedIn t" st'] by simp
  next
    case (refused D H st token ttl g exchange now code state expected e st')
    then show ?case using callback_ok [of sha adm D H "fst st" "snd st" token ttl g exchange now code state expected "RedirectError e" st'] by simp
  next
    case (lost D H st token g p user s1 a1 now ttl)
    then show ?case using cache_ok [of sha adm D H "fst st" "snd st" token g p user s1 a1 now ttl] by simp
  next
    case (other D H s a s')
    show ?case by (rule other_ok [OF other.IH other.hyps(2)])
  qed (simp add: auth_ok_def, simp_all add: resolve_ok logout_ok)
  from this [OF assms] show ?thesis by (auto simp: auth_ok_def)
qed

text \<open>The token is dead: it is not cached and every row with its hash is revoked.\<close>

definition dead :: "(string \<Rightarrow> string) \<Rightarrow> string \<Rightarrow> auth \<Rightarrow> bool" where
  "dead sha token a \<longleftrightarrow> az_redis a (rkey sha token) = None \<and>
     (\<forall>r \<in> set (az_sessions a). ss_token_hash r = sha token \<longrightarrow> ss_revoked_at r \<noteq> None)"

lemma dead_resolve: "dead sha token a \<Longrightarrow> fst (resolveSession sha adm now (Some token) s a) = None"
  by (auto simp: resolveSession_def dead_def redis_get_def split: option.splits elim!: session_user_row)

text \<open>Everything that may happen after a logout, except a login that draws a token with the same hash.\<close>

inductive later :: "(string \<Rightarrow> string) \<Rightarrow> string list \<Rightarrow> string \<Rightarrow> auth \<Rightarrow> auth \<Rightarrow> bool" for sha adm token where
  now: "later sha adm token a a"
| login: "later sha adm token a b \<Longrightarrow> sha t \<noteq> sha token \<Longrightarrow> later sha adm token a (snd (createSession sha ttl n t user s b))"
| request: "later sha adm token a b \<Longrightarrow> later sha adm token a (snd (resolveSession sha adm n tok s b))"
| logout: "later sha adm token a b \<Longrightarrow> later sha adm token a (destroySession sha n tok b)"

lemma dead_later: "later sha adm token a b \<Longrightarrow> dead sha token a \<Longrightarrow> dead sha token b"
proof (induction rule: later.induct)
  case (login a b t ttl n user s)
  then show ?case by (auto simp: createSession_def dead_def redis_set_def rkey_def Let_def)
next
  case (request a b n tok s)
  then have d: "dead sha token b" by simp
  show ?case
  proof (cases "\<exists>t u. tok = Some t \<and> t \<noteq> [] \<and> redis_get n (rkey sha t) b = None \<and> session_user sha n t s b = Some u")
    case True
    then obtain t u where t: "tok = Some t" "t \<noteq> []" "redis_get n (rkey sha t) b = None" "session_user sha n t s b = Some u" by blast
    from t(4) obtain r where r: "r \<in> set (az_sessions b)" "ss_token_hash r = sha t" "ss_revoked_at r = None" by (rule session_user_row)
    then have "sha t \<noteq> sha token" using d by (auto simp: dead_def)
    then show ?thesis using d t by (simp add: resolveSession_def dead_def redis_set_def rkey_def Let_def)
  next
    case False
    then have "snd (resolveSession sha adm n tok s b) = b" by (auto simp: resolveSession_def split: option.splits)
    with d show ?thesis by simp
  qed
next
  case (logout a b n tok)
  then have d: "dead sha token b" by simp
  show ?case
  proof (cases tok)
    case None
    with d show ?thesis by (simp add: destroySession_def)
  next
    case (Some t)
    with d show ?thesis by (auto simp: destroySession_def dead_def elim!: upd_whereE split: if_splits)
  qed
qed

text \<open>
  C23. Logging out is final: after it the token opens no session, at no later time and after any other
  logins, requests and logouts, unless the random source draws a token with the same hash again.
\<close>

theorem logout_final:
  assumes "token \<noteq> []" "later sha adm token (destroySession sha now (Some token) a) b"
  shows "fst (resolveSession sha adm t (Some token) s b) = None"
proof -
  have "dead sha token (destroySession sha now (Some token) a)"
    using assms(1) by (auto simp: dead_def destroySession_def elim!: upd_whereE split: if_splits)
  from dead_later [OF assms(2) this] show ?thesis by (rule dead_resolve)
qed

text \<open>
  A session ignores what happens to its user: as long as the cached entry lives, the account may be
  suspended or deleted and administrator rights may be withdrawn, and requests still pass with the rights
  of the moment of the login, although the lookup in the database would refuse them.
\<close>

theorem session_outlives_suspension:
  assumes "createSession sha ttl now token user s a = (Inr tok, a')" "token \<noteq> []" "now \<le> t" "t < now + ttl * 1000"
  shows "resolveSession sha adm t (Some token) s' a' =
     (Some \<lparr>sp_userId = ap_id user, sp_email = ap_email user, sp_isAdmin = ap_isAdmin user\<rparr>, a')"
  using assms by (auto simp: createSession_def resolveSession_def redis_get_def redis_set_def rkey_def Let_def split: if_splits)

text \<open>
  A session outlives its expiry: a request just before the end of the session, when the cache has lost
  it, caches it again for an hour, and until then requests pass although the row has expired.
\<close>

theorem session_outlives_expiry:
  assumes "resolveSession sha adm now (Some token) s a = (Some p, a')" "redis_get now (rkey sha token) a = None" "t < now + 3600000"
  shows "resolveSession sha adm t (Some token) s' a' = (Some p, a')"
  using assms by (auto simp: resolveSession_def redis_get_def redis_set_def Let_def split: option.splits if_splits)

section \<open>Witnesses\<close>

definition demo_login :: "(error + string) \<times> auth" where
  "demo_login = createSession rev 604800 T0 ''tok'' \<lparr>ap_id = ''u1'', ap_email = ''a@example.org'', ap_isAdmin = True\<rparr> demo_db
     \<lparr>az_sessions = [], az_redis = (\<lambda>_. None), az_subs = []\<rparr>"

lemma demo_login_ok: "fst demo_login = Inr ''tok''"
  by (simp add: demo_login_def createSession_def Let_def demo_db_def redis_set_def)

text \<open>One sign-in that succeeds and one that is lost; its entry stays in the cache.\<close>

definition demo_profile :: GoogleProfile where
  "demo_profile = \<lparr>gp_sub = ''s1'', gp_email = ''a@example.org'', gp_emailVerified = True\<rparr>"

definition demo_auth :: auth where
  "demo_auth = \<lparr>az_sessions = [\<lparr>ss_user_id = ''u1'', ss_token_hash = ''kot'', ss_expires_at = T0 + 604800000, ss_revoked_at = None\<rparr>],
     az_redis = [''sess:kot'' \<mapsto> (\<lparr>sp_userId = ''u1'', sp_email = ''a@example.org'', sp_isAdmin = False\<rparr>, T0 + 604800000)],
     az_subs = [(''s1'', ''u1'')]\<rparr>"

definition lost_auth :: auth where
  "lost_auth = redis_set (T0 + 1) (rkey rev ''lost'') \<lparr>sp_userId = ''u1'', sp_email = ''a@example.org'', sp_isAdmin = False\<rparr> 604800 demo_auth"

lemma demo_upsert:
  assumes "az_subs a = [(''s1'', ''u1'')]"
  shows "upsertGoogleUser demo_gen [] demo_profile (demo_db, a) =
    (Inr \<lparr>ap_id = ''u1'', ap_email = ''a@example.org'', ap_isAdmin = False\<rparr>, (demo_db, a))"
proof -
  have "upd_where (\<lambda>u. u_id u = ''u1'') (\<lambda>u. u\<lparr>u_email := ''a@example.org''\<rparr>) (users demo_db) = users demo_db"
    by (simp add: demo_db_def upd_where_def)
  moreover have "\<not> isAdmin [] ''a@example.org'' demo_db" by code_simp
  moreover have "\<forall>u \<in> set (users demo_db). u_email u = ''a@example.org'' \<longrightarrow> u_id u = ''u1''" by (simp add: demo_db_def)
  ultimately show ?thesis by (simp add: upsertGoogleUser_def assms demo_profile_def Let_def)
qed

lemma demo_callback:
  "google_callback rev 604800 demo_gen [] (\<lambda>_. Inr demo_profile) ''tok'' T0 (Some ''c'') (Some ''x'') (Some ''x'')
     (demo_db, \<lparr>az_sessions = [], az_redis = (\<lambda>_. None), az_subs = [(''s1'', ''u1'')]\<rparr>) = (SignedIn ''tok'', (demo_db, demo_auth))"
proof -
  have "''u1'' \<in> u_id ` set (users demo_db)" by (simp add: demo_db_def)
  then show ?thesis
    by (simp add: google_callback_def demo_upsert createSession_def redis_set_def rkey_def demo_auth_def Let_def)
qed

theorem sessions_well_formed_witness:
  "ss_token_hash ` set (az_sessions lost_auth) = {''kot''} \<and>
   az_redis lost_auth ''sess:kot'' = Some (\<lparr>sp_userId = ''u1'', sp_email = ''a@example.org'', sp_isAdmin = False\<rparr>, T0 + 604800000) \<and>
   backed (az_sessions lost_auth) (rkey rev ''tok'') ''u1'' \<and> az_redis lost_auth ''sess:tsol'' \<noteq> None"
proof -
  have 0: "auth_run rev [] [demo_db] [] (demo_db, \<lparr>az_sessions = [], az_redis = (\<lambda>_. None), az_subs = [(''s1'', ''u1'')]\<rparr>)"
    by (rule auth_run.start) (simp add: demo_db_def)
  have 1: "auth_run rev [] [demo_db, demo_db] [''tok''] (demo_db, demo_auth)"
    using auth_run.signed_in [OF 0 _ demo_callback] by simp
  have 2: "auth_run rev [] [demo_db, demo_db, demo_db] [''tok''] (demo_db, lost_auth)"
    using auth_run.lost [OF 1 _ demo_upsert, of "''lost''" "T0 + 1" 604800] by (simp add: demo_auth_def lost_auth_def)
  have k: "az_redis lost_auth ''sess:kot'' = Some (\<lparr>sp_userId = ''u1'', sp_email = ''a@example.org'', sp_isAdmin = False\<rparr>, T0 + 604800000)"
    "az_redis lost_auth ''sess:tsol'' \<noteq> None" "rkey rev ''tok'' = ''sess:kot''"
    by (simp_all add: lost_auth_def redis_set_def rkey_def demo_auth_def)
  note w = sessions_well_formed [OF 2]
  have "\<forall>t \<in> set [''tok'']. ''sess:kot'' = rkey rev t \<longrightarrow> backed (az_sessions lost_auth) ''sess:kot'' ''u1''"
    using w [THEN conjunct2, THEN conjunct2, rule_format, OF k(1)] by simp
  then show ?thesis using k w by simp
qed

theorem logout_final_witness:
  "fst (resolveSession rev [] (T0 + 2) (Some ''tok'') demo_db
     (snd (resolveSession rev [] (T0 + 1) (Some ''other'') demo_db (destroySession rev T0 (Some ''tok'') (snd demo_login))))) = None"
  by (rule logout_final [OF _ later.request [OF later.now]]) simp

theorem session_outlives_suspension_witness:
  "fst (resolveSession rev [] (T0 + 86400000) (Some ''tok'') (demo_db\<lparr>users := [], admins := []\<rparr>) (snd demo_login)) =
     Some \<lparr>sp_userId = ''u1'', sp_email = ''a@example.org'', sp_isAdmin = True\<rparr>"
proof -
  have "createSession rev 604800 T0 ''tok'' \<lparr>ap_id = ''u1'', ap_email = ''a@example.org'', ap_isAdmin = True\<rparr> demo_db
     \<lparr>az_sessions = [], az_redis = (\<lambda>_. None), az_subs = []\<rparr> = (Inr ''tok'', snd demo_login)"
    using demo_login_ok by (simp add: demo_login_def prod_eq_iff)
  from session_outlives_suspension [OF this, of "T0 + 86400000" "[]" "demo_db\<lparr>users := [], admins := []\<rparr>"] show ?thesis by simp
qed

definition cold_cache :: auth where
  "cold_cache = \<lparr>az_sessions = [\<lparr>ss_user_id = ''u1'', ss_token_hash = ''kot'', ss_expires_at = T0 + 1000, ss_revoked_at = None\<rparr>],
     az_redis = (\<lambda>_. None), az_subs = []\<rparr>"

theorem session_outlives_expiry_witness:
  "\<exists>p a'. resolveSession rev [] T0 (Some ''tok'') demo_db cold_cache = (Some p, a') \<and>
     resolveSession rev [] (T0 + 3599000) (Some ''tok'') demo_db a' = (Some p, a') \<and>
     session_user rev (T0 + 3599000) ''tok'' demo_db a' = None"
proof -
  obtain r a' where r: "resolveSession rev [] T0 (Some ''tok'') demo_db cold_cache = (r, a')" by fastforce
  have "map_option sp_userId (fst (resolveSession rev [] T0 (Some ''tok'') demo_db cold_cache)) = Some ''u1''" by code_simp
  then obtain p where p: "resolveSession rev [] T0 (Some ''tok'') demo_db cold_cache = (Some p, a')" using r by auto
  have "redis_get T0 (rkey rev ''tok'') cold_cache = None" by (simp add: redis_get_def cold_cache_def)
  from session_outlives_expiry [OF p this, of "T0 + 3599000" demo_db]
  have "resolveSession rev [] (T0 + 3599000) (Some ''tok'') demo_db a' = (Some p, a')" by simp
  moreover have "session_user rev (T0 + 3599000) ''tok'' demo_db (snd (resolveSession rev [] T0 (Some ''tok'') demo_db cold_cache)) = None" by code_simp
  ultimately show ?thesis using p by auto
qed

end
