(* ===== verification/Account.thy ===== *)
theory Account
  imports BillingTick IpBlock TunnelApi
begin

text \<open>
  The customer's account: \<^verbatim>\<open>wallet.controller.ts\<close>, \<^verbatim>\<open>billing.controller.ts\<close> (what is paid each
  cycle) and \<^verbatim>\<open>ips.controller.ts\<close> (the requests about addresses). Left out are the runway of the summary
  (a floating-point estimate), the ids, states and names that its items repeat from the rows, the time an
  address was allocated, and query parameters that are not numbers, which make the query fail. A query by
  descending \<^verbatim>\<open>created_at\<close> reads a table from its end.
\<close>

section \<open>Wallet and transactions\<close>

record wallet_view =
  wv_balance :: satang
  wv_lifetimeTopup :: satang
  wv_lifetimeSpent :: satang

definition view_wallet :: "uuid \<Rightarrow> db \<Rightarrow> wallet_view" where
  "view_wallet userId s = (case wallet_of userId s of
       None \<Rightarrow> \<lparr>wv_balance = 0, wv_lifetimeTopup = 0, wv_lifetimeSpent = 0\<rparr>
     | Some w \<Rightarrow> \<lparr>wv_balance = w_balance w, wv_lifetimeTopup = w_lifetime_topup w, wv_lifetimeSpent = w_lifetime_spent w\<rparr>)"

definition get_wallet :: "uuid \<Rightarrow> db \<Rightarrow> wallet_view \<times> credit_tx list" where
  "get_wallet userId s = (view_wallet userId s, take 20 (rev (filter (\<lambda>x. x_user_id x = userId) (txs s))))"

text \<open>A query parameter that is missing is \<open>None\<close>; the result carries the page, the total, limit and offset.\<close>

definition transactions :: "uuid \<Rightarrow> int option \<Rightarrow> int option \<Rightarrow> credit_tx_type option \<Rightarrow> db \<Rightarrow> credit_tx list \<times> nat \<times> int \<times> int" where
  "transactions userId limit offset typ s =
     (let lim = min (max (case limit of None \<Rightarrow> 50 | Some l \<Rightarrow> l) 1) 200;
          off = max (case offset of None \<Rightarrow> 0 | Some k \<Rightarrow> k) 0;
          rows = rev (filter (\<lambda>x. x_user_id x = userId \<and> (case typ of None \<Rightarrow> True | Some t \<Rightarrow> x_type x = t)) (txs s))
      in (take (nat lim) (drop (nat off) rows), length rows, lim, off))"

section \<open>The summary of the next cycle\<close>

definition tPrice :: "db \<Rightarrow> tunnel \<Rightarrow> satang" where
  "tPrice s t = (case t_price_satang t of
       Some p \<Rightarrow> p
     | None \<Rightarrow> (case map_of (rev (map (\<lambda>(tier, p, _). (tier, p)) (pc_speed (getPricing s)))) (t_speed_tier t) of None \<Rightarrow> 0 | Some p \<Rightarrow> p))"

definition ipUnit :: "db \<Rightarrow> satang" where
  "ipUnit s = (case find (\<lambda>(n, _). n = 1) (pc_ip (getPricing s)) of None \<Rightarrow> 0 | Some (_, p) \<Rightarrow> p)"

definition pPrice :: "db \<Rightarrow> public_ip \<Rightarrow> satang" where
  "pPrice s p = (case i_price_satang p of Some x \<Rightarrow> x | None \<Rightarrow> ipUnit s)"

definition bPrice :: "ip_block \<Rightarrow> satang" where
  "bPrice b = b_price_satang b"

definition summary_tunnels :: "uuid \<Rightarrow> db \<Rightarrow> tunnel list" where
  "summary_tunnels userId s = sort_key t_next_billing_at (filter (\<lambda>t. t_user_id t = userId \<and> t_deleted_at t = None) (tunnels s))"

definition date_key :: "ms option \<Rightarrow> ms" where
  "date_key d = (case d of None \<Rightarrow> 9007199254740991 | Some t \<Rightarrow> t)"

definition summary_ips :: "uuid \<Rightarrow> db \<Rightarrow> public_ip list" where
  "summary_ips userId s = sort_key (\<lambda>p. date_key (i_next_billing_at p))
     (filter (\<lambda>p. i_user_id p = Some userId \<and> i_block_id p = None \<and> i_status p \<in> {IpAllocated, IpSuspended}) (ips s))"

definition summary_blocks :: "uuid \<Rightarrow> db \<Rightarrow> ip_block list" where
  "summary_blocks userId s = sort_key b_next_billing_at
     (filter (\<lambda>b. b_user_id b = userId \<and> b_status b \<in> {BlkActive, BlkSuspended}) (blocks s))"

record summary_item =
  si_kind :: string
  si_label :: string
  si_price :: satang
  si_next :: "ms option"
  si_suspended :: bool
  si_deleteAfter :: "ms option"

definition summary_items :: "uuid \<Rightarrow> db \<Rightarrow> summary_item list" where
  "summary_items userId s = sort_key (\<lambda>x. date_key (si_next x))
     (map (\<lambda>t. \<lparr>si_kind = ''tunnel'', si_label = t_name t, si_price = tPrice s t, si_next = Some (t_next_billing_at t),
        si_suspended = (t_suspended_at t \<noteq> None), si_deleteAfter = t_delete_after t\<rparr>) (summary_tunnels userId s) @
      map (\<lambda>p. \<lparr>si_kind = ''ip'', si_label = i_ip_address p @ ''/32'', si_price = pPrice s p, si_next = i_next_billing_at p,
        si_suspended = (i_suspended_at p \<noteq> None), si_deleteAfter = i_delete_after p\<rparr>) (summary_ips userId s) @
      map (\<lambda>b. \<lparr>si_kind = ''block'', si_label = b_block b, si_price = bPrice b, si_next = Some (b_next_billing_at b),
        si_suspended = (b_suspended_at b \<noteq> None), si_deleteAfter = b_delete_after b\<rparr>) (summary_blocks userId s))"

record summary =
  su_wallet :: wallet_view
  su_tunnels :: satang
  su_ips :: satang
  su_blocks :: satang
  su_total :: satang
  su_counts :: "nat \<times> nat \<times> nat"
  su_items :: "summary_item list"
  su_atRisk :: "summary_item list"

definition billing_summary :: "ms \<Rightarrow> uuid \<Rightarrow> db \<Rightarrow> summary" where
  "billing_summary now userId s =
     (let mrrTunnels = foldl (\<lambda>n t. n + tPrice s t) 0 (summary_tunnels userId s);
          mrrIps = foldl (\<lambda>n p. n + pPrice s p) 0 (summary_ips userId s);
          mrrBlocks = foldl (\<lambda>n b. n + bPrice b) 0 (summary_blocks userId s);
          items = summary_items userId s
      in \<lparr>su_wallet = view_wallet userId s, su_tunnels = mrrTunnels, su_ips = mrrIps, su_blocks = mrrBlocks,
          su_total = mrrTunnels + mrrIps + mrrBlocks,
          su_counts = (length (summary_tunnels userId s), length (summary_ips userId s), length (summary_blocks userId s)), su_items = items,
          su_atRisk = filter (\<lambda>x. si_suspended x \<or> (case si_deleteAfter x of None \<Rightarrow> False | Some d \<Rightarrow> d > now)) items\<rparr>)"

section \<open>Requests about addresses\<close>

definition list_singles :: "uuid \<Rightarrow> db \<Rightarrow> (ip4 \<times> uuid option) list" where
  "list_singles userId s = map (\<lambda>p. (i_ip_address p, i_tunnel_id p)) (sort_key (\<lambda>p. ip4ToInt (i_ip_address p))
     (filter (\<lambda>p. i_user_id p = Some userId \<and> i_status p = IpAllocated \<and> i_block_id p = None) (ips s)))"

text \<open>The tunnel of a block is the one of some member, here the first; the order is by creation.\<close>

definition list_blocks :: "uuid \<Rightarrow> db \<Rightarrow> (uuid \<times> cidr \<times> int \<times> uuid option \<times> nat) list" where
  "list_blocks userId s = map (\<lambda>b. (b_id b, b_block b, b_block_size b,
       (case find (\<lambda>p. i_block_id p = Some (b_id b)) (ips s) of None \<Rightarrow> None | Some p \<Rightarrow> i_tunnel_id p),
       length (filter (\<lambda>p. i_block_id p = Some (b_id b) \<and> i_status p = IpAllocated) (ips s))))
     (rev (filter (\<lambda>b. b_user_id b = userId \<and> b_status b = BlkActive) (blocks s)))"

definition buySingle :: "uuid_gen \<Rightarrow> ms \<Rightarrow> uuid \<Rightarrow> string option \<Rightarrow> BuyIpResult op" where
  "buySingle g now userId ip = respond provision_response
     (case present ip of Some a \<Rightarrow> buyPublicIp g now userId a | None \<Rightarrow> buyFirstAvailableSingleIp g now userId)"

definition buyBlock :: "uuid_gen \<Rightarrow> ms \<Rightarrow> uuid \<Rightarrow> int option \<Rightarrow> BuyBlockResult op" where
  "buyBlock g now userId blockSize s = (case blockSize of
       None \<Rightarrow> (Inl (BadRequestException ''blockSize required''), s)
     | Some n \<Rightarrow> if n = 0 then (Inl (BadRequestException ''blockSize required''), s)
         else respond provision_response (buyIpBlock g now userId n) s)"

definition releaseSingle :: "ms \<Rightarrow> uuid \<Rightarrow> ip4 \<Rightarrow> ip4 op" where
  "releaseSingle now userId ip = respond provision_response (releasePublicIp now userId ip)"

definition releaseBlock :: "ms \<Rightarrow> uuid \<Rightarrow> uuid \<Rightarrow> (uuid \<times> nat) op" where
  "releaseBlock now userId blockId = respond provision_response (releaseIpBlock now userId blockId)"

definition moveSingleIp :: "agent \<Rightarrow> ms \<Rightarrow> uuid \<Rightarrow> ip4 \<Rightarrow> string option \<Rightarrow> (uuid option \<times> uuid option) op" where
  "moveSingleIp agent now userId ip toTunnelId = respond provision_response (moveIp agent now userId ip (present toTunnelId))"

definition moveBlockIp :: "agent \<Rightarrow> ms \<Rightarrow> uuid \<Rightarrow> uuid \<Rightarrow> string option \<Rightarrow> (uuid option \<times> uuid option \<times> ip4 list) op" where
  "moveBlockIp agent now userId blockId toTunnelId = respond provision_response (moveIpBlock agent now userId blockId (present toTunnelId))"

section \<open>The summary and the billing tick\<close>

text \<open>Tier and block size are the keys of the price tables.\<close>

definition catalogue_ok :: "db \<Rightarrow> bool" where
  "catalogue_ok s \<longleftrightarrow> distinct (map ps_tier (pricing_speed s)) \<and> distinct (map pi_block_size (pricing_ip s))"

lemma tPrice_charged:
  assumes "catalogue_ok s" "tunnel_price t s = Some p"
  shows "tPrice s t = p"
proof (cases "t_price_satang t")
  case None
  let ?xs = "map (\<lambda>(tier, p, _). (tier, p)) (pc_speed (getPricing s))"
  have xs: "?xs = map (\<lambda>r. (ps_tier r, ps_price r)) (sort_key ps_sort_order (pricing_speed s))" by (simp add: getPricing_def comp_def)
  have "distinct (map ps_tier (sort_key ps_sort_order (pricing_speed s)))"
    using assms(1) by (simp add: catalogue_ok_def distinct_map)
  then have d: "distinct (map fst (rev ?xs))" unfolding xs by (simp add: rev_map [symmetric] comp_def)
  obtain r where "r \<in> set (pricing_speed s)" "ps_tier r = t_speed_tier t" "ps_price r = p"
    using assms(2) None by (auto simp: tunnel_price_def speedTierPrice_def split: option.splits dest: find_SomeD)
  then have "(t_speed_tier t, p) \<in> set (rev ?xs)" unfolding xs by force
  with d have "map_of (rev ?xs) (t_speed_tier t) = Some p" by (rule map_of_is_SomeI)
  with None show ?thesis by (simp add: tPrice_def)
next
  case (Some q)
  with assms(2) show ?thesis by (simp add: tPrice_def tunnel_price_def)
qed

lemma ipUnit_charged:
  assumes "catalogue_ok s" "ipPrice 1 s = Inr p"
  shows "ipUnit s = p"
proof -
  have d: "distinct (map pi_block_size (pricing_ip s))" using assms(1) by (simp add: catalogue_ok_def)
  obtain r where r: "r \<in> set (pricing_ip s)" "pi_block_size r = 1" "pi_price r = p"
    using assms(2) by (auto simp: ipPrice_def split: option.splits dest: find_SomeD)
  let ?xs = "pc_ip (getPricing s)"
  have xs: "set ?xs = (\<lambda>r. (pi_block_size r, pi_price r)) ` set (pricing_ip s)" by (simp add: getPricing_def)
  have "(1, p) \<in> set ?xs" unfolding xs using r by force
  then obtain y where y: "find (\<lambda>(n, _). n = 1) ?xs = Some y" by (cases "find (\<lambda>(n, _). n = 1) ?xs") (auto simp: find_None_iff)
  then have "y \<in> set ?xs" "fst y = 1" using find_SomeD [OF y] by auto
  then obtain q where q: "q \<in> set (pricing_ip s)" "pi_block_size q = 1" "y = (1, pi_price q)" unfolding xs by force
  have "q = r" using d q r inj_onD [of pi_block_size "set (pricing_ip s)" q r] by (auto simp: distinct_map)
  with q r y show ?thesis by (simp add: ipUnit_def)
qed

lemma owed_le:
  assumes "\<And>r. r \<in> set rows \<Longrightarrow> D r \<Longrightarrow> (case itm (key r) s of None \<Rightarrow> 0 | Some it \<Rightarrow> if bi_owner it = u then bi_price it else 0) \<le> (if P r then price r else 0)"
    and "\<And>r. r \<in> set rows \<Longrightarrow> P r \<Longrightarrow> 0 \<le> price r"
  shows "owed itm u (map key (filter D rows)) s \<le> sum_list (map price (filter P rows))"
  using assms
proof (induction rows)
  case (Cons r rows)
  have IH: "owed itm u (map key (filter D rows)) s \<le> sum_list (map price (filter P rows))" using Cons by simp
  let ?x = "case itm (key r) s of None \<Rightarrow> 0 | Some it \<Rightarrow> if bi_owner it = u then bi_price it else 0"
  have "(if D r then ?x else 0) \<le> (if P r then price r else 0)" using Cons.prems(1) [of r] Cons.prems(2) [of r] by (cases "D r"; cases "P r") auto
  moreover have "owed itm u (map key (filter D (r # rows))) s = (if D r then ?x else 0) + owed itm u (map key (filter D rows)) s" by (simp add: owed_def)
  moreover have "sum_list (map price (filter P (r # rows))) = (if P r then price r else 0) + sum_list (map price (filter P rows))" by simp
  ultimately show ?case using IH by linarith
qed simp

lemma foldl_sum: "foldl (\<lambda>n x. n + f x) a xs = a + sum_list (map f xs)" for a :: int
  by (induction xs arbitrary: a) auto

lemma sum_sort_key: "sum_list (map f (sort_key k xs)) = sum_list (map f xs)" for f :: "'a \<Rightarrow> int"
  by (metis mset_map mset_sort sum_mset_sum_list)

lemma find_unique: "distinct (map k xs) \<Longrightarrow> x \<in> set xs \<Longrightarrow> find (\<lambda>y. k y = k x) xs = Some x"
  by (induction xs) auto

lemma find_unique_and: "distinct (map k xs) \<Longrightarrow> x \<in> set xs \<Longrightarrow> P x \<Longrightarrow> find (\<lambda>y. k y = k x \<and> P y) xs = Some x"
  by (induction xs) auto

lemma owed_summary:
  assumes "ids_ok s" "catalogue_ok s" and nn: "\<forall>x \<in> set (summary_items u s). 0 \<le> si_price x"
  shows "owed tunnel_item u (due_tunnels now s) s \<le> su_tunnels (billing_summary t u s)"
    "owed ip_item u (due_ips now s) s \<le> su_ips (billing_summary t u s)"
    "owed block_item u (due_blocks now s) s \<le> su_blocks (billing_summary t u s)"
proof -
  have d: "distinct (map t_id (tunnels s))" "distinct (map i_ip_address (ips s))" "distinct (map b_id (blocks s))" using assms(1) by (simp_all add: ids_ok_def)
  have pos: "\<forall>r \<in> set (summary_tunnels u s). 0 \<le> tPrice s r" "\<forall>r \<in> set (summary_ips u s). 0 \<le> pPrice s r" "\<forall>r \<in> set (summary_blocks u s). 0 \<le> bPrice r"
    using nn by (simp_all add: summary_items_def ball_Un)
  show "owed tunnel_item u (due_tunnels now s) s \<le> su_tunnels (billing_summary t u s)"
    unfolding billing_summary_def Let_def summary.simps foldl_sum summary_tunnels_def sum_sort_key add_0
  proof (rule owed_le)
    fix r assume r: "r \<in> set (tunnels s)" "tunnel_due now r"
    have "live_tunnel (t_id r) s = Some r"
      using r(2) find_unique_and [OF d(1) r(1), of "\<lambda>t. t_deleted_at t = None"]
      by (auto simp: live_tunnel_def tunnel_due_def)
    moreover have "t_user_id r = u \<Longrightarrow> 0 \<le> tPrice s r" using pos(1) r by (auto simp: summary_tunnels_def tunnel_due_def)
    ultimately show "(case tunnel_item (t_id r) s of None \<Rightarrow> 0 | Some it \<Rightarrow> if bi_owner it = u then bi_price it else 0) \<le>
        (if t_user_id r = u \<and> t_deleted_at r = None then tPrice s r else 0)"
      using r(2) tPrice_charged [OF assms(2), of r] by (auto simp: tunnel_item_def tunnel_due_def split: option.splits)
  qed (use pos(1) in \<open>auto simp: summary_tunnels_def\<close>)
  show "owed ip_item u (due_ips now s) s \<le> su_ips (billing_summary t u s)"
    unfolding billing_summary_def Let_def summary.simps foldl_sum summary_ips_def sum_sort_key add_0
  proof (rule owed_le)
    fix r assume r: "r \<in> set (ips s)" "ip_due now r"
    have "i_user_id r = Some u \<Longrightarrow> 0 \<le> pPrice s r" using pos(2) r by (auto simp: summary_ips_def ip_due_def)
    then show "(case ip_item (i_ip_address r) s of None \<Rightarrow> 0 | Some it \<Rightarrow> if bi_owner it = u then bi_price it else 0) \<le>
        (if i_user_id r = Some u \<and> i_block_id r = None \<and> i_status r \<in> {IpAllocated, IpSuspended} then pPrice s r else 0)"
      using r(2) find_unique [OF d(2) r(1)] ipUnit_charged [OF assms(2)]
      by (auto simp: ip_item_def ip_due_def pPrice_def split: option.splits sum.splits)
        (drule arg_cong [where f = bi_price], simp)+
  qed (use pos(2) in \<open>auto simp: summary_ips_def\<close>)
  show "owed block_item u (due_blocks now s) s \<le> su_blocks (billing_summary t u s)"
    unfolding billing_summary_def Let_def summary.simps foldl_sum summary_blocks_def sum_sort_key add_0
  proof (rule owed_le)
    fix r assume r: "r \<in> set (blocks s)" "block_due now r"
    have "b_user_id r = u \<Longrightarrow> 0 \<le> bPrice r" using pos(3) r by (auto simp: summary_blocks_def block_due_def)
    then show "(case block_item (b_id r) s of None \<Rightarrow> 0 | Some it \<Rightarrow> if bi_owner it = u then bi_price it else 0) \<le>
        (if b_user_id r = u \<and> b_status r \<in> {BlkActive, BlkSuspended} then bPrice r else 0)"
      using r(2) find_unique [OF d(3) r(1)] by (auto simp: block_item_def block_due_def bPrice_def)
  qed (use pos(3) in \<open>auto simp: summary_blocks_def\<close>)
qed

text \<open>
  C27. The total the portal shows for the next cycle is an honest bound: a customer whose balance covers it
  loses nothing at any billing tick, whatever is due then. Everything due is renewed, and the tick takes
  no more than the total.
\<close>

theorem summary_covers_tick:
  assumes ok: "ledger_ok s" "ids_ok s" "catalogue_ok s" and w: "wallet_of u s = Some w"
    and nn: "\<forall>x \<in> set (summary_items u s). 0 \<le> si_price x"
    and pay: "su_total (billing_summary t u s) \<le> wv_balance (su_wallet (billing_summary t u s))"
    and new: "chargeable tunnel_item (chargeIdempotencyKey KTunnel) u (due_tunnels now s) s"
      "chargeable ip_item (chargeIdempotencyKey KIp) u (due_ips now s) s"
      "chargeable block_item (chargeIdempotencyKey KBlock) u (due_blocks now s) s"
  shows "all_renewed tunnel_item now u (due_tunnels now s) s (snd (runBillingTick g now s)) \<and>
     all_renewed ip_item now u (due_ips now s) s (snd (runBillingTick g now s)) \<and>
     all_renewed block_item now u (due_blocks now s) s (snd (runBillingTick g now s)) \<and>
     (\<exists>w'. wallet_of u (snd (runBillingTick g now s)) = Some w' \<and> w_balance w - su_total (billing_summary t u s) \<le> w_balance w')"
proof -
  note o = owed_summary [OF ok(2,3) nn, of now t]
  have b: "wv_balance (su_wallet (billing_summary t u s)) = w_balance w" using w by (simp add: billing_summary_def view_wallet_def Let_def)
  have tot: "su_total (billing_summary t u s) = su_tunnels (billing_summary t u s) + su_ips (billing_summary t u s) + su_blocks (billing_summary t u s)"
    by (simp add: billing_summary_def Let_def)
  have "owed tunnel_item u (due_tunnels now s) s + owed ip_item u (due_ips now s) s + owed block_item u (due_blocks now s) s \<le> w_balance w"
    using o pay b tot by linarith
  from tick_funded [OF ok(1,2) w this new, of g] o tot show ?thesis by auto
qed

theorem summary_covers_tick_witness:
  "su_total (billing_summary T0 ''u1'' demo_db) = 60000 \<and>
   (\<exists>w'. wallet_of ''u1'' (snd (runBillingTick demo_gen T0 demo_db)) = Some w' \<and> 40000 \<le> w_balance w')"
proof -
  have w: "wallet_of ''u1'' demo_db = Some demo_wallet" by code_simp
  have c: "chargeable tunnel_item (chargeIdempotencyKey KTunnel) ''u1'' (due_tunnels T0 demo_db) demo_db"
    "chargeable ip_item (chargeIdempotencyKey KIp) ''u1'' (due_ips T0 demo_db) demo_db"
    "chargeable block_item (chargeIdempotencyKey KBlock) ''u1'' (due_blocks T0 demo_db) demo_db"
    by code_simp+
  have v: "catalogue_ok demo_db" "\<forall>x \<in> set (summary_items ''u1'' demo_db). 0 \<le> si_price x"
    "su_total (billing_summary T0 ''u1'' demo_db) = 60000" "wv_balance (su_wallet (billing_summary T0 ''u1'' demo_db)) = 100000"
    by code_simp+
  have "w_balance demo_wallet = 100000" by (simp add: demo_wallet_def)
  then show ?thesis
    using summary_covers_tick [OF demo_ledger_ok demo_ids_ok v(1) w v(2) _ c, of T0 demo_gen] v(3,4) by auto
qed

end
