(* ===== verification/CodesApi.thy ===== *)
theory CodesApi
  imports Admin TunnelApi Codes IsoDate
begin

text \<open>
  The requests about prepaid codes: \<^verbatim>\<open>codes.controller.ts\<close> over the operations of Codes, the listing of a
  batch (\<^verbatim>\<open>codes.service.ts\<close>) and its export as CSV. The column \<^verbatim>\<open>redeemed_at\<close> is a parameter \<open>at\<close> of the
  redemption's id; \<^verbatim>\<open>created_at\<close> is the same for all codes of a batch, and the query then returns them
  in the order of the table. Strings are UTF-8 bytes. The
  headers of the download, the dates of a request, which arrive parsed, and the fields of the listing that
  only the page shows are left out.
\<close>

section \<open>Requests\<close>

definition redeem_endpoint :: "uuid_gen \<Rightarrow> ms \<Rightarrow> uuid \<Rightarrow> string option \<Rightarrow> RedeemResult op" where
  "redeem_endpoint g now userId code s = (case present code of
       None \<Rightarrow> (Inl (BadRequestException ''code required''), s)
     | Some c \<Rightarrow> redeem g now userId c s)"

definition createBatch_endpoint :: "uuid_gen \<Rightarrow> (nat \<Rightarrow> nat list) \<Rightarrow> ms \<Rightarrow> string \<Rightarrow> CreateBatchInput \<Rightarrow> db \<Rightarrow>
    ((error + (uuid \<times> string list)) \<times> db) option" where
  "createBatch_endpoint g rnd now email body s =
     (if cbi_name body = [] \<or> cbi_valueSatang body = 0 \<or> cbi_count body = 0
      then Some (Inl (BadRequestException ''name, valueSatang, count required''), s)
      else case adminId email s of
        None \<Rightarrow> Some (Inl (BadRequestException ''admin row not found''), s)
      | Some admin \<Rightarrow> createBatch g rnd now admin body s)"

fun parse_status :: "string \<Rightarrow> admin_status option" where
  "parse_status x = (if x = ''active'' then Some SetActive else if x = ''paused'' then Some SetPaused
     else if x = ''revoked'' then Some SetRevoked else None)"

definition setCodeStatus_endpoint :: "ms \<Rightarrow> uuid \<Rightarrow> string \<Rightarrow> unit op" where
  "setCodeStatus_endpoint now codeId status s = (case parse_status status of
       None \<Rightarrow> (Inl (BadRequestException ''status must be active | paused | revoked''), s)
     | Some st \<Rightarrow> setCodeStatus now codeId st s)"

definition setBatchStatus_endpoint :: "ms \<Rightarrow> uuid \<Rightarrow> string \<Rightarrow> nat op" where
  "setBatchStatus_endpoint now batchId status s = (case parse_status status of
       None \<Rightarrow> (Inl (BadRequestException ''status must be active | paused | revoked''), s)
     | Some st \<Rightarrow> setBatchCodesStatus now batchId st s)"

section \<open>The listing of a batch\<close>

record code_view =
  cv_code :: string
  cv_currentUses :: int
  cv_maxUsesTotal :: int
  cv_maxUsesPerUser :: int
  cv_status :: string
  cv_redemptions :: "(string option \<times> ms) list"

fun code_status_name :: "code_status \<Rightarrow> string" where
  "code_status_name CodeActive = ''active''"
| "code_status_name CodeExhausted = ''exhausted''"
| "code_status_name CodeExpired = ''expired''"
| "code_status_name CodeRevoked = ''revoked''"
| "code_status_name CodePaused = ''paused''"

text \<open>The redemptions of the batch, latest first, with the email of the user when the row is there.\<close>

definition batch_redemptions :: "(uuid \<Rightarrow> ms) \<Rightarrow> uuid \<Rightarrow> db \<Rightarrow> redemption list" where
  "batch_redemptions at batchId s = sort_key (\<lambda>r. - at (rd_id r))
     (filter (\<lambda>r. rd_code_id r \<in> set (map c_id (filter (\<lambda>c. c_batch_id c = batchId) (codes s)))) (redemptions s))"

definition user_email :: "uuid \<Rightarrow> db \<Rightarrow> string option" where
  "user_email userId s = map_option u_email (find (\<lambda>u. u_id u = userId) (users s))"

definition view_code :: "(uuid \<Rightarrow> ms) \<Rightarrow> uuid \<Rightarrow> db \<Rightarrow> credit_code \<Rightarrow> code_view" where
  "view_code at batchId s c = \<lparr>cv_code = c_code c, cv_currentUses = c_current_uses c, cv_maxUsesTotal = c_max_uses_total c,
     cv_maxUsesPerUser = c_max_uses_per_user c, cv_status = code_status_name (c_status c),
     cv_redemptions = map (\<lambda>r. (user_email (rd_user_id r) s, at (rd_id r)))
       (filter (\<lambda>r. rd_code_id r = c_id c) (batch_redemptions at batchId s))\<rparr>"

definition listCodesInBatch :: "(uuid \<Rightarrow> ms) \<Rightarrow> uuid \<Rightarrow> db \<Rightarrow> code_view list" where
  "listCodesInBatch at batchId s =
     map (view_code at batchId s) (take 500 (filter (\<lambda>c. c_batch_id c = batchId) (codes s)))"

section \<open>The export\<close>

text \<open>A quote inside a quoted field is doubled.\<close>

definition csvEscape :: "string option \<Rightarrow> string" where
  "csvEscape v = (case v of
       None \<Rightarrow> []
     | Some s \<Rightarrow>
         if CHR '','' \<in> set s \<or> CHR 0x22 \<in> set s \<or> CHR 0x0A \<in> set s
         then CHR 0x22 # concat (map (\<lambda>c. if c = CHR 0x22 then [CHR 0x22, CHR 0x22] else [c]) s) @ [CHR 0x22]
         else s)"

text \<open>\<^verbatim>\<open>(n / 100).toFixed(2)\<close> for an amount that is not negative.\<close>

definition baht :: "satang \<Rightarrow> string" where
  "baht n = show_int (n div 100) @ ''.'' @ pad2 (nat (n mod 100))"

text \<open>\<^verbatim>\<open>toISOString\<close>.\<close>

definition iso_string :: "ms \<Rightarrow> string" where
  "iso_string t = (case civil (t div DAY_MS) of (y, m, k) \<Rightarrow>
     (let r = nat (t mod DAY_MS) in
      iso_year y @ ''-'' @ pad2 (m + 1) @ ''-'' @ pad2 (nat k) @ ''T'' @ pad2 (r div 3600000) @ '':'' @
      pad2 (r div 60000 mod 60) @ '':'' @ pad2 (r div 1000 mod 60) @ ''.'' @ drop 1 (pad4 (r mod 1000)) @ ''Z''))"

definition csv_header :: string where
  "csv_header = ''code,value_baht,status,uses,max_uses_total,max_uses_per_user,redeemed_by,redeemed_at,batch_name''"

definition csv_lines :: "string \<Rightarrow> string \<Rightarrow> code_view \<Rightarrow> string list" where
  "csv_lines name valueBaht c = (if cv_redemptions c = []
     then [join '','' [csvEscape (Some (cv_code c)), valueBaht,
             csvEscape (Some (if cv_currentUses c = 0 then ''unused'' else cv_status c)), show_int (cv_currentUses c),
             show_int (cv_maxUsesTotal c), show_int (cv_maxUsesPerUser c), [], [], csvEscape (Some name)]]
     else map (\<lambda>(email, t). join '','' [csvEscape (Some (cv_code c)), valueBaht, csvEscape (Some ''redeemed''),
             show_int (cv_currentUses c), show_int (cv_maxUsesTotal c), show_int (cv_maxUsesPerUser c),
             csvEscape (Some (case email of None \<Rightarrow> ''(deleted)'' | Some e \<Rightarrow> e)), csvEscape (Some (iso_string t)),
             csvEscape (Some name)]) (cv_redemptions c))"

text \<open>The body starts with the byte order mark.\<close>

definition csv_body :: "code_batch \<Rightarrow> code_view list \<Rightarrow> string" where
  "csv_body batch cs = [CHR 0xEF, CHR 0xBB, CHR 0xBF] @
     join [CHR 0x0A] (csv_header # concat (map (csv_lines (cb_name batch) (baht (cb_credit_value batch))) cs)) @ [CHR 0x0A]"

definition exportBatchCsv :: "(uuid \<Rightarrow> ms) \<Rightarrow> uuid \<Rightarrow> db \<Rightarrow> error + string" where
  "exportBatchCsv at batchId s = (case find (\<lambda>b. cb_id b = batchId) (batches s) of
       None \<Rightarrow> Inl (BadRequestException ''batch not found'')
     | Some batch \<Rightarrow> Inr (csv_body batch (listCodesInBatch at batchId s)))"

section \<open>Reading it back\<close>

text \<open>A reader of comma-separated values with quoted fields, as RFC 4180 has it, lines ended by a newline.\<close>

datatype csv_mode = AtStart | InPlain | InQuotes | AfterQuote

fun csv_char :: "char \<Rightarrow> string list list \<Rightarrow> string list list" where
  "csv_char c ((f # fs) # rows) = ((c # f) # fs) # rows"
| "csv_char c rows = [[c]] # rows"

fun csv_sep :: "string list list \<Rightarrow> string list list" where
  "csv_sep (fs # rows) = ([] # fs) # rows"
| "csv_sep [] = [[[]]]"

fun csv_read :: "csv_mode \<Rightarrow> string \<Rightarrow> string list list" where
  "csv_read m [] = [[[]]]"
| "csv_read m (c # cs) =
     (if m = InQuotes then if c = CHR 0x22 then csv_read AfterQuote cs else csv_char c (csv_read InQuotes cs)
      else if c = CHR '','' then csv_sep (csv_read AtStart cs)
      else if c = CHR 0x0A then [[]] # csv_read AtStart cs
      else if c = CHR 0x22 \<and> m = AtStart then csv_read InQuotes cs
      else if c = CHR 0x22 \<and> m = AfterQuote then csv_char c (csv_read InQuotes cs)
      else csv_char c (csv_read InPlain cs))"

definition csv_rows :: "string \<Rightarrow> string list list" where
  "csv_rows body = butlast (csv_read AtStart body)"

lemma csv_chars: "foldr csv_char f ((g # fs) # R) = ((f @ g) # fs) # R"
  by (induction f) auto

definition csv_delim :: "string \<Rightarrow> bool" where
  "csv_delim rest \<longleftrightarrow> (case rest of [] \<Rightarrow> True | c # _ \<Rightarrow> c = CHR '','' \<or> c = CHR 0x0A)"

lemma csv_read_delim: "csv_delim rest \<Longrightarrow> m = InPlain \<or> m = AfterQuote \<Longrightarrow> csv_read m rest = csv_read AtStart rest"
  by (cases rest) (auto simp: csv_delim_def)

definition csv_special :: "string \<Rightarrow> bool" where
  "csv_special f \<longleftrightarrow> CHR '','' \<in> set f \<or> CHR 0x22 \<in> set f \<or> CHR 0x0A \<in> set f"

lemma csv_read_plain_char:
  "c \<notin> {CHR '','', CHR 0x22, CHR 0x0A} \<Longrightarrow> m = InPlain \<or> m = AtStart \<Longrightarrow> csv_read m (c # cs) = csv_char c (csv_read InPlain cs)"
  by (subst csv_read.simps) (elim disjE, simp_all)

lemma csv_read_plain:
  "\<not> csv_special f \<Longrightarrow> csv_delim rest \<Longrightarrow> m = InPlain \<or> m = AtStart \<Longrightarrow> csv_read m (f @ rest) = foldr csv_char f (csv_read AtStart rest)"
proof (induction f arbitrary: m)
  case Nil
  then show ?case using csv_read_delim by auto
next
  case (Cons c f)
  then have "csv_read InPlain (f @ rest) = foldr csv_char f (csv_read AtStart rest)" by (simp add: csv_special_def)
  moreover have "c \<notin> {CHR '','', CHR 0x22, CHR 0x0A}" using Cons.prems(1) by (auto simp: csv_special_def)
  ultimately show ?case using csv_read_plain_char [of c m "f @ rest"] Cons.prems(3) by (simp del: csv_read.simps)
qed

lemma csv_read_quoted:
  "csv_delim rest \<Longrightarrow> csv_read InQuotes (concat (map (\<lambda>c. if c = CHR 0x22 then [CHR 0x22, CHR 0x22] else [c]) f) @ CHR 0x22 # rest) =
     foldr csv_char f (csv_read AtStart rest)"
  by (induction f) (auto simp: csv_read_delim)

lemma csv_read_field:
  assumes "csv_delim rest"
  shows "csv_read AtStart (csvEscape (Some f) @ rest) = foldr csv_char f (csv_read AtStart rest)"
  using csv_read_plain [of f rest AtStart] csv_read_quoted [of rest f] assms
  by (simp add: csvEscape_def csv_special_def)

lemma csv_read_row:
  "fs \<noteq> [] \<Longrightarrow> csv_read AtStart (join '','' (map (\<lambda>f. csvEscape (Some f)) fs) @ CHR 0x0A # rest) = fs # csv_read AtStart rest"
proof (induction fs rule: induct_list012)
  case (2 x)
  show ?case using csv_chars [of x "[]" "[]"] by (simp add: csv_read_field csv_delim_def)
next
  case (3 x y zs)
  then have "csv_read AtStart (join '','' (map (\<lambda>f. csvEscape (Some f)) (y # zs)) @ CHR 0x0A # rest) = (y # zs) # csv_read AtStart rest" by simp
  then show ?case using csv_chars [of x "[]" "y # zs"] by (simp add: csv_read_field csv_delim_def)
qed simp

lemma csv_read_rows:
  "\<forall>r \<in> set rows. r \<noteq> [] \<Longrightarrow> rows \<noteq> [] \<Longrightarrow>
   csv_rows (join [CHR 0x0A] (map (\<lambda>r. join '','' (map (\<lambda>f. csvEscape (Some f)) r)) rows) @ [CHR 0x0A]) = rows"
proof -
  have "\<forall>r \<in> set rows. r \<noteq> [] \<Longrightarrow> rows \<noteq> [] \<Longrightarrow>
    csv_read AtStart (join [CHR 0x0A] (map (\<lambda>r. join '','' (map (\<lambda>f. csvEscape (Some f)) r)) rows) @ [CHR 0x0A]) = rows @ [[[]]]"
    by (induction rows rule: induct_list012) (simp_all add: csv_read_row)
  then show "\<forall>r \<in> set rows. r \<noteq> [] \<Longrightarrow> rows \<noteq> [] \<Longrightarrow> ?thesis" by (simp add: csv_rows_def)
qed

text \<open>Numbers need no quotes.\<close>

lemma csvEscape_plain: "\<not> csv_special f \<Longrightarrow> csvEscape (Some f) = f"
  by (simp add: csvEscape_def csv_special_def)

lemma digit_char_csv: "digit_char n \<notin> {CHR '','', CHR 0x22, CHR 0x0A}"
proof -
  have "n mod 10 < 10" by simp
  from less_10_cases [OF this] show ?thesis by (auto simp: digit_char_def)
qed

lemma csv_special_iff: "csv_special f \<longleftrightarrow> (\<exists>c \<in> set f. c \<in> {CHR '','', CHR 0x22, CHR 0x0A})"
  by (auto simp: csv_special_def)

lemma show_nat_csv: "\<not> csv_special (show_nat n)"
  unfolding csv_special_iff
proof
  assume "\<exists>c \<in> set (show_nat n). c \<in> {CHR '','', CHR 0x22, CHR 0x0A}"
  then obtain c where c: "c \<in> set (show_nat n)" "c \<in> {CHR '','', CHR 0x22, CHR 0x0A}" by (rule bexE)
  from show_nat_digits [OF c(1)] obtain k where "c = digit_char k" by (rule exE)
  with c(2) digit_char_csv [of k] show False by (simp only: not_True_eq_False)
qed

lemma show_int_csv: "\<not> csv_special (show_int n)"
  using show_nat_csv [of "nat n"] show_nat_csv [of "nat (- n)"] by (auto simp: show_int_def csv_special_def)

lemma pad2_csv: "\<not> csv_special (pad2 n)"
  using digit_char_csv [of "n div 10"] digit_char_csv [of "n mod 10"] unfolding csv_special_iff pad2_def by auto

lemma baht_csv: "\<not> csv_special (baht n)"
  using show_int_csv [of "n div 100"] pad2_csv [of "nat (n mod 100)"] by (auto simp: baht_def csv_special_def)

section \<open>What the export shows\<close>

definition csv_fields :: "code_batch \<Rightarrow> code_view \<Rightarrow> string list list" where
  "csv_fields batch c = (let value = baht (cb_credit_value batch); name = cb_name batch;
       uses = map show_int [cv_currentUses c, cv_maxUsesTotal c, cv_maxUsesPerUser c]
     in if cv_redemptions c = []
        then [[cv_code c, value, if cv_currentUses c = 0 then ''unused'' else cv_status c] @ uses @ [[], [], name]]
        else map (\<lambda>(email, t). [cv_code c, value, ''redeemed''] @ uses @
          [case email of None \<Rightarrow> ''(deleted)'' | Some e \<Rightarrow> e, iso_string t, name]) (cv_redemptions c))"

lemma csvEscape_raw: "csvEscape (Some (show_int n)) = show_int n" "csvEscape (Some (baht n)) = baht n" "csvEscape (Some []) = []"
  using csvEscape_plain [OF show_int_csv] csvEscape_plain [OF baht_csv] by (simp_all add: csvEscape_def)

lemma csv_lines_fields:
  "csv_lines (cb_name batch) (baht (cb_credit_value batch)) = (\<lambda>c. map (\<lambda>r. join '','' (map (\<lambda>f. csvEscape (Some f)) r)) (csv_fields batch c))"
  by (rule ext) (simp add: csv_lines_def csv_fields_def Let_def csvEscape_raw case_prod_beta del: join.simps)

lemma csv_fields_not_Nil: "r \<in> set (csv_fields batch c) \<Longrightarrow> r \<noteq> []"
  by (auto simp: csv_fields_def Let_def split: if_splits)

definition csv_names :: "string list" where
  "csv_names = [''code'', ''value_baht'', ''status'', ''uses'', ''max_uses_total'', ''max_uses_per_user'', ''redeemed_by'',
     ''redeemed_at'', ''batch_name'']"

lemma csv_header_names: "csv_header = join '','' (map (\<lambda>f. csvEscape (Some f)) csv_names)" "csv_names \<noteq> []"
  by code_simp+

text \<open>
  C32. The export loses nothing of what it writes: read back as comma-separated values, the file is the
  header and, field for field, the rows of the codes, whatever characters the batch name and the email
  addresses hold. But it writes at most five hundred codes of a batch, which may have ten thousand.
\<close>

theorem export_roundtrip:
  assumes "exportBatchCsv at batchId s = Inr body"
  shows "\<exists>batch. find (\<lambda>b. cb_id b = batchId) (batches s) = Some batch \<and>
    csv_rows (drop 3 body) = csv_names # concat (map (csv_fields batch) (listCodesInBatch at batchId s)) \<and>
    length (listCodesInBatch at batchId s) = min 500 (batch_size batchId s)"
proof -
  obtain batch where b: "find (\<lambda>b. cb_id b = batchId) (batches s) = Some batch" "body = csv_body batch (listCodesInBatch at batchId s)"
    using assms by (auto simp: exportBatchCsv_def split: option.splits)
  let ?rows = "csv_names # concat (map (csv_fields batch) (listCodesInBatch at batchId s))"
  have "\<forall>r \<in> set ?rows. r \<noteq> []" using csv_fields_not_Nil csv_header_names(2) by auto
  then have "csv_rows (join [CHR 0x0A] (map (\<lambda>r. join '','' (map (\<lambda>f. csvEscape (Some f)) r)) ?rows) @ [CHR 0x0A]) = ?rows"
    by (rule csv_read_rows) simp
  moreover have "drop 3 body = join [CHR 0x0A] (map (\<lambda>r. join '','' (map (\<lambda>f. csvEscape (Some f)) r)) ?rows) @ [CHR 0x0A]"
    by (simp add: b(2) csv_body_def csv_lines_fields csv_header_names(1) map_concat comp_def del: join.simps)
  ultimately show ?thesis using b(1) by (simp add: listCodesInBatch_def batch_size_def)
qed

definition export_batch :: code_batch where
  "export_batch = \<lparr>cb_id = ''cb1'', cb_name = ''spring, 2024'', cb_created_by_admin = ''admin'', cb_credit_value = 5000,
     cb_max_uses_total = 3, cb_max_uses_per_user = 2, cb_expires_at = None, cb_code_count = 1, cb_redeemed_count = 0,
     cb_total_credit_redeemed = 0\<rparr>"

definition export_db :: db where
  "export_db = code_db\<lparr>batches := [export_batch]\<rparr>"

theorem export_roundtrip_witness:
  "\<exists>body. exportBatchCsv (\<lambda>_. 0) ''cb1'' export_db = Inr body \<and>
     csv_rows (drop 3 body) = [csv_names, [''AAAA-BBBB'', ''50.00'', ''unused'', ''0'', ''3'', ''2'', [], [], ''spring, 2024'']]"
proof -
  have f: "find (\<lambda>b. cb_id b = ''cb1'') (batches export_db) = Some export_batch" by (simp add: export_db_def export_batch_def)
  then obtain body where b: "exportBatchCsv (\<lambda>_. 0) ''cb1'' export_db = Inr body" by (simp add: exportBatchCsv_def)
  have "concat (map (csv_fields export_batch) (listCodesInBatch (\<lambda>_. 0) ''cb1'' export_db)) =
      [[''AAAA-BBBB'', ''50.00'', ''unused'', ''0'', ''3'', ''2'', [], [], ''spring, 2024'']]" by code_simp
  with export_roundtrip [OF b] b f show ?thesis by auto
qed

end
