(* ===== verification/Worker.thy ===== *)
theory Worker
  imports System Email Telemetry
begin

text \<open>
  The internal worker, \<^verbatim>\<open>worker-internal/src/main.ts\<close>: seven timers, each guarded by a flag of its own,
  a queue with two jobs at a time, and what each run does to the database, the mail queue, the
  telemetry and the gateways. A run takes effect when it ends; requests of customers and
  administrators (System) come in between. The intervals and start-up delays are left out: a timer may
  fire at any moment.
\<close>

section \<open>Runs\<close>

datatype task = DriftCheck | Billing | Traffic | EmailEnqueue | EmailDispatch | GreMonitor | GreRefresh

text \<open>What the runs read and write, and what they ask of the world; \<open>'k\<close> is the state of a gateway.\<close>

record 'k plant =
  pl_db :: db
  pl_mail :: mailq
  pl_telemetry :: telemetry
  pl_fails :: "uuid \<Rightarrow> nat option"
  pl_gateways :: "uuid \<Rightarrow> 'k"

record 'k outside =
  ou_env :: env
  ou_wg :: "'k wg_agent"
  ou_listGrePeers :: "uuid \<Rightarrow> error + gre_peer list"
  ou_ping :: "uuid \<Rightarrow> ip4 \<Rightarrow> error + nat"
  ou_stats :: stats_agents
  ou_mail :: mail_env

definition TRAFFIC_RETENTION_DAYS :: int where
  "TRAFFIC_RETENTION_DAYS = 90"

definition CONN_RETENTION_DAYS :: int where
  "CONN_RETENTION_DAYS = 90"

definition runBilling :: "'k outside \<Rightarrow> 'k plant \<Rightarrow> 'k plant" where
  "runBilling x p = p\<lparr>pl_db := snd (runBillingTick (e_gen (ou_env x)) (e_now (ou_env x)) (pl_db p))\<rparr>"

text \<open>The samples are pruned in the first five minutes after 03:00 UTC.\<close>

definition prune_time :: "ms \<Rightarrow> bool" where
  "prune_time now \<longleftrightarrow> now div 3600000 mod 24 = 3 \<and> now div 60000 mod 60 < 5"

definition runTrafficSample :: "'k outside \<Rightarrow> 'k plant \<Rightarrow> 'k plant" where
  "runTrafficSample x p =
     (let now = e_now (ou_env x); d = snd (sampleAllGateways (ou_stats x) now (pl_db p) (pl_telemetry p))
      in p\<lparr>pl_telemetry := if prune_time now then snd (pruneTrafficSamples now TRAFFIC_RETENTION_DAYS d) else d\<rparr>)"

definition runEmailEnqueue :: "'k outside \<Rightarrow> 'k plant \<Rightarrow> 'k plant" where
  "runEmailEnqueue x p = p\<lparr>pl_mail := snd (enqueueEmailEvents (e_gen (ou_env x)) (e_now (ou_env x)) (pl_db p) (pl_mail p))\<rparr>"

definition runEmailDispatch :: "'k outside \<Rightarrow> 'k plant \<Rightarrow> 'k plant" where
  "runEmailDispatch x p = p\<lparr>pl_mail := snd (dispatchEmailEvents (ou_mail x) (e_now (ou_env x)) (pl_db p) (pl_mail p))\<rparr>"

definition runGreMonitor :: "'k outside \<Rightarrow> 'k plant \<Rightarrow> 'k plant" where
  "runGreMonitor x p =
     (let m = monitorGreTunnels (ou_ping x) (e_dns (ou_env x)) (e_agent (ou_env x)) (e_now (ou_env x)) (pl_fails p) (pl_db p)
      in p\<lparr>pl_db := mo_db m, pl_fails := mo_fails m\<rparr>)"

definition runGreRefresh :: "'k outside \<Rightarrow> 'k plant \<Rightarrow> 'k plant" where
  "runGreRefresh x p =
     p\<lparr>pl_db := snd (refreshStaleGreEndpoints (e_dns (ou_env x)) (e_agent (ou_env x)) (e_now (ou_env x)) 60 (pl_db p))\<rparr>"

definition drift_wg :: "'k outside \<Rightarrow> 'k plant \<Rightarrow> 'k plant" where
  "drift_wg x p = (case reconcileAllGateways (ou_wg x) (e_now (ou_env x)) (pl_db p) (pl_gateways p) of
     (_, s, ks) \<Rightarrow> p\<lparr>pl_db := s, pl_gateways := ks\<rparr>)"

text \<open>GRE first, then WireGuard.\<close>

definition runDrift :: "'k outside \<Rightarrow> 'k plant \<Rightarrow> 'k plant" where
  "runDrift x p = drift_wg x (p\<lparr>pl_db := snd (reconcileGreAllGateways (ou_listGrePeers x) (e_agent (ou_env x)) (pl_db p))\<rparr>)"

fun perform :: "task \<Rightarrow> 'k outside \<Rightarrow> 'k plant \<Rightarrow> 'k plant" where
  "perform DriftCheck = runDrift"
| "perform Billing = runBilling"
| "perform Traffic = runTrafficSample"
| "perform EmailEnqueue = runEmailEnqueue"
| "perform EmailDispatch = runEmailDispatch"
| "perform GreMonitor = runGreMonitor"
| "perform GreRefresh = runGreRefresh"

definition pruneConn :: "'k outside \<Rightarrow> 'k plant \<Rightarrow> 'k plant" where
  "pruneConn x p = p\<lparr>pl_telemetry := snd (pruneConnectionEvents (e_now (ou_env x)) CONN_RETENTION_DAYS (pl_telemetry p))\<rparr>"

text \<open>A job of the queue. Two names only acknowledge; the drift job leaves GRE out.\<close>

definition processor :: "'k outside \<Rightarrow> string \<Rightarrow> 'k plant \<Rightarrow> (error + unit) \<times> 'k plant" where
  "processor x name p =
     (if name = ''billing-scheduler'' then (Inr (), runBilling x p)
      else if name = ''send-email'' \<or> name = ''abuse-detection'' then (Inr (), p)
      else if name = ''drift-detection'' then (Inr (), drift_wg x p)
      else (Inl (JsError (''unknown internal job: '' @ name)), p))"

section \<open>The worker\<close>

record 'k worker =
  wk_running :: "task \<Rightarrow> bool"
  wk_runs :: "task list"
  wk_jobs :: "string list"
  wk_plant :: "'k plant"

definition CONCURRENCY :: nat where
  "CONCURRENCY = 2"

text \<open>A timer fires: the run is skipped while the flag is up. The \<^verbatim>\<open>finally\<close> takes the flag down.\<close>

definition start_run :: "task \<Rightarrow> 'k worker \<Rightarrow> 'k worker" where
  "start_run t w = (if wk_running w t then w else w\<lparr>wk_running := (wk_running w)(t := True), wk_runs := wk_runs w @ [t]\<rparr>)"

definition finish_run :: "'k outside \<Rightarrow> task \<Rightarrow> 'k worker \<Rightarrow> 'k worker" where
  "finish_run x t w = w\<lparr>wk_running := (wk_running w)(t := False), wk_runs := remove1 t (wk_runs w), wk_plant := perform t x (wk_plant w)\<rparr>"

definition finish_job :: "'k outside \<Rightarrow> string \<Rightarrow> 'k worker \<Rightarrow> 'k worker" where
  "finish_job x name w = w\<lparr>wk_jobs := remove1 name (wk_jobs w), wk_plant := snd (processor x name (wk_plant w))\<rparr>"

definition booted :: "'k plant \<Rightarrow> 'k worker" where
  "booted p = \<lparr>wk_running = (\<lambda>_. False), wk_runs = [], wk_jobs = [], wk_plant = p\<rparr>"

inductive wstep :: "'k worker \<Rightarrow> 'k worker \<Rightarrow> bool" where
  timer: "wstep w (start_run t w)"
| run_ends: "t \<in> set (wk_runs w) \<Longrightarrow> wstep w (finish_run x t w)"
| job_starts: "length (wk_jobs w) < CONCURRENCY \<Longrightarrow> wstep w (w\<lparr>wk_jobs := wk_jobs w @ [name]\<rparr>)"
| job_ends: "name \<in> set (wk_jobs w) \<Longrightarrow> wstep w (finish_job x name w)"
| prune: "wstep w (w\<lparr>wk_plant := pruneConn x (wk_plant w)\<rparr>)"
| request: "step (pl_db (wk_plant w)) s \<Longrightarrow> wstep w (w\<lparr>wk_plant := (wk_plant w)\<lparr>pl_db := s\<rparr>\<rparr>)"

inductive worker_reachable :: "'k plant \<Rightarrow> 'k worker \<Rightarrow> bool" for p where
  boot: "worker_reachable p (booted p)"
| after: "worker_reachable p w \<Longrightarrow> wstep w w' \<Longrightarrow> worker_reachable p w'"

inductive_cases wstepE: "wstep w w'"

section \<open>What the runs do to the books\<close>

definition calm :: "db \<Rightarrow> db \<Rightarrow> bool" where
  "calm s t \<longleftrightarrow> (sys_ok s \<longrightarrow> sys_ok t) \<and> wallets t = wallets s \<and> txs t = txs s"

lemma calm_refl [simp]: "calm s s"
  by (simp add: calm_def)

lemma calm_trans: "calm s t \<Longrightarrow> calm t u \<Longrightarrow> calm s u"
  by (simp add: calm_def)

lemma calmI: "grows s t \<Longrightarrow> restocks s t \<Longrightarrow> (tenancy_ok s \<Longrightarrow> tenancy_ok t) \<Longrightarrow> wallets t = wallets s \<Longrightarrow> txs t = txs s \<Longrightarrow> calm s t"
  unfolding calm_def
  by (metis ledger_ok_cong restocks_ok sys_okI sys_ok_def)

lemma calm_audit: "calm s (audit now a i act rt ri md s)"
  by (rule calmI) simp_all

lemma calm_send: "calm s (send c s)"
  by (rule calmI) simp_all

lemma calm_request: "calm s (snd (request agent c s))"
  by (simp add: request_def calm_send split: option.splits)

lemma calm_handshake: "calm s (set_tunnels (\<lambda>v. t_id v = tid) (\<lambda>v. v\<lparr>t_last_handshake_at := Some now\<rparr>) s)"
  by (rule calmI) (simp_all add: tenancy_set_tunnels)

lemma calm_activateGre: "calm s (snd (activateGreTunnel agent tid s))"
  using activate_gre.frame activate_gre_iso.kept
  by (intro calmI grows_activateGreTunnel restocks_tunnels(4)) auto

lemma calm_resolveGre: "calm s (snd (resolveGreEndpoint dns agent now tid s))"
  using resolve_gre.frame resolve_gre_iso.kept
  by (intro calmI grows_resolveGreEndpoint restocks_tunnels(7)) auto

lemma calm_for_try: "(\<And>x s. calm s (snd (f x s))) \<Longrightarrow> calm s (snd (for_try f xs s))"
  by (rule for_try_inv [where I = "calm s"]) (auto intro: calm_trans)

lemma calm_fold: "(\<And>x t. calm (g t) (g (f x t))) \<Longrightarrow> calm (g a) (g (fold f xs a))"
  by (induction xs arbitrary: a) (auto intro: calm_trans)

lemma calm_gre_drift: "calm s (snd (reconcileGreAllGateways l agent s))"
proof -
  have t: "calm (snd st) (snd (reconcile_gre_tunnel agent gid k row st))" for gid k row st
    using calm_activateGre [of "snd st" agent "t_id (fst row)"] calm_request [of "snd st" agent]
    by (auto simp: reconcile_gre_tunnel_def split: option.splits sum.splits prod.splits) (metis snd_conv)+
  have o: "calm (snd st) (snd (remove_gre_orphan agent gid ids pid st))" for gid ids pid st
    using calm_request [of "snd st" agent "DeleteGrePeer gid pid"]
    by (auto simp: remove_gre_orphan_def split: sum.splits prod.splits)
  have "calm s (snd (reconcileGreOnGateway l agent gid s))" for gid s
  proof -
    have "calm s (snd (fold (remove_gre_orphan agent gid ids) ps (fold (reconcile_gre_tunnel agent gid k) rows (r, s))))" for ids :: "string list" and ps k rows r
      using calm_trans [OF calm_fold [where g = snd and f = "reconcile_gre_tunnel agent gid k" and a = "(r, s)", OF t]
        calm_fold [where g = snd and f = "remove_gre_orphan agent gid ids", OF o]] by simp
    then show ?thesis by (simp add: reconcileGreOnGateway_def Let_def case_prod_beta split: option.split sum.split)
  qed
  then have "calm s (snd (for_try (reconcileGreOnGateway l agent) xs s))" for xs by (rule calm_for_try)
  moreover have "snd (reconcileGreAllGateways l agent s) = snd (for_try (reconcileGreOnGateway l agent)
      (map g_id (filter (\<lambda>g. g_status g = GwActive \<and> ''gre'' \<in> set (g_supported_protocols g)) (gateways s))) s)"
    by (simp add: reconcileGreAllGateways_def case_prod_beta)
  ultimately show ?thesis by simp
qed

lemma calm_wg_drift: "calm s (fst (snd (reconcileAllGateways A now s ks)))"
proof -
  have "calm s (dr_db st)" if "reconcileGateway A now gid s k = Inr st" for gid s k st
    by (rule reconcileGateway_db [OF _ _ that, where I = "calm s"]) (auto intro: calm_trans calm_audit)
  then have "calm s (fst (snd (reconcile_each A now gids s ks)))" for gids
  proof (induction gids arbitrary: s ks)
    case (Cons gid gids)
    show ?case
    proof (cases "reconcileGateway A now gid s (ks gid)")
      case (Inl e)
      then show ?thesis using Cons by (simp add: case_prod_beta)
    next
      case (Inr st)
      then have "calm s (dr_db st)" by (rule Cons.prems)
      moreover have "calm (dr_db st) (fst (snd (reconcile_each A now gids (dr_db st) (ks(gid := dr_kernel st)))))" using Cons by blast
      ultimately show ?thesis using calm_trans by (simp add: Inr case_prod_beta)
    qed
  qed simp
  then show ?thesis by (simp add: reconcileAllGateways_def)
qed

lemma calm_monitor: "calm s (mo_db (monitorGreTunnels ping dns agent now fails s))"
proof -
  have "calm (mo_db m) (mo_db (check_tunnel ping dns agent now t m))" for t m
    using calm_handshake calm_resolveGre [of "mo_db m" dns agent now "t_id t"]
    by (auto simp: check_tunnel_def Let_def split: sum.splits prod.splits)
  then show ?thesis using calm_fold [where g = mo_db and f = "check_tunnel ping dns agent now"]
    by (simp add: monitorGreTunnels_def Let_def) (metis monitor.select_convs(3))
qed

lemma calm_refresh: "calm s (snd (refreshStaleGreEndpoints dns agent now age s))"
  using calm_for_try [of "resolveGreEndpoint dns agent now"] calm_resolveGre
  by (auto simp: refreshStaleGreEndpoints_def split: prod.splits) (metis snd_conv)

lemma calm_drift: "calm (pl_db p) (pl_db (drift_wg x p))" "calm (pl_db p) (pl_db (runDrift x p))"
proof -
  show d: "calm (pl_db p) (pl_db (drift_wg x p))" for p
    using calm_wg_drift [of "pl_db p" "ou_wg x" "e_now (ou_env x)" "pl_gateways p"] by (auto simp: drift_wg_def split: prod.splits)
  show "calm (pl_db p) (pl_db (runDrift x p))"
    using calm_gre_drift [of "pl_db p" "ou_listGrePeers x" "e_agent (ou_env x)"]
      d [of "p\<lparr>pl_db := snd (reconcileGreAllGateways (ou_listGrePeers x) (e_agent (ou_env x)) (pl_db p))\<rparr>"]
    by (auto simp: runDrift_def intro: calm_trans)
qed

lemma calm_perform: "t \<noteq> Billing \<Longrightarrow> calm (pl_db p) (pl_db (perform t x p))"
proof (cases t)
  case GreMonitor
  then show ?thesis by (simp add: runGreMonitor_def Let_def calm_monitor)
qed (simp_all add: calm_drift(2) runTrafficSample_def runEmailEnqueue_def runEmailDispatch_def runGreRefresh_def Let_def calm_refresh)

lemma sys_ok_tick: "sys_ok s \<Longrightarrow> sys_ok (snd (runBillingTick g now s))"
  by (rule sys_okI [OF _ runBillingTick_ledger grows_runBillingTick tenancy_runBillingTick restocks_ok [OF restocks_runBillingTick]])
    (simp_all add: sys_ok_def)

lemma perform_sound: "sys_ok (pl_db p) \<Longrightarrow> sys_ok (pl_db (perform t x p))"
  using calm_perform [of t p x] sys_ok_tick by (cases "t = Billing") (auto simp: calm_def runBilling_def)

lemma processor_sound: "sys_ok (pl_db p) \<Longrightarrow> sys_ok (pl_db (snd (processor x name p)))"
  using calm_drift(1) [of p x] perform_sound [of p Billing x] by (auto simp: processor_def calm_def)

text \<open>
  Only billing moves money: none of the other background tasks, and no job of the queue but the
  billing job, changes a wallet or the ledger, whatever the gateways, the name service, the pings and
  the mail provider answer.
\<close>

theorem background_moves_no_money:
  assumes "t \<noteq> Billing" "name \<noteq> ''billing-scheduler''"
  shows "wallets (pl_db (perform t x p)) = wallets (pl_db p) \<and> txs (pl_db (perform t x p)) = txs (pl_db p) \<and>
    wallets (pl_db (snd (processor x name p))) = wallets (pl_db p) \<and> txs (pl_db (snd (processor x name p))) = txs (pl_db p)"
  using calm_perform [OF assms(1), of p x] calm_drift(1) [of p x] assms(2) by (simp add: calm_def processor_def)

section \<open>Which runs are in flight\<close>

definition ticks :: "'k worker \<Rightarrow> nat" where
  "ticks w = count_list (wk_runs w) Billing + count_list (wk_jobs w) ''billing-scheduler''"

definition flags_ok :: "'k worker \<Rightarrow> bool" where
  "flags_ok w \<longleftrightarrow> distinct (wk_runs w) \<and> (\<forall>t. wk_running w t \<longleftrightarrow> t \<in> set (wk_runs w)) \<and> length (wk_jobs w) \<le> CONCURRENCY"

lemma wstep_flags: "wstep w w' \<Longrightarrow> flags_ok w \<Longrightarrow> flags_ok w'"
  by (induction rule: wstep.induct) (auto simp: flags_ok_def start_run_def finish_run_def finish_job_def length_remove1)

lemma wstep_sound: "wstep w w' \<Longrightarrow> sys_ok (pl_db (wk_plant w)) \<Longrightarrow> sys_ok (pl_db (wk_plant w'))"
  by (induction rule: wstep.induct)
    (auto simp: start_run_def finish_run_def finish_job_def pruneConn_def perform_sound processor_sound elim!: stepE intro: sys_ok_handle)

lemma flags_ok_booted: "flags_ok (booted p)"
  by (simp add: flags_ok_def booted_def)

lemma plant_booted: "wk_plant (booted p) = p"
  by (simp add: booted_def)

lemma worker_reachable_inv: "worker_reachable p w \<Longrightarrow> sys_ok (pl_db p) \<Longrightarrow> flags_ok w \<and> sys_ok (pl_db (wk_plant w))"
  by (induction rule: worker_reachable.induct)
    (auto simp: flags_ok_booted plant_booted intro: wstep_flags wstep_sound)

lemma count_distinct: "distinct xs \<Longrightarrow> count_list xs x = (if x \<in> set xs then 1 else 0)"
  by (induction xs) auto

lemma flags_ok_ticks: "flags_ok w \<Longrightarrow> ticks w \<le> 3"
  using count_le_length [of "wk_jobs w" "''billing-scheduler''"]
  by (simp add: flags_ok_def ticks_def CONCURRENCY_def count_distinct)


text \<open>
  The flag of the billing timer does not guard the billing job of the queue: from a worker just
  started, three billing ticks can come to be in flight at once. (Two ticks that selected the same item
  charge it twice.)
\<close>

theorem billing_job_overlaps:
  "\<exists>w. worker_reachable p w \<and> ticks w = 3 \<and> wk_runs w = [Billing]"
proof -
  let ?j = "''billing-scheduler''"
  let ?w1 = "start_run Billing (booted p)"
  let ?w2 = "?w1\<lparr>wk_jobs := wk_jobs ?w1 @ [?j]\<rparr>"
  let ?w3 = "?w2\<lparr>wk_jobs := wk_jobs ?w2 @ [?j]\<rparr>"
  have 1: "worker_reachable p ?w1" by (rule worker_reachable.after [OF worker_reachable.boot timer])
  have 2: "worker_reachable p ?w2"
    by (rule worker_reachable.after [OF 1 job_starts]) (simp add: start_run_def booted_def CONCURRENCY_def)
  have 3: "worker_reachable p ?w3"
    by (rule worker_reachable.after [OF 2 job_starts]) (simp add: start_run_def booted_def CONCURRENCY_def)
  then show ?thesis by (intro exI [of _ ?w3]) (simp add: ticks_def start_run_def booted_def)
qed

section \<open>Witnesses\<close>

definition demo_plant :: "peer list plant" where
  "demo_plant = \<lparr>pl_db = code_db, pl_mail = empty_mailq, pl_telemetry = \<lparr>te_last = [], te_usage = [], te_events = []\<rparr>,
     pl_fails = (\<lambda>_. None), pl_gateways = (\<lambda>_. [])\<rparr>"

definition demo_outside :: "peer list outside" where
  "demo_outside = \<lparr>ou_env = demo_env, ou_wg = MemoryManager, ou_listGrePeers = (\<lambda>_. Inr []), ou_ping = (\<lambda>_ _. Inr 3),
     ou_stats = \<lparr>getPeerStats = (\<lambda>_. Inl ''unreachable''), listGreStats = (\<lambda>_. Inl ''unreachable'')\<rparr>, ou_mail = answering 200\<rparr>"

theorem background_moves_no_money_witness:
  "txs (pl_db (perform DriftCheck demo_outside demo_plant)) = txs code_db \<and>
   txs (pl_db (snd (processor demo_outside ''drift-detection'' demo_plant))) = txs code_db"
  using background_moves_no_money [of DriftCheck "''drift-detection''" demo_outside demo_plant] by (simp add: demo_plant_def)


end
