(* ===== verification/GatewayClient.thy ===== *)
theory GatewayClient
  imports Auth Flow
begin

text \<open>
  \<^verbatim>\<open>packages/gateway-client\<close>: what the client sends to the agent of a gateway and how it reads the answer.
  The calls of the other theories are the ones that change a gateway; \<open>wire\<close> is their HTTP request, and
  \<open>agent_over\<close> turns the answers of a network into the parameter \<open>agent\<close>. Strings are UTF-8 bytes. TLS, the
  sockets and the idempotency keys of the callers are left out; a body is given as \<^verbatim>\<open>JSON.parse\<close> reads it
  (\<open>None\<close> when it is empty or malformed), and an error message that is not a string is left out.
\<close>

section \<open>Requests\<close>

definition uri_unreserved :: "char \<Rightarrow> bool" where
  "uri_unreserved c \<longleftrightarrow> CHR ''0'' \<le> c \<and> c \<le> CHR ''9'' \<or> CHR ''A'' \<le> c \<and> c \<le> CHR ''Z'' \<or> CHR ''a'' \<le> c \<and> c \<le> CHR ''z'' \<or>
     c \<in> set [CHR ''-'', CHR ''_'', CHR ''.'', CHR ''!'', CHR ''~'', CHR ''*'', CHR 0x27, CHR ''('', CHR '')'']"

definition hex_digit :: "nat \<Rightarrow> char" where
  "hex_digit n = ''0123456789ABCDEF'' ! n"

definition encode_char :: "char \<Rightarrow> string" where
  "encode_char c = (if uri_unreserved c then [c] else [CHR ''%'', hex_digit (of_char c div 16), hex_digit (of_char c mod 16)])"

definition encodeURIComponent :: "string \<Rightarrow> string" where
  "encodeURIComponent s = concat (map encode_char s)"

record http_call =
  hc_method :: string
  hc_path :: string
  hc_body :: "json option"

definition http :: "string \<Rightarrow> string \<Rightarrow> json option \<Rightarrow> http_call" where
  "http method path body = \<lparr>hc_method = method, hc_path = path, hc_body = body\<rparr>"

text \<open>\<^verbatim>\<open>JSON.stringify\<close> drops the fields that are undefined.\<close>

definition fields :: "(string \<times> json option) list \<Rightarrow> json option" where
  "fields fs = Some (JObj (List.map_filter (\<lambda>(k, v). map_option (\<lambda>j. (k, j)) v) fs))"

definition strings :: "string list \<Rightarrow> json" where
  "strings xs = JArr (map JStr xs)"

text \<open>\<^verbatim>\<open>encodeURIComponent(null)\<close> is the string \<^verbatim>\<open>null\<close>.\<close>

definition key_segment :: "string option \<Rightarrow> string" where
  "key_segment k = encodeURIComponent (case k of None \<Rightarrow> ''null'' | Some x \<Rightarrow> x)"

definition createPeer :: "string \<Rightarrow> string option \<Rightarrow> ip4 \<Rightarrow> cidr list \<Rightarrow> int \<Rightarrow> http_call" where
  "createPeer peerId publicKey privateIp publicIps speed = http ''POST'' ''/peers''
     (fields [(''peerId'', Some (JStr peerId)), (''publicKey'', Some (json_opt publicKey)), (''privateIp'', Some (JStr privateIp)),
       (''publicIps'', Some (strings publicIps)), (''speedLimitKbit'', Some (JNum speed))])"

definition updatePeerIps :: "string option \<Rightarrow> ip4 \<Rightarrow> cidr list \<Rightarrow> int option \<Rightarrow> http_call" where
  "updatePeerIps publicKey privateIp publicIps speed = http ''PATCH'' (''/peers/'' @ key_segment publicKey)
     (fields [(''privateIp'', Some (JStr privateIp)), (''publicIps'', Some (strings publicIps)), (''speedLimitKbit'', map_option JNum speed)])"

definition deletePeer :: "string option \<Rightarrow> http_call" where
  "deletePeer publicKey = http ''DELETE'' (''/peers/'' @ key_segment publicKey) None"

definition createGrePeer :: "string \<Rightarrow> ip4 option \<Rightarrow> ip4 option \<Rightarrow> cidr \<Rightarrow> ip4 \<Rightarrow> cidr list \<Rightarrow> int \<Rightarrow> http_call" where
  "createGrePeer peerId remoteIp localIp tunnelLocalIp tunnelRemoteIp publicIps speed = http ''POST'' ''/gre/peers''
     (fields [(''peerId'', Some (JStr peerId)), (''remoteIp'', Some (json_opt remoteIp)), (''localIp'', map_option JStr localIp),
       (''greKey'', Some (JNum 0)), (''tunnelLocalIp'', Some (JStr tunnelLocalIp)), (''tunnelRemoteIp'', Some (JStr tunnelRemoteIp)),
       (''publicIps'', Some (strings publicIps)), (''speedLimitKbit'', Some (JNum speed))])"

definition patchGrePeer :: "string \<Rightarrow> ip4 option \<Rightarrow> cidr list option \<Rightarrow> int option \<Rightarrow> http_call" where
  "patchGrePeer peerId remoteIp publicIps speed = http ''PATCH'' (''/gre/peers/'' @ encodeURIComponent peerId)
     (fields [(''remoteIp'', map_option JStr remoteIp), (''publicIps'', map_option strings publicIps), (''speedLimitKbit'', map_option JNum speed)])"

definition deleteGrePeer :: "string \<Rightarrow> http_call" where
  "deleteGrePeer peerId = http ''DELETE'' (''/gre/peers/'' @ encodeURIComponent peerId) None"

definition setBlackhole :: "cidr \<Rightarrow> bool \<Rightarrow> http_call" where
  "setBlackhole c add = http (if add then ''POST'' else ''DELETE'') ''/routes/blackhole'' (fields [(''cidr'', Some (JStr c))])"

definition syncFrrPrefixList :: "string \<Rightarrow> (cidr \<times> int) list \<Rightarrow> http_call" where
  "syncFrrPrefixList name prefixes = http ''POST'' ''/frr/prefix-list/sync''
     (fields [(''list'', Some (JStr name)), (''prefixes'', Some (JArr (map (\<lambda>(p, ge). JObj [(''prefix'', JStr p), (''ge'', JNum ge)]) prefixes)))])"

definition listPeers :: http_call where
  "listPeers = http ''GET'' ''/peers'' None"

definition listGrePeers :: http_call where
  "listGrePeers = http ''GET'' ''/gre/peers'' None"

definition getPeerStats :: http_call where
  "getPeerStats = http ''GET'' ''/stats/peers'' None"

definition pingPeer :: "ip4 \<Rightarrow> int option \<Rightarrow> http_call" where
  "pingPeer ip cnt = http ''POST'' ''/ping'' (fields [(''ip'', Some (JStr ip)), (''count'', map_option JNum cnt)])"

definition health :: http_call where
  "health = http ''GET'' ''/health'' None"

definition getRoutingStatus :: http_call where
  "getRoutingStatus = http ''GET'' ''/routing/status'' None"

definition getPeer :: "string \<Rightarrow> http_call" where
  "getPeer publicKey = http ''GET'' (''/peers/'' @ encodeURIComponent publicKey) None"

definition getGrePeer :: "string \<Rightarrow> http_call" where
  "getGrePeer peerId = http ''GET'' (''/gre/peers/'' @ encodeURIComponent peerId) None"

definition issueOvpnClientCert :: "string \<Rightarrow> http_call" where
  "issueOvpnClientCert cn = http ''POST'' (''/ovpn/clients/'' @ encodeURIComponent cn @ ''/cert'') None"

definition suspendPeer :: "string \<Rightarrow> http_call" where
  "suspendPeer publicKey = http ''POST'' (''/peers/'' @ encodeURIComponent publicKey @ ''/suspend'') None"

definition resumePeer :: "string \<Rightarrow> http_call" where
  "resumePeer publicKey = http ''POST'' (''/peers/'' @ encodeURIComponent publicKey @ ''/resume'') None"

text \<open>The client method each call of the model goes through.\<close>

fun wire :: "gw_call \<Rightarrow> http_call" where
  "wire (CreatePeer gid pid pk ip xs sp) = createPeer pid pk ip xs sp"
| "wire (UpdatePeerIps gid pk ip xs sp) = updatePeerIps pk ip xs sp"
| "wire (DeletePeer gid pk) = deletePeer pk"
| "wire (CreateGrePeer gid pid r l e1 e2 xs sp) = createGrePeer pid r l e1 e2 xs sp"
| "wire (PatchGrePeer gid pid r xs sp) = patchGrePeer pid r xs sp"
| "wire (DeleteGrePeer gid pid) = deleteGrePeer pid"
| "wire (SetBlackhole gid c add) = setBlackhole c add"
| "wire (SyncFrrPrefixList gid es) = syncFrrPrefixList ''VPN-POOLS'' es"

section \<open>Answers\<close>

datatype http_outcome = HttpFailure string | HttpResponse nat "json option"

datatype client_error = NetworkError string | GatewayClientError nat string string

definition text_field :: "json option \<Rightarrow> string \<Rightarrow> string option" where
  "text_field j k = (case j of Some (JObj fs) \<Rightarrow> (case map_of (rev fs) k of Some (JStr s) \<Rightarrow> Some s | _ \<Rightarrow> None) | _ \<Rightarrow> None)"

definition settle :: "http_outcome \<Rightarrow> client_error + json option" where
  "settle out = (case out of
       HttpFailure msg \<Rightarrow> Inl (NetworkError msg)
     | HttpResponse st j \<Rightarrow>
         if st = 204 then Inr None
         else if 200 \<le> st \<and> st < 300 then Inr j
         else Inl (GatewayClientError st (case text_field j ''code'' of None \<Rightarrow> ''AGENT_ERROR'' | Some c \<Rightarrow> c)
           (case text_field j ''message'' of None \<Rightarrow> ''agent returned '' @ show_nat st | Some m \<Rightarrow> m)))"

text \<open>The address of a request: the path of the base without a slash at its end, then the path of the call.\<close>

definition request_path :: "string \<Rightarrow> http_call \<Rightarrow> string" where
  "request_path base h = (if base \<noteq> [] \<and> last base = CHR ''/'' then butlast base else base) @ hc_path h"

definition request_headers :: "string \<Rightarrow> http_call \<Rightarrow> string option \<Rightarrow> (string \<times> string) list" where
  "request_headers token h idem = [(''Authorization'', ''Bearer '' @ token), (''Accept'', ''application/json'')] @
     (if hc_body h \<noteq> None then [(''Content-Type'', ''application/json'')] else []) @
     (case idem of Some (c # cs) \<Rightarrow> [(''Idempotency-Key'', c # cs)] | _ \<Rightarrow> [])"

fun error_message :: "client_error \<Rightarrow> string" where
  "error_message (NetworkError m) = m"
| "error_message (GatewayClientError st code m) = m"

definition agent_over :: "(uuid \<Rightarrow> http_call \<Rightarrow> http_outcome) \<Rightarrow> agent" where
  "agent_over serve c = (case settle (serve (gc_gateway c) (wire c)) of Inr _ \<Rightarrow> None | Inl e \<Rightarrow> Some (JsError (error_message e)))"

section \<open>Reading a request back\<close>

lemma hex_val_digit: "n < 16 \<Longrightarrow> hex_val (hex_digit n) = Some n"
proof -
  assume "n < 16"
  then have "n \<in> set [0 ..< 16]" by simp
  moreover have "\<forall>n \<in> set [0 ..< 16]. hex_val (hex_digit n) = Some n" by code_simp
  ultimately show ?thesis by blast
qed

lemma unreserved_not: "uri_unreserved c \<Longrightarrow> c \<noteq> CHR ''%'' \<and> c \<noteq> CHR ''/''"
proof -
  have "\<not> uri_unreserved CHR ''%''" "\<not> uri_unreserved CHR ''/''" by code_simp+
  then show "uri_unreserved c \<Longrightarrow> ?thesis" by blast
qed

lemma percent_encode_char: "percent (encode_char c @ rest) = map_option ((#) c) (percent rest)"
proof (cases "uri_unreserved c")
  case True
  then show ?thesis using unreserved_not [OF True] by (simp add: encode_char_def)
next
  case False
  have n: "(of_char c :: nat) < 256" by (rule nat_of_char_less_256)
  then have "of_char c div 16 < (16 :: nat)" "of_char c mod 16 < (16 :: nat)" by (simp_all add: less_mult_imp_div_less)
  note h = hex_val_digit [OF this(1)] hex_val_digit [OF this(2)]
  have "16 * (of_char c div 16) + of_char c mod 16 = (of_char c :: nat)" by simp
  then show ?thesis using False h by (simp add: encode_char_def)
qed

lemma percent_encode [simp]: "percent (encodeURIComponent s) = Some s"
  by (induction s) (simp_all add: encodeURIComponent_def percent_encode_char)

lemma hex_digit_no_slash: "n < 16 \<Longrightarrow> hex_digit n \<noteq> CHR ''/''"
  using hex_val_digit [of n] by (auto simp: hex_val_def)

lemma encode_no_slash: "CHR ''/'' \<notin> set (encodeURIComponent s)"
proof -
  have "CHR ''/'' \<notin> set (encode_char c)" for c
  proof (cases "uri_unreserved c")
    case True
    then show ?thesis using unreserved_not [OF True] by (auto simp: encode_char_def)
  next
    case False
    have "(of_char c :: nat) < 256" by (rule nat_of_char_less_256)
    then have "of_char c div 16 < (16 :: nat)" "of_char c mod 16 < (16 :: nat)" by (simp_all add: less_mult_imp_div_less)
    then show ?thesis using False hex_digit_no_slash [symmetric] by (simp add: encode_char_def)
  qed
  then show ?thesis by (simp add: encodeURIComponent_def)
qed

definition segments :: "http_call \<Rightarrow> string list option" where
  "segments h = those (map percent (split_on CHR ''/'' (hc_path h)))"

definition body_field :: "http_call \<Rightarrow> string \<Rightarrow> json option" where
  "body_field h k = (case hc_body h of Some (JObj fs) \<Rightarrow> map_of fs k | _ \<Rightarrow> None)"

fun as_text :: "json option \<Rightarrow> string option" where
  "as_text (Some (JStr s)) = Some s"
| "as_text _ = None"

fun as_int :: "json option \<Rightarrow> int option" where
  "as_int (Some (JNum n)) = Some n"
| "as_int _ = None"

fun as_texts :: "json option \<Rightarrow> string list option" where
  "as_texts (Some (JArr js)) = those (map (\<lambda>j. as_text (Some j)) js)"
| "as_texts _ = None"

fun as_entry :: "json \<Rightarrow> (cidr \<times> int) option" where
  "as_entry (JObj fs) = (case (as_text (map_of fs ''prefix''), as_int (map_of fs ''ge'')) of (Some p, Some n) \<Rightarrow> Some (p, n) | _ \<Rightarrow> None)"
| "as_entry _ = None"

fun as_entries :: "json option \<Rightarrow> (cidr \<times> int) list option" where
  "as_entries (Some (JArr js)) = those (map as_entry js)"
| "as_entries _ = None"

text \<open>What an agent that decodes the segments of the path sees.\<close>

definition unwire :: "uuid \<Rightarrow> http_call \<Rightarrow> gw_call option" where
  "unwire gid h =
     (let m = hc_method h; txt = \<lambda>k. as_text (body_field h k); req = \<lambda>k. the (txt k); lst = \<lambda>k. as_texts (body_field h k); num = \<lambda>k. as_int (body_field h k)
      in case segments h of
        Some [_, a] \<Rightarrow> if a = ''peers'' \<and> m = ''POST''
            then Some (CreatePeer gid (req ''peerId'') (txt ''publicKey'') (req ''privateIp'') (the (lst ''publicIps'')) (the (num ''speedLimitKbit'')))
            else None
      | Some [_, a, b] \<Rightarrow>
          if a = ''peers'' \<and> m = ''PATCH'' then Some (UpdatePeerIps gid (Some b) (req ''privateIp'') (the (lst ''publicIps'')) (num ''speedLimitKbit''))
          else if a = ''peers'' \<and> m = ''DELETE'' then Some (DeletePeer gid (Some b))
          else if a = ''gre'' \<and> b = ''peers'' \<and> m = ''POST''
          then Some (CreateGrePeer gid (req ''peerId'') (txt ''remoteIp'') (txt ''localIp'') (req ''tunnelLocalIp'') (req ''tunnelRemoteIp'')
            (the (lst ''publicIps'')) (the (num ''speedLimitKbit'')))
          else if a = ''routes'' \<and> b = ''blackhole'' then Some (SetBlackhole gid (req ''cidr'') (m = ''POST''))
          else None
      | Some [_, a, b, c] \<Rightarrow>
          if a = ''gre'' \<and> b = ''peers'' \<and> m = ''PATCH'' then Some (PatchGrePeer gid c (txt ''remoteIp'') (lst ''publicIps'') (num ''speedLimitKbit''))
          else if a = ''gre'' \<and> b = ''peers'' \<and> m = ''DELETE'' then Some (DeleteGrePeer gid c)
          else if a = ''frr'' \<and> b = ''prefix-list'' \<and> c = ''sync'' \<and> m = ''POST'' then map_option (SyncFrrPrefixList gid) (as_entries (body_field h ''prefixes''))
          else None
      | _ \<Rightarrow> None)"

text \<open>A call that names its peer by a key has the key.\<close>

fun keyed :: "gw_call \<Rightarrow> bool" where
  "keyed (UpdatePeerIps gid pk ip xs sp) \<longleftrightarrow> pk \<noteq> None"
| "keyed (DeletePeer gid pk) \<longleftrightarrow> pk \<noteq> None"
| "keyed _ \<longleftrightarrow> True"

lemma those_map_inverse: "(\<And>x. f (g x) = Some x) \<Longrightarrow> those (map (f \<circ> g) xs) = Some xs"
  by (induction xs) simp_all

lemma as_texts_strings [simp]: "as_texts (Some (strings xs)) = Some xs"
proof -
  have "those (map ((\<lambda>j. as_text (Some j)) \<circ> JStr) xs) = Some xs" by (rule those_map_inverse) simp
  then show ?thesis by (simp add: strings_def)
qed

lemma those_entries [simp]: "those (map (as_entry \<circ> (\<lambda>(p, ge). JObj [(''prefix'', JStr p), (''ge'', JNum ge)])) es) = Some es"
  by (rule those_map_inverse) auto

lemma as_text_json_opt [simp]: "as_text (Some (json_opt x)) = x"
  by (cases x) simp_all

lemma segments_fixed:
  "segments (http m ''/peers'' b) = Some [[], ''peers'']" "segments (http m ''/gre/peers'' b) = Some [[], ''gre'', ''peers'']"
  "segments (http m ''/routes/blackhole'' b) = Some [[], ''routes'', ''blackhole'']"
  "segments (http m ''/frr/prefix-list/sync'' b) = Some [[], ''frr'', ''prefix-list'', ''sync'']"
  unfolding segments_def http_def by simp_all

lemma segments_key:
  "segments (http m (''/peers/'' @ encodeURIComponent k) b) = Some [[], ''peers'', k]"
  "segments (http m (''/gre/peers/'' @ encodeURIComponent k) b) = Some [[], ''gre'', ''peers'', k]"
  using split_on_no_sep [OF encode_no_slash [of k]] unfolding segments_def http_def by simp_all

lemma map_of_defined:
  "distinct (map fst fs) \<Longrightarrow> map_of (List.map_filter (\<lambda>(k, v). map_option (\<lambda>j. (k, j)) v) fs) k = (case map_of fs k of None \<Rightarrow> None | Some v \<Rightarrow> v)"
proof (induction fs)
  case (Cons f fs)
  obtain k' v where f: "f = (k', v)" by (cases f)
  with Cons have "k' \<notin> fst ` set fs" by simp
  then have "map_of fs k' = None" by (simp add: map_of_eq_None_iff)
  with Cons f show ?case by (cases v) (auto simp: List.map_filter_simps)
qed (simp add: List.map_filter_simps)

lemma body_field_fields:
  "distinct (map fst fs) \<Longrightarrow> body_field (http m p (fields fs)) k = (case map_of fs k of None \<Rightarrow> None | Some v \<Rightarrow> v)"
  by (simp add: body_field_def http_def fields_def map_of_defined)

lemma hc_method_http: "hc_method (http m p b) = m"
  by (simp add: http_def)

lemma as_text_opt [simp]: "as_text (map_option JStr x) = x"
  by (cases x) simp_all

lemma as_int_opt [simp]: "as_int (map_option JNum n) = n"
  by (cases n) simp_all

lemma as_texts_opt [simp]: "as_texts (map_option strings l) = l"
  by (cases l) simp_all

lemmas wire_defs = createPeer_def updatePeerIps_def deletePeer_def createGrePeer_def patchGrePeer_def deleteGrePeer_def
  setBlackhole_def syncFrrPrefixList_def key_segment_def

text \<open>
  What the client sends is what was meant: an agent that splits the path at its slashes, decodes each
  segment and reads the fields of the body recovers every call that names its peer, whatever characters
  the public key (whose base64 text may hold slashes and plus signs) is made of. So two different calls
  never make the same request.
\<close>

theorem wire_roundtrip:
  assumes "keyed c"
  shows "unwire (gc_gateway c) (wire c) = Some c"
  using assms
  by (cases c) (auto simp: unwire_def Let_def wire_defs segments_fixed segments_key [unfolded append.simps] hc_method_http body_field_fields)

theorem wire_roundtrip_witness:
  "unwire ''g1'' (wire (DeletePeer ''g1'' (Some ''a/b+c=''))) = Some (DeletePeer ''g1'' (Some ''a/b+c=''))"
  using wire_roundtrip [of "DeletePeer ''g1'' (Some ''a/b+c='')"] by simp

text \<open>The agent answers with success exactly when the status is one of the two hundreds; a 4xx or 5xx is an error.\<close>

lemma agent_over_ok: "agent_over serve c = None \<longleftrightarrow> (\<exists>st j. serve (gc_gateway c) (wire c) = HttpResponse st j \<and> 200 \<le> st \<and> st < 300)"
  by (auto simp: agent_over_def settle_def split: sum.splits http_outcome.splits if_splits)

end
