(* ===== verification/Inbox.thy ===== *)
theory Inbox
  imports Demo Codes
begin

text \<open>
  The notifications of a customer, \<^verbatim>\<open>apps/api/src/notifications/notifications.controller.ts\<close>. The rows of
  \<^verbatim>\<open>notifications\<close> are only ever appended; their ids, by position, are the parameter \<open>g\<close>, and the column
  \<^verbatim>\<open>read_at\<close> is kept beside the rows, by id.
\<close>

section \<open>Requests\<close>

type_synonym read_marks = "uuid \<Rightarrow> ms option"

definition own_rows :: "uuid \<Rightarrow> db \<Rightarrow> nat list" where
  "own_rows userId s = filter (\<lambda>k. n_user_id (notifs s ! k) = userId) [0 ..< length (notifs s)]"

definition unread_rows :: "uuid_gen \<Rightarrow> uuid \<Rightarrow> db \<Rightarrow> read_marks \<Rightarrow> nat list" where
  "unread_rows g userId s r = filter (\<lambda>k. r (g k) = None) (own_rows userId s)"

definition list_notifications :: "uuid_gen \<Rightarrow> uuid \<Rightarrow> string option \<Rightarrow> int option \<Rightarrow> db \<Rightarrow> read_marks \<Rightarrow> (uuid \<times> notification \<times> ms option) list" where
  "list_notifications g userId unreadOnly limit s r =
     (let lim = min (max (case limit of None \<Rightarrow> 30 | Some l \<Rightarrow> l) 1) 100;
          onlyUnread = (unreadOnly = Some ''1'' \<or> unreadOnly = Some ''true'')
      in map (\<lambda>k. (g k, notifs s ! k, r (g k)))
           (take (nat lim) (rev (if onlyUnread then unread_rows g userId s r else own_rows userId s))))"

definition unreadCount :: "uuid_gen \<Rightarrow> uuid \<Rightarrow> db \<Rightarrow> read_marks \<Rightarrow> nat" where
  "unreadCount g userId s r = length (unread_rows g userId s r)"

text \<open>An empty list of ids is treated like none.\<close>

definition markRead :: "uuid_gen \<Rightarrow> ms \<Rightarrow> uuid \<Rightarrow> uuid list option \<Rightarrow> db \<Rightarrow> read_marks \<Rightarrow> read_marks" where
  "markRead g now userId ids s r =
     (let sel = (case ids of Some (x # xs) \<Rightarrow> filter (\<lambda>k. g k \<in> set (x # xs)) (unread_rows g userId s r)
                 | _ \<Rightarrow> unread_rows g userId s r)
      in (\<lambda>i. if i \<in> set (map g sel) then Some now else r i))"

section \<open>What marking does\<close>

lemma own_rows_iff: "k \<in> set (own_rows u s) \<longleftrightarrow> k < length (notifs s) \<and> n_user_id (notifs s ! k) = u"
  by (auto simp: own_rows_def)

lemma markRead_at:
  assumes "inj g"
  shows "markRead g now u ids s r (g k) =
    (if k \<in> set (unread_rows g u s r) \<and> (case ids of Some (x # xs) \<Rightarrow> g k \<in> set (x # xs) | _ \<Rightarrow> True) then Some now else r (g k))"
  using assms by (auto simp: markRead_def Let_def inj_image_mem_iff dest: injD split: option.splits list.splits)

text \<open>
  Marking read touches unread notifications of the caller only, keeps the time of those that were read
  before, and leaves exactly the unread ones that were not named; without names, or with an empty list of
  names, nothing is left unread.
\<close>

theorem markRead_correct:
  assumes g: "inj g"
  shows "(\<forall>k < length (notifs s). n_user_id (notifs s ! k) \<noteq> u \<longrightarrow> markRead g now u ids s r (g k) = r (g k)) \<and>
    (\<forall>k t. r (g k) = Some t \<longrightarrow> markRead g now u ids s r (g k) = Some t) \<and>
    unread_rows g u s (markRead g now u (Some (x # xs)) s r) = filter (\<lambda>k. g k \<notin> set (x # xs)) (unread_rows g u s r) \<and>
    unreadCount g u s (markRead g now u None s r) = 0 \<and>
    markRead g now u (Some []) s r = markRead g now u None s r"
  using markRead_at [OF g]
  by (auto simp: unreadCount_def unread_rows_def own_rows_iff filter_empty_conv intro!: filter_cong) (simp add: markRead_def)

theorem markRead_correct_witness:
  "unreadCount demo_gen ''u1'' demo_db (markRead demo_gen T0 ''u1'' None demo_db (\<lambda>_. None)) = 0"
  using markRead_correct [OF demo_gen_inj] by blast

end
